(* ===== verification/Kairo_Prelude.thy ===== *)
theory Kairo_Prelude
  imports Main "HOL-Library.Word" "HOL-Library.Finite_Map" "HOL-Library.Char_ord"
    "HOL-Library.List_Lexorder"
begin

text \<open>
  Shared vocabulary of the development: fixed-width integers, Rust's \<open>Result\<close> type, ordered
  maps with their in-order iteration (\<open>BTreeMap\<close>), hash iteration orders, and the decimal
  printing and parsing of unsigned integers that the sources use through \<open>format!\<close> and
  \<open>str::parse\<close>.

  Strings are byte lists with the lexicographic order, which is the order Rust's
  \<open>String\<close> has. A \<open>BTreeMap\<close> is a finite map whose iteration order is the key order; a
  \<open>HashMap\<close> or \<open>HashSet\<close> is a finite map or set whose iteration order is an argument of the
  functions where that order can be observed.
\<close>

section \<open>Integers and results\<close>

type_synonym u16 = "16 word"
type_synonym u32 = "32 word"
type_synonym u64 = "64 word"
type_synonym u128 = "128 word"

type_synonym ('e, 'a) result = "'e + 'a"

abbreviation Err :: "'e \<Rightarrow> ('e, 'a) result" where "Err \<equiv> Inl"
abbreviation Ok :: "'a \<Rightarrow> ('e, 'a) result" where "Ok \<equiv> Inr"

abbreviation unwrap_or :: "'a option \<Rightarrow> 'a \<Rightarrow> 'a" where
  "unwrap_or x d \<equiv> case_option d (\<lambda>v. v) x"

definition checked_add :: "'n::len word \<Rightarrow> 'n word \<Rightarrow> 'n word option" where
  "checked_add a b = (if unat a + unat b < 2 ^ LENGTH('n) then Some (a + b) else None)"

definition saturating_add :: "'n::len word \<Rightarrow> 'n word \<Rightarrow> 'n word" where
  "saturating_add a b = (if unat a + unat b < 2 ^ LENGTH('n) then a + b else - 1)"

definition saturating_sub :: "'n::len word \<Rightarrow> 'n word \<Rightarrow> 'n word" where
  "saturating_sub a b = (if b \<le> a then a - b else 0)"

text \<open>\<open>Iterator::try_fold\<close> over an option: the fold stops at the first \<open>None\<close>.\<close>

fun try_fold :: "('a \<Rightarrow> 'b \<Rightarrow> 'a option) \<Rightarrow> 'a \<Rightarrow> 'b list \<Rightarrow> 'a option" where
  "try_fold f acc [] = Some acc"
| "try_fold f acc (x # xs) = (case f acc x of None \<Rightarrow> None | Some acc' \<Rightarrow> try_fold f acc' xs)"

text \<open>The \<open>?\<close> operator and \<open>ok_or\<close>.\<close>

definition bind_result :: "('e, 'a) result \<Rightarrow> ('a \<Rightarrow> ('e, 'b) result) \<Rightarrow> ('e, 'b) result" where
  "bind_result r f = (case r of Inl e \<Rightarrow> Inl e | Inr a \<Rightarrow> f a)"

text \<open>\<open>iter().map(f).collect::<Result<_, _>>()\<close>: the first error stops the collection.\<close>

primrec collect_results :: "('a \<Rightarrow> ('e, 'b) result) \<Rightarrow> 'a list \<Rightarrow> ('e, 'b list) result" where
  "collect_results f [] = Inr []"
| "collect_results f (x # xs) =
     (case f x of Inl e \<Rightarrow> Inl e
      | Inr y \<Rightarrow> (case collect_results f xs of Inl e \<Rightarrow> Inl e | Inr ys \<Rightarrow> Inr (y # ys)))"

definition ok_or :: "'a option \<Rightarrow> 'e \<Rightarrow> ('e, 'a) result" where
  "ok_or x e = (case x of None \<Rightarrow> Inl e | Some a \<Rightarrow> Inr a)"

section \<open>Ordered maps\<close>

definition bt_keys :: "('k::linorder, 'v) fmap \<Rightarrow> 'k list" where
  "bt_keys m = sorted_list_of_fset (fmdom m)"

definition bt_entries :: "('k::linorder, 'v) fmap \<Rightarrow> ('k \<times> 'v) list" where
  "bt_entries m = map (\<lambda>k. (k, the (fmlookup m k))) (bt_keys m)"

definition bt_values :: "('k::linorder, 'v) fmap \<Rightarrow> 'v list" where
  "bt_values m = map snd (bt_entries m)"

definition bt_is_empty :: "('k, 'v) fmap \<Rightarrow> bool" where
  "bt_is_empty m \<longleftrightarrow> fmdom m = {||}"

definition bt_collect :: "('k \<times> 'v) list \<Rightarrow> ('k, 'v) fmap" where
  "bt_collect xs = fold (\<lambda>(k, v) m. fmupd k v m) xs fmempty"

text \<open>
  The loop that the vector clock, the grow-only counter and the version vector share: start from
  a copy of the other map and raise every entry this map holds at a greater value.
\<close>

definition merge_max :: "('k::linorder, 'v::{linorder,zero}) fmap \<Rightarrow> ('k, 'v) fmap \<Rightarrow> ('k, 'v) fmap" where
  "merge_max this other =
     fold (\<lambda>(k, v) acc. if v > unwrap_or (fmlookup acc k) 0 then fmupd k v acc else acc)
       (bt_entries this) other"

text \<open>\<open>Iterator::position\<close>.\<close>

fun position :: "('a \<Rightarrow> bool) \<Rightarrow> 'a list \<Rightarrow> nat option" where
  "position P [] = None"
| "position P (x # xs) = (if P x then Some 0 else map_option Suc (position P xs))"

text \<open>\<open>Iterator::max\<close> and \<open>Iterator::min_by_key\<close>, which keeps the first of equal minima.\<close>

fun iter_max :: "'a::linorder list \<Rightarrow> 'a option" where
  "iter_max [] = None"
| "iter_max (x # xs) = Some (fold max xs x)"

fun min_by_key :: "('a \<Rightarrow> 'k::linorder) \<Rightarrow> 'a list \<Rightarrow> 'a option" where
  "min_by_key f [] = None"
| "min_by_key f (x # xs) = Some (fold (\<lambda>y best. if f y < f best then y else best) xs x)"

section \<open>Hash iteration\<close>

text \<open>
  The iteration order of a hash set \<open>A\<close> is \<open>h A\<close> for some \<open>h\<close> that lists each element once.
  Nothing else is documented about that order.
\<close>

type_synonym 'a hash_iter = "'a fset \<Rightarrow> 'a list"

definition hash_iter_law :: "'a hash_iter \<Rightarrow> bool" where
  "hash_iter_law h \<longleftrightarrow> (\<forall>A. distinct (h A) \<and> set (h A) = fset A)"

lemma hash_iterD: "hash_iter_law h \<Longrightarrow> distinct (h A)" "hash_iter_law h \<Longrightarrow> set (h A) = fset A"
  by (simp_all add: hash_iter_law_def)

lemma hash_iter_sorted [simp]: "hash_iter_law sorted_list_of_fset"
  by (simp add: hash_iter_law_def sorted_list_of_fset.rep_eq)

section \<open>Decimal printing and parsing\<close>

definition digit_char :: "nat \<Rightarrow> char" where
  "digit_char d = char_of (48 + d)"

fun show_nat :: "nat \<Rightarrow> string" where
  "show_nat n = (if n < 10 then [digit_char n] else show_nat (n div 10) @ [digit_char (n mod 10)])"

declare show_nat.simps [simp del]

definition is_ascii_digit :: "char \<Rightarrow> bool" where
  "is_ascii_digit c \<longleftrightarrow> 48 \<le> (of_char c :: nat) \<and> (of_char c :: nat) \<le> 57"

definition digit_value :: "char \<Rightarrow> nat" where
  "digit_value c = of_char c - 48"

fun digits_value :: "nat \<Rightarrow> string \<Rightarrow> nat option" where
  "digits_value acc [] = Some acc"
| "digits_value acc (c # cs) =
     (if is_ascii_digit c then digits_value (10 * acc + digit_value c) cs else None)"

text \<open>
  \<open>str::parse\<close> for an unsigned type of \<open>w\<close> bits: an optional plus sign, at least one digit, only
  digits, and a value in range.
\<close>

definition parse_unsigned :: "nat \<Rightarrow> string \<Rightarrow> nat option" where
  "parse_unsigned w s =
     (let ds = (case s of CHR ''+'' # t \<Rightarrow> t | _ \<Rightarrow> s)
      in if ds = [] then None
         else (case digits_value 0 ds of
                 Some n \<Rightarrow> if n < 2 ^ w then Some n else None
               | None \<Rightarrow> None))"

section \<open>Lemmas on ordered maps\<close>

named_theorems bt_simps \<open>lookups and iteration of ordered maps\<close>

lemma set_bt_keys [simp, bt_simps]: "set (bt_keys m) = fmdom' m"
  by (simp add: bt_keys_def fmdom'_alt_def)

lemma distinct_bt_keys [simp]: "distinct (bt_keys m)"
  by (simp add: bt_keys_def sorted_list_of_fset.rep_eq)

lemma sorted_bt_keys [simp]: "sorted (bt_keys m)"
  by (simp add: bt_keys_def sorted_list_of_fset.rep_eq)

lemma bt_keys_fmempty [simp, bt_simps]: "bt_keys fmempty = []"
  by (simp add: bt_keys_def sorted_list_of_fset.rep_eq)

lemma bt_keys_fmupd [bt_simps]:
  "bt_keys (fmupd k v m) = (if k \<in> set (bt_keys m) then bt_keys m else insort k (bt_keys m))"
  by (simp add: bt_keys_def sorted_list_of_fset.rep_eq fmdom'_alt_def insert_absorb
      del: sorted_list_of_set_insert_remove)

lemma map_fst_bt_entries [simp]: "map fst (bt_entries m) = bt_keys m"
  by (simp add: bt_entries_def comp_def)

lemma mem_bt_entries [simp, bt_simps]: "(k, v) \<in> set (bt_entries m) \<longleftrightarrow> fmlookup m k = Some v"
  by (force simp: bt_entries_def fmlookup_dom'_iff)

lemma map_of_bt_entries [simp]: "map_of (bt_entries m) = fmlookup m"
proof
  fix k
  show "map_of (bt_entries m) k = fmlookup m k"
    by (cases "fmlookup m k")
      (auto simp: map_of_eq_None_iff image_iff dest!: map_of_SomeD
        intro!: map_of_is_SomeI)
qed

lemma bt_is_empty_iff [simp]: "bt_is_empty m \<longleftrightarrow> m = fmempty"
  by (auto simp: bt_is_empty_def intro!: fmap_ext fmdom_notD)

lemma bt_keys_eq_Nil [simp]: "bt_keys m = [] \<longleftrightarrow> m = fmempty"
  by (metis bt_is_empty_def bt_is_empty_iff bt_keys_fmempty fmdom'_alt_def fset_eq_iff
      fset_simps(1) list.set(1) set_bt_keys)

lemma fold_fmupd_lookup:
  "fmlookup (fold (\<lambda>(k, v) m. fmupd k v m) xs m) x =
     (case map_of (rev xs) x of None \<Rightarrow> fmlookup m x | Some v \<Rightarrow> Some v)"
  by (induction xs arbitrary: m) (auto split: option.splits simp: map_add_def)

lemma fmlookup_bt_collect [simp, bt_simps]: "fmlookup (bt_collect xs) = map_of (rev xs)"
  by (rule ext) (auto simp: bt_collect_def fold_fmupd_lookup split: option.splits)

lemma merge_max_step_lookup:
  assumes "distinct (map fst xs)"
  shows "fmlookup (fold (\<lambda>(k, v) acc. if v > unwrap_or (fmlookup acc k) 0 then fmupd k v acc else acc) xs m) x =
     (case map_of xs x of
        None \<Rightarrow> fmlookup m x
      | Some v \<Rightarrow> if v > unwrap_or (fmlookup m x) 0 then Some v else fmlookup m x)"
  using assms
proof (induction xs arbitrary: m)
  case Nil
  then show ?case by simp
next
  case (Cons e xs)
  obtain k v where e: "e = (k, v)" by fastforce
  from Cons.prems e have "map_of xs k = None" and "distinct (map fst xs)"
    by (auto simp: map_of_eq_None_iff)
  with Cons.IH e show ?case
    by (auto split: option.splits)
qed

lemma fold_fmupd_if_lookup:
  assumes "distinct (map fst xs)"
  shows "fmlookup (fold (\<lambda>(k, v) m. if P k v then fmupd k v m else m) xs m) x =
     (case map_of xs x of
        None \<Rightarrow> fmlookup m x
      | Some v \<Rightarrow> if P x v then Some v else fmlookup m x)"
  using assms
proof (induction xs arbitrary: m)
  case Nil
  then show ?case by simp
next
  case (Cons e xs)
  obtain k v where e: "e = (k, v)" by fastforce
  from Cons.prems e have "map_of xs k = None" and "distinct (map fst xs)"
    by (auto simp: map_of_eq_None_iff)
  with Cons.IH e show ?case
    by (auto split: option.splits)
qed

lemma fold_merge_lookup:
  assumes "distinct (map fst xs)"
  shows "fmlookup (fold (\<lambda>(k, v) m. fmupd k (case fmlookup m k of Some w \<Rightarrow> f v w | None \<Rightarrow> v) m) xs m) x =
     (case map_of xs x of
        None \<Rightarrow> fmlookup m x
      | Some v \<Rightarrow> Some (case fmlookup m x of Some w \<Rightarrow> f v w | None \<Rightarrow> v))"
  using assms
proof (induction xs arbitrary: m)
  case (Cons e xs)
  obtain k v where e: "e = (k, v)" by fastforce
  from Cons.prems e have "map_of xs k = None" and "distinct (map fst xs)"
    by (auto simp: map_of_eq_None_iff)
  with Cons.IH e show ?case
    by (auto split: option.splits)
qed simp

lemma fold_fmdrop_lookup: "fmlookup (fold fmdrop ks m) x = (if x \<in> set ks then None else fmlookup m x)"
  by (induction ks arbitrary: m) auto

lemma mem_map_filter: "y \<in> set (List.map_filter f xs) \<longleftrightarrow> (\<exists>x \<in> set xs. f x = Some y)"
  by (induction xs) (auto simp: map_filter_simps split: option.splits)

lemma mem_map_filter_entries:
  "y \<in> set (List.map_filter (\<lambda>(k, v). f k v) (bt_entries m)) \<longleftrightarrow> (\<exists>k v. fmlookup m k = Some v \<and> f k v = Some y)"
  unfolding mem_map_filter Bex_def split_paired_Ex by simp

lemma map_of_rev_distinct: "distinct (map fst xs) \<Longrightarrow> map_of (rev xs) = map_of xs"
  by (metis map_of_inject_set distinct_rev rev_map set_rev)

lemma map_of_filter_distinct:
  "distinct (map fst xs) \<Longrightarrow>
    map_of (filter (\<lambda>(k, v). P k v) xs) x =
      (case map_of xs x of None \<Rightarrow> None | Some v \<Rightarrow> if P x v then Some v else None)"
  by (induction xs) (auto simp: map_of_eq_None_iff image_iff split: option.splits prod.splits)

lemma fmlookup_collect_filter [bt_simps]:
  "fmlookup (bt_collect (filter (\<lambda>(k, v). P k v) (bt_entries m))) x =
     (case fmlookup m x of None \<Rightarrow> None | Some v \<Rightarrow> if P x v then Some v else None)"
proof -
  have d: "distinct (map fst (filter (\<lambda>(k, v). P k v) (bt_entries m)))"
    by (metis distinct_bt_keys distinct_map_filter map_fst_bt_entries)
  show ?thesis
    by (simp add: map_of_rev_distinct [OF d] map_of_filter_distinct)
qed

lemma bt_entries_fmmap: "bt_entries (fmmap f m) = map (\<lambda>(k, v). (k, f v)) (bt_entries m)"
  unfolding bt_entries_def bt_keys_def by (simp add: option.map_sel fmlookup_dom_iff)

lemma fold_fmupd_key_lookup:
  "fmlookup (fold (\<lambda>k m. if P k then m else fmupd k (f k) m) ks m) x =
     (if x \<in> set ks \<and> \<not> P x then Some (f x) else fmlookup m x)"
  by (induction ks arbitrary: m) auto

lemma fmlookup_merge_max [bt_simps]:
  "fmlookup (merge_max a b) x =
     (case fmlookup a x of
        None \<Rightarrow> fmlookup b x
      | Some v \<Rightarrow> if v > unwrap_or (fmlookup b x) 0 then Some v else fmlookup b x)"
  by (simp add: merge_max_def merge_max_step_lookup del: option.case_eq_if)

lemma bt_values_conv: "bt_values m = map (\<lambda>k. the (fmlookup m k)) (bt_keys m)"
  by (simp add: bt_values_def bt_entries_def)

lemma sum_list_bt_values:
  fixes f :: "'v \<Rightarrow> 'n::comm_monoid_add"
  shows "sum_list (map f (bt_values m)) = (\<Sum>k \<in> fmdom' m. f (the (fmlookup m k)))"
  by (simp add: bt_values_conv comp_def sum_list_distinct_conv_sum_set)

section \<open>Lemmas on results\<close>

lemma bind_result_simps [simp]:
  "bind_result (Inl e) f = Inl e" "bind_result (Inr a) f = f a"
  by (simp_all add: bind_result_def)

lemma collect_results_Ok: "collect_results f xs = Ok ys \<longleftrightarrow> list_all2 (\<lambda>x y. f x = Ok y) xs ys"
proof (induction xs arbitrary: ys)
  case (Cons x xs)
  then show ?case by (auto simp: list_all2_Cons1 simp flip: Cons.IH split: sum.splits)
qed auto

lemma bind_result_eq_Ok [simp]:
  "bind_result r f = Inr b \<longleftrightarrow> (\<exists>a. r = Inr a \<and> f a = Inr b)"
  by (cases r) simp_all

lemma ok_or_simps [simp]:
  "ok_or None e = Inl e" "ok_or (Some a) e = Inr a"
  by (simp_all add: ok_or_def)

lemma ok_or_eq_Ok [simp]: "ok_or x e = Inr a \<longleftrightarrow> x = Some a"
  by (cases x) simp_all

section \<open>Lemmas on machine integers\<close>

lemma checked_add_Some:
  "checked_add a b = Some c \<longleftrightarrow> unat a + unat b < 2 ^ LENGTH('n) \<and> c = a + (b :: 'n::len word)"
  by (auto simp: checked_add_def)

lemma checked_add_None:
  "checked_add a b = None \<longleftrightarrow> 2 ^ LENGTH('n) \<le> unat a + unat (b :: 'n::len word)"
  by (auto simp: checked_add_def)

lemma unat_checked_add:
  "checked_add a b = Some c \<Longrightarrow> unat c = unat a + unat (b :: 'n::len word)"
  by (auto simp: checked_add_Some unat_word_ariths)

lemma unat_saturating_add:
  "unat (saturating_add a b) = min (unat a + unat b) (2 ^ LENGTH('n) - 1)"
  for a b :: "'n::len word"
proof -
  have "unat (- 1 :: 'n word) = 2 ^ LENGTH('n) - 1"
    by (simp add: unsigned_minus_1_eq_mask mask_eq_exp_minus_1)
  moreover have "unat a + unat b < 2 ^ LENGTH('n) \<Longrightarrow> unat (a + b) = unat a + unat b"
    by (simp add: unat_word_ariths)
  ultimately show ?thesis
    by (auto simp: saturating_add_def min_def)
qed

lemma unat_saturating_sub: "unat (saturating_sub a b) = unat a - unat (b :: 'n::len word)"
  by (auto simp: saturating_sub_def unat_sub word_le_nat_alt)

lemma saturating_add_mono: "a \<le> b \<Longrightarrow> saturating_add a c \<le> saturating_add b (c :: 'n::len word)"
  by (simp add: word_le_nat_alt unat_saturating_add)

lemma saturating_add_ge: "a \<le> saturating_add a (c :: 'n::len word)"
proof -
  have "unat a < 2 ^ LENGTH('n)" by simp
  then have "unat a \<le> 2 ^ LENGTH('n) - 1" by linarith
  then show ?thesis by (simp add: word_le_nat_alt unat_saturating_add)
qed

lemma unat_word_Suc: "(a :: 'n::len word) \<noteq> - 1 \<Longrightarrow> unat (a + 1) = Suc (unat a)"
  using unatSuc [of a] max_word_wrap [of a] by (auto simp: add.commute)

lemma word_Suc_greater: "(a :: 'n::len word) \<noteq> - 1 \<Longrightarrow> a < a + 1"
  by (simp add: word_less_nat_alt unat_word_Suc)

lemma word_not_gt_0 [simp]: "\<not> 0 < x \<longleftrightarrow> x = (0 :: 'n::len word)"
  by (simp add: word_gt_0 del: word_neq_0_conv)

lemma try_fold_checked_add:
  "try_fold checked_add acc xs =
     (if unat acc + sum_list (map unat xs) < 2 ^ LENGTH('n) then Some (acc + sum_list xs) else None)"
  for acc :: "'n::len word"
proof (induction xs arbitrary: acc)
  case Nil
  then show ?case by simp
next
  case (Cons x xs)
  then show ?case
    by (auto simp: checked_add_def unat_word_ariths add.assoc)
qed

lemma sum_list_word: "sum_list xs = of_nat (sum_list (map unat xs))"
  for xs :: "'n::len word list"
  by (induction xs) simp_all

section \<open>Lemmas on decimal strings\<close>

lemma of_char_digit_char [simp]: "d < 10 \<Longrightarrow> (of_char (digit_char d) :: nat) = 48 + d"
  by (simp add: digit_char_def)

lemma is_ascii_digit_digit_char [simp]: "d < 10 \<Longrightarrow> is_ascii_digit (digit_char d)"
  by (simp add: is_ascii_digit_def)

lemma digit_value_digit_char [simp]: "d < 10 \<Longrightarrow> digit_value (digit_char d) = d"
  by (simp add: digit_value_def)

lemma digits_value_append:
  "digits_value acc (xs @ ys) = Option.bind (digits_value acc xs) (\<lambda>a. digits_value a ys)"
  by (induction xs arbitrary: acc) auto

lemma position_None: "position P xs = None \<longleftrightarrow> (\<forall>x \<in> set xs. \<not> P x)"
  by (induction xs) auto

lemma iter_max_Some: "iter_max xs = Some m \<Longrightarrow> m \<in> set xs \<and> (\<forall>x \<in> set xs. x \<le> m)"
proof (cases xs)
  case (Cons y ys)
  moreover assume "iter_max xs = Some m"
  ultimately have "m = Max (set xs)" by (simp only: iter_max.simps Max.set_eq_fold option.inject)
  then show ?thesis using Cons Max_in [of "set xs"] Max_ge [of "set xs"] by (simp del: Max_insert)
qed simp

lemma iter_max_None [simp]: "iter_max xs = None \<longleftrightarrow> xs = []"
  by (cases xs) auto

lemma fold_min_by_key:
  fixes f :: "'a \<Rightarrow> 'k::linorder"
  defines "g \<equiv> \<lambda>y best. if f y < f best then y else best"
  shows "fold g xs a \<in> insert a (set xs) \<and> (\<forall>x \<in> insert a (set xs). f (fold g xs a) \<le> f x)"
proof (induction xs arbitrary: a)
  case (Cons y ys)
  have "fold g ys (g y a) \<in> insert (g y a) (set ys)" "\<forall>x \<in> insert (g y a) (set ys). f (fold g ys (g y a)) \<le> f x"
    using Cons by auto
  moreover have "f (g y a) \<le> f y" "f (g y a) \<le> f a" "g y a \<in> {y, a}"
    by (auto simp: g_def)
  ultimately show ?case by auto
qed simp

lemma min_by_key_Some: "min_by_key f xs = Some m \<Longrightarrow> m \<in> set xs \<and> (\<forall>x \<in> set xs. f m \<le> f x)"
  using fold_min_by_key [of f "tl xs" "hd xs"] by (cases xs) auto

lemma min_by_key_None [simp]: "min_by_key f xs = None \<longleftrightarrow> xs = []"
  by (cases xs) auto

lemma show_nat_digits: "c \<in> set (show_nat n) \<Longrightarrow> is_ascii_digit c"
proof (induction n rule: show_nat.induct)
  case (1 n)
  then show ?case
    by (subst (asm) (2) show_nat.simps) (auto split: if_splits)
qed

lemma show_nat_nonempty [simp]: "show_nat n \<noteq> []"
  by (subst show_nat.simps) simp

lemma digits_value_show_nat: "digits_value 0 (show_nat n) = Some n"
proof (induction n rule: show_nat.induct)
  case (1 n)
  show ?case
  proof (cases "n < 10")
    case True
    then show ?thesis by (subst show_nat.simps) simp
  next
    case False
    with "1.IH" show ?thesis by (subst show_nat.simps) (simp add: digits_value_append)
  qed
qed

lemma show_nat_inj [simp]: "show_nat m = show_nat n \<longleftrightarrow> m = n"
  by (metis digits_value_show_nat option.inject)

lemma show_nat_no_plus: "show_nat n \<noteq> CHR ''+'' # t"
  using show_nat_digits [of "CHR ''+''" n] by (auto simp: is_ascii_digit_def)

lemma parse_unsigned_show_nat [simp]: "n < 2 ^ w \<Longrightarrow> parse_unsigned w (show_nat n) = Some n"
proof -
  assume n: "n < 2 ^ w"
  have "(case show_nat n of CHR ''+'' # t \<Rightarrow> t | _ \<Rightarrow> show_nat n) = show_nat n"
    using show_nat_no_plus [of n] by (auto split: list.splits char.splits bool.splits)
  with n show ?thesis
    by (simp add: parse_unsigned_def digits_value_show_nat Let_def)
qed

end
