(* ===== verification/Actor_Path.thy ===== *)
theory Actor_Path
  imports Kairo_Prelude
begin

text \<open>
  \<open>Address\<close> and \<open>ActorPath\<close> of \<open>kairo-actor/src/path.rs\<close>: printing, parsing and name validation. The
  string functions of the standard library that the parser uses (\<open>split_once\<close>, \<open>rsplit_once\<close>,
  \<open>split\<close>) come first. The lemmas show that parsing inverts printing on well-formed addresses and
  segments, hence that the printed form identifies them, and that validated names are well-formed.
\<close>

section \<open>String functions\<close>

fun split_once :: "string \<Rightarrow> string \<Rightarrow> (string \<times> string) option" where
  "split_once pat [] = (if pat = [] then Some ([], []) else None)"
| "split_once pat (c # cs) =
     (if take (length pat) (c # cs) = pat then Some ([], drop (length pat) (c # cs))
      else (case split_once pat cs of None \<Rightarrow> None | Some (a, b) \<Rightarrow> Some (c # a, b)))"

definition rsplit_once :: "char \<Rightarrow> string \<Rightarrow> (string \<times> string) option" where
  "rsplit_once d s = (case split_once [d] (rev s) of None \<Rightarrow> None | Some (a, b) \<Rightarrow> Some (rev b, rev a))"

fun split_char :: "char \<Rightarrow> string \<Rightarrow> string list" where
  "split_char d [] = [[]]"
| "split_char d (c # cs) =
     (if c = d then [] # split_char d cs
      else (case split_char d cs of s # ss \<Rightarrow> (c # s) # ss | [] \<Rightarrow> [[c]]))"

section \<open>Addresses\<close>

record address =
  ad_protocol :: string
  ad_system :: string
  ad_host :: "string option"
  ad_port :: "u16 option"

definition address_local :: "string \<Rightarrow> address" where
  "address_local system = \<lparr>ad_protocol = ''kairo'', ad_system = system, ad_host = None, ad_port = None\<rparr>"

definition show_address :: "address \<Rightarrow> string" where
  "show_address a = ad_protocol a @ ''://'' @ ad_system a @
     (case ad_host a of
        None \<Rightarrow> []
      | Some host \<Rightarrow> ''@'' @ host @ (case ad_port a of None \<Rightarrow> [] | Some port \<Rightarrow> '':'' @ show_nat (unat port)))"

section \<open>Paths\<close>

record path_segment =
  ps_name :: string
  ps_uid :: "u64 option"

record actor_path =
  ap_value :: string
  ap_address :: address
  ap_segments :: "path_segment list"

definition show_segment :: "path_segment \<Rightarrow> string" where
  "show_segment seg = ps_name seg @ (case ps_uid seg of None \<Rightarrow> [] | Some uid \<Rightarrow> ''#'' @ show_nat (unat uid))"

definition ap_from_parts :: "address \<Rightarrow> path_segment list \<Rightarrow> actor_path" where
  "ap_from_parts a segs =
     \<lparr>ap_value = fold (\<lambda>seg value. value @ ''/'' @ show_segment seg) segs (show_address a),
      ap_address = a, ap_segments = segs\<rparr>"

definition parse_authority :: "string \<Rightarrow> string \<times> string option \<times> u16 option" where
  "parse_authority authority =
     (case split_once ''@'' authority of
        None \<Rightarrow> (authority, None, None)
      | Some (system, host_port) \<Rightarrow>
          let (host, port) = (case rsplit_once (CHR '':'') host_port of
                Some (host, port) \<Rightarrow> (host, map_option of_nat (parse_unsigned 16 port))
              | None \<Rightarrow> (host_port, None))
          in (system, Some host, port))"

definition parse_segment :: "string \<Rightarrow> path_segment" where
  "parse_segment segment =
     (case rsplit_once (CHR ''#'') segment of
        None \<Rightarrow> \<lparr>ps_name = segment, ps_uid = None\<rparr>
      | Some (name, uid) \<Rightarrow> \<lparr>ps_name = name, ps_uid = map_option of_nat (parse_unsigned 64 uid)\<rparr>)"

definition parse_path :: "string \<Rightarrow> (address \<times> path_segment list) option" where
  "parse_path value =
     (case split_once ''://'' value of
        None \<Rightarrow> None
      | Some (protocol, rest) \<Rightarrow>
          let (authority, path) = unwrap_or (split_once ''/'' rest) (rest, []);
              (system, host, port) = parse_authority authority
          in Some (\<lparr>ad_protocol = protocol, ad_system = system, ad_host = host, ad_port = port\<rparr>,
               map parse_segment (filter (\<lambda>seg. seg \<noteq> []) (split_char (CHR ''/'') path))))"

definition ap_new :: "string \<Rightarrow> actor_path" where
  "ap_new value =
     (let (a, segs) = unwrap_or (parse_path value) (address_local ''unknown'', [])
      in \<lparr>ap_value = value, ap_address = a, ap_segments = segs\<rparr>)"

definition ap_name :: "actor_path \<Rightarrow> string option" where
  "ap_name p = (if ap_segments p = [] then None else Some (ps_name (last (ap_segments p))))"

definition ap_uid :: "actor_path \<Rightarrow> u64 option" where
  "ap_uid p = (if ap_segments p = [] then None else ps_uid (last (ap_segments p)))"

definition ap_parent :: "actor_path \<Rightarrow> actor_path option" where
  "ap_parent p =
     (if ap_segments p = [] then None else Some (ap_from_parts (ap_address p) (butlast (ap_segments p))))"

definition ap_root :: "address \<Rightarrow> string \<Rightarrow> actor_path" where
  "ap_root a name = ap_from_parts a [\<lparr>ps_name = name, ps_uid = None\<rparr>]"

definition ap_child :: "actor_path \<Rightarrow> string \<Rightarrow> u64 option \<Rightarrow> actor_path" where
  "ap_child p name uid = ap_from_parts (ap_address p) (ap_segments p @ [\<lparr>ps_name = name, ps_uid = uid\<rparr>])"

section \<open>Name validation\<close>

definition is_ascii_alphanumeric :: "char \<Rightarrow> bool" where
  "is_ascii_alphanumeric c \<longleftrightarrow>
     (let n = of_char c :: nat in 48 \<le> n \<and> n \<le> 57 \<or> 65 \<le> n \<and> n \<le> 90 \<or> 97 \<le> n \<and> n \<le> 122)"

definition is_ascii_hexdigit :: "char \<Rightarrow> bool" where
  "is_ascii_hexdigit c \<longleftrightarrow>
     (let n = of_char c :: nat in 48 \<le> n \<and> n \<le> 57 \<or> 65 \<le> n \<and> n \<le> 70 \<or> 97 \<le> n \<and> n \<le> 102)"

definition is_valid_path_byte :: "char \<Rightarrow> bool" where
  "is_valid_path_byte c \<longleftrightarrow>
     is_ascii_alphanumeric c \<or> c \<in> set (''-_.*$+:@&=,!~'' @ [CHR 0x27] @ '';'')"

fun valid_path_bytes :: "string \<Rightarrow> bool" where
  "valid_path_bytes [] = True"
| "valid_path_bytes (c # cs) =
     (if is_valid_path_byte c then valid_path_bytes cs
      else (case cs of
              h # l # rest \<Rightarrow> c = CHR ''%'' \<and> is_ascii_hexdigit h \<and> is_ascii_hexdigit l \<and> valid_path_bytes rest
            | _ \<Rightarrow> False))"

definition is_valid_path_element :: "string \<Rightarrow> bool \<Rightarrow> bool" where
  "is_valid_path_element name allow_reserved \<longleftrightarrow>
     (case name of
        [] \<Rightarrow> False
      | c # _ \<Rightarrow> if c = CHR ''$'' \<and> \<not> allow_reserved then False else valid_path_bytes name)"

definition is_valid_actor_name :: "string \<Rightarrow> bool" where
  "is_valid_actor_name name = is_valid_path_element name False"

definition is_valid_internal_name :: "string \<Rightarrow> bool" where
  "is_valid_internal_name name = is_valid_path_element name True"

section \<open>Well-formed addresses and segments\<close>

text \<open>What the printed form can carry: separators do not occur where the parser would cut.\<close>

definition wf_address :: "address \<Rightarrow> bool" where
  "wf_address a \<longleftrightarrow> CHR '':'' \<notin> set (ad_protocol a) \<and>
     CHR ''@'' \<notin> set (ad_system a) \<and> CHR ''/'' \<notin> set (ad_system a) \<and>
     (case ad_host a of
        None \<Rightarrow> ad_port a = None
      | Some host \<Rightarrow> CHR ''/'' \<notin> set host \<and> (ad_port a = None \<longrightarrow> CHR '':'' \<notin> set host))"

definition wf_segment :: "path_segment \<Rightarrow> bool" where
  "wf_segment seg \<longleftrightarrow> CHR ''/'' \<notin> set (ps_name seg) \<and>
     (ps_uid seg = None \<longrightarrow> ps_name seg \<noteq> [] \<and> CHR ''#'' \<notin> set (ps_name seg))"

section \<open>Parsing inverts printing\<close>

lemma split_once_char: "d \<notin> set a \<Longrightarrow> split_once [d] (a @ d # b) = Some (a, b)"
  by (induction a) auto

lemma split_once_char_None: "d \<notin> set a \<Longrightarrow> split_once [d] a = None"
  by (induction a) auto

lemma rsplit_once_char: "d \<notin> set b \<Longrightarrow> rsplit_once d (a @ d # b) = Some (a, b)"
  by (simp add: rsplit_once_def split_once_char)

lemma rsplit_once_None: "d \<notin> set a \<Longrightarrow> rsplit_once d a = None"
  by (simp add: rsplit_once_def split_once_char_None)

lemma split_once_scheme: "CHR '':'' \<notin> set p \<Longrightarrow> split_once ''://'' (p @ ''://'' @ r) = Some (p, r)"
  by (induction p) auto

lemma split_char_ne [simp]: "split_char d s \<noteq> []"
  by (induction s) (auto split: list.splits)

lemma split_char_append: "d \<notin> set a \<Longrightarrow> split_char d (a @ d # b) = a # split_char d b"
  by (induction a) (auto split: list.splits)

lemma split_char_single: "d \<notin> set a \<Longrightarrow> split_char d a = [a]"
  by (induction a) (auto split: list.splits)

lemma show_nat_no_sep:
  "CHR ''/'' \<notin> set (show_nat n)" "CHR ''#'' \<notin> set (show_nat n)" "CHR '':'' \<notin> set (show_nat n)"
  "CHR ''-'' \<notin> set (show_nat n)" "CHR ''@'' \<notin> set (show_nat n)"
  using show_nat_digits [of _ n] by (fastforce simp: is_ascii_digit_def)+

lemma of_nat_parse_unat [simp]:
  "map_option of_nat (parse_unsigned 16 (show_nat (unat (p :: u16)))) = Some p"
  "map_option of_nat (parse_unsigned 64 (show_nat (unat (u :: u64)))) = Some u"
  using unsigned_less [of p, where ?'a = nat] unsigned_less [of u, where ?'a = nat] by simp_all

lemma parse_segment_show: "wf_segment seg \<Longrightarrow> parse_segment (show_segment seg) = seg"
  by (cases "ps_uid seg")
    (simp_all add: parse_segment_def show_segment_def wf_segment_def rsplit_once_None rsplit_once_char show_nat_no_sep)

lemma show_segment_wf: "wf_segment seg \<Longrightarrow> show_segment seg \<noteq> [] \<and> CHR ''/'' \<notin> set (show_segment seg)"
  by (auto simp: show_segment_def wf_segment_def show_nat_no_sep split: option.splits)

definition authority_of :: "address \<Rightarrow> string" where
  "authority_of a = ad_system a @
     (case ad_host a of
        None \<Rightarrow> []
      | Some host \<Rightarrow> ''@'' @ host @ (case ad_port a of None \<Rightarrow> [] | Some port \<Rightarrow> '':'' @ show_nat (unat port)))"

lemma parse_authority_of:
  assumes "wf_address a"
  shows "parse_authority (authority_of a) = (ad_system a, ad_host a, ad_port a)"
proof (cases "ad_host a")
  case None
  then show ?thesis
    using assms by (simp add: wf_address_def authority_of_def parse_authority_def split_once_char_None)
next
  case (Some host)
  then show ?thesis
    using assms
    by (cases "ad_port a")
      (simp_all add: wf_address_def authority_of_def parse_authority_def split_once_char rsplit_once_None
        rsplit_once_char show_nat_no_sep Let_def)
qed

lemma authority_no_slash: "wf_address a \<Longrightarrow> CHR ''/'' \<notin> set (authority_of a)"
  by (auto simp: wf_address_def authority_of_def show_nat_no_sep split: option.splits)

lemma fold_segments:
  "fold (\<lambda>seg value. value @ CHR ''/'' # show_segment seg) segs v =
     v @ concat (map (\<lambda>seg. CHR ''/'' # show_segment seg) segs)"
  by (induction segs arbitrary: v) simp_all

lemma split_segments:
  "\<forall>s \<in> set (x # segs). wf_segment s \<Longrightarrow>
     split_char (CHR ''/'') (show_segment x @ concat (map (\<lambda>seg. CHR ''/'' # show_segment seg) segs)) =
       map show_segment (x # segs)"
  by (induction segs arbitrary: x) (simp_all add: split_char_single split_char_append show_segment_wf)

lemma parse_path_show:
  assumes "wf_address a" "\<forall>s \<in> set segs. wf_segment s"
  shows "parse_path (ap_value (ap_from_parts a segs)) = Some (a, segs)"
proof -
  let ?tail = "concat (map (\<lambda>seg. CHR ''/'' # show_segment seg) segs)"
  have v: "ap_value (ap_from_parts a segs) = ad_protocol a @ ''://'' @ authority_of a @ ?tail"
    by (simp add: ap_from_parts_def fold_segments show_address_def authority_of_def)
  have once: "split_once ''://'' (ap_value (ap_from_parts a segs)) = Some (ad_protocol a, authority_of a @ ?tail)"
    unfolding v using assms(1) split_once_scheme [of "ad_protocol a" "authority_of a @ ?tail"]
    by (simp add: wf_address_def)
  have a: "\<lparr>ad_protocol = ad_protocol a, ad_system = ad_system a, ad_host = ad_host a, ad_port = ad_port a\<rparr> = a"
    by simp
  show ?thesis
  proof (cases segs)
    case Nil
    then show ?thesis
      using once assms authority_no_slash [OF assms(1)]
      by (simp add: parse_path_def split_once_char_None parse_authority_of)
  next
    case (Cons x xs)
    let ?p = "show_segment x @ concat (map (\<lambda>seg. CHR ''/'' # show_segment seg) xs)"
    have "split_once ''/'' (authority_of a @ ?tail) = Some (authority_of a, ?p)"
      using authority_no_slash [OF assms(1)] Cons by (simp add: split_once_char)
    moreover have "filter (\<lambda>seg. seg \<noteq> []) (split_char (CHR ''/'') ?p) = map show_segment segs"
      using assms(2) Cons split_segments [of x xs] show_segment_wf by (auto simp: filter_id_conv)
    moreover have "map parse_segment (map show_segment segs) = segs"
      using assms(2) by (simp add: map_idI parse_segment_show)
    ultimately show ?thesis
      using once assms by (simp add: parse_path_def parse_authority_of Cons)
  qed
qed

lemma show_address_inj:
  assumes "wf_address a" "wf_address b" "show_address a = show_address b"
  shows "a = b"
  using parse_path_show [of a "[]"] parse_path_show [of b "[]"] assms
  by (simp add: ap_from_parts_def)

lemma valid_path_bytes_no_sep: "valid_path_bytes s \<Longrightarrow> CHR ''/'' \<notin> set s \<and> CHR ''#'' \<notin> set s"
  by (induction s rule: valid_path_bytes.induct)
    (auto simp: is_valid_path_byte_def is_ascii_alphanumeric_def is_ascii_hexdigit_def Let_def
      split: if_splits list.splits)

lemma wf_segment_valid:
  assumes "is_valid_path_element name r"
  shows "wf_segment \<lparr>ps_name = name, ps_uid = uid\<rparr>"
proof -
  have "name \<noteq> [] \<and> valid_path_bytes name"
    using assms by (cases name) (simp_all add: is_valid_path_element_def del: valid_path_bytes.simps split: if_splits)
  then show ?thesis
    using valid_path_bytes_no_sep [of name] by (simp add: wf_segment_def del: valid_path_bytes.simps)
qed

section \<open>Properties\<close>

text \<open>
  C28: The canonical string of an actor path determines it: parsing the string built from a
  well-formed address and well-formed segments gives back the same path, address and segments; a
  child created under a validated name keeps this and its parent is the path it was created from.
\<close>

theorem actor_path_round_trip:
  assumes "wf_address a" and "\<forall>s \<in> set segs. wf_segment s" and "is_valid_path_element name r"
  shows "ap_new (ap_value (ap_from_parts a segs)) = ap_from_parts a segs \<and>
    ap_new (ap_value (ap_child (ap_from_parts a segs) name uid)) = ap_child (ap_from_parts a segs) name uid \<and>
    ap_parent (ap_child (ap_from_parts a segs) name uid) = Some (ap_from_parts a segs) \<and>
    ap_name (ap_child (ap_from_parts a segs) name uid) = Some name \<and>
    ap_uid (ap_child (ap_from_parts a segs) name uid) = uid"
proof -
  have new: "ap_new (ap_value (ap_from_parts a xs)) = ap_from_parts a xs" if "\<forall>s \<in> set xs. wf_segment s" for xs
    using parse_path_show [OF assms(1) that] by (simp add: ap_new_def ap_from_parts_def)
  have parts [simp]: "ap_segments (ap_from_parts a xs) = xs" "ap_address (ap_from_parts a xs) = a" for xs
    by (simp_all add: ap_from_parts_def)
  show ?thesis
    using new [OF assms(2)] new [of "segs @ [\<lparr>ps_name = name, ps_uid = uid\<rparr>]"] assms(2) wf_segment_valid [OF assms(3)]
    by (simp add: ap_child_def ap_parent_def ap_name_def ap_uid_def)
qed

theorem actor_path_round_trip_witness:
  "let a = \<lparr>ad_protocol = ''kairo'', ad_system = ''sys'', ad_host = Some ''h'', ad_port = Some 80\<rparr>
   in ap_new (ap_value (ap_child (ap_from_parts a [\<lparr>ps_name = ''user'', ps_uid = None\<rparr>]) ''w1'' (Some 7))) =
        ap_child (ap_from_parts a [\<lparr>ps_name = ''user'', ps_uid = None\<rparr>]) ''w1'' (Some 7)"
  unfolding Let_def
  by (rule actor_path_round_trip [where r = False, THEN conjunct2, THEN conjunct1])
    (simp_all add: wf_address_def wf_segment_def is_valid_path_element_def is_valid_path_byte_def
      is_ascii_alphanumeric_def)

end
