(* ===== verification/App_Version.thy ===== *)
theory App_Version
  imports Actor_Path
begin

text \<open>
  \<open>ApplicationVersion\<close> of \<open>kairo-cluster/src/app_version.rs\<close>: the parser and the ordering of the
  versions that members advertise. An \<open>i32\<close> is an int in range. The comparison is shown to be a
  total order on the parsed form, and the parser to read releases and qualified versions.
\<close>

section \<open>Versions and their order\<close>

datatype ordering = Less | Equal | Greater

datatype app_version_error = InvalidApplicationVersion string string

record parsed_version =
  pv_numbers :: "int list"
  pv_qualifier :: string

record application_version =
  av_value :: string
  av_parsed :: parsed_version

definition av_default :: application_version where
  "av_default = \<lparr>av_value = ''0.0.0'', av_parsed = \<lparr>pv_numbers = [0, 0, 0, 0], pv_qualifier = []\<rparr>\<rparr>"

definition av_eq :: "application_version \<Rightarrow> application_version \<Rightarrow> bool" where
  "av_eq a b \<longleftrightarrow> av_parsed a = av_parsed b"

definition av_is_zero :: "application_version \<Rightarrow> bool" where
  "av_is_zero a \<longleftrightarrow> av_eq a av_default"

definition cmp :: "'a::linorder \<Rightarrow> 'a \<Rightarrow> ordering" where
  "cmp a b = (if a < b then Less else if a = b then Equal else Greater)"

definition av_cmp :: "application_version \<Rightarrow> application_version \<Rightarrow> ordering" where
  "av_cmp a b =
     (case cmp (pv_numbers (av_parsed a)) (pv_numbers (av_parsed b)) of
        Equal \<Rightarrow>
          (case (pv_qualifier (av_parsed a) = [], pv_qualifier (av_parsed b) = []) of
             (True, False) \<Rightarrow> Greater
           | (False, True) \<Rightarrow> Less
           | _ \<Rightarrow> cmp (pv_qualifier (av_parsed a)) (pv_qualifier (av_parsed b)))
      | other \<Rightarrow> other)"

section \<open>The parser\<close>

text \<open>\<open>str::parse::<i32>\<close>: an optional sign, at least one digit, only digits, a value in range.\<close>

definition parse_i32 :: "string \<Rightarrow> int option" where
  "parse_i32 s =
     (let (neg, ds) = (case s of [] \<Rightarrow> (False, [])
            | c # t \<Rightarrow> if c = CHR ''-'' then (True, t) else if c = CHR ''+'' then (False, t) else (False, s))
      in if ds = [] then None
         else (case digits_value 0 ds of
                 None \<Rightarrow> None
               | Some n \<Rightarrow>
                   let v = (if neg then - int n else int n)
                   in if - (2 ^ 31) \<le> v \<and> v < 2 ^ 31 then Some v else None))"

definition parse_number :: "string \<Rightarrow> string \<Rightarrow> (app_version_error, int) result" where
  "parse_number value segment =
     ok_or (parse_i32 segment) (InvalidApplicationVersion value ''contains an invalid numeric component'')"

fun find_char :: "char \<Rightarrow> string \<Rightarrow> nat option" where
  "find_char d [] = None"
| "find_char d (c # cs) = (if c = d then Some 0 else map_option Suc (find_char d cs))"

definition min_index :: "nat option \<Rightarrow> nat option \<Rightarrow> nat option" where
  "min_index a b = (case (a, b) of (Some i, Some j) \<Rightarrow> Some (min i j) | (Some i, None) \<Rightarrow> Some i | (None, b) \<Rightarrow> b)"

definition parse_last_parts :: "string \<Rightarrow> string \<Rightarrow> (app_version_error, int \<times> int \<times> string) result" where
  "parse_last_parts value segment =
     (if segment = [] then Ok (0, 0, [])
      else
        bind_result
          (case min_index (find_char (CHR ''-'') segment) (find_char (CHR ''+'') segment) of
             Some index \<Rightarrow>
               bind_result (parse_number value (take index segment)) (\<lambda>n. Ok (n, drop (index + 1) segment))
           | None \<Rightarrow> bind_result (parse_number value segment) (\<lambda>n. Ok (n, [])))
          (\<lambda>(number, rest).
             if rest = [] \<or> \<not> is_ascii_digit (hd rest) then Ok (number, 0, rest)
             else (case find_char (CHR ''-'') rest of
                     None \<Rightarrow> Ok (number, 0, rest)
                   | Some separator \<Rightarrow>
                       (case parse_i32 (take separator rest) of
                          None \<Rightarrow> Ok (number, 0, rest)
                        | Some dynver \<Rightarrow> Ok (number, dynver, drop (separator + 1) rest)))))"

definition parse_version :: "string \<Rightarrow> (app_version_error, parsed_version) result" where
  "parse_version value =
     (if value = [] then Err (InvalidApplicationVersion value ''must not be empty'')
      else
        (case split_char (CHR ''.'') value of
           [single] \<Rightarrow>
             if is_ascii_digit (hd single)
             then (case parse_i32 single of
                     Some number \<Rightarrow> Ok \<lparr>pv_numbers = [number, 0, 0, 0], pv_qualifier = []\<rparr>
                   | None \<Rightarrow> Ok \<lparr>pv_numbers = [0, 0, 0, 0], pv_qualifier = single\<rparr>)
             else Ok \<lparr>pv_numbers = [0, 0, 0, 0], pv_qualifier = single\<rparr>
         | [major, last_part] \<Rightarrow>
             bind_result (parse_number value major) (\<lambda>major.
             bind_result (parse_last_parts value last_part) (\<lambda>(minor, dynver, rest).
             Ok \<lparr>pv_numbers = [major, minor, dynver, 0], pv_qualifier = rest\<rparr>))
         | [major, minor, last_part] \<Rightarrow>
             bind_result (parse_number value major) (\<lambda>major.
             bind_result (parse_number value minor) (\<lambda>minor.
             bind_result (parse_last_parts value last_part) (\<lambda>(patch, dynver, rest).
             Ok \<lparr>pv_numbers = [major, minor, patch, dynver], pv_qualifier = rest\<rparr>)))
         | _ \<Rightarrow> Err (InvalidApplicationVersion value ''supports at most three dot-separated components'')))"

definition av_new :: "string \<Rightarrow> (app_version_error, application_version) result" where
  "av_new value = bind_result (parse_version value) (\<lambda>parsed. Ok \<lparr>av_value = value, av_parsed = parsed\<rparr>)"

section \<open>Lemmas\<close>

lemma cmp_simps [simp]:
  "cmp a b = Less \<longleftrightarrow> a < b" "cmp a b = Equal \<longleftrightarrow> a = b" "cmp a b = Greater \<longleftrightarrow> b < a"
  by (auto simp: cmp_def)

text \<open>The sort key: the numbers, then unqualified after qualified, then the qualifier.\<close>

definition av_less :: "parsed_version \<Rightarrow> parsed_version \<Rightarrow> bool" where
  "av_less p q \<longleftrightarrow> pv_numbers p < pv_numbers q \<or>
     (pv_numbers p = pv_numbers q \<and> pv_qualifier p \<noteq> [] \<and>
        (pv_qualifier q = [] \<or> pv_qualifier p < pv_qualifier q))"

lemma Nil_less_string [simp]: "\<not> s < ([] :: string)"
  by (metis less_list_code(1))

lemma av_cmp_iff:
  "av_cmp a b = Less \<longleftrightarrow> av_less (av_parsed a) (av_parsed b)"
  "av_cmp a b = Equal \<longleftrightarrow> av_parsed a = av_parsed b"
  "av_cmp a b = Greater \<longleftrightarrow> av_less (av_parsed b) (av_parsed a)"
  by (auto simp: av_cmp_def av_less_def cmp_def split: if_splits ordering.splits bool.splits)

lemma show_nat_no_dot: "CHR ''.'' \<notin> set (show_nat n)" "CHR ''+'' \<notin> set (show_nat n)"
  using show_nat_digits [of _ n] by (fastforce simp: is_ascii_digit_def)+

lemma parse_i32_show_nat: "n < 2 ^ 31 \<Longrightarrow> parse_i32 (show_nat n) = Some (int n)"
proof -
  assume n: "n < 2 ^ 31"
  have "case_list (False, []) (\<lambda>c t. if c = CHR ''-'' then (True, t) else if c = CHR ''+'' then (False, t)
      else (False, show_nat n)) (show_nat n) = (False, show_nat n)"
    using show_nat_no_sep(4) [of n] show_nat_no_dot(2) [of n] by (auto split: list.splits)
  with n show ?thesis by (simp add: parse_i32_def digits_value_show_nat)
qed

lemma find_char_None: "d \<notin> set s \<Longrightarrow> find_char d s = None"
  by (induction s) auto

lemma find_char_append: "d \<notin> set a \<Longrightarrow> find_char d (a @ d # b) = Some (length a)"
  by (induction a) auto

lemma find_char_after: "d \<notin> set a \<Longrightarrow> d \<noteq> c \<Longrightarrow>
    find_char d (a @ c # b) = map_option (\<lambda>i. Suc (length a + i)) (find_char d b)"
  by (induction a) (auto simp: option.map_comp comp_def)

lemma parse_number_show_nat: "n < 2 ^ 31 \<Longrightarrow> parse_number value (show_nat n) = Ok (int n)"
  by (simp add: parse_number_def parse_i32_show_nat)

lemma parse_last_parts_plain: "n < 2 ^ 31 \<Longrightarrow> parse_last_parts value (show_nat n) = Ok (int n, 0, [])"
  by (simp add: parse_last_parts_def find_char_None show_nat_no_sep show_nat_no_dot min_index_def
      parse_number_show_nat)

lemma parse_last_parts_qualified:
  assumes "n < 2 ^ 31" "q = [] \<or> \<not> is_ascii_digit (hd q)"
  shows "parse_last_parts value (show_nat n @ ''-'' @ q) = Ok (int n, 0, q)"
proof -
  have "min_index (find_char (CHR ''-'') (show_nat n @ CHR ''-'' # q)) (find_char (CHR ''+'') (show_nat n @ CHR ''-'' # q)) =
      Some (length (show_nat n))"
    by (simp add: find_char_append find_char_after show_nat_no_sep show_nat_no_dot min_index_def split: option.splits)
  then show ?thesis using assms by (simp add: parse_last_parts_def parse_number_show_nat)
qed

lemma parse_version_three:
  assumes "x < 2 ^ 31" "y < 2 ^ 31" "CHR ''.'' \<notin> set z"
  shows "parse_version (show_nat x @ ''.'' @ show_nat y @ ''.'' @ z) =
    bind_result (parse_last_parts (show_nat x @ ''.'' @ show_nat y @ ''.'' @ z) z) (\<lambda>(patch, dynver, rest).
      Ok \<lparr>pv_numbers = [int x, int y, patch, dynver], pv_qualifier = rest\<rparr>)"
  using assms
  by (simp add: parse_version_def split_char_append split_char_single show_nat_no_dot parse_number_show_nat)

section \<open>Properties\<close>

text \<open>
  The comparison of application versions is a total order whose equality is the equality of
  the parsed form, for all versions.
\<close>

lemma app_version_total_order:
  "(av_cmp a b = Equal \<longleftrightarrow> av_eq a b) \<and> (av_cmp a b = Less \<longleftrightarrow> av_cmp b a = Greater) \<and>
   (av_cmp a b \<noteq> Greater \<and> av_cmp b c \<noteq> Greater \<longrightarrow> av_cmp a c \<noteq> Greater)"
  by (auto simp: av_cmp_iff av_eq_def av_less_def)

lemma app_version_total_order_witness:
  "av_cmp av_default av_default = Equal \<and> av_eq av_default av_default"
  using app_version_total_order [of av_default av_default av_default] by (simp add: av_eq_def)

text \<open>
  A release \<open>x.y.z\<close> parses to its numbers with no qualifier, the pre-release \<open>x.y.z-q\<close> to the
  same numbers with qualifier q, and the pre-release sorts before the release.
\<close>

lemma app_version_release_and_qualifier:
  assumes "x < 2 ^ 31" and "y < 2 ^ 31" and "z < 2 ^ 31"
    and "q \<noteq> []" and "\<not> is_ascii_digit (hd q)" and "CHR ''.'' \<notin> set q"
  shows "\<exists>release pre.
    av_new (show_nat x @ ''.'' @ show_nat y @ ''.'' @ show_nat z) = Ok release \<and>
    av_new (show_nat x @ ''.'' @ show_nat y @ ''.'' @ show_nat z @ ''-'' @ q) = Ok pre \<and>
    av_parsed release = \<lparr>pv_numbers = [int x, int y, int z, 0], pv_qualifier = []\<rparr> \<and>
    av_parsed pre = \<lparr>pv_numbers = [int x, int y, int z, 0], pv_qualifier = q\<rparr> \<and>
    av_cmp pre release = Less"
  using assms
  by (simp add: av_new_def parse_version_three [unfolded append_assoc] parse_last_parts_plain parse_last_parts_qualified
      show_nat_no_dot av_cmp_iff av_less_def del: append_Cons append.simps(2))

lemma app_version_release_and_qualifier_witness:
  "\<exists>release pre. av_new (show_nat 1 @ ''.'' @ show_nat 2 @ ''.'' @ show_nat 3) = Ok release \<and>
     av_new (show_nat 1 @ ''.'' @ show_nat 2 @ ''.'' @ show_nat 3 @ ''-'' @ ''rc1'') = Ok pre \<and>
     av_cmp pre release = Less"
  using app_version_release_and_qualifier [of 1 2 3 "''rc1''"] by (auto simp: is_ascii_digit_def)

end
