(* ===== verification/Replicated_Data.thy ===== *)
theory Replicated_Data
  imports Kairo_Prelude
begin

text \<open>
  The contracts of \<open>kairo-distributed-data/src/data.rs\<close> as locales. \<open>ReplicatedData::merge\<close>
  \<open>must be associative, commutative, and idempotent\<close>: the locale \<open>replicated_data\<close> states these
  laws on the well-formed states, up to the transient delta that \<open>reset_delta\<close> clears, and
  derives the order they induce and strong eventual consistency: replicas that received the same
  states are equal, whatever the order and the repetitions of the deliveries.
  \<open>delta_state\<close> is the contract of the data types whose delta is a value of the same type.
\<close>

section \<open>Replica identities and errors\<close>

datatype replica_id = ReplicaId string

primrec replica_str :: "replica_id \<Rightarrow> string" where
  "replica_str (ReplicaId s) = s"

instantiation replica_id :: linorder
begin

definition less_eq_replica_id :: "replica_id \<Rightarrow> replica_id \<Rightarrow> bool" where
  "a \<le> b \<longleftrightarrow> replica_str a \<le> replica_str b"

definition less_replica_id :: "replica_id \<Rightarrow> replica_id \<Rightarrow> bool" where
  "a < b \<longleftrightarrow> replica_str a < replica_str b"

instance
proof
  fix x y z :: replica_id
  show "x < y \<longleftrightarrow> x \<le> y \<and> \<not> y \<le> x"
    by (auto simp: less_eq_replica_id_def less_replica_id_def)
  show "x \<le> x" by (simp add: less_eq_replica_id_def)
  show "x \<le> y \<Longrightarrow> y \<le> z \<Longrightarrow> x \<le> z" by (simp add: less_eq_replica_id_def)
  show "x \<le> y \<Longrightarrow> y \<le> x \<Longrightarrow> x = y"
    by (cases x; cases y) (simp add: less_eq_replica_id_def)
  show "x \<le> y \<or> y \<le> x" by (auto simp: less_eq_replica_id_def)
qed

end

lemma replica_id_less [simp]: "ReplicaId a < ReplicaId b \<longleftrightarrow> a < b"
  by (simp add: less_replica_id_def)

lemma replica_id_le [simp]: "ReplicaId a \<le> ReplicaId b \<longleftrightarrow> a \<le> b"
  by (simp add: less_eq_replica_id_def)

datatype crdt_error = CounterOverflow | CounterValueOutOfRange

text \<open>The operations of the traits of \<open>data.rs\<close>, for the components that are generic in the data type.\<close>

record ('v, 'd) value_ops =
  vo_merge :: "'v \<Rightarrow> 'v \<Rightarrow> 'v"
  vo_delta :: "'v \<Rightarrow> 'd option"
  vo_merge_delta :: "'v \<Rightarrow> 'd \<Rightarrow> 'v"
  vo_reset_delta :: "'v \<Rightarrow> 'v"
  vo_zero :: "'d \<Rightarrow> 'v"
  vo_modified_by :: "'v \<Rightarrow> replica_id list"
  vo_need_pruning_from :: "'v \<Rightarrow> replica_id \<Rightarrow> bool"
  vo_prune :: "'v \<Rightarrow> replica_id \<Rightarrow> replica_id \<Rightarrow> (crdt_error, 'v) result"
  vo_pruning_cleanup :: "'v \<Rightarrow> replica_id \<Rightarrow> 'v"

section \<open>Deliveries\<close>

definition deliver :: "('a \<Rightarrow> 'a \<Rightarrow> 'a) \<Rightarrow> 'a \<Rightarrow> 'a list \<Rightarrow> 'a" where
  "deliver merge s xs = fold (\<lambda>x s. merge s x) xs s"

text \<open>\<open>tracks \<dots> base s\<close>: the delta pending in \<open>s\<close> takes \<open>base\<close> to \<open>s\<close>.\<close>

definition tracks ::
  "('a \<Rightarrow> 'd \<Rightarrow> 'a) \<Rightarrow> ('a \<Rightarrow> 'a) \<Rightarrow> ('a \<Rightarrow> 'd option) \<Rightarrow> 'a \<Rightarrow> 'a \<Rightarrow> bool" where
  "tracks merge_delta reset delta base s \<longleftrightarrow>
     (case delta s of None \<Rightarrow> reset s = reset base | Some d \<Rightarrow> merge_delta base d = reset s)"

section \<open>The contract of \<open>ReplicatedData\<close>\<close>

locale replicated_data =
  fixes wf :: "'a \<Rightarrow> bool"
    and merge :: "'a \<Rightarrow> 'a \<Rightarrow> 'a"
    and reset :: "'a \<Rightarrow> 'a"
  assumes wf_merge: "wf a \<Longrightarrow> wf b \<Longrightarrow> wf (merge a b)"
    and wf_reset: "wf a \<Longrightarrow> wf (reset a)"
    and merge_commute: "wf a \<Longrightarrow> wf b \<Longrightarrow> merge a b = merge b a"
    and merge_assoc: "wf a \<Longrightarrow> wf b \<Longrightarrow> wf c \<Longrightarrow> merge (merge a b) c = merge a (merge b c)"
    and merge_self: "wf a \<Longrightarrow> merge a a = reset a"
    and merge_reset: "wf a \<Longrightarrow> wf b \<Longrightarrow> merge (reset a) b = merge a b"
    and reset_merge: "wf a \<Longrightarrow> wf b \<Longrightarrow> reset (merge a b) = merge a b"
begin

lemma merge_reset_right: "wf a \<Longrightarrow> wf b \<Longrightarrow> merge a (reset b) = merge a b"
  using merge_commute [of a "reset b"] merge_reset [of b a] merge_commute [of b a]
  by (simp add: wf_reset)

definition below :: "'a \<Rightarrow> 'a \<Rightarrow> bool" where
  "below a b \<longleftrightarrow> merge a b = reset b"

lemma below_refl: "wf a \<Longrightarrow> below a a"
  by (simp add: below_def merge_self)

lemma below_trans:
  assumes "wf a" "wf b" "wf c" "below a b" "below b c"
  shows "below a c"
proof -
  have "merge a c = merge a (merge b c)"
    using assms by (simp add: below_def merge_reset_right)
  also have "\<dots> = merge (merge a b) c"
    using assms by (simp add: merge_assoc)
  also have "\<dots> = merge b c"
    using assms by (simp add: below_def merge_reset)
  finally show ?thesis
    using assms by (simp add: below_def)
qed

lemma below_antisym: "wf a \<Longrightarrow> wf b \<Longrightarrow> below a b \<Longrightarrow> below b a \<Longrightarrow> reset a = reset b"
  using merge_commute [of a b] by (simp add: below_def)

lemma below_merge_left: "wf a \<Longrightarrow> wf b \<Longrightarrow> below a (merge a b)"
  using merge_assoc [of a a b] by (simp add: below_def merge_reset merge_self reset_merge)

lemma below_merge_right: "wf a \<Longrightarrow> wf b \<Longrightarrow> below b (merge a b)"
  using below_merge_left [of b a] by (simp add: merge_commute)

lemma merge_least:
  "wf a \<Longrightarrow> wf b \<Longrightarrow> wf c \<Longrightarrow> below a c \<Longrightarrow> below b c \<Longrightarrow> below (merge a b) c"
  by (simp add: below_def merge_assoc merge_reset_right)

lemma wf_deliver: "wf s \<Longrightarrow> \<forall>x \<in> set xs. wf x \<Longrightarrow> wf (deliver merge s xs)"
  unfolding deliver_def by (induction xs arbitrary: s) (auto simp: wf_merge)

lemma reset_deliver:
  "wf s \<Longrightarrow> \<forall>x \<in> set xs. wf x \<Longrightarrow> xs \<noteq> [] \<Longrightarrow> reset (deliver merge s xs) = deliver merge s xs"
proof (induction xs arbitrary: s)
  case (Cons x xs)
  then show ?case
    by (cases xs) (auto simp: deliver_def reset_merge wf_merge)
qed simp

lemma deliver_upper:
  "wf s \<Longrightarrow> \<forall>x \<in> set xs. wf x \<Longrightarrow>
    below s (deliver merge s xs) \<and> (\<forall>x \<in> set xs. below x (deliver merge s xs))"
proof (induction xs arbitrary: s)
  case Nil
  then show ?case by (simp add: deliver_def below_refl)
next
  case (Cons y ys)
  let ?d = "deliver merge (merge s y) ys"
  have wf: "wf s" "wf y" "wf (merge s y)" "wf ?d"
    using Cons.prems by (auto simp: wf_merge wf_deliver)
  have *: "below (merge s y) ?d" "\<forall>x \<in> set ys. below x ?d"
    using Cons.IH [of "merge s y"] Cons.prems wf by auto
  moreover have "below s ?d" "below y ?d"
    using wf *(1) by (blast intro: below_trans below_merge_left below_merge_right)+
  ultimately show ?case by (simp add: deliver_def)
qed

lemma deliver_least:
  "wf s \<Longrightarrow> wf u \<Longrightarrow> \<forall>x \<in> set xs. wf x \<and> below x u \<Longrightarrow> below s u \<Longrightarrow> below (deliver merge s xs) u"
  unfolding deliver_def by (induction xs arbitrary: s) (auto simp: wf_merge merge_least)

lemma deliver_monotone:
  assumes "wf s" and "\<forall>x \<in> set ys. wf x" and "set xs \<subseteq> set ys"
  shows "below (deliver merge s xs) (deliver merge s ys)"
proof (rule deliver_least)
  show "wf s" by (fact assms)
  show "wf (deliver merge s ys)" using assms by (simp add: wf_deliver)
  show "\<forall>x \<in> set xs. wf x \<and> below x (deliver merge s ys)"
    using assms deliver_upper [of s ys] by blast
  show "below s (deliver merge s ys)"
    using assms deliver_upper [of s ys] by blast
qed

text \<open>Strong eventual consistency: equal sets of received states give equal replicas.\<close>

lemma deliver_same_set:
  assumes "wf s" and "\<forall>x \<in> set xs. wf x" and "set xs = set ys" and "xs \<noteq> []"
  shows "deliver merge s xs = deliver merge s ys"
proof -
  have ys: "\<forall>x \<in> set ys. wf x" "ys \<noteq> []" using assms by auto
  have "below (deliver merge s xs) (deliver merge s ys)"
    and "below (deliver merge s ys) (deliver merge s xs)"
    using assms ys by (auto intro: deliver_monotone)
  then have "reset (deliver merge s xs) = reset (deliver merge s ys)"
    using assms ys by (intro below_antisym) (auto intro: wf_deliver)
  then show ?thesis
    using assms ys by (simp add: reset_deliver)
qed

text \<open>Two replicas that start from different states and receive each other's.\<close>

lemma exchange_converges:
  "wf a \<Longrightarrow> wf b \<Longrightarrow> merge a (merge b a) = merge b (merge a b)"
proof -
  assume wf: "wf a" "wf b"
  have "merge a (merge b a) = merge a b"
    using wf below_merge_right [of b a] by (simp add: below_def reset_merge merge_commute)
  moreover have "merge b (merge a b) = merge a b"
    using wf below_merge_right [of a b] by (simp add: below_def reset_merge)
  ultimately show ?thesis by simp
qed

end

section \<open>Data that refines an abstract semilattice\<close>

text \<open>
  The contract follows when the merge implements a join of abstract states (\<open>abs\<close> is a
  functional refinement) and the abstract state determines the concrete one up to its delta.
\<close>

locale refined_data =
  fixes wf :: "'a \<Rightarrow> bool"
    and merge :: "'a \<Rightarrow> 'a \<Rightarrow> 'a"
    and reset :: "'a \<Rightarrow> 'a"
    and abs :: "'a \<Rightarrow> 'b"
    and join :: "'b \<Rightarrow> 'b \<Rightarrow> 'b"
    and valid :: "'b \<Rightarrow> bool"
  assumes keeps_wf: "wf a \<Longrightarrow> wf b \<Longrightarrow> wf (merge a b)" "wf a \<Longrightarrow> wf (reset a)"
    and valid_abs: "wf a \<Longrightarrow> valid (abs a)"
    and join_commute: "valid x \<Longrightarrow> valid y \<Longrightarrow> join x y = join y x"
    and join_assoc: "valid x \<Longrightarrow> valid y \<Longrightarrow> valid z \<Longrightarrow> join (join x y) z = join x (join y z)"
    and join_idem: "valid x \<Longrightarrow> join x x = x"
    and abs_merge: "wf a \<Longrightarrow> wf b \<Longrightarrow> abs (merge a b) = join (abs a) (abs b)"
    and abs_reset: "wf a \<Longrightarrow> abs (reset a) = abs a"
    and abs_inject: "wf a \<Longrightarrow> wf b \<Longrightarrow> abs a = abs b \<Longrightarrow> reset a = reset b"
    and reset_idem: "reset (reset a) = reset a" "reset (merge a b) = merge a b"

sublocale refined_data \<subseteq> replicated_data wf merge reset
proof
  fix a b c :: 'a
  show "wf a \<Longrightarrow> wf b \<Longrightarrow> wf (merge a b)" "wf a \<Longrightarrow> wf (reset a)"
    by (fact keeps_wf)+
  show "wf a \<Longrightarrow> wf b \<Longrightarrow> merge a b = merge b a"
    using abs_inject [of "merge a b" "merge b a"] join_commute
    by (simp add: keeps_wf abs_merge valid_abs reset_idem)
  show "wf a \<Longrightarrow> wf b \<Longrightarrow> wf c \<Longrightarrow> merge (merge a b) c = merge a (merge b c)"
    using abs_inject [of "merge (merge a b) c" "merge a (merge b c)"]
    by (simp add: keeps_wf abs_merge valid_abs reset_idem join_assoc)
  show "wf a \<Longrightarrow> merge a a = reset a"
    using abs_inject [of "merge a a" a]
    by (simp add: keeps_wf abs_merge valid_abs reset_idem join_idem)
  show "wf a \<Longrightarrow> wf b \<Longrightarrow> merge (reset a) b = merge a b"
    using abs_inject [of "merge (reset a) b" "merge a b"]
    by (simp add: keeps_wf abs_merge abs_reset reset_idem)
  show "wf a \<Longrightarrow> wf b \<Longrightarrow> reset (merge a b) = merge a b"
    by (rule reset_idem)
qed

section \<open>The contract of a data type that is its own delta\<close>

locale delta_state = replicated_data wf merge reset
  for wf :: "'a \<Rightarrow> bool" and merge :: "'a \<Rightarrow> 'a \<Rightarrow> 'a" and reset :: "'a \<Rightarrow> 'a" +
  fixes delta :: "'a \<Rightarrow> 'a option"
  assumes wf_delta: "wf a \<Longrightarrow> delta a = Some d \<Longrightarrow> wf d"
    and tracks_reset: "wf a \<Longrightarrow> tracks merge reset delta a (reset a)"
begin

text \<open>
  A replica at or above the state the delta was accumulated from gains from the delta exactly
  what it would gain from the full state.
\<close>

lemma delta_suffices:
  assumes wf: "wf base" "wf s" "wf t" and "below base t"
    and "tracks merge reset delta base s" and "delta s = Some d"
  shows "merge t d = merge t s"
proof -
  have d: "wf d" using assms wf_delta by blast
  have "merge t s = merge t (merge base d)"
    using assms by (simp add: tracks_def merge_reset_right)
  also have "\<dots> = merge (merge t base) d"
    using wf d by (simp add: merge_assoc)
  also have "merge t base = reset t"
    using assms(4) wf merge_commute [of t base] by (simp add: below_def)
  finally show ?thesis
    using wf d by (simp add: merge_reset)
qed

end

end
