(* ===== verification/Vector_Clock.thy ===== *)
theory Vector_Clock
  imports Replicated_Data
begin

text \<open>
  \<open>VectorClock\<close> of \<open>kairo-cluster/src/vector_clock.rs\<close>. The early exit of \<open>compare\<close> is a recursive loop
  over the chained key iterators. The comparison is shown to decide the pointwise order, the merge
  to be the least upper bound of that order, and an increment to give a later clock unless the
  counter wraps.
\<close>

section \<open>Clocks\<close>

datatype vector_clock_node = VectorClockNode (vcn_name: string)

instantiation vector_clock_node :: linorder
begin

definition less_eq_vector_clock_node :: "vector_clock_node \<Rightarrow> vector_clock_node \<Rightarrow> bool" where
  "a \<le> b \<longleftrightarrow> vcn_name a \<le> vcn_name b"

definition less_vector_clock_node :: "vector_clock_node \<Rightarrow> vector_clock_node \<Rightarrow> bool" where
  "a < b \<longleftrightarrow> vcn_name a < vcn_name b"

instance
  by standard
    (auto simp: less_eq_vector_clock_node_def less_vector_clock_node_def vector_clock_node.expand)

end

datatype vector_clock_ordering = Same | Before | After | Concurrent

datatype vector_clock = VectorClock (vc_versions: "(vector_clock_node, u64) fmap")

definition vc_new :: vector_clock where
  "vc_new = VectorClock fmempty"

definition vc_from_entries :: "(vector_clock_node \<times> u64) list \<Rightarrow> vector_clock" where
  "vc_from_entries entries = VectorClock (bt_collect entries)"

definition vc_increment :: "vector_clock \<Rightarrow> vector_clock_node \<Rightarrow> vector_clock" where
  "vc_increment c node =
     VectorClock (fmupd node (unwrap_or (fmlookup (vc_versions c) node) 0 + 1) (vc_versions c))"

definition vc_get :: "vector_clock \<Rightarrow> vector_clock_node \<Rightarrow> u64" where
  "vc_get c node = unwrap_or (fmlookup (vc_versions c) node) 0"

definition vc_entries :: "vector_clock \<Rightarrow> (vector_clock_node \<times> u64) list" where
  "vc_entries c = bt_entries (vc_versions c)"

definition vc_is_empty :: "vector_clock \<Rightarrow> bool" where
  "vc_is_empty c \<longleftrightarrow> bt_is_empty (vc_versions c)"

fun vc_compare_loop ::
  "vector_clock \<Rightarrow> vector_clock \<Rightarrow> vector_clock_node list \<Rightarrow> bool \<Rightarrow> bool \<Rightarrow> vector_clock_ordering" where
  "vc_compare_loop a b [] has_less has_greater =
     (case (has_less, has_greater) of
        (False, False) \<Rightarrow> Same
      | (True, False) \<Rightarrow> Before
      | (False, True) \<Rightarrow> After
      | (True, True) \<Rightarrow> Concurrent)"
| "vc_compare_loop a b (node # nodes) has_less has_greater =
     (let left = unwrap_or (fmlookup (vc_versions a) node) 0;
          right = unwrap_or (fmlookup (vc_versions b) node) 0;
          has_less = (has_less \<or> left < right);
          has_greater = (has_greater \<or> left > right)
      in if has_less \<and> has_greater then Concurrent
         else vc_compare_loop a b nodes has_less has_greater)"

definition vc_compare :: "vector_clock \<Rightarrow> vector_clock \<Rightarrow> vector_clock_ordering" where
  "vc_compare a b =
     vc_compare_loop a b (bt_keys (vc_versions a) @ bt_keys (vc_versions b)) False False"

definition vc_is_before :: "vector_clock \<Rightarrow> vector_clock \<Rightarrow> bool" where
  "vc_is_before a b \<longleftrightarrow> vc_compare a b = Before"

definition vc_is_after :: "vector_clock \<Rightarrow> vector_clock \<Rightarrow> bool" where
  "vc_is_after a b \<longleftrightarrow> vc_compare a b = After"

definition vc_is_concurrent :: "vector_clock \<Rightarrow> vector_clock \<Rightarrow> bool" where
  "vc_is_concurrent a b \<longleftrightarrow> vc_compare a b = Concurrent"

definition vc_merge :: "vector_clock \<Rightarrow> vector_clock \<Rightarrow> vector_clock" where
  "vc_merge a b = VectorClock (merge_max (vc_versions a) (vc_versions b))"

definition vc_prune :: "vector_clock \<Rightarrow> vector_clock_node \<Rightarrow> vector_clock" where
  "vc_prune c node = VectorClock (fmdrop node (vc_versions c))"

text \<open>The causal order: every counter is at most the other's.\<close>

definition vc_le :: "vector_clock \<Rightarrow> vector_clock \<Rightarrow> bool" where
  "vc_le a b \<longleftrightarrow> (\<forall>n. vc_get a n \<le> vc_get b n)"

text \<open>Clocks whose entries all count at least one event, as those built by increments.\<close>

definition vc_pos :: "vector_clock \<Rightarrow> bool" where
  "vc_pos c \<longleftrightarrow> fmpred (\<lambda>_ v. 0 < v) (vc_versions c)"

section \<open>Counters of the operations\<close>

lemma vc_get_simps [simp]:
  "vc_get vc_new n = 0"
  "vc_get (vc_increment c m) n = (if n = m then vc_get c m + 1 else vc_get c n)"
  "vc_get (vc_prune c m) n = (if n = m then 0 else vc_get c n)"
  by (simp_all add: vc_get_def vc_new_def vc_increment_def vc_prune_def)

lemma vc_get_merge [simp]: "vc_get (vc_merge a b) n = max (vc_get a n) (vc_get b n)"
  by (auto simp: vc_get_def vc_merge_def fmlookup_merge_max max_def split: option.splits)

lemma vc_get_outside: "n \<notin> set (bt_keys (vc_versions c)) \<Longrightarrow> vc_get c n = 0"
  by (auto simp: vc_get_def fmlookup_dom'_iff split: option.splits)

lemma vc_compare_loop_eq:
  "\<not> (l \<and> g) \<Longrightarrow> vc_compare_loop a b ns l g =
     (let l' = (l \<or> (\<exists>n \<in> set ns. vc_get a n < vc_get b n));
          g' = (g \<or> (\<exists>n \<in> set ns. vc_get b n < vc_get a n))
      in if l' \<and> g' then Concurrent else if l' then Before else if g' then After else Same)"
proof (induction ns arbitrary: l g)
  case Nil
  then show ?case by (cases l; cases g) simp_all
next
  case (Cons n ns)
  let ?l = "l \<or> vc_get a n < vc_get b n" and ?g = "g \<or> vc_get b n < vc_get a n"
  have step: "vc_compare_loop a b (n # ns) l g =
      (if ?l \<and> ?g then Concurrent else vc_compare_loop a b ns ?l ?g)"
    by (simp add: vc_get_def Let_def)
  show ?case
  proof (cases "?l \<and> ?g")
    case True
    then show ?thesis unfolding step by (auto simp: Let_def)
  next
    case False
    then show ?thesis unfolding step Cons.IH [OF False] by (auto simp: Let_def)
  qed
qed

lemma vc_less_on_keys:
  "(\<exists>n \<in> set (bt_keys (vc_versions a) @ bt_keys (vc_versions b)). vc_get a n < vc_get b n) \<longleftrightarrow> \<not> vc_le b a"
  "(\<exists>n \<in> set (bt_keys (vc_versions a) @ bt_keys (vc_versions b)). vc_get b n < vc_get a n) \<longleftrightarrow> \<not> vc_le a b"
  unfolding vc_le_def not_all not_le
  using vc_get_outside [of _ a] vc_get_outside [of _ b] by (force simp del: set_bt_keys)+

lemma vc_compare_eq:
  "vc_compare a b =
     (if vc_le a b then if vc_le b a then Same else Before
      else if vc_le b a then After else Concurrent)"
  unfolding vc_compare_def
  by (subst vc_compare_loop_eq) (auto simp: vc_less_on_keys Let_def simp del: set_append set_bt_keys)

lemma vc_less_iff: "(\<exists>n. vc_get a n < vc_get b n) \<longleftrightarrow> \<not> vc_le b a"
  by (simp add: vc_le_def not_le)

lemma vc_same_iff: "(\<forall>n. vc_get a n = vc_get b n) \<longleftrightarrow> vc_le a b \<and> vc_le b a"
  by (auto simp: vc_le_def intro: order.antisym)

lemma vc_eqI: "vc_pos a \<Longrightarrow> vc_pos b \<Longrightarrow> (\<And>n. vc_get a n = vc_get b n) \<Longrightarrow> a = b"
proof (rule vector_clock.expand, rule fmap_ext)
  fix n assume "vc_pos a" "vc_pos b" "\<And>n. vc_get a n = vc_get b n"
  from this(1,2) this(3) [of n] show "fmlookup (vc_versions a) n = fmlookup (vc_versions b) n"
    by (auto simp: vc_pos_def vc_get_def fmpred_iff split: option.splits)
qed

lemma vc_pos_ops [simp]:
  "vc_pos vc_new" "vc_pos a \<Longrightarrow> vc_pos b \<Longrightarrow> vc_pos (vc_merge a b)" "vc_pos a \<Longrightarrow> vc_pos (vc_prune a n)"
  by (auto simp: vc_pos_def vc_new_def vc_merge_def vc_prune_def fmpred_iff fmlookup_merge_max
      split: option.splits if_splits)

lemma vc_pos_increment: "vc_pos a \<Longrightarrow> vc_get a n \<noteq> - 1 \<Longrightarrow> vc_pos (vc_increment a n)"
  using word_Suc_greater [of "vc_get a n"]
  by (auto simp: vc_pos_def vc_increment_def vc_get_def fmpred_iff word_gt_0 split: option.splits)

lemma vc_le_simps [simp]: "vc_le a a" "vc_le a (vc_merge a b)" "vc_le b (vc_merge a b)"
  by (simp_all add: vc_le_def)

lemma vc_le_trans: "vc_le a b \<Longrightarrow> vc_le b c \<Longrightarrow> vc_le a c"
  unfolding vc_le_def by (meson order.trans)

lemma vc_merge_least: "vc_le a c \<Longrightarrow> vc_le b c \<Longrightarrow> vc_le (vc_merge a b) c"
  by (simp add: vc_le_def)

lemma vc_le_increment: "vc_get a n \<noteq> - 1 \<Longrightarrow> vc_le a (vc_increment a n) \<and> \<not> vc_le (vc_increment a n) a"
  using word_Suc_greater [of "vc_get a n"] by (auto simp: vc_le_def intro: less_imp_le)

interpretation vc: replicated_data vc_pos vc_merge "\<lambda>c. c"
  by standard (simp_all, (intro vc_eqI; simp add: max.commute max.left_commute max.assoc)+)

section \<open>Properties\<close>

text \<open>
  \<open>compare\<close> decides the causal order of two vector clocks: Same, Before, After and Concurrent are
  exactly equality, strict pointwise order in either direction, and incomparability of the counters.
\<close>

lemma vector_clock_compare_correct:
  "(vc_compare a b = Same \<longleftrightarrow> (\<forall>n. vc_get a n = vc_get b n)) \<and>
   (vc_compare a b = Before \<longleftrightarrow> vc_le a b \<and> (\<exists>n. vc_get a n < vc_get b n)) \<and>
   (vc_compare a b = After \<longleftrightarrow> vc_compare b a = Before) \<and>
   (vc_compare a b = Concurrent \<longleftrightarrow>
      (\<exists>n. vc_get a n < vc_get b n) \<and> (\<exists>n. vc_get b n < vc_get a n))"
  by (simp add: vc_compare_eq vc_less_iff vc_same_iff)

text \<open>
  \<open>merge\<close> of clocks is the least upper bound of the causal order, and incrementing a node
  after a merge, as every membership change does, gives a clock after both merged ones.
\<close>

lemma vector_clock_merge_increment:
  assumes "vc_get (vc_merge a b) n \<noteq> - 1"
  shows "vc_le a (vc_merge a b) \<and> vc_le b (vc_merge a b) \<and>
    (\<forall>c. vc_le a c \<longrightarrow> vc_le b c \<longrightarrow> vc_le (vc_merge a b) c) \<and>
    vc_compare (vc_increment (vc_merge a b) n) a = After \<and>
    vc_compare (vc_increment (vc_merge a b) n) b = After"
proof -
  have inc: "vc_le (vc_merge a b) (vc_increment (vc_merge a b) n)"
    "\<not> vc_le (vc_increment (vc_merge a b) n) (vc_merge a b)"
    using vc_le_increment [OF assms] by auto
  have "vc_compare (vc_increment (vc_merge a b) n) c = After" if "vc_le c (vc_merge a b)" for c
    using that inc by (auto simp: vc_compare_eq intro: vc_le_trans)
  then show ?thesis by (auto intro: vc_merge_least)
qed

lemma vector_clock_merge_increment_witness:
  "let a = vc_increment vc_new (VectorClockNode ''a''); b = vc_increment vc_new (VectorClockNode ''b'')
   in vc_compare (vc_increment (vc_merge a b) (VectorClockNode ''a'')) b = After"
  using vector_clock_merge_increment [of "vc_increment vc_new (VectorClockNode ''a'')"
      "vc_increment vc_new (VectorClockNode ''b'')" "VectorClockNode ''a''"]
  by (simp add: Let_def)

end
