(* ===== verification/Membership.thy ===== *)
theory Membership
  imports App_Version Vector_Clock "HOL-Library.Product_Lexorder" "HOL-Library.Option_ord"
begin

text \<open>
  Membership facts of \<open>kairo-cluster/src/member.rs\<close>: statuses and their policies, unique addresses and
  their ordering key, members, and the choice of the winning fact in a concurrent merge. The
  lemmas show that the ordering key identifies a unique address and that \<open>highest_priority\<close> is
  an associative choice by status priority and age.
\<close>

section \<open>Statuses\<close>

datatype member_status = Joining | WeaklyUp | Up | Leaving | Exiting | Down | Removed

definition participates_in_leader_selection :: "member_status \<Rightarrow> bool" where
  "participates_in_leader_selection s \<longleftrightarrow> s \<in> {Up, Leaving}"

definition participates_in_convergence :: "member_status \<Rightarrow> bool" where
  "participates_in_convergence s \<longleftrightarrow> s \<in> {Up, Leaving}"

definition participates_in_first_convergence :: "member_status \<Rightarrow> bool" where
  "participates_in_first_convergence s \<longleftrightarrow> s \<in> {Joining, WeaklyUp, Up, Leaving}"

definition can_skip_unreachable_for_convergence :: "member_status \<Rightarrow> bool" where
  "can_skip_unreachable_for_convergence s \<longleftrightarrow> s \<in> {Down, Exiting}"

definition observes_convergence_reachability :: "member_status \<Rightarrow> bool" where
  "observes_convergence_reachability s \<longleftrightarrow> s \<noteq> Down"

fun leader_fallback_rank :: "member_status \<Rightarrow> nat" where
  "leader_fallback_rank Up = 0"
| "leader_fallback_rank Leaving = 0"
| "leader_fallback_rank WeaklyUp = 1"
| "leader_fallback_rank Joining = 2"
| "leader_fallback_rank Exiting = 3"
| "leader_fallback_rank Down = 4"
| "leader_fallback_rank Removed = 5"

definition is_removed_by_single_sided_merge :: "member_status \<Rightarrow> bool" where
  "is_removed_by_single_sided_merge s \<longleftrightarrow> s \<in> {Down, Exiting, Removed}"

fun status_priority :: "member_status \<Rightarrow> nat" where
  "status_priority Joining = 0"
| "status_priority WeaklyUp = 1"
| "status_priority Up = 2"
| "status_priority Leaving = 3"
| "status_priority Exiting = 4"
| "status_priority Down = 5"
| "status_priority Removed = 6"

section \<open>Unique addresses and members\<close>

datatype unique_address = UniqueAddress (ua_address: address) (ua_uid: u64)

text \<open>
  Nodes are hashed, not ordered, in the source; this order on the fields only enumerates finite
  sets of nodes when a hash iteration is made concrete.
\<close>

definition node_fields :: "unique_address \<Rightarrow> string \<times> string \<times> string option \<times> u16 option \<times> u64" where
  "node_fields n = (let a = ua_address n in (ad_protocol a, ad_system a, ad_host a, ad_port a, ua_uid n))"

lemma node_fields_inj: "node_fields m = node_fields n \<longleftrightarrow> m = n"
  by (cases m; cases n) (auto simp: node_fields_def Let_def intro: address.equality)

instantiation unique_address :: linorder
begin

definition less_eq_unique_address :: "unique_address \<Rightarrow> unique_address \<Rightarrow> bool" where
  "m \<le> n \<longleftrightarrow> node_fields m \<le> node_fields n"

definition less_unique_address :: "unique_address \<Rightarrow> unique_address \<Rightarrow> bool" where
  "m < n \<longleftrightarrow> node_fields m < node_fields n"

instance
proof
  fix x y z :: unique_address
  show "x < y \<longleftrightarrow> x \<le> y \<and> \<not> y \<le> x"
    by (auto simp: less_eq_unique_address_def less_unique_address_def)
  show "x \<le> x" by (simp add: less_eq_unique_address_def)
  show "x \<le> y \<Longrightarrow> y \<le> z \<Longrightarrow> x \<le> z" unfolding less_eq_unique_address_def by (rule order.trans)
  show "x \<le> y \<Longrightarrow> y \<le> x \<Longrightarrow> x = y"
    using order.antisym [of "node_fields x" "node_fields y"]
    by (simp add: less_eq_unique_address_def node_fields_inj)
  show "x \<le> y \<or> y \<le> x" unfolding less_eq_unique_address_def by (rule linear)
qed

end

definition ordering_key :: "unique_address \<Rightarrow> string" where
  "ordering_key n = show_address (ua_address n) @ ''#'' @ show_nat (unat (ua_uid n))"

record member =
  m_node :: unique_address
  m_status :: member_status
  m_roles :: "string list"
  m_up_number :: "u64 option"
  m_app_version :: application_version

definition member_new :: "unique_address \<Rightarrow> string list \<Rightarrow> member" where
  "member_new node roles =
     \<lparr>m_node = node, m_status = Joining, m_roles = roles, m_up_number = None, m_app_version = av_default\<rparr>"

definition with_status :: "member \<Rightarrow> member_status \<Rightarrow> member" where
  "with_status m status = m\<lparr>m_status := status\<rparr>"

definition with_up_number :: "member \<Rightarrow> u64 \<Rightarrow> member" where
  "with_up_number m n = m\<lparr>m_up_number := Some n\<rparr>"

definition with_app_version :: "member \<Rightarrow> application_version \<Rightarrow> member" where
  "with_app_version m v = m\<lparr>m_app_version := v\<rparr>"

definition has_role :: "member \<Rightarrow> string \<Rightarrow> bool" where
  "has_role m role \<longleftrightarrow> list_ex (\<lambda>r. r = role) (m_roles m)"

definition strip_prefix :: "string \<Rightarrow> string \<Rightarrow> string option" where
  "strip_prefix pre s = (if take (length pre) s = pre then Some (drop (length pre) s) else None)"

fun find_map :: "('a \<Rightarrow> 'b option) \<Rightarrow> 'a list \<Rightarrow> 'b option" where
  "find_map f [] = None"
| "find_map f (x # xs) = (case f x of Some y \<Rightarrow> Some y | None \<Rightarrow> find_map f xs)"

definition data_center :: "member \<Rightarrow> string" where
  "data_center m =
     (case find_map (strip_prefix ''dc-'') (m_roles m) of
        Some dc \<Rightarrow> if dc \<noteq> [] then dc else ''default''
      | None \<Rightarrow> ''default'')"

definition age_key :: "member \<Rightarrow> u64 \<times> string" where
  "age_key m = (unwrap_or (m_up_number m) (- 1), ordering_key (m_node m))"

definition is_older_than :: "member \<Rightarrow> member \<Rightarrow> bool" where
  "is_older_than a b \<longleftrightarrow> age_key a < age_key b"

definition leader_fallback_key :: "member \<Rightarrow> nat \<times> u64 \<times> string" where
  "leader_fallback_key m = (leader_fallback_rank (m_status m), age_key m)"

definition highest_priority :: "member \<Rightarrow> member \<Rightarrow> member" where
  "highest_priority left right =
     (if m_status left = m_status right then (if is_older_than left right then left else right)
      else if status_priority (m_status left) \<ge> status_priority (m_status right) then left
      else right)"

section \<open>The ordering key\<close>

definition wf_node :: "unique_address \<Rightarrow> bool" where
  "wf_node n \<longleftrightarrow> wf_address (ua_address n)"

lemma rsplit_suffix_inj:
  fixes d :: char
  assumes "a @ d # x = b @ d # y" "d \<notin> set x" "d \<notin> set y"
  shows "a = b \<and> x = y"
  using arg_cong [OF assms(1), of "rsplit_once d"] by (simp add: rsplit_once_char assms(2,3))

lemma keyed_inj:
  assumes "wf_node m" "wf_node n" "d \<in> {CHR ''#'', CHR ''-''}"
    and "show_address (ua_address m) @ d # show_nat (unat (ua_uid m)) =
         show_address (ua_address n) @ d # show_nat (unat (ua_uid n))"
  shows "m = n"
proof -
  have "d \<notin> set (show_nat k)" for k using assms(3) show_nat_no_sep by auto
  from rsplit_suffix_inj [OF assms(4) this this]
  have "show_address (ua_address m) = show_address (ua_address n)" "ua_uid m = ua_uid n"
    by (auto simp: word_unat_eq_iff)
  with assms(1,2) show_address_inj show ?thesis
    by (simp add: wf_node_def unique_address.expand)
qed

lemma ordering_key_inj: "wf_node m \<Longrightarrow> wf_node n \<Longrightarrow> ordering_key m = ordering_key n \<longleftrightarrow> m = n"
  using keyed_inj [of m n "CHR ''#''"] by (auto simp: ordering_key_def)

section \<open>The winning membership fact\<close>

lemma status_priority_inj [simp]: "status_priority a = status_priority b \<longleftrightarrow> a = b"
  by (cases a; cases b) simp_all

text \<open>Better facts have a higher status priority, then a smaller age key.\<close>

definition fact_le :: "member \<Rightarrow> member \<Rightarrow> bool" where
  "fact_le a b \<longleftrightarrow> status_priority (m_status a) < status_priority (m_status b) \<or>
     (m_status a = m_status b \<and> age_key b \<le> age_key a)"

lemma highest_priority_eq: "highest_priority a b = (if fact_le a b then b else a)"
proof (cases "m_status a = m_status b")
  case True
  then show ?thesis by (auto simp: highest_priority_def is_older_than_def fact_le_def not_le)
next
  case False
  then have "status_priority (m_status a) \<noteq> status_priority (m_status b)" by simp
  with False show ?thesis by (auto simp: highest_priority_def fact_le_def)
qed

lemma fact_le_trans: "fact_le a b \<Longrightarrow> fact_le b c \<Longrightarrow> fact_le a c"
  by (auto simp: fact_le_def)

lemma fact_le_total: "fact_le a b \<or> fact_le b a"
  using status_priority_inj [of "m_status a" "m_status b"] unfolding fact_le_def
  by (metis linorder_cases linorder_le_cases)

lemma fact_le_antisym: "fact_le a b \<Longrightarrow> fact_le b a \<Longrightarrow> m_status a = m_status b \<and> age_key a = age_key b"
  by (auto simp: fact_le_def)

lemma highest_priority_assoc:
  "highest_priority (highest_priority a b) c = highest_priority a (highest_priority b c)"
  using fact_le_trans [of a b c] fact_le_trans [of a c b] fact_le_total [of b c]
  by (auto simp: highest_priority_eq)

lemma highest_priority_node [simp]:
  "m_node a = m_node b \<Longrightarrow> m_node (highest_priority a b) = m_node b"
  by (simp add: highest_priority_eq)

lemma highest_priority_idem [simp]: "highest_priority a a = a"
  by (simp add: highest_priority_eq)

lemma status_priority_highest:
  "status_priority (m_status (highest_priority a b)) =
     max (status_priority (m_status a)) (status_priority (m_status b))"
  by (auto simp: highest_priority_eq fact_le_def)

text \<open>Two facts about the same incarnation of a node differ only in status and age.\<close>

definition same_incarnation :: "member \<Rightarrow> member \<Rightarrow> bool" where
  "same_incarnation a b \<longleftrightarrow> m_node a = m_node b \<and> m_roles a = m_roles b \<and> m_app_version a = m_app_version b \<and>
     m_up_number a \<noteq> Some (- 1) \<and> m_up_number b \<noteq> Some (- 1)"

lemma highest_priority_commute:
  assumes "same_incarnation a b"
  shows "highest_priority a b = highest_priority b a"
proof -
  have "a = b" if "fact_le a b" "fact_le b a"
    using fact_le_antisym [OF that] assms
    by (auto simp: same_incarnation_def age_key_def split: option.splits intro: member.equality)
  then show ?thesis using fact_le_total [of a b] by (auto simp: highest_priority_eq)
qed

text \<open>
  Concurrent membership facts are resolved deterministically: the choice is associative and
  idempotent, never lowers the status priority, returns one of the two facts, and is commutative
  for two facts about the same incarnation of a node.
\<close>

lemma member_highest_priority_resolution:
  "highest_priority (highest_priority a b) c = highest_priority a (highest_priority b c) \<and>
   highest_priority a a = a \<and> highest_priority a b \<in> {a, b} \<and>
   status_priority (m_status (highest_priority a b)) =
     max (status_priority (m_status a)) (status_priority (m_status b)) \<and>
   (same_incarnation a b \<longrightarrow> highest_priority a b = highest_priority b a)"
  using highest_priority_commute [of a b]
  by (simp add: highest_priority_assoc status_priority_highest) (simp add: highest_priority_eq)

lemma member_highest_priority_resolution_witness:
  "let m = member_new (UniqueAddress (address_local ''s'') 1) []
   in highest_priority m (with_status m Up) = highest_priority (with_status m Up) m \<and> same_incarnation m (with_status m Up)"
  using member_highest_priority_resolution [of "member_new (UniqueAddress (address_local ''s'') 1) []"
      "with_status (member_new (UniqueAddress (address_local ''s'') 1) []) Up"]
  by (simp add: Let_def same_incarnation_def member_new_def with_status_def)

end
