(* ===== verification/Reachability_Table.thy ===== *)
theory Reachability_Table
  imports Membership
begin

text \<open>
  \<open>Reachability\<close> of \<open>kairo-cluster/src/reachability.rs\<close>: the table of versioned observations, each row
  owned by its observer. The iteration over the hash set of allowed nodes in \<open>merge\<close> is the argument
  \<open>h\<close>. The lemmas give the status of every pair after every operation, show the table invariant
  preserved, and show that a merge takes the newest row of each observer whatever the iteration order.
\<close>

section \<open>The table\<close>

datatype reachability_status = Reachable | Unreachable | Terminated

record reachability_record =
  rr_observer :: unique_address
  rr_subject :: unique_address
  rr_status :: reachability_status
  rr_version :: u64

record reachability =
  rc_records :: "reachability_record list"
  rc_versions :: "(unique_address, u64) fmap"

definition rc_new :: reachability where
  "rc_new = \<lparr>rc_records = [], rc_versions = fmempty\<rparr>"

definition rc_from_parts ::
  "reachability_record list \<Rightarrow> (unique_address \<times> u64) list \<Rightarrow> reachability" where
  "rc_from_parts records versions = \<lparr>rc_records = records, rc_versions = bt_collect versions\<rparr>"

definition rc_version :: "reachability \<Rightarrow> unique_address \<Rightarrow> u64" where
  "rc_version t observer = unwrap_or (fmlookup (rc_versions t) observer) 0"

definition is_all_reachable :: "reachability \<Rightarrow> bool" where
  "is_all_reachable t \<longleftrightarrow> rc_records t = []"

definition is_unversioned_all_reachable :: "reachability \<Rightarrow> bool" where
  "is_unversioned_all_reachable t \<longleftrightarrow> rc_records t = [] \<and> bt_is_empty (rc_versions t)"

definition rc_next_version :: "reachability \<Rightarrow> unique_address \<Rightarrow> u64" where
  "rc_next_version t observer = rc_version t observer + 1"

definition rc_observer_rows :: "reachability \<Rightarrow> unique_address \<Rightarrow> reachability_record list" where
  "rc_observer_rows t observer = filter (\<lambda>r. rr_observer r = observer) (rc_records t)"

definition rc_change ::
  "reachability \<Rightarrow> unique_address \<Rightarrow> unique_address \<Rightarrow> reachability_status \<Rightarrow> reachability" where
  "rc_change t observer subject status =
     (case position (\<lambda>r. rr_observer r = observer \<and> rr_subject r = subject) (rc_records t) of
        None \<Rightarrow>
          if status = Reachable then t
          else
            let version = rc_next_version t observer
            in t\<lparr>rc_versions := fmupd observer version (rc_versions t),
                 rc_records := rc_records t @ [\<lparr>rr_observer = observer, rr_subject = subject,
                   rr_status = status, rr_version = version\<rparr>]\<rparr>
      | Some index \<Rightarrow>
          let old = rc_records t ! index
          in if rr_status old = Terminated \<or> rr_status old = status then t
             else
               let version = rc_next_version t observer;
                   changed = t\<lparr>rc_versions := fmupd observer version (rc_versions t)\<rparr>
               in if status = Reachable \<and>
                     list_all (\<lambda>r. rr_subject r = subject \<or> rr_status r = Reachable)
                       (filter (\<lambda>r. rr_observer r = observer) (rc_records changed))
                  then changed\<lparr>rc_records := filter (\<lambda>r. rr_observer r \<noteq> observer) (rc_records changed)\<rparr>
                  else changed\<lparr>rc_records := (rc_records changed)[index :=
                         \<lparr>rr_observer = observer, rr_subject = subject, rr_status = status, rr_version = version\<rparr>]\<rparr>)"

definition rc_unreachable :: "reachability \<Rightarrow> unique_address \<Rightarrow> unique_address \<Rightarrow> reachability" where
  "rc_unreachable t observer subject = rc_change t observer subject Unreachable"

definition rc_reachable :: "reachability \<Rightarrow> unique_address \<Rightarrow> unique_address \<Rightarrow> reachability" where
  "rc_reachable t observer subject = rc_change t observer subject Reachable"

definition rc_terminated :: "reachability \<Rightarrow> unique_address \<Rightarrow> unique_address \<Rightarrow> reachability" where
  "rc_terminated t observer subject = rc_change t observer subject Terminated"

definition rc_status :: "reachability \<Rightarrow> unique_address \<Rightarrow> unique_address \<Rightarrow> reachability_status" where
  "rc_status t observer subject =
     unwrap_or (map_option rr_status
       (find (\<lambda>r. rr_observer r = observer \<and> rr_subject r = subject) (rc_records t))) Reachable"

definition rc_status_of :: "reachability \<Rightarrow> unique_address \<Rightarrow> reachability_status" where
  "rc_status_of t subject =
     (if list_ex (\<lambda>r. rr_subject r = subject \<and> rr_status r = Terminated) (rc_records t) then Terminated
      else if list_ex (\<lambda>r. rr_subject r = subject \<and> rr_status r = Unreachable) (rc_records t)
      then Unreachable else Reachable)"

definition all_unreachable :: "reachability \<Rightarrow> unique_address fset" where
  "all_unreachable t =
     (let terminated = fset_of_list (map rr_subject (filter (\<lambda>r. rr_status r = Terminated) (rc_records t)))
      in fset_of_list (filter (\<lambda>subject. subject |\<notin>| terminated)
           (map rr_subject (filter (\<lambda>r. rr_status r = Unreachable) (rc_records t)))))"

definition all_unreachable_or_terminated :: "reachability \<Rightarrow> unique_address fset" where
  "all_unreachable_or_terminated t =
     fset_of_list (map rr_subject
       (filter (\<lambda>r. rr_status r = Unreachable \<or> rr_status r = Terminated) (rc_records t)))"

definition all_observers :: "reachability \<Rightarrow> unique_address fset" where
  "all_observers t =
     fset_of_list (map rr_observer
       (filter (\<lambda>r. rr_status r = Unreachable \<or> rr_status r = Terminated) (rc_records t)))"

definition rc_merge ::
  "unique_address hash_iter \<Rightarrow> reachability \<Rightarrow> unique_address fset \<Rightarrow> reachability \<Rightarrow> reachability" where
  "rc_merge h t allowed other =
     (if is_unversioned_all_reachable t \<and> is_unversioned_all_reachable other then rc_new
      else
        let (records, versions) = fold (\<lambda>observer (records, versions).
              let version_left = rc_version t observer;
                  version_right = rc_version other observer;
                  rows = (if version_left \<ge> version_right then rc_observer_rows t observer
                          else rc_observer_rows other observer)
              in (records @ filter (\<lambda>r. rr_subject r |\<in>| allowed) rows,
                  if version_right > version_left then fmupd observer version_right versions else versions))
              (h allowed) ([], rc_versions t)
        in \<lparr>rc_records = records, rc_versions = fmfilter (\<lambda>observer. observer |\<in>| allowed) versions\<rparr>)"

definition rc_remove :: "reachability \<Rightarrow> unique_address fset \<Rightarrow> reachability" where
  "rc_remove t removed =
     \<lparr>rc_records = filter (\<lambda>r. rr_observer r |\<notin>| removed \<and> rr_subject r |\<notin>| removed) (rc_records t),
      rc_versions = fmfilter (\<lambda>observer. observer |\<notin>| removed) (rc_versions t)\<rparr>"

section \<open>Invariant\<close>

abbreviation rr_pair :: "reachability_record \<Rightarrow> unique_address \<times> unique_address" where
  "rr_pair r \<equiv> (rr_observer r, rr_subject r)"

text \<open>One record per observer and subject, none newer than its observer's row version.\<close>

definition rc_wf :: "reachability \<Rightarrow> bool" where
  "rc_wf t \<longleftrightarrow> distinct (map rr_pair (rc_records t)) \<and>
     (\<forall>r \<in> set (rc_records t). 0 < rr_version r \<and> rr_version r \<le> rc_version t (rr_observer r))"

section \<open>Lemmas on lists\<close>

lemma find_append: "find P (xs @ ys) = (case find P xs of None \<Rightarrow> find P ys | Some x \<Rightarrow> Some x)"
  by (induction xs) auto

lemma find_None: "(\<And>x. x \<in> set xs \<Longrightarrow> \<not> P x) \<Longrightarrow> find P xs = None"
  by (auto simp: find_None_iff)

lemma find_filter: "(\<And>x. P x \<Longrightarrow> Q x) \<Longrightarrow> find P (filter Q xs) = find P xs"
  by (induction xs) auto

lemma find_update_other: "\<not> P (xs ! i) \<Longrightarrow> \<not> P y \<Longrightarrow> find P (xs[i := y]) = find P xs"
  by (induction xs arbitrary: i) (auto split: nat.splits)

lemma find_update_position: "position P xs = Some i \<Longrightarrow> P y \<Longrightarrow> find P (xs[i := y]) = Some y"
  by (induction xs arbitrary: i) (auto split: if_splits)

lemma position_Some: "position P xs = Some i \<Longrightarrow> i < length xs \<and> P (xs ! i) \<and> find P xs = Some (xs ! i)"
  by (induction xs arbitrary: i) (auto split: if_splits)

section \<open>Changes\<close>

abbreviation at_pair :: "unique_address \<Rightarrow> unique_address \<Rightarrow> reachability_record \<Rightarrow> bool" where
  "at_pair observer subject \<equiv> \<lambda>r. rr_observer r = observer \<and> rr_subject r = subject"

lemma rc_status_position:
  "position (at_pair ob su) (rc_records t) = Some i \<Longrightarrow> rc_status t ob su = rr_status (rc_records t ! i)"
  "position (at_pair ob su) (rc_records t) = None \<Longrightarrow> rc_status t ob su = Reachable"
  using position_Some [of "at_pair ob su" "rc_records t" i]
  by (auto simp: rc_status_def position_None find_None)

text \<open>The three effects of a change: append a record, clear the observer's row, overwrite a record.\<close>

lemma rc_change_cases:
  obtains
    (same) "rc_change t ob su st = t" "rc_status t ob su = Terminated \<or> rc_status t ob su = st"
  | (append) v where "v = rc_version t ob + 1" "rc_status t ob su \<noteq> st" "rc_status t ob su \<noteq> Terminated"
      "\<forall>r \<in> set (rc_records t). \<not> at_pair ob su r"
      "rc_change t ob su st = \<lparr>rc_records = rc_records t @
          [\<lparr>rr_observer = ob, rr_subject = su, rr_status = st, rr_version = v\<rparr>],
        rc_versions = fmupd ob v (rc_versions t)\<rparr>"
  | (clear) v where "v = rc_version t ob + 1" "rc_status t ob su \<noteq> st" "rc_status t ob su \<noteq> Terminated"
      "st = Reachable"
      "\<forall>r \<in> set (rc_records t). rr_observer r = ob \<longrightarrow> rr_subject r = su \<or> rr_status r = Reachable"
      "rc_change t ob su st = \<lparr>rc_records = filter (\<lambda>r. rr_observer r \<noteq> ob) (rc_records t),
        rc_versions = fmupd ob v (rc_versions t)\<rparr>"
  | (update) v i where "v = rc_version t ob + 1" "rc_status t ob su \<noteq> st" "rc_status t ob su \<noteq> Terminated"
      "position (at_pair ob su) (rc_records t) = Some i"
      "rc_change t ob su st = \<lparr>rc_records = (rc_records t)[i :=
          \<lparr>rr_observer = ob, rr_subject = su, rr_status = st, rr_version = v\<rparr>],
        rc_versions = fmupd ob v (rc_versions t)\<rparr>"
proof (cases "position (at_pair ob su) (rc_records t)")
  case None
  have "rc_change t ob su st = (if st = Reachable then t else \<lparr>rc_records = rc_records t @
        [\<lparr>rr_observer = ob, rr_subject = su, rr_status = st, rr_version = rc_version t ob + 1\<rparr>],
      rc_versions = fmupd ob (rc_version t ob + 1) (rc_versions t)\<rparr>)"
    using None by (simp add: rc_change_def rc_next_version_def Let_def)
  then show thesis
    using None rc_status_position(2) [OF None] same append by (cases "st = Reachable") (auto simp: position_None)
next
  case (Some i)
  note st = rc_status_position(1) [OF Some]
  show thesis
  proof (cases "rc_status t ob su = Terminated \<or> rc_status t ob su = st")
    case True
    then show ?thesis using Some st by (intro same) (auto simp: rc_change_def Let_def)
  next
    case False
    let ?clear = "st = Reachable \<and> list_all (\<lambda>r. rr_subject r = su \<or> rr_status r = Reachable)
      (filter (\<lambda>r. rr_observer r = ob) (rc_records t))"
    have eq: "rc_change t ob su st = (if ?clear
        then \<lparr>rc_records = filter (\<lambda>r. rr_observer r \<noteq> ob) (rc_records t),
          rc_versions = fmupd ob (rc_version t ob + 1) (rc_versions t)\<rparr>
        else \<lparr>rc_records = (rc_records t)[i := \<lparr>rr_observer = ob, rr_subject = su, rr_status = st,
            rr_version = rc_version t ob + 1\<rparr>], rc_versions = fmupd ob (rc_version t ob + 1) (rc_versions t)\<rparr>)"
      using Some st False by (simp add: rc_change_def rc_next_version_def Let_def)
    show ?thesis
    proof (cases ?clear)
      case True
      show ?thesis
        by (rule clear [OF refl]) (use False True eq in \<open>auto simp: list_all_iff\<close>)
    next
      case nc: False
      show ?thesis
        by (rule update [OF refl _ _ Some]) (use False nc eq in \<open>auto\<close>)
    qed
  qed
qed

lemma rc_status_change:
  "rc_status (rc_change t ob su st) ob' su' =
     (if ob' = ob \<and> su' = su then (if rc_status t ob su = Terminated then Terminated else st)
      else rc_status t ob' su')"
proof (cases rule: rc_change_cases [of t ob su st])
  case same
  then show ?thesis by auto
next
  case (append v)
  then show ?thesis by (auto simp: rc_status_def find_append find_None split: option.splits)
next
  case (clear v)
  have *: "find (at_pair ob' su') (filter (\<lambda>r. rr_observer r \<noteq> ob) (rc_records t)) =
      (if ob' = ob then None else find (at_pair ob' su') (rc_records t))"
    by (auto intro: find_filter find_None)
  have new: "rc_status (rc_change t ob su st) ob' su' = (if ob' = ob then Reachable else rc_status t ob' su')"
    unfolding clear(6) rc_status_def by (simp add: *)
  have "rc_status t ob su' = Reachable" if "su' \<noteq> su"
    using clear(5) that by (auto simp: rc_status_def find_Some_iff split: option.splits)
  then show ?thesis unfolding new using clear(3,4) by auto
next
  case (update v i)
  have "at_pair ob su (rc_records t ! i)" using position_Some [OF update(4)] by simp
  then show ?thesis
    using find_update_position [OF update(4)] update
    by (auto simp: rc_status_def find_update_other)
qed

lemma rc_version_change:
  "rc_version (rc_change t ob su st) ob' =
     (if ob' = ob \<and> rc_status t ob su \<noteq> Terminated \<and> rc_status t ob su \<noteq> st
      then rc_version t ob + 1 else rc_version t ob')"
  by (cases rule: rc_change_cases [of t ob su st]) (auto simp: rc_version_def)

lemma rc_wf_new_version:
  assumes wf: "rc_wf t" and no: "rc_version t ob \<noteq> - 1" and d: "distinct (map rr_pair rs)"
    and rs: "\<And>r. r \<in> set rs \<Longrightarrow> r \<in> set (rc_records t) \<or> (rr_observer r = ob \<and> rr_version r = rc_version t ob + 1)"
  shows "rc_wf \<lparr>rc_records = rs, rc_versions = fmupd ob (rc_version t ob + 1) (rc_versions t)\<rparr>"
proof -
  let ?t = "\<lparr>rc_records = rs, rc_versions = fmupd ob (rc_version t ob + 1) (rc_versions t)\<rparr>"
  have ver: "rc_version ?t x = (if x = ob then rc_version t ob + 1 else rc_version t x)" for x
    by (simp add: rc_version_def)
  have less: "rc_version t ob < rc_version t ob + 1" by (rule word_Suc_greater [OF no])
  have "0 < rr_version r \<and> rr_version r \<le> rc_version ?t (rr_observer r)" if "r \<in> set rs" for r
  proof (cases "r \<in> set (rc_records t)")
    case True
    then have "0 < rr_version r" "rr_version r \<le> rc_version t (rr_observer r)"
      using wf by (auto simp: rc_wf_def)
    then show ?thesis using less by (cases "rr_observer r = ob") (auto simp: ver)
  next
    case False
    then have "rr_observer r = ob" "rr_version r = rc_version t ob + 1" using rs [OF that] by auto
    then show ?thesis using less by (simp add: ver word_gt_0) (use less in force)
  qed
  then show ?thesis using d by (simp add: rc_wf_def)
qed

lemma rc_wf_change:
  assumes wf: "rc_wf t" and no: "rc_version t ob \<noteq> - 1"
  shows "rc_wf (rc_change t ob su st)"
proof (cases rule: rc_change_cases [of t ob su st])
  case same
  then show ?thesis using wf by simp
next
  case (append w)
  show ?thesis
    unfolding append(5) append(1)
    by (rule rc_wf_new_version [OF wf no]) (use wf append(4) in \<open>auto simp: rc_wf_def\<close>)
next
  case (clear w)
  show ?thesis
    unfolding clear(6) clear(1)
    by (rule rc_wf_new_version [OF wf no]) (use wf in \<open>auto simp: rc_wf_def distinct_map_filter\<close>)
next
  case (update w i)
  let ?new = "\<lparr>rr_observer = ob, rr_subject = su, rr_status = st, rr_version = rc_version t ob + 1\<rparr>"
  have i: "i < length (rc_records t)" "rr_pair (rc_records t ! i) = rr_pair ?new"
    using position_Some [OF update(4)] by auto
  have "map rr_pair ((rc_records t)[i := ?new]) = (map rr_pair (rc_records t))[i := rr_pair ?new]"
    by (rule map_update)
  also have "\<dots> = map rr_pair (rc_records t)"
    using i by (metis list_update_id nth_map)
  finally have "distinct (map rr_pair ((rc_records t)[i := ?new]))"
    using wf by (simp only: rc_wf_def)
  moreover have "r = ?new \<or> r \<in> set (rc_records t)" if "r \<in> set ((rc_records t)[i := ?new])" for r
    using that set_update_subset_insert by fastforce
  ultimately show ?thesis
    unfolding update(5) update(1) by (intro rc_wf_new_version [OF wf no]) fastforce+
qed

section \<open>Merge and remove\<close>

definition rc_newest :: "reachability \<Rightarrow> reachability \<Rightarrow> unique_address \<Rightarrow> reachability" where
  "rc_newest t other ob = (if rc_version t ob \<ge> rc_version other ob then t else other)"

definition merge_rows ::
  "reachability \<Rightarrow> reachability \<Rightarrow> unique_address fset \<Rightarrow> unique_address \<Rightarrow> reachability_record list" where
  "merge_rows t other allowed ob =
     filter (\<lambda>r. rr_subject r |\<in>| allowed) (rc_observer_rows (rc_newest t other ob) ob)"

lemma rc_merge_fold:
  "fold (\<lambda>observer (records, versions).
      let version_left = rc_version t observer; version_right = rc_version other observer;
          rows = (if version_left \<ge> version_right then rc_observer_rows t observer else rc_observer_rows other observer)
      in (records @ filter (\<lambda>r. rr_subject r |\<in>| allowed) rows,
          if version_right > version_left then fmupd observer version_right versions else versions)) obs (rs, vs) =
   (rs @ concat (map (merge_rows t other allowed) obs),
    fold (\<lambda>ob vs. if rc_version t ob < rc_version other ob then fmupd ob (rc_version other ob) vs else vs) obs vs)"
  by (induction obs arbitrary: rs vs) (simp_all add: Let_def merge_rows_def rc_newest_def)

lemma fold_newer_versions:
  "fmlookup (fold (\<lambda>ob vs. if rc_version t ob < rc_version other ob then fmupd ob (rc_version other ob) vs else vs) obs vs) x =
     (if x \<in> set obs \<and> rc_version t x < rc_version other x then Some (rc_version other x) else fmlookup vs x)"
  by (induction obs arbitrary: vs) auto

lemma rc_merge_records:
  "rc_records (rc_merge h t allowed other) = concat (map (merge_rows t other allowed) (h allowed))"
proof (cases "is_unversioned_all_reachable t \<and> is_unversioned_all_reachable other")
  case True
  then have "merge_rows t other allowed ob = []" for ob
    by (auto simp: is_unversioned_all_reachable_def merge_rows_def rc_newest_def rc_observer_rows_def)
  then show ?thesis using True by (simp add: rc_merge_def rc_new_def)
next
  case False
  then show ?thesis unfolding rc_merge_def rc_merge_fold by auto
qed

lemma rc_version_merge:
  assumes "hash_iter_law h"
  shows "rc_version (rc_merge h t allowed other) ob =
    (if ob |\<in>| allowed then max (rc_version t ob) (rc_version other ob) else 0)"
proof (cases "is_unversioned_all_reachable t \<and> is_unversioned_all_reachable other")
  case True
  then have "rc_versions t = fmempty" "rc_versions other = fmempty"
    by (auto simp: is_unversioned_all_reachable_def bt_is_empty_iff)
  then show ?thesis using True by (simp add: rc_merge_def rc_new_def rc_version_def)
next
  case False
  then have "fmlookup (rc_versions (rc_merge h t allowed other)) ob =
      (if ob |\<in>| allowed
       then if rc_version t ob < rc_version other ob then Some (rc_version other ob) else fmlookup (rc_versions t) ob
       else None)"
    using hash_iterD(2) [OF assms, of allowed] unfolding rc_merge_def rc_merge_fold
    by (auto simp: fold_newer_versions)
  then show ?thesis
    by (auto simp: rc_version_def [of "rc_merge h t allowed other"] max_def not_less not_le
        rc_version_def [of t ob, symmetric])
qed

lemma find_concat_single:
  assumes "distinct obs" "\<And>ob r. r \<in> set (f ob) \<Longrightarrow> rr_observer r = ob"
  shows "find (at_pair ob su) (concat (map f obs)) = (if ob \<in> set obs then find (at_pair ob su) (f ob) else None)"
  using assms(1)
proof (induction obs)
  case (Cons x xs)
  show ?case
  proof (cases "ob = x")
    case True
    then show ?thesis using Cons by (simp add: find_append split: option.splits)
  next
    case False
    then have "find (at_pair ob su) (f x) = None" using assms(2) by (intro find_None) auto
    then show ?thesis using Cons False by (simp add: find_append)
  qed
qed simp

lemma rc_status_merge:
  assumes "hash_iter_law h"
  shows "rc_status (rc_merge h t allowed other) ob su =
    (if ob |\<in>| allowed \<and> su |\<in>| allowed then rc_status (rc_newest t other ob) ob su else Reachable)"
proof -
  let ?n = "rc_newest t other ob"
  have rows: "r \<in> set (merge_rows t other allowed x) \<Longrightarrow> rr_observer r = x" for r x
    by (simp add: merge_rows_def rc_observer_rows_def)
  have "find (at_pair ob su) (rc_records (rc_merge h t allowed other)) =
      (if ob |\<in>| allowed then find (at_pair ob su) (merge_rows t other allowed ob) else None)"
    using assms rows by (simp add: rc_merge_records find_concat_single hash_iterD)
  moreover have "find (at_pair ob su) (merge_rows t other allowed ob) =
      (if su |\<in>| allowed then find (at_pair ob su) (rc_records ?n) else None)"
    by (auto simp: merge_rows_def rc_observer_rows_def intro!: find_filter find_None)
  ultimately show ?thesis by (auto simp: rc_status_def)
qed

lemma rc_wf_merge:
  assumes "hash_iter_law h" "rc_wf t" "rc_wf other"
  shows "rc_wf (rc_merge h t allowed other)"
proof -
  have "distinct (map rr_pair (concat (map (merge_rows t other allowed) obs)))" if "distinct obs" for obs
    using that
  proof (induction obs)
    case (Cons x xs)
    have "distinct (map rr_pair (merge_rows t other allowed x))"
      using assms by (auto simp: merge_rows_def rc_observer_rows_def rc_newest_def rc_wf_def distinct_map_filter)
    moreover have "set (map rr_pair (merge_rows t other allowed x)) \<inter>
        set (map rr_pair (concat (map (merge_rows t other allowed) xs))) = {}"
      using Cons.prems by (auto simp: merge_rows_def rc_observer_rows_def)
    ultimately show ?case using Cons by simp
  qed simp
  moreover have "0 < rr_version r \<and> rr_version r \<le> rc_version (rc_merge h t allowed other) (rr_observer r)"
    if "r \<in> set (rc_records (rc_merge h t allowed other))" for r
    using that assms
    by (auto simp: rc_merge_records rc_version_merge hash_iterD merge_rows_def rc_observer_rows_def rc_newest_def
        rc_wf_def le_max_iff_disj split: if_splits)
  ultimately show ?thesis
    unfolding rc_wf_def rc_merge_records using hash_iterD(1) [OF assms(1)]
    by (simp add: rc_merge_records)
qed

lemma rc_status_remove:
  "rc_status (rc_remove t removed) ob su =
     (if ob |\<in>| removed \<or> su |\<in>| removed then Reachable else rc_status t ob su)"
proof -
  have "find (at_pair ob su) (rc_records (rc_remove t removed)) =
      (if ob |\<in>| removed \<or> su |\<in>| removed then None else find (at_pair ob su) (rc_records t))"
    by (auto simp: rc_remove_def intro!: find_filter find_None)
  then show ?thesis by (auto simp: rc_status_def)
qed

lemma rc_version_remove: "rc_version (rc_remove t removed) ob = (if ob |\<in>| removed then 0 else rc_version t ob)"
  by (simp add: rc_version_def rc_remove_def)

lemma rc_wf_remove: "rc_wf t \<Longrightarrow> rc_wf (rc_remove t removed)"
  by (auto simp: rc_wf_def rc_version_remove distinct_map_filter) (auto simp: rc_remove_def distinct_map_filter)

section \<open>Aggregate status\<close>

lemma find_distinct_pair:
  "distinct (map rr_pair rs) \<Longrightarrow> r \<in> set rs \<Longrightarrow> find (at_pair (rr_observer r) (rr_subject r)) rs = Some r"
  by (induction rs) (auto simp: image_iff)

lemma rc_status_record: "rc_wf t \<Longrightarrow> r \<in> set (rc_records t) \<Longrightarrow> rc_status t (rr_observer r) (rr_subject r) = rr_status r"
  by (simp add: rc_status_def rc_wf_def find_distinct_pair)

lemma rc_status_negative:
  "rc_wf t \<Longrightarrow> st \<noteq> Reachable \<Longrightarrow>
     (\<exists>r \<in> set (rc_records t). rr_subject r = su \<and> rr_status r = st) \<longleftrightarrow> (\<exists>ob. rc_status t ob su = st)"
proof (rule iffI)
  show "\<exists>ob. rc_status t ob su = st" if "rc_wf t" "\<exists>r \<in> set (rc_records t). rr_subject r = su \<and> rr_status r = st"
    using that rc_status_record by blast
  show "\<exists>r \<in> set (rc_records t). rr_subject r = su \<and> rr_status r = st"
    if ne: "st \<noteq> Reachable" and ex: "\<exists>ob. rc_status t ob su = st"
  proof -
    obtain ob where "rc_status t ob su = st" using ex by blast
    with ne obtain r where "find (at_pair ob su) (rc_records t) = Some r" "rr_status r = st"
      by (auto simp: rc_status_def split: option.splits)
    then show ?thesis by (auto simp: find_Some_iff)
  qed
qed

lemma rc_status_of_eq:
  "rc_wf t \<Longrightarrow> rc_status_of t su =
     (if \<exists>ob. rc_status t ob su = Terminated then Terminated
      else if \<exists>ob. rc_status t ob su = Unreachable then Unreachable else Reachable)"
  using rc_status_negative [of t Terminated su] rc_status_negative [of t Unreachable su]
  by (simp add: rc_status_of_def list_ex_iff)

lemma mem_unreachable_or_terminated:
  "rc_wf t \<Longrightarrow> su |\<in>| all_unreachable_or_terminated t \<longleftrightarrow> rc_status_of t su \<noteq> Reachable"
  by (auto simp: all_unreachable_or_terminated_def rc_status_of_def list_ex_iff fset_of_list_elem)

section \<open>Properties\<close>

text \<open>
  A report of an observer about a subject changes the status of exactly that pair, unless the
  pair is Terminated, which is final; the observer's row version grows by one exactly when its row
  changes and no other row version moves; the table stays well-formed.
\<close>

lemma reachability_change_effect:
  assumes "rc_wf t" and "rc_version t ob \<noteq> - 1"
  shows "rc_wf (rc_change t ob su st) \<and>
    rc_status (rc_change t ob su st) ob su = (if rc_status t ob su = Terminated then Terminated else st) \<and>
    ((ob', su') \<noteq> (ob, su) \<longrightarrow> rc_status (rc_change t ob su st) ob' su' = rc_status t ob' su') \<and>
    rc_version (rc_change t ob su st) ob' =
      (if ob' = ob \<and> rc_status (rc_change t ob su st) ob su \<noteq> rc_status t ob su
       then rc_version t ob + 1 else rc_version t ob')"
  using rc_wf_change [OF assms] by (auto simp: rc_status_change rc_version_change)

abbreviation node_1 :: unique_address where
  "node_1 \<equiv> UniqueAddress (address_local ''n'') 1"

abbreviation node_2 :: unique_address where
  "node_2 \<equiv> UniqueAddress (address_local ''n'') 2"

lemma rc_wf_new [simp]: "rc_wf rc_new"
  by (simp add: rc_wf_def rc_new_def)

lemma reachability_change_effect_witness:
  "rc_status (rc_unreachable rc_new node_1 node_2) node_1 node_2 = Unreachable \<and>
   rc_wf (rc_unreachable rc_new node_1 node_2)"
  using reachability_change_effect [of rc_new node_1 node_2 Unreachable]
  by (simp add: rc_unreachable_def) (simp add: rc_version_def rc_status_def rc_new_def)

text \<open>
  C27: Merging two tables takes, for every pair of allowed nodes, the observation of the side whose
  row of that observer is newer (this side's on a tie), forgets every other pair, keeps the larger
  row versions, and stays well-formed, for every iteration order of the allowed set.
\<close>

theorem reachability_merge_newest_row:
  assumes "hash_iter_law h" and "rc_wf t" and "rc_wf other"
  shows "rc_wf (rc_merge h t allowed other) \<and>
    rc_status (rc_merge h t allowed other) ob su =
      (if ob |\<in>| allowed \<and> su |\<in>| allowed
       then if rc_version t ob < rc_version other ob then rc_status other ob su else rc_status t ob su
       else Reachable) \<and>
    rc_version (rc_merge h t allowed other) ob =
      (if ob |\<in>| allowed then max (rc_version t ob) (rc_version other ob) else 0)"
  using rc_wf_merge [OF assms]
  by (auto simp: rc_status_merge [OF assms(1)] rc_version_merge [OF assms(1)] rc_newest_def not_le)

theorem reachability_merge_newest_row_witness:
  "rc_status (rc_merge sorted_list_of_fset rc_new {|node_1, node_2|} (rc_unreachable rc_new node_1 node_2)) node_1 node_2 =
     Unreachable"
proof -
  have "rc_version rc_new node_1 \<noteq> - 1" by (simp add: rc_version_def rc_new_def)
  then have "rc_wf (rc_unreachable rc_new node_1 node_2)"
    by (simp add: rc_unreachable_def rc_wf_change)
  moreover have "rc_version rc_new node_1 < rc_version (rc_unreachable rc_new node_1 node_2) node_1"
    "rc_status (rc_unreachable rc_new node_1 node_2) node_1 node_2 = Unreachable"
    by (simp_all add: rc_unreachable_def rc_version_change rc_status_change)
      (simp_all add: rc_version_def rc_status_def rc_new_def)
  ultimately show ?thesis
    using reachability_merge_newest_row [of sorted_list_of_fset rc_new "rc_unreachable rc_new node_1 node_2"
        "{|node_1, node_2|}" node_1 node_2]
    by simp
qed

end
