(* ===== verification/Gossip_State.thy ===== *)
theory Gossip_State
  imports Reachability_Table
begin

text \<open>
  \<open>Gossip\<close> of \<open>kairo-cluster/src/gossip.rs\<close>: the membership state that nodes exchange, with all its
  operations. Hash iterations are the arguments \<open>h\<close>, \<open>hk\<close> (tombstone keys) and \<open>hr\<close> (allowed
  observers); the SHA-1 function is an argument of \<open>seen_digest\<close>. The two-pointer loop of
  \<open>merge_members\<close> is a recursion on the two lists. The lemmas show the invariant (members strictly
  sorted by ordering key, none tombstoned) preserved, give the merged fact of every node, and
  prove that a removed incarnation never comes back, that the merge of membership facts is a semilattice
  as long as no fact is terminal, and that it is not associative otherwise.
\<close>

section \<open>State\<close>

record gossip =
  g_members :: "member list"
  g_seen :: "unique_address fset"
  g_reachability :: reachability
  g_version :: vector_clock
  g_tombstones :: "(unique_address, u64) fmap"

definition g_new :: gossip where
  "g_new = \<lparr>g_members = [], g_seen = {||}, g_reachability = rc_new, g_version = vc_new, g_tombstones = fmempty\<rparr>"

definition vclock_node :: "unique_address \<Rightarrow> vector_clock_node" where
  "vclock_node n = VectorClockNode (show_address (ua_address n) @ ''-'' @ show_nat (unat (ua_uid n)))"

definition normalize_members :: "unique_address hash_iter \<Rightarrow> member list \<Rightarrow> member list" where
  "normalize_members h members =
     (let by_address = fold (\<lambda>m by. fmupd (m_node m)
            (case fmlookup by (m_node m) of None \<Rightarrow> m | Some existing \<Rightarrow> highest_priority existing m) by)
          members fmempty;
          values = map (\<lambda>n. the (fmlookup by_address n)) (h (fmdom by_address))
      in sort_key (\<lambda>m. ordering_key (m_node m)) values)"

definition g_from_members :: "unique_address hash_iter \<Rightarrow> member list \<Rightarrow> gossip" where
  "g_from_members h members = g_new\<lparr>g_members := normalize_members h members\<rparr>"

definition g_from_parts ::
  "unique_address hash_iter \<Rightarrow> member list \<Rightarrow> unique_address list \<Rightarrow> reachability \<Rightarrow> vector_clock
     \<Rightarrow> (unique_address \<times> u64) list \<Rightarrow> gossip" where
  "g_from_parts h members seen reachability version tombstones =
     \<lparr>g_members = normalize_members h members, g_seen = fset_of_list seen, g_reachability = reachability,
      g_version = version, g_tombstones = bt_collect tombstones\<rparr>"

definition g_member :: "gossip \<Rightarrow> unique_address \<Rightarrow> member option" where
  "g_member g node = find (\<lambda>m. m_node m = node) (g_members g)"

definition g_has_member :: "gossip \<Rightarrow> unique_address \<Rightarrow> bool" where
  "g_has_member g node \<longleftrightarrow> g_member g node \<noteq> None"

fun join_with :: "string \<Rightarrow> string list \<Rightarrow> string" where
  "join_with sep [] = []"
| "join_with sep [s] = s"
| "join_with sep (s # ss) = s @ sep @ join_with sep ss"

definition seen_digest :: "(string \<Rightarrow> 'b) \<Rightarrow> unique_address hash_iter \<Rightarrow> gossip \<Rightarrow> 'b" where
  "seen_digest sha1 h g =
     sha1 (join_with '','' (map (\<lambda>n. show_address (ua_address n)) (sort_key ordering_key (h (g_seen g)))))"

section \<open>Operations\<close>

definition g_increment_version :: "gossip \<Rightarrow> unique_address \<Rightarrow> gossip" where
  "g_increment_version g node = g\<lparr>g_version := vc_increment (g_version g) (vclock_node node)\<rparr>"

definition g_add_member :: "unique_address hash_iter \<Rightarrow> gossip \<Rightarrow> member \<Rightarrow> gossip" where
  "g_add_member h g member = g\<lparr>g_members := normalize_members h (g_members g @ [member])\<rparr>"

definition g_update_members :: "unique_address hash_iter \<Rightarrow> gossip \<Rightarrow> member list \<Rightarrow> gossip" where
  "g_update_members h g changed =
     (let changed_members = bt_collect (map (\<lambda>m. (m_node m, m)) changed)
      in if bt_is_empty changed_members then g
         else g\<lparr>g_members := normalize_members h
           (map (\<lambda>m. unwrap_or (fmlookup changed_members (m_node m)) m) (g_members g))\<rparr>)"

definition g_seen_by_node :: "gossip \<Rightarrow> unique_address \<Rightarrow> gossip" where
  "g_seen_by_node g node = (if node |\<in>| g_seen g then g else g\<lparr>g_seen := finsert node (g_seen g)\<rparr>)"

definition g_merge_seen :: "gossip \<Rightarrow> gossip \<Rightarrow> gossip" where
  "g_merge_seen g other = g\<lparr>g_seen := g_seen g |\<union>| g_seen other\<rparr>"

definition g_only_seen :: "gossip \<Rightarrow> unique_address \<Rightarrow> gossip" where
  "g_only_seen g node = g\<lparr>g_seen := {|node|}\<rparr>"

definition g_clear_seen :: "gossip \<Rightarrow> gossip" where
  "g_clear_seen g = g\<lparr>g_seen := {||}\<rparr>"

definition g_with_reachability :: "gossip \<Rightarrow> reachability \<Rightarrow> gossip" where
  "g_with_reachability g reachability = g\<lparr>g_reachability := reachability\<rparr>"

definition g_mark_down :: "gossip \<Rightarrow> unique_address \<Rightarrow> gossip" where
  "g_mark_down g node =
     g\<lparr>g_members := map (\<lambda>m. if m_node m = node then with_status m Down else m) (g_members g),
       g_seen := g_seen g |-| {|node|}\<rparr>"

definition g_remove :: "gossip \<Rightarrow> unique_address \<Rightarrow> u64 \<Rightarrow> gossip" where
  "g_remove g node timestamp =
     \<lparr>g_members = filter (\<lambda>m. m_node m \<noteq> node) (g_members g),
      g_seen = g_seen g |-| {|node|},
      g_reachability = rc_remove (g_reachability g) {|node|},
      g_version = vc_prune (g_version g) (vclock_node node),
      g_tombstones = fmupd node timestamp (g_tombstones g)\<rparr>"

definition push_single_sided_member :: "member \<Rightarrow> (unique_address, u64) fmap \<Rightarrow> member list" where
  "push_single_sided_member m tombstones =
     (if fmlookup tombstones (m_node m) = None \<and> \<not> is_removed_by_single_sided_merge (m_status m) then [m] else [])"

fun merge_members :: "member list \<Rightarrow> member list \<Rightarrow> (unique_address, u64) fmap \<Rightarrow> member list" where
  "merge_members (l # ls) (r # rs) tombstones =
     (if m_node l = m_node r then highest_priority l r # merge_members ls rs tombstones
      else if ordering_key (m_node l) \<le> ordering_key (m_node r)
      then push_single_sided_member l tombstones @ merge_members ls (r # rs) tombstones
      else push_single_sided_member r tombstones @ merge_members (l # ls) rs tombstones)"
| "merge_members [] rs tombstones = concat (map (\<lambda>m. push_single_sided_member m tombstones) rs)"
| "merge_members ls [] tombstones = concat (map (\<lambda>m. push_single_sided_member m tombstones) ls)"

definition g_merge :: "unique_address hash_iter \<Rightarrow> unique_address hash_iter \<Rightarrow> gossip \<Rightarrow> gossip \<Rightarrow> gossip" where
  "g_merge hk hr g other =
     (let tombstones = g_tombstones g ++\<^sub>f g_tombstones other;
          version = fold (\<lambda>node clock. vc_prune clock (vclock_node node)) (hk (fmdom tombstones))
            (vc_merge (g_version g) (g_version other));
          members = merge_members (g_members g) (g_members other) tombstones;
          reachability =
            (if is_unversioned_all_reachable (g_reachability g) \<and> is_unversioned_all_reachable (g_reachability other)
             then rc_new
             else rc_merge hr (g_reachability g) (fset_of_list (map m_node members)) (g_reachability other))
      in \<lparr>g_members = members, g_seen = {||}, g_reachability = reachability, g_version = version,
          g_tombstones = tombstones\<rparr>)"

section \<open>Invariant\<close>

abbreviation m_key :: "member \<Rightarrow> string" where
  "m_key m \<equiv> ordering_key (m_node m)"

definition members_wf :: "member list \<Rightarrow> bool" where
  "members_wf ms \<longleftrightarrow> sorted_wrt (<) (map m_key ms) \<and> (\<forall>m \<in> set ms. wf_node (m_node m))"

text \<open>Members strictly sorted by key, no member tombstoned, a well-formed reachability table.\<close>

definition g_wf :: "gossip \<Rightarrow> bool" where
  "g_wf g \<longleftrightarrow> members_wf (g_members g) \<and> (\<forall>m \<in> set (g_members g). fmlookup (g_tombstones g) (m_node m) = None) \<and>
     rc_wf (g_reachability g) \<and> fmpred (\<lambda>n _. wf_node n) (g_tombstones g)"

section \<open>Member lists\<close>

abbreviation lookup_node :: "member list \<Rightarrow> unique_address \<Rightarrow> member option" where
  "lookup_node ms n \<equiv> find (\<lambda>m. m_node m = n) ms"

lemma members_wf_simps [simp]:
  "members_wf []"
  "members_wf (m # ms) \<longleftrightarrow> wf_node (m_node m) \<and> (\<forall>x \<in> set ms. m_key m < m_key x) \<and> members_wf ms"
  by (auto simp: members_wf_def)

lemma lookup_node_Some: "lookup_node ms n = Some m \<Longrightarrow> m \<in> set ms \<and> m_node m = n"
  by (auto simp: find_Some_iff)

lemma lookup_node_None: "lookup_node ms n = None \<longleftrightarrow> n \<notin> m_node ` set ms"
  by (auto simp: find_None_iff)

lemma lookup_node_mem: "members_wf ms \<Longrightarrow> m \<in> set ms \<Longrightarrow> lookup_node ms (m_node m) = Some m"
  by (induction ms) auto

lemma members_wf_distinct: "members_wf ms \<Longrightarrow> distinct (map m_key ms)"
  by (simp add: members_wf_def strict_sorted_iff)

lemma members_wf_eqI:
  assumes "members_wf ms" "members_wf ns" "\<And>n. lookup_node ms n = lookup_node ns n"
  shows "ms = ns"
proof -
  have sub: "set xs \<subseteq> set ys" if "members_wf xs" "\<And>n. lookup_node xs n = lookup_node ys n" for xs ys
  proof
    fix m assume "m \<in> set xs"
    then have "lookup_node ys (m_node m) = Some m"
      using lookup_node_mem [OF that(1)] that(2) [of "m_node m"] by simp
    then show "m \<in> set ys" using lookup_node_Some by blast
  qed
  have set: "set ms = set ns"
    using sub [OF assms(1,3)] sub [OF assms(2) assms(3) [symmetric]] by blast
  have "map m_key ms = map m_key ns"
    using assms(1,2) set by (intro strict_sorted_equal) (auto simp: members_wf_def)
  moreover have "inj_on m_key (set ms \<union> set ns)"
    using members_wf_distinct [OF assms(1)] set by (simp add: distinct_map)
  ultimately show ?thesis by (rule map_inj_on)
qed

section \<open>Merging member lists\<close>

text \<open>The merged fact of one node, from the facts of both sides.\<close>

definition merge_fact :: "bool \<Rightarrow> member option \<Rightarrow> member option \<Rightarrow> member option" where
  "merge_fact tombstoned x y = (case (x, y) of
      (Some a, Some b) \<Rightarrow> Some (highest_priority a b)
    | (Some a, None) \<Rightarrow> if tombstoned \<or> is_removed_by_single_sided_merge (m_status a) then None else Some a
    | (None, Some b) \<Rightarrow> if tombstoned \<or> is_removed_by_single_sided_merge (m_status b) then None else Some b
    | (None, None) \<Rightarrow> None)"

abbreviation tombstoned :: "(unique_address, u64) fmap \<Rightarrow> unique_address \<Rightarrow> bool" where
  "tombstoned ts n \<equiv> fmlookup ts n \<noteq> None"

lemma push_single_eq:
  "push_single_sided_member m ts =
     (if tombstoned ts (m_node m) \<or> is_removed_by_single_sided_merge (m_status m) then [] else [m])"
  by (simp add: push_single_sided_member_def)

lemma set_push_single: "x \<in> set (push_single_sided_member m ts) \<Longrightarrow> x = m"
  by (simp add: push_single_eq split: if_splits)

lemma merge_fact_None [simp]: "merge_fact t None None = None"
  by (simp add: merge_fact_def)

lemma concat_push_eq:
  "concat (map (\<lambda>m. push_single_sided_member m ts) ms) =
     filter (\<lambda>m. \<not> (tombstoned ts (m_node m) \<or> is_removed_by_single_sided_merge (m_status m))) ms"
  by (induction ms) (simp_all add: push_single_eq)

lemma merge_members_Nil:
  "merge_members [] ms ts =
     filter (\<lambda>m. \<not> (tombstoned ts (m_node m) \<or> is_removed_by_single_sided_merge (m_status m))) ms"
  "merge_members ms [] ts =
     filter (\<lambda>m. \<not> (tombstoned ts (m_node m) \<or> is_removed_by_single_sided_merge (m_status m))) ms"
proof -
  show "merge_members [] ms ts =
     filter (\<lambda>m. \<not> (tombstoned ts (m_node m) \<or> is_removed_by_single_sided_merge (m_status m))) ms"
    by (simp only: merge_members.simps concat_push_eq)
  show "merge_members ms [] ts =
     filter (\<lambda>m. \<not> (tombstoned ts (m_node m) \<or> is_removed_by_single_sided_merge (m_status m))) ms"
    by (cases ms) (simp_all only: merge_members.simps concat_push_eq)
qed

lemma members_wf_filter: "members_wf ms \<Longrightarrow> members_wf (filter P ms)"
  by (induction ms) auto

lemma lookup_filter_node:
  "members_wf ms \<Longrightarrow> lookup_node (filter P ms) n =
     (case lookup_node ms n of None \<Rightarrow> None | Some m \<Rightarrow> if P m then Some m else None)"
proof (induction ms)
  case (Cons m ms)
  have "lookup_node ms (m_node m) = None" using Cons.prems by (force simp: find_None_iff)
  then show ?case using Cons by auto
qed simp

lemma lookup_push_append:
  "lookup_node (push_single_sided_member m ts @ ms) n =
     (if m_node m = n \<and> \<not> (tombstoned ts n \<or> is_removed_by_single_sided_merge (m_status m))
      then Some m else lookup_node ms n)"
  by (auto simp: push_single_eq)

lemma merge_members_nodes:
  "x \<in> set (merge_members ls rs ts) \<Longrightarrow> \<exists>m \<in> set ls \<union> set rs. m_node x = m_node m"
proof (induction ls rs ts rule: merge_members.induct)
  case (1 l ls r rs ts)
  then show ?case
    by (auto simp: highest_priority_eq split: if_splits dest!: set_push_single)
qed (auto simp: concat_push_eq dest!: set_push_single)

lemma key_eq_node: "wf_node (m_node a) \<Longrightarrow> wf_node (m_node b) \<Longrightarrow> m_key a = m_key b \<longleftrightarrow> m_node a = m_node b"
  by (rule ordering_key_inj)

lemma members_wf_merge:
  "members_wf ls \<Longrightarrow> members_wf rs \<Longrightarrow> members_wf (merge_members ls rs ts)"
proof (induction ls rs ts rule: merge_members.induct)
  case (1 l ls r rs ts)
  have key: "m_key x = m_key m" if "m_node x = m_node m" for x m :: member using that by simp
  show ?case
  proof (cases "m_node l = m_node r")
    case True
    have "m_key l < m_key x" if "x \<in> set (merge_members ls rs ts)" for x
      using merge_members_nodes [OF that] 1(4,5) True by (auto dest: key)
    then show ?thesis using 1 True by (auto simp: highest_priority_eq)
  next
    case ne: False
    show ?thesis
    proof (cases "m_key l \<le> m_key r")
      case True
      then have less: "m_key l < m_key r"
        using ne 1(4,5) key_eq_node [of l r] by auto
      have "m_key l < m_key x" if "x \<in> set (merge_members ls (r # rs) ts)" for x
        using merge_members_nodes [OF that] 1(4,5) less by (auto dest: key)
      then show ?thesis using 1 ne True by (auto simp: push_single_eq)
    next
      case False
      have "m_key r < m_key x" if "x \<in> set (merge_members (l # ls) rs ts)" for x
        using merge_members_nodes [OF that] 1(4,5) False by (auto dest: key)
      then show ?thesis using 1 ne False by (auto simp: push_single_eq)
    qed
  qed
next
  case (2 rs ts)
  then show ?case by (simp only: merge_members_Nil members_wf_filter)
next
  case (3 l ls ts)
  then show ?case by (simp only: merge_members_Nil members_wf_filter)
qed

lemma lookup_Cons_node: "lookup_node (l # ls) n = (if m_node l = n then Some l else lookup_node ls n)"
  by simp

lemma lookup_push_left:
  assumes "lookup_node M n = merge_fact (tombstoned ts n) (lookup_node ls n) R"
    and "lookup_node ls (m_node l) = None" and "n = m_node l \<Longrightarrow> R = None"
  shows "lookup_node (push_single_sided_member l ts @ M) n = merge_fact (tombstoned ts n) (lookup_node (l # ls) n) R"
  using assms by (cases "n = m_node l") (simp_all add: lookup_push_append merge_fact_def)

lemma lookup_push_right:
  assumes "lookup_node M n = merge_fact (tombstoned ts n) L (lookup_node rs n)"
    and "lookup_node rs (m_node r) = None" and "n = m_node r \<Longrightarrow> L = None"
  shows "lookup_node (push_single_sided_member r ts @ M) n = merge_fact (tombstoned ts n) L (lookup_node (r # rs) n)"
  using assms by (cases "n = m_node r") (simp_all add: lookup_push_append merge_fact_def)

lemma lookup_above_None: "members_wf ms \<Longrightarrow> \<forall>m \<in> set ms. m_key x < m_key m \<Longrightarrow> lookup_node ms (m_node x) = None"
  by (force simp: find_None_iff)

lemma lookup_single_sided:
  assumes "members_wf ms"
  shows "lookup_node (merge_members [] ms ts) n = merge_fact (tombstoned ts n) None (lookup_node ms n)"
    and "lookup_node (merge_members ms [] ts) n = merge_fact (tombstoned ts n) (lookup_node ms n) None"
proof -
  have node: "m_node m = n" if "lookup_node ms n = Some m" for m using that lookup_node_Some by blast
  show "lookup_node (merge_members [] ms ts) n = merge_fact (tombstoned ts n) None (lookup_node ms n)"
    unfolding merge_members_Nil lookup_filter_node [OF assms]
    using node by (cases "lookup_node ms n") (simp_all add: merge_fact_def)
  show "lookup_node (merge_members ms [] ts) n = merge_fact (tombstoned ts n) (lookup_node ms n) None"
    unfolding merge_members_Nil lookup_filter_node [OF assms]
    using node by (cases "lookup_node ms n") (simp_all add: merge_fact_def)
qed

lemma lookup_merge_members:
  "members_wf ls \<Longrightarrow> members_wf rs \<Longrightarrow>
     lookup_node (merge_members ls rs ts) n = merge_fact (tombstoned ts n) (lookup_node ls n) (lookup_node rs n)"
proof (induction ls rs ts rule: merge_members.induct)
  case (1 l ls r rs ts)
  have wf: "members_wf ls" "members_wf rs" "wf_node (m_node l)" "wf_node (m_node r)"
    and above: "\<forall>m \<in> set ls. m_key l < m_key m" "\<forall>m \<in> set rs. m_key r < m_key m"
    using 1(4,5) by simp_all
  have nl: "lookup_node ls (m_node l) = None" and nr: "lookup_node rs (m_node r) = None"
    using wf above by (auto intro: lookup_above_None)
  consider (eq) "m_node l = m_node r" | (left) "m_node l \<noteq> m_node r" "m_key l < m_key r"
    | (right) "m_node l \<noteq> m_node r" "m_key r < m_key l"
    using key_eq_node [OF wf(3,4)] by (metis linorder_less_linear)
  then show ?case
  proof cases
    case eq
    have IH: "lookup_node (merge_members ls rs ts) n = merge_fact (tombstoned ts n) (lookup_node ls n) (lookup_node rs n)"
      using 1(1) [OF eq] wf by simp
    have m: "merge_members (l # ls) (r # rs) ts = highest_priority l r # merge_members ls rs ts"
      using eq by simp
    show ?thesis unfolding m lookup_Cons_node IH using eq nl nr by (auto simp: merge_fact_def)
  next
    case left
    have IH: "lookup_node (merge_members ls (r # rs) ts) n =
        merge_fact (tombstoned ts n) (lookup_node ls n) (lookup_node (r # rs) n)"
      using 1(2) [OF left(1) less_imp_le [OF left(2)]] 1(4,5) by simp
    have "\<forall>m \<in> set (r # rs). m_key l < m_key m"
      using left(2) above(2) by (auto intro: order.strict_trans)
    note none = lookup_above_None [OF 1(5) this]
    have "n = m_node l \<Longrightarrow> lookup_node (r # rs) n = None" by (simp only: none)
    moreover have "merge_members (l # ls) (r # rs) ts = push_single_sided_member l ts @ merge_members ls (r # rs) ts"
      using left(1) less_imp_le [OF left(2)] by simp
    ultimately show ?thesis using lookup_push_left [OF IH nl] by (simp only:)
  next
    case right
    have IH: "lookup_node (merge_members (l # ls) rs ts) n =
        merge_fact (tombstoned ts n) (lookup_node (l # ls) n) (lookup_node rs n)"
      using 1(3) [OF right(1) right(2) [folded not_le]] 1(4,5) by simp
    have "\<forall>m \<in> set (l # ls). m_key r < m_key m"
      using right(2) above(1) by (auto intro: order.strict_trans)
    note none = lookup_above_None [OF 1(4) this]
    have "n = m_node r \<Longrightarrow> lookup_node (l # ls) n = None" by (simp only: none)
    moreover have "merge_members (l # ls) (r # rs) ts = push_single_sided_member r ts @ merge_members (l # ls) rs ts"
      using right(1) right(2) [folded not_le] by simp
    ultimately show ?thesis using lookup_push_right [OF IH nr] by (simp only:)
  qed
next
  case (2 rs ts)
  then show ?case by (simp only: lookup_single_sided) simp
next
  case (3 l ls ts)
  then show ?case by (simp only: lookup_single_sided) simp
qed

section \<open>Normalized member lists\<close>

definition by_address :: "member list \<Rightarrow> (unique_address, member) fmap" where
  "by_address members = fold (\<lambda>m by. fmupd (m_node m)
     (case fmlookup by (m_node m) of None \<Rightarrow> m | Some existing \<Rightarrow> highest_priority existing m) by) members fmempty"

lemma normalize_members_eq:
  "normalize_members h ms = sort_key m_key (map (\<lambda>n. the (fmlookup (by_address ms) n)) (h (fmdom (by_address ms))))"
  by (simp add: normalize_members_def by_address_def Let_def)

lemma by_address_step:
  "by_address (ms @ [m]) = fmupd (m_node m)
     (case fmlookup (by_address ms) (m_node m) of None \<Rightarrow> m | Some e \<Rightarrow> highest_priority e m) (by_address ms)"
  by (simp add: by_address_def)

lemma by_address_node: "fmlookup (by_address ms) n = Some m \<Longrightarrow> m_node m = n \<and> m \<in> set ms"
  by (induction ms arbitrary: m rule: rev_induct)
    (auto simp: by_address_step by_address_def [of "[]"] highest_priority_eq split: if_splits option.splits)

lemma lookup_node_distinct:
  "distinct (map m_node ms) \<Longrightarrow> lookup_node ms n = Some m \<longleftrightarrow> m \<in> set ms \<and> m_node m = n"
  by (induction ms) (auto simp: image_iff)

lemma option_eqI: "(\<And>m. x = Some m \<longleftrightarrow> y = Some m) \<Longrightarrow> x = y"
  by (cases x; cases y) auto

lemma by_address_distinct: "distinct (map m_node ms) \<Longrightarrow> fmlookup (by_address ms) n = lookup_node ms n"
proof (induction ms arbitrary: n rule: rev_induct)
  case (snoc m ms)
  then have "fmlookup (by_address ms) (m_node m) = None" by (auto simp: lookup_node_None)
  with snoc show ?case by (auto simp: by_address_step find_append split: option.splits)
qed (simp add: by_address_def)

lemma sort_key_members_wf:
  assumes "distinct (map m_node ms)" "\<forall>m \<in> set ms. wf_node (m_node m)"
  shows "members_wf (sort_key m_key ms)"
proof -
  have "inj_on m_key (set ms)"
    using assms key_eq_node by (auto simp: inj_on_def distinct_map)
  then have "distinct (map m_key (sort_key m_key ms))"
    using assms(1) by (auto simp: distinct_map distinct_sort)
  then show ?thesis using assms(2) by (simp add: members_wf_def strict_sorted_iff)
qed

lemma members_wf_distinct_nodes: "members_wf ms \<Longrightarrow> distinct (map m_node ms)"
  using members_wf_distinct [of ms] by (auto simp: distinct_map inj_on_def)

lemma normalize_members_correct:
  assumes h: "hash_iter_law h" and wf: "\<forall>m \<in> set ms. wf_node (m_node m)"
  shows "members_wf (normalize_members h ms)"
    and "lookup_node (normalize_members h ms) n = fmlookup (by_address ms) n"
proof -
  let ?b = "by_address ms"
  let ?vs = "map (\<lambda>n. the (fmlookup ?b n)) (h (fmdom ?b))"
  have dom: "k \<in> set (h (fmdom ?b)) \<longleftrightarrow> (\<exists>m. fmlookup ?b k = Some m)" for k
    using hash_iterD(2) [OF h, of "fmdom ?b"] by (auto simp: fmlookup_dom_iff)
  have "map m_node ?vs = h (fmdom ?b)"
    unfolding map_map comp_def by (intro map_idI) (use dom by_address_node in fastforce)
  then have d: "distinct (map m_node ?vs)" using hash_iterD(1) [OF h] by simp
  have "\<forall>m \<in> set ?vs. wf_node (m_node m)" using dom wf by_address_node by fastforce
  with d show m: "members_wf (normalize_members h ms)"
    by (simp only: normalize_members_eq sort_key_members_wf)
  have d': "distinct (map m_node (normalize_members h ms))"
    using m by (rule members_wf_distinct_nodes)
  have mem: "m \<in> set (normalize_members h ms) \<longleftrightarrow> fmlookup ?b (m_node m) = Some m" for m
  proof
    assume "m \<in> set (normalize_members h ms)"
    then obtain k where k: "k \<in> set (h (fmdom ?b))" "m = the (fmlookup ?b k)"
      by (auto simp: normalize_members_eq)
    then obtain x where "fmlookup ?b k = Some x" using dom by blast
    with k show "fmlookup ?b (m_node m) = Some m" using by_address_node [of ms k x] by simp
  next
    assume m: "fmlookup ?b (m_node m) = Some m"
    then have "m_node m \<in> set (h (fmdom ?b))" using dom by blast
    then have "the (fmlookup ?b (m_node m)) \<in> set (normalize_members h ms)"
      by (simp add: normalize_members_eq)
    then show "m \<in> set (normalize_members h ms)" by (simp add: m)
  qed
  have "lookup_node (normalize_members h ms) n = Some m \<longleftrightarrow> fmlookup ?b n = Some m" for m
    unfolding lookup_node_distinct [OF d'] mem using by_address_node by blast
  then show "lookup_node (normalize_members h ms) n = fmlookup ?b n"
    by (rule option_eqI)
qed

lemma normalize_members_wf:
  assumes "hash_iter_law h" "distinct (map m_node ms)" "\<forall>m \<in> set ms. wf_node (m_node m)"
  shows "lookup_node (normalize_members h ms) n = lookup_node ms n"
  using normalize_members_correct(2) [OF assms(1,3)] by_address_distinct [OF assms(2)] by simp

lemma members_wf_nodes: "members_wf ms \<Longrightarrow> \<forall>m \<in> set ms. wf_node (m_node m)"
  by (simp add: members_wf_def)

lemma normalize_members_idem: "hash_iter_law h \<Longrightarrow> members_wf ms \<Longrightarrow> normalize_members h ms = ms"
  by (rule members_wf_eqI)
    (simp_all add: normalize_members_correct(1) normalize_members_wf members_wf_distinct_nodes members_wf_nodes)

section \<open>Gossip merge\<close>

lemma g_merge_simps [simp]:
  "g_members (g_merge hk hr a b) = merge_members (g_members a) (g_members b) (g_tombstones a ++\<^sub>f g_tombstones b)"
  "g_seen (g_merge hk hr a b) = {||}"
  "g_tombstones (g_merge hk hr a b) = g_tombstones a ++\<^sub>f g_tombstones b"
  by (simp_all add: g_merge_def Let_def)

lemma g_reachability_merge:
  "g_reachability (g_merge hk hr a b) =
     rc_merge hr (g_reachability a) (fset_of_list (map m_node (g_members (g_merge hk hr a b)))) (g_reachability b)"
  by (simp add: g_merge_def Let_def) (simp add: rc_merge_def)

lemma vc_get_fold_prune:
  "vc_get (fold (\<lambda>n c. vc_prune c (vclock_node n)) ns c) k =
     (if k \<in> vclock_node ` set ns then 0 else vc_get c k)"
  by (induction ns arbitrary: c) auto

lemma g_version_merge:
  assumes "hash_iter_law hk"
  shows "vc_get (g_version (g_merge hk hr a b)) k =
    (if \<exists>t. (tombstoned (g_tombstones a) t \<or> tombstoned (g_tombstones b) t) \<and> vclock_node t = k then 0
     else max (vc_get (g_version a) k) (vc_get (g_version b) k))"
proof -
  let ?ts = "g_tombstones a ++\<^sub>f g_tombstones b"
  have "k \<in> vclock_node ` set (hk (fmdom ?ts)) \<longleftrightarrow>
      (\<exists>t. (tombstoned (g_tombstones a) t \<or> tombstoned (g_tombstones b) t) \<and> vclock_node t = k)"
    unfolding hash_iterD(2) [OF assms] by (auto simp: fmlookup_dom_iff) (auto intro: rev_image_eqI fmdomI)
  then show ?thesis by (simp only: g_merge_def Let_def gossip.simps vc_get_fold_prune vc_get_merge)
qed

lemma tombstoned_merge: "tombstoned (s ++\<^sub>f t) n \<longleftrightarrow> tombstoned s n \<or> tombstoned t n"
  by (auto simp: fmlookup_dom_iff)

lemma g_member_merge:
  assumes "g_wf a" "g_wf b"
  shows "g_member (g_merge hk hr a b) n =
    merge_fact (tombstoned (g_tombstones a) n \<or> tombstoned (g_tombstones b) n) (g_member a n) (g_member b n)"
  unfolding g_member_def g_merge_simps
  using lookup_merge_members [of "g_members a" "g_members b"] assms
  by (simp only: g_wf_def tombstoned_merge)

lemma g_wf_not_tombstoned: "g_wf g \<Longrightarrow> g_member g n = Some m \<Longrightarrow> fmlookup (g_tombstones g) n = None"
  using lookup_node_Some [of n "g_members g" m] by (auto simp: g_wf_def g_member_def)

lemma g_member_node: "g_member g n = Some m \<Longrightarrow> m \<in> set (g_members g) \<and> m_node m = n"
  unfolding g_member_def by (rule lookup_node_Some)

lemma g_wf_members: "g_wf g \<Longrightarrow> members_wf (g_members g)"
  by (simp add: g_wf_def)

lemma mem_g_members: "g_wf g \<Longrightarrow> m \<in> set (g_members g) \<longleftrightarrow> g_member g (m_node m) = Some m"
  using lookup_node_mem [OF g_wf_members, of g m] g_member_node [of g "m_node m" m]
  unfolding g_member_def by blast

lemma g_wf_merge:
  assumes "hash_iter_law hr" "g_wf a" "g_wf b"
  shows "g_wf (g_merge hk hr a b)"
proof -
  let ?g = "g_merge hk hr a b"
  have mw: "members_wf (g_members ?g)"
    using assms(2,3) by (simp add: g_wf_members members_wf_merge)
  have "fmlookup (g_tombstones ?g) (m_node m) = None" if "m \<in> set (g_members ?g)" for m
  proof -
    have "g_member ?g (m_node m) = Some m"
      unfolding g_member_def using mw that by (rule lookup_node_mem)
    then show ?thesis
      using g_wf_not_tombstoned [OF assms(2), of "m_node m"] g_wf_not_tombstoned [OF assms(3), of "m_node m"]
      unfolding g_member_merge [OF assms(2,3)]
      by (auto simp: merge_fact_def fmlookup_dom_iff split: option.splits if_splits)
  qed
  moreover have "rc_wf (g_reachability ?g)"
    unfolding g_reachability_merge using assms by (intro rc_wf_merge) (simp_all add: g_wf_def)
  moreover have "fmpred (\<lambda>n _. wf_node n) (g_tombstones ?g)"
    using assms(2,3) by (auto simp: g_wf_def fmpred_iff split: if_splits)
  ultimately show ?thesis using mw by (simp add: g_wf_def)
qed

section \<open>Other operations\<close>

lemma g_member_remove:
  assumes "g_wf g"
  shows "g_member (g_remove g node ts) n = (if n = node then None else g_member g n)"
proof -
  have "g_member (g_remove g node ts) n =
      (case lookup_node (g_members g) n of None \<Rightarrow> None | Some m \<Rightarrow> if m_node m \<noteq> node then Some m else None)"
    unfolding g_member_def g_remove_def gossip.simps by (rule lookup_filter_node [OF g_wf_members [OF assms]])
  also have "\<dots> = (if n = node then None else lookup_node (g_members g) n)"
  proof (cases "lookup_node (g_members g) n")
    case (Some m)
    then have "m_node m = n" using lookup_node_Some by blast
    with Some show ?thesis by simp
  qed simp
  finally show ?thesis by (simp only: g_member_def)
qed

lemma g_wf_remove: "g_wf g \<Longrightarrow> wf_node node \<Longrightarrow> g_wf (g_remove g node ts)"
  by (auto simp: g_wf_def g_remove_def members_wf_filter rc_wf_remove fmpred_iff split: if_splits)

lemma g_wf_fields:
  "g_members g' = g_members g \<Longrightarrow> g_reachability g' = g_reachability g \<Longrightarrow> g_tombstones g' = g_tombstones g \<Longrightarrow>
     g_wf g' = g_wf g"
  by (simp add: g_wf_def)

lemma g_wf_ops [simp]:
  "g_wf g_new"
  "g_wf (g_increment_version g n) = g_wf g" "g_wf (g_seen_by_node g n) = g_wf g" "g_wf (g_merge_seen g g') = g_wf g"
  "g_wf (g_only_seen g n) = g_wf g" "g_wf (g_clear_seen g) = g_wf g"
proof -
  show "g_wf g_new" by (simp add: g_wf_def g_new_def)
qed (rule g_wf_fields; simp add: g_increment_version_def g_seen_by_node_def g_merge_seen_def g_only_seen_def
    g_clear_seen_def)+

lemma members_wf_map: "(\<And>m. m_node (f m) = m_node m) \<Longrightarrow> members_wf (map f ms) = members_wf ms"
  by (simp add: members_wf_def comp_def)

lemma g_wf_map_members:
  "(\<And>m. m_node (f m) = m_node m) \<Longrightarrow> g_wf (g\<lparr>g_members := map f (g_members g), g_seen := s\<rparr>) = g_wf g"
  by (simp add: g_wf_def members_wf_map)

lemma g_wf_mark_down: "g_wf (g_mark_down g n) = g_wf g"
  unfolding g_mark_down_def by (rule g_wf_map_members) (simp add: with_status_def)

lemma g_wf_add_member:
  assumes "hash_iter_law h" "g_wf g" "wf_node (m_node m)" "\<not> tombstoned (g_tombstones g) (m_node m)"
  shows "g_wf (g_add_member h g m)"
proof -
  have wf: "\<forall>x \<in> set (g_members g @ [m]). wf_node (m_node x)"
    using assms by (auto simp: g_wf_def members_wf_def)
  have "fmlookup (g_tombstones g) (m_node x) = None" if "x \<in> set (normalize_members h (g_members g @ [m]))" for x
  proof -
    have "lookup_node (normalize_members h (g_members g @ [m])) (m_node x) = Some x"
      using normalize_members_correct(1) [OF assms(1) wf] that by (rule lookup_node_mem)
    then have "x \<in> set (g_members g @ [m])"
      unfolding normalize_members_correct(2) [OF assms(1) wf] using by_address_node by blast
    then show ?thesis using assms by (auto simp: g_wf_def)
  qed
  then show ?thesis
    using assms normalize_members_correct(1) [OF assms(1) wf] by (simp add: g_wf_def g_add_member_def)
qed

section \<open>Properties\<close>

text \<open>
  C16: Merging two well-formed gossips, whatever the hash iteration orders: the result is well-formed and seen
  by nobody; a node known to both keeps the fact of highest priority, a node known to one side only
  is kept unless it is tombstoned or terminal; the version is the maximum of both, without the
  dimensions of tombstoned nodes.
\<close>

theorem gossip_merge_correct:
  assumes "hash_iter_law hk" and "hash_iter_law hr" and "g_wf a" and "g_wf b"
  shows "g_wf (g_merge hk hr a b) \<and> g_seen (g_merge hk hr a b) = {||} \<and>
    g_member (g_merge hk hr a b) n =
      merge_fact (tombstoned (g_tombstones a) n \<or> tombstoned (g_tombstones b) n) (g_member a n) (g_member b n) \<and>
    vc_get (g_version (g_merge hk hr a b)) k =
      (if \<exists>t. (tombstoned (g_tombstones a) t \<or> tombstoned (g_tombstones b) t) \<and> vclock_node t = k then 0
       else max (vc_get (g_version a) k) (vc_get (g_version b) k))"
  by (intro conjI g_wf_merge [OF assms(2-4)] g_member_merge [OF assms(3,4)] g_version_merge [OF assms(1)]
      g_merge_simps)

abbreviation up_member :: "unique_address \<Rightarrow> member" where
  "up_member n \<equiv> with_status (member_new n []) Up"

abbreviation gossip_of :: "member list \<Rightarrow> gossip" where
  "gossip_of ms \<equiv> g_new\<lparr>g_members := ms\<rparr>"

lemma wf_node_1 [simp]: "wf_node node_1" "wf_node node_2"
  by (simp_all add: wf_node_def wf_address_def address_local_def)

lemma g_wf_single: "wf_node (m_node m) \<Longrightarrow> g_wf (gossip_of [m])"
  by (simp add: g_wf_def g_new_def)

lemma up_member_node [simp]: "m_node (with_status m s) = m_node m" "m_status (with_status m s) = s"
  "m_node (member_new n rs) = n"
  by (simp_all add: with_status_def member_new_def)

theorem gossip_merge_correct_witness:
  "let g = g_merge sorted_list_of_fset sorted_list_of_fset (gossip_of [up_member node_1]) (gossip_of [up_member node_2])
   in g_wf g \<and> g_member g node_1 = Some (up_member node_1)"
  using gossip_merge_correct [of sorted_list_of_fset sorted_list_of_fset "gossip_of [up_member node_1]"
      "gossip_of [up_member node_2]" node_1]
  by (simp add: g_wf_single Let_def)
    (simp add: g_member_def merge_fact_def g_new_def is_removed_by_single_sided_merge_def)

lemma removed_stays_out:
  assumes "g_wf a" "g_wf b" "tombstoned (g_tombstones a) n"
  shows "g_member (g_merge hk hr a b) n = None \<and> g_member (g_merge hk hr b a) n = None \<and>
    tombstoned (g_tombstones (g_merge hk hr a b)) n"
proof -
  have "g_member a n = None" using g_wf_not_tombstoned [OF assms(1)] assms(3) by (metis not_None_eq)
  then show ?thesis
    using assms by (simp only: g_member_merge g_merge_simps tombstoned_merge)
      (auto simp: merge_fact_def split: option.splits)
qed

text \<open>
  C7: A removed incarnation never comes back: after a member is removed, merging any sequence of
  well-formed gossips, in any order, however stale, never makes it a member again, and its dimension of
  the vector clock stays pruned.
\<close>

theorem gossip_removed_never_returns:
  assumes "hash_iter_law hk" and "hash_iter_law hr" and "g_wf a" and "wf_node n" and "\<forall>b \<in> set bs. g_wf b"
  shows "\<not> g_has_member (deliver (g_merge hk hr) (g_remove a n ts) bs) n \<and>
         vc_get (g_version (deliver (g_merge hk hr) (g_remove a n ts) bs)) (vclock_node n) = 0"
proof -
  let ?P = "\<lambda>g. g_wf g \<and> g_member g n = None \<and> tombstoned (g_tombstones g) n \<and> vc_get (g_version g) (vclock_node n) = 0"
  have start: "?P (g_remove a n ts)"
    using assms(3,4) by (simp add: g_wf_remove g_member_remove) (simp add: g_remove_def)
  have step: "?P (g_merge hk hr g b)" if "?P g" "g_wf b" for g b
  proof -
    have "\<exists>t. (tombstoned (g_tombstones g) t \<or> tombstoned (g_tombstones b) t) \<and> vclock_node t = vclock_node n"
      using that(1) by blast
    then have "vc_get (g_version (g_merge hk hr g b)) (vclock_node n) = 0"
      by (simp only: g_version_merge [OF assms(1)] if_True)
    then show ?thesis
      using that removed_stays_out [of g b n hk hr] g_wf_merge [OF assms(2)] by blast
  qed
  have "?P (deliver (g_merge hk hr) g bs)" if "?P g" "\<forall>b \<in> set bs. g_wf b" for g
    using that unfolding deliver_def
    by (induction bs arbitrary: g) (use step in \<open>simp_all\<close>)
  from this [OF start assms(5)] show ?thesis by (simp add: g_has_member_def)
qed

theorem gossip_removed_never_returns_witness:
  "let stale = gossip_of [up_member node_1]; h = sorted_list_of_fset
   in \<not> g_has_member (deliver (g_merge h h) (g_remove stale node_1 5) [stale, stale]) node_1"
  using gossip_removed_never_returns [of sorted_list_of_fset sorted_list_of_fset "gossip_of [up_member node_1]" node_1
      "[gossip_of [up_member node_1], gossip_of [up_member node_1]]" 5]
  by (simp add: g_wf_single Let_def)

text \<open>Without terminal facts the merged fact does not depend on the grouping of the merges.\<close>

definition g_no_terminal :: "gossip \<Rightarrow> bool" where
  "g_no_terminal g \<longleftrightarrow> list_all (\<lambda>m. \<not> is_removed_by_single_sided_merge (m_status m)) (g_members g)"

abbreviation live :: "member option \<Rightarrow> bool" where
  "live x \<equiv> \<forall>m. x = Some m \<longrightarrow> \<not> is_removed_by_single_sided_merge (m_status m)"

lemma live_member: "g_no_terminal g \<Longrightarrow> live (g_member g n)"
  using g_member_node by (auto simp: g_no_terminal_def list_all_iff)

lemma live_highest:
  "\<not> is_removed_by_single_sided_merge (m_status a) \<Longrightarrow> \<not> is_removed_by_single_sided_merge (m_status b) \<Longrightarrow>
     \<not> is_removed_by_single_sided_merge (m_status (highest_priority a b))"
  by (simp add: highest_priority_eq)

lemma merge_fact_assoc:
  assumes "live x" "live y" "live z" "x \<noteq> None \<longrightarrow> \<not> ta" "y \<noteq> None \<longrightarrow> \<not> tb" "z \<noteq> None \<longrightarrow> \<not> tc"
  shows "merge_fact (ta \<or> tb \<or> tc) (merge_fact (ta \<or> tb) x y) z = merge_fact (ta \<or> tb \<or> tc) x (merge_fact (tb \<or> tc) y z)"
  using assms
  by (cases x; cases y; cases z)
    (auto simp: merge_fact_def highest_priority_assoc live_highest split: if_splits)

text \<open>
  Membership facts merge like a semilattice as long as none is terminal (Exiting, Down, Removed): the members of a
  merge do not depend on grouping, merging a gossip with itself keeps its members, and for two gossips that
  agree on the incarnations of their common nodes the order does not matter either.
\<close>

lemma gossip_merge_semilattice:
  assumes "hash_iter_law hr1" and "hash_iter_law hr2" and "g_wf a" and "g_wf b" and "g_wf c"
    and "g_no_terminal a" and "g_no_terminal b" and "g_no_terminal c"
  shows "g_members (g_merge hk1 hr1 (g_merge hk1 hr1 a b) c) = g_members (g_merge hk2 hr2 a (g_merge hk2 hr2 b c)) \<and>
    g_members (g_merge hk1 hr1 a a) = g_members a \<and>
    ((\<forall>n x y. g_member a n = Some x \<longrightarrow> g_member b n = Some y \<longrightarrow> same_incarnation x y) \<longrightarrow>
       g_members (g_merge hk1 hr1 a b) = g_members (g_merge hk2 hr2 b a))"
proof -
  have eqI: "g_members g = g_members g'" if "g_wf g" "g_wf g'" "\<And>n. g_member g n = g_member g' n" for g g'
    using that by (intro members_wf_eqI) (simp_all add: g_wf_members g_member_def)
  note wf = g_wf_merge [OF assms(1)] g_wf_merge [OF assms(2)]
  have tomb: "g_member g n \<noteq> None \<longrightarrow> \<not> tombstoned (g_tombstones g) n" if "g_wf g" for g n
    using g_wf_not_tombstoned [OF that] by auto
  have "g_members (g_merge hk1 hr1 (g_merge hk1 hr1 a b) c) = g_members (g_merge hk2 hr2 a (g_merge hk2 hr2 b c))"
  proof (rule eqI)
    fix n
    show "g_member (g_merge hk1 hr1 (g_merge hk1 hr1 a b) c) n = g_member (g_merge hk2 hr2 a (g_merge hk2 hr2 b c)) n"
      using merge_fact_assoc [OF live_member [OF assms(6)] live_member [OF assms(7)] live_member [OF assms(8)]
          tomb [OF assms(3)] tomb [OF assms(4)] tomb [OF assms(5)], of n]
      by (simp only: g_member_merge wf assms(3-5) g_merge_simps tombstoned_merge disj_assoc)
  qed (use wf assms in simp_all)
  moreover have "g_members (g_merge hk1 hr1 a a) = g_members a"
  proof (rule eqI)
    show "g_member (g_merge hk1 hr1 a a) n = g_member a n" for n
      by (cases "g_member a n") (simp_all add: g_member_merge assms merge_fact_def)
  qed (use wf assms in simp_all)
  moreover have "g_members (g_merge hk1 hr1 a b) = g_members (g_merge hk2 hr2 b a)"
    if inc: "\<forall>n x y. g_member a n = Some x \<longrightarrow> g_member b n = Some y \<longrightarrow> same_incarnation x y"
  proof (rule eqI)
    show "g_member (g_merge hk1 hr1 a b) n = g_member (g_merge hk2 hr2 b a) n" for n
    proof (cases "g_member a n"; cases "g_member b n")
      fix x y assume xy: "g_member a n = Some x" "g_member b n = Some y"
      then have "highest_priority x y = highest_priority y x" using inc highest_priority_commute by blast
      with xy show ?thesis by (simp add: g_member_merge assms merge_fact_def)
    qed (simp_all add: g_member_merge assms merge_fact_def disj_commute)
  qed (use wf assms in simp_all)
  ultimately show ?thesis by blast
qed

lemma gossip_merge_semilattice_witness:
  "let a = gossip_of [up_member node_1]; b = gossip_of [up_member node_2]; h = sorted_list_of_fset
   in g_members (g_merge h h (g_merge h h a b) b) = g_members (g_merge h h a (g_merge h h b b))"
proof -
  have "g_wf (gossip_of [up_member n])" "g_no_terminal (gossip_of [up_member n])" if "wf_node n" for n
    using that by (simp_all add: g_wf_single g_no_terminal_def is_removed_by_single_sided_merge_def)
  then show ?thesis
    using gossip_merge_semilattice [of sorted_list_of_fset sorted_list_of_fset "gossip_of [up_member node_1]"
        "gossip_of [up_member node_2]" "gossip_of [up_member node_2]" sorted_list_of_fset sorted_list_of_fset]
    by (simp add: Let_def del: g_merge_simps)
qed

text \<open>
  C29: With terminal facts the merge is not associative: one gossip says a node is Down, one does not know it, one says it
  is Up. Merging the first two drops the Down fact and the node ends Up; merging the last two first
  keeps it Down. The two results have the same version, so neither node notices the difference.
\<close>

theorem gossip_merge_not_associative:
  assumes "wf_node n"
  shows "let a = gossip_of [with_status (member_new n roles) Down]; b = g_new;
             c = gossip_of [with_status (member_new n roles) Up]
    in map_option m_status (g_member (g_merge hk hr (g_merge hk hr a b) c) n) = Some Up \<and>
       map_option m_status (g_member (g_merge hk hr a (g_merge hk hr b c)) n) = Some Down \<and>
       vc_compare (g_version (g_merge hk hr (g_merge hk hr a b) c)) (g_version (g_merge hk hr a (g_merge hk hr b c))) = Same"
proof -
  let ?a = "gossip_of [with_status (member_new n roles) Down]" and ?c = "gossip_of [with_status (member_new n roles) Up]"
  have v: "vc_get (fold (\<lambda>n c. vc_prune c (vclock_node n)) ns c) k = 0" if "\<And>k. vc_get c k = 0" for ns c k
    using that by (simp add: vc_get_fold_prune)
  have z: "vc_get (g_version (g_merge hk hr x y)) k = 0"
    if "\<And>k. vc_get (g_version x) k = 0" "\<And>k. vc_get (g_version y) k = 0" for x y k
    using that by (simp add: g_merge_def Let_def v)
  have "vc_get (g_version (gossip_of ms)) k = 0" "vc_get (g_version g_new) k = 0" for ms k
    by (simp_all add: g_new_def)
  then have "vc_compare (g_version (g_merge hk hr (g_merge hk hr ?a g_new) ?c))
      (g_version (g_merge hk hr ?a (g_merge hk hr g_new ?c))) = Same"
    by (simp add: vc_compare_eq vc_le_def z)
  then show ?thesis
    by (simp add: Let_def g_member_def)
      (simp add: g_new_def push_single_sided_member_def is_removed_by_single_sided_merge_def highest_priority_def)
qed

theorem gossip_merge_not_associative_witness:
  "let h = sorted_list_of_fset; a = gossip_of [with_status (member_new node_1 []) Down]; c = gossip_of [up_member node_1]
   in g_member (g_merge h h (g_merge h h a g_new) c) node_1 \<noteq> g_member (g_merge h h a (g_merge h h g_new c)) node_1"
  using gossip_merge_not_associative [of node_1 "[]" sorted_list_of_fset sorted_list_of_fset]
  by (auto simp: Let_def simp del: g_merge_simps)

end
