(* ===== verification/Cluster_Leader.thy ===== *)
theory Cluster_Leader
  imports Gossip_State
begin

text \<open>
  Convergence, leader selection and leader actions: \<open>convergence.rs\<close>, \<open>leader.rs\<close> and
  \<open>leader_actions.rs\<close> of \<open>kairo-cluster/src\<close>. Convergence is shown equivalent to its declarative
  statement, the selected leader to be the oldest eligible candidate, and the leader actions to
  fail exactly without convergence, to leave no transitional member, and to number new members
  above all earlier ones.
\<close>

section \<open>Convergence\<close>

datatype convergence_blocker =
    NotSeen unique_address member_status
  | BlockedUnreachable unique_address member_status

definition convergence_check ::
  "unique_address hash_iter \<Rightarrow> gossip \<Rightarrow> unique_address \<Rightarrow> unique_address fset \<Rightarrow> convergence_blocker list" where
  "convergence_check h g self exiting_confirmed =
     (let first_converging_member = \<not> list_ex (\<lambda>m. participates_in_convergence (m_status m)) (g_members g);
          not_seen = concat (map (\<lambda>m.
            let participates = (if first_converging_member then participates_in_first_convergence (m_status m)
                                else participates_in_convergence (m_status m))
            in if participates \<and> m_node m |\<notin>| g_seen g \<and> m_node m |\<notin>| exiting_confirmed
               then [NotSeen (m_node m) (m_status m)] else []) (g_members g));
          down_observers = fset_of_list (map m_node
            (filter (\<lambda>m. \<not> observes_convergence_reachability (m_status m)) (g_members g)));
          live_members = fset_of_list (map m_node (g_members g));
          unreachable_subjects = fset_of_list (map rr_subject (filter (\<lambda>r.
              rr_observer r |\<notin>| down_observers \<and> rr_subject r |\<in>| live_members \<and> rr_subject r \<noteq> self \<and>
              rr_subject r |\<notin>| exiting_confirmed \<and> (rr_status r = Unreachable \<or> rr_status r = Terminated))
            (rc_records (g_reachability g))));
          unreachable = concat (map (\<lambda>node.
            (case g_member g node of
               Some m \<Rightarrow> if \<not> can_skip_unreachable_for_convergence (m_status m)
                         then [BlockedUnreachable node (m_status m)] else []
             | None \<Rightarrow> [])) (h unreachable_subjects))
      in not_seen @ unreachable)"

definition convergence_check_simple ::
  "unique_address hash_iter \<Rightarrow> gossip \<Rightarrow> unique_address \<Rightarrow> convergence_blocker list" where
  "convergence_check_simple h g self = convergence_check h g self {||}"

definition is_converged :: "convergence_blocker list \<Rightarrow> bool" where
  "is_converged blockers \<longleftrightarrow> blockers = []"

section \<open>Leader selection\<close>

definition leader_for_members :: "gossip \<Rightarrow> unique_address \<Rightarrow> member list \<Rightarrow> unique_address option" where
  "leader_for_members g self members =
     (let reachable_members = sort_key (\<lambda>m. (unwrap_or (m_up_number m) (- 1), ordering_key (m_node m)))
            (filter (\<lambda>m. is_all_reachable (g_reachability g) \<or> m_node m = self \<or>
                rc_status_of (g_reachability g) (m_node m) = Reachable)
              (filter (\<lambda>m. m_status m \<noteq> Down) members))
      in map_option m_node
           (case find (\<lambda>m. participates_in_leader_selection (m_status m)) reachable_members of
              Some m \<Rightarrow> Some m
            | None \<Rightarrow> min_by_key leader_fallback_key reachable_members))"

definition leader_for_gossip :: "gossip \<Rightarrow> unique_address \<Rightarrow> unique_address option" where
  "leader_for_gossip g self = leader_for_members g self (g_members g)"

definition leader_for_role :: "gossip \<Rightarrow> unique_address \<Rightarrow> string \<Rightarrow> unique_address option" where
  "leader_for_role g self role = leader_for_members g self (filter (\<lambda>m. has_role m role) (g_members g))"

definition is_leader :: "unique_address option \<Rightarrow> unique_address \<Rightarrow> bool" where
  "is_leader leader node \<longleftrightarrow> leader = Some node"

section \<open>Leader actions\<close>

record leader_action_outcome =
  lo_gossip :: gossip
  lo_changed :: "member list"
  lo_removed :: "unique_address list"

datatype leader_action_error = NotConverged "convergence_blocker list"

definition lo_is_changed :: "leader_action_outcome \<Rightarrow> bool" where
  "lo_is_changed out \<longleftrightarrow> lo_changed out \<noteq> [] \<or> lo_removed out \<noteq> []"

definition next_up_number :: "gossip \<Rightarrow> u64" where
  "next_up_number g = unwrap_or (iter_max (List.map_filter m_up_number (g_members g))) 0 + 1"

fun changed_members_from :: "u64 \<Rightarrow> member list \<Rightarrow> member list" where
  "changed_members_from next [] = []"
| "changed_members_from next (m # ms) =
     (case m_status m of
        Joining \<Rightarrow> with_up_number (with_status m Up) next # changed_members_from (next + 1) ms
      | WeaklyUp \<Rightarrow> with_up_number (with_status m Up) next # changed_members_from (next + 1) ms
      | Leaving \<Rightarrow> with_status m Exiting # changed_members_from next ms
      | _ \<Rightarrow> changed_members_from next ms)"

definition changed_members :: "gossip \<Rightarrow> member list" where
  "changed_members g = changed_members_from (next_up_number g) (g_members g)"

definition on_convergence ::
  "unique_address hash_iter \<Rightarrow> gossip \<Rightarrow> unique_address \<Rightarrow> u64 \<Rightarrow> unique_address fset
     \<Rightarrow> (leader_action_error, leader_action_outcome) result" where
  "on_convergence h g self removal_timestamp exiting_confirmed =
     (let convergence = convergence_check h g self exiting_confirmed
      in if \<not> is_converged convergence then Err (NotConverged convergence)
         else
           let unreachable = all_unreachable_or_terminated (g_reachability g);
               removed_members = map m_node (filter (\<lambda>m.
                 can_skip_unreachable_for_convergence (m_status m) \<and>
                 (m_node m |\<in>| unreachable \<or> (m_status m = Exiting \<and> m_node m |\<in>| exiting_confirmed))) (g_members g));
               changed = changed_members g
           in if removed_members = [] \<and> changed = []
              then Ok \<lparr>lo_gossip = g, lo_changed = changed, lo_removed = removed_members\<rparr>
              else
                let changed_gossip = g_update_members h g changed;
                    changed_gossip = fold (\<lambda>node cg. g_remove cg node removal_timestamp) removed_members changed_gossip;
                    changed_gossip = g_only_seen (g_increment_version changed_gossip self) self
                in Ok \<lparr>lo_gossip = changed_gossip, lo_changed = changed, lo_removed = removed_members\<rparr>)"

section \<open>Convergence, declaratively\<close>

definition must_have_seen :: "gossip \<Rightarrow> member \<Rightarrow> bool" where
  "must_have_seen g m \<longleftrightarrow>
     m_status m \<in> {Up, Leaving} \<or>
     (m_status m \<in> {Joining, WeaklyUp} \<and> (\<forall>x \<in> set (g_members g). m_status x \<notin> {Up, Leaving}))"

text \<open>An observation blocks unless its observer is Down or its subject is unknown, local, confirmed or terminal.\<close>

definition blocking_observation :: "gossip \<Rightarrow> unique_address \<Rightarrow> unique_address fset \<Rightarrow> reachability_record \<Rightarrow> bool" where
  "blocking_observation g self confirmed r \<longleftrightarrow>
     rr_status r \<noteq> Reachable \<and> rr_subject r \<noteq> self \<and> rr_subject r |\<notin>| confirmed \<and>
     (\<forall>m. g_member g (rr_observer r) = Some m \<longrightarrow> m_status m \<noteq> Down) \<and>
     (\<exists>m. g_member g (rr_subject r) = Some m \<and> m_status m \<notin> {Down, Exiting})"

lemma member_status_ex:
  "g_wf g \<Longrightarrow> (\<exists>m \<in> set (g_members g). m_node m = n \<and> P m) \<longleftrightarrow> (\<exists>m. g_member g n = Some m \<and> P m)"
  using mem_g_members [of g] g_member_node [of g n] by blast

lemma participates_iff:
  "(if \<not> list_ex (\<lambda>m. participates_in_convergence (m_status m)) (g_members g)
    then participates_in_first_convergence (m_status m) else participates_in_convergence (m_status m)) \<longleftrightarrow>
   must_have_seen g m" if "m \<in> set (g_members g)"
  using that by (auto simp: must_have_seen_def participates_in_convergence_def participates_in_first_convergence_def
      list_ex_iff)

lemma converged_iff:
  assumes "hash_iter_law h" "g_wf g"
  shows "convergence_check h g self confirmed = [] \<longleftrightarrow>
    (\<forall>m \<in> set (g_members g). must_have_seen g m \<longrightarrow> m_node m |\<in>| g_seen g \<or> m_node m |\<in>| confirmed) \<and>
    (\<forall>r \<in> set (rc_records (g_reachability g)). \<not> blocking_observation g self confirmed r)"
proof -
  let ?down = "fset_of_list (map m_node (filter (\<lambda>m. \<not> observes_convergence_reachability (m_status m)) (g_members g)))"
  let ?live = "fset_of_list (map m_node (g_members g))"
  let ?unreach = "\<lambda>node. case g_member g node of
      Some m \<Rightarrow> if \<not> can_skip_unreachable_for_convergence (m_status m) then [BlockedUnreachable node (m_status m)] else []
    | None \<Rightarrow> []"
  let ?sel = "\<lambda>r. rr_observer r |\<notin>| ?down \<and> rr_subject r |\<in>| ?live \<and> rr_subject r \<noteq> self \<and>
      rr_subject r |\<notin>| confirmed \<and> (rr_status r = Unreachable \<or> rr_status r = Terminated)"
  let ?part = "\<lambda>m. if \<not> list_ex (\<lambda>m. participates_in_convergence (m_status m)) (g_members g)
      then participates_in_first_convergence (m_status m) else participates_in_convergence (m_status m)"
  have "n |\<in>| ?down \<longleftrightarrow> (\<exists>m \<in> set (g_members g). m_node m = n \<and> m_status m = Down)" for n
    by (auto simp: fset_of_list_elem observes_convergence_reachability_def)
  then have down: "n |\<in>| ?down \<longleftrightarrow> (\<exists>m. g_member g n = Some m \<and> m_status m = Down)" for n
    by (simp only: member_status_ex [OF assms(2)])
  have "n |\<in>| ?live \<longleftrightarrow> (\<exists>m \<in> set (g_members g). m_node m = n \<and> True)" for n
    by (auto simp: fset_of_list_elem)
  then have live: "n |\<in>| ?live \<longleftrightarrow> g_member g n \<noteq> None" for n
    by (simp only: member_status_ex [OF assms(2)]) auto
  have block: "?sel r \<and> ?unreach (rr_subject r) \<noteq> [] \<longleftrightarrow> blocking_observation g self confirmed r" for r
    unfolding down live blocking_observation_def can_skip_unreachable_for_convergence_def
    by (cases "rr_status r"; cases "g_member g (rr_subject r)") auto
  have "convergence_check h g self confirmed = [] \<longleftrightarrow>
      (\<forall>m \<in> set (g_members g). \<not> (?part m \<and> m_node m |\<notin>| g_seen g \<and> m_node m |\<notin>| confirmed)) \<and>
      (\<forall>n \<in> set (h (fset_of_list (map rr_subject (filter ?sel (rc_records (g_reachability g)))))). ?unreach n = [])"
    unfolding convergence_check_def Let_def append_is_Nil_conv concat_eq_Nil_conv by auto
  also have "\<dots> \<longleftrightarrow>
      (\<forall>m \<in> set (g_members g). must_have_seen g m \<longrightarrow> m_node m |\<in>| g_seen g \<or> m_node m |\<in>| confirmed) \<and>
      (\<forall>r \<in> set (rc_records (g_reachability g)). \<not> (?sel r \<and> ?unreach (rr_subject r) \<noteq> []))"
    unfolding hash_iterD(2) [OF assms(1)] using participates_iff [of _ g]
    by (intro arg_cong2 [of _ _ _ _ "(\<and>)"]) (simp_all add: fset_of_list.rep_eq, blast+)
  finally show ?thesis by (simp only: block)
qed

section \<open>The leader\<close>

definition leader_candidate :: "gossip \<Rightarrow> unique_address \<Rightarrow> member \<Rightarrow> bool" where
  "leader_candidate g self m \<longleftrightarrow> m_status m \<noteq> Down \<and>
     (m_node m = self \<or> rc_status_of (g_reachability g) (m_node m) = Reachable)"

lemma find_sorted_min:
  "find P (sort_key f xs) = Some m \<Longrightarrow> m \<in> set xs \<and> P m \<and> (\<forall>x \<in> set xs. P x \<longrightarrow> f m \<le> f x)"
proof -
  assume "find P (sort_key f xs) = Some m"
  then obtain i where i: "i < length xs" "P (sort_key f xs ! i)" "m = sort_key f xs ! i" "\<forall>j<i. \<not> P (sort_key f xs ! j)"
    by (auto simp: find_Some_iff)
  have "f m \<le> f x" if "x \<in> set xs" "P x" for x
  proof -
    obtain j where j: "j < length xs" "x = sort_key f xs ! j"
      using \<open>x \<in> set xs\<close> by (metis in_set_conv_nth length_sort set_sort)
    then have "i \<le> j" using i \<open>P x\<close> by (meson not_le)
    then show ?thesis
      using sorted_nth_mono [of "map f (sort_key f xs)" i j] i j by simp
  qed
  moreover have "m \<in> set xs" using i by (metis length_sort nth_mem set_sort)
  ultimately show ?thesis using i by blast
qed

lemma leader_for_members_cases:
  assumes "leader_for_members g self ms = Some n"
  obtains m where "m \<in> set ms" "leader_candidate g self m" "m_node m = n"
    "(participates_in_leader_selection (m_status m) \<and>
       (\<forall>x \<in> set ms. leader_candidate g self x \<longrightarrow> participates_in_leader_selection (m_status x) \<longrightarrow> age_key m \<le> age_key x)) \<or>
     ((\<forall>x \<in> set ms. leader_candidate g self x \<longrightarrow> \<not> participates_in_leader_selection (m_status x)) \<and>
       (\<forall>x \<in> set ms. leader_candidate g self x \<longrightarrow> leader_fallback_key m \<le> leader_fallback_key x))"
proof -
  let ?cs = "filter (\<lambda>m. is_all_reachable (g_reachability g) \<or> m_node m = self \<or>
      rc_status_of (g_reachability g) (m_node m) = Reachable) (filter (\<lambda>m. m_status m \<noteq> Down) ms)"
  have key: "(\<lambda>m. (unwrap_or (m_up_number m) (- 1), ordering_key (m_node m))) = age_key"
    by (simp add: age_key_def fun_eq_iff)
  have cs: "x \<in> set ?cs \<longleftrightarrow> x \<in> set ms \<and> leader_candidate g self x" for x
    by (auto simp: leader_candidate_def is_all_reachable_def rc_status_of_def)
  let ?P = "\<lambda>m. participates_in_leader_selection (m_status m)"
  show thesis
  proof (cases "find ?P (sort_key age_key ?cs)")
    case None
    then have none: "\<forall>x \<in> set ?cs. \<not> ?P x" by (simp only: find_None_iff set_sort) blast
    from None assms obtain m where "min_by_key leader_fallback_key (sort_key age_key ?cs) = Some m" "m_node m = n"
      by (auto simp: leader_for_members_def key Let_def)
    moreover from min_by_key_Some [OF this(1)]
    have "m \<in> set ?cs" "\<forall>x \<in> set ?cs. leader_fallback_key m \<le> leader_fallback_key x"
      by (simp_all only: set_sort) blast
    ultimately show ?thesis
      using none cs by (intro that [of m]) blast+
  next
    case (Some m)
    then have "m_node m = n" using assms by (auto simp: leader_for_members_def key Let_def)
    moreover have "m \<in> set ?cs" "?P m" "\<forall>x \<in> set ?cs. ?P x \<longrightarrow> age_key m \<le> age_key x"
      using find_sorted_min [OF Some] by blast+
    ultimately show ?thesis
      using cs by (intro that [of m]) blast+
  qed
qed

section \<open>Effects of the leader actions\<close>

lemma map_of_nodes: "map_of (map (\<lambda>m. (m_node m, m)) ms) n = lookup_node ms n"
  by (induction ms) auto

lemma lookup_map_node:
  "(\<And>m. m_node (f m) = m_node m) \<Longrightarrow> lookup_node (map f ms) n = map_option f (lookup_node ms n)"
  by (induction ms) auto

lemma g_update_members_lookup:
  fixes ch :: "member list"
  assumes "hash_iter_law h" "g_wf g"
  defines "f \<equiv> \<lambda>m. unwrap_or (fmlookup (bt_collect (map (\<lambda>m. (m_node m, m)) ch)) (m_node m)) m"
  shows "g_wf (g_update_members h g ch)" "g_member (g_update_members h g ch) n = map_option f (g_member g n)"
    "g_reachability (g_update_members h g ch) = g_reachability g"
    "g_tombstones (g_update_members h g ch) = g_tombstones g" "g_version (g_update_members h g ch) = g_version g"
proof -
  have node: "m_node (f m) = m_node m" for m
    by (auto simp: f_def dest!: map_of_SomeD split: option.splits)
  have wf: "members_wf (map f (g_members g))"
    using assms(2) node by (simp only: members_wf_map g_wf_def)
  have up: "g_update_members h g ch = g\<lparr>g_members := map f (g_members g)\<rparr>"
  proof (cases "bt_is_empty (bt_collect (map (\<lambda>m. (m_node m, m)) ch))")
    case True
    then have "bt_collect (map (\<lambda>m. (m_node m, m)) ch) = fmempty" by (simp only: bt_is_empty_iff)
    then have "f = (\<lambda>m. m)" by (simp add: f_def del: fmlookup_bt_collect)
    then show ?thesis using True by (simp add: g_update_members_def)
  next
    case False
    then show ?thesis
      using normalize_members_idem [OF assms(1) wf]
      by (simp add: g_update_members_def Let_def f_def [symmetric] del: fmlookup_bt_collect)
  qed
  show "g_wf (g_update_members h g ch)"
    using assms(2) wf node unfolding up by (simp add: g_wf_def)
  show "g_member (g_update_members h g ch) n = map_option f (g_member g n)"
    unfolding up g_member_def using node by (simp add: lookup_map_node)
  show "g_reachability (g_update_members h g ch) = g_reachability g"
    "g_tombstones (g_update_members h g ch) = g_tombstones g" "g_version (g_update_members h g ch) = g_version g"
    by (simp_all add: up)
qed

lemma fold_remove:
  assumes "g_wf g" "\<forall>n \<in> set ns. wf_node n"
  shows "g_wf (fold (\<lambda>n cg. g_remove cg n ts) ns g) \<and>
    g_member (fold (\<lambda>n cg. g_remove cg n ts) ns g) n = (if n \<in> set ns then None else g_member g n) \<and>
    fmlookup (g_tombstones (fold (\<lambda>n cg. g_remove cg n ts) ns g)) n =
      (if n \<in> set ns then Some ts else fmlookup (g_tombstones g) n)"
  using assms
proof (induction ns arbitrary: g)
  case (Cons x xs)
  have "g_wf (g_remove g x ts)" using Cons.prems by (simp add: g_wf_remove)
  moreover have "fmlookup (g_tombstones (g_remove g x ts)) n = (if n = x then Some ts else fmlookup (g_tombstones g) n)"
    by (simp add: g_remove_def)
  ultimately show ?case
    using Cons.IH [of "g_remove g x ts"] Cons.prems by (auto simp: g_member_remove)
qed simp

fun next_status :: "member_status \<Rightarrow> member_status" where
  "next_status Joining = Up"
| "next_status WeaklyUp = Up"
| "next_status Leaving = Exiting"
| "next_status s = s"

lemma changed_members_node: "c \<in> set (changed_members_from k ms) \<Longrightarrow> \<exists>m \<in> set ms. m_node c = m_node m"
  by (induction k ms rule: changed_members_from.induct)
    (auto simp: with_up_number_def split: member_status.splits)

lemma changed_members_distinct: "distinct (map m_node ms) \<Longrightarrow> distinct (map m_node (changed_members_from k ms))"
proof (induction k ms rule: changed_members_from.induct)
  case (2 k m ms)
  then show ?case
    using changed_members_node [of _ "k + 1" ms] changed_members_node [of _ k ms]
    by (auto simp: with_up_number_def image_iff split: member_status.splits) metis+
qed simp

lemma changed_members_lookup:
  "distinct (map m_node ms) \<Longrightarrow> lookup_node ms n = Some m \<Longrightarrow>
     m_status (unwrap_or (lookup_node (changed_members_from k ms) n) m) = next_status (m_status m)"
proof (induction k ms rule: changed_members_from.induct)
  case (2 k x ms)
  show ?case
  proof (cases "m_node x = n")
    case True
    then have "lookup_node (changed_members_from j ms) n = None" for j
      using "2.prems"(1) changed_members_node [of _ j ms] by (fastforce simp: lookup_node_None image_iff)
    then show ?thesis
      using True "2.prems"(2) by (cases "m_status x") (simp_all add: with_up_number_def)
  next
    case False
    then have "lookup_node ms n = Some m" "distinct (map m_node ms)" using "2.prems" by auto
    then show ?thesis
      using False "2.IH" by (cases "m_status x") (simp_all add: with_up_number_def)
  qed
qed simp

lemma promoted_numbers:
  "map m_up_number (filter (\<lambda>c. m_status c = Up) (changed_members_from k ms)) =
     map (\<lambda>i. Some (k + of_nat i)) [0..<length (filter (\<lambda>m. m_status m \<in> {Joining, WeaklyUp}) ms)]"
proof (induction k ms rule: changed_members_from.induct)
  case (2 k m ms)
  have shift: "map (\<lambda>i. Some (k + of_nat i)) [0..<Suc n] = Some k # map (\<lambda>i. Some (k + 1 + of_nat i)) [0..<n]" for n
    by (simp add: upt_conv_Cons map_Suc_upt [symmetric] comp_def ac_simps del: upt_Suc)
  show ?case
  proof (cases "m_status m")
    case Joining
    then show ?thesis using "2.IH"(1) shift by (simp add: with_up_number_def del: upt_Suc)
  next
    case WeaklyUp
    then show ?thesis using "2.IH"(2) shift by (simp add: with_up_number_def del: upt_Suc)
  qed (use "2.IH" in simp_all)
qed simp

lemma of_nat_word_inj: "i < 2 ^ 64 \<Longrightarrow> j < 2 ^ 64 \<Longrightarrow> (of_nat i :: u64) = of_nat j \<longleftrightarrow> i = j"
  by (simp add: word_of_nat_eq_iff take_bit_nat_eq_self)

lemma promoted_distinct:
  assumes "length ms < 2 ^ 64"
  shows "distinct (map m_up_number (filter (\<lambda>c. m_status c = Up) (changed_members_from k ms)))"
proof -
  let ?n = "length (filter (\<lambda>m. m_status m \<in> {Joining, WeaklyUp}) ms)"
  have n: "?n < 2 ^ 64" using assms le_less_trans [OF length_filter_le] by blast
  have "inj_on (\<lambda>i. Some (k + (of_nat i :: u64))) {0..<?n}"
    using n of_nat_word_inj by (auto intro!: inj_onI)
  then show ?thesis unfolding promoted_numbers by (simp only: distinct_map distinct_upt set_upt)
qed

lemma promoted_above:
  assumes c: "c \<in> set (changed_members_from k ms)" "m_status c = Up" and no: "unat k + length ms < 2 ^ 64"
  shows "\<exists>u. m_up_number c = Some u \<and> k \<le> u"
proof -
  let ?n = "length (filter (\<lambda>m. m_status m \<in> {Joining, WeaklyUp}) ms)"
  have "m_up_number c \<in> set (map m_up_number (filter (\<lambda>c. m_status c = Up) (changed_members_from k ms)))"
    using c by auto
  then obtain i where i: "i < ?n" "m_up_number c = Some (k + of_nat i)"
    unfolding promoted_numbers by auto
  have lt: "unat k + i < 2 ^ 64" using i(1) no length_filter_le [of _ ms] by (meson add_less_cancel_left less_le_trans order.strict_trans)
  then have "unat k + unat (of_nat i :: u64) < 2 ^ 64"
    by (simp add: unsigned_of_nat take_bit_nat_eq_self)
  then have "k \<le> k + of_nat i" by (simp add: word_le_nat_alt unat_word_ariths)
  with i(2) show ?thesis by blast
qed

lemma next_up_number_above:
  assumes "m \<in> set (g_members g)" "m_up_number m = Some v" "\<forall>m \<in> set (g_members g). m_up_number m \<noteq> Some (- 1)"
  shows "v < next_up_number g"
proof -
  let ?us = "List.map_filter m_up_number (g_members g)"
  have v: "v \<in> set ?us" using assms(1,2) by (auto simp: mem_map_filter)
  then obtain u where u: "iter_max ?us = Some u" by (cases "iter_max ?us") auto
  have "u \<in> set ?us" "v \<le> u" using iter_max_Some [OF u] v by auto
  moreover have "u \<noteq> - 1" using \<open>u \<in> set ?us\<close> assms(3) by (auto simp: mem_map_filter)
  ultimately show ?thesis
    using word_Suc_greater [of u] by (simp add: next_up_number_def u order.strict_trans1)
qed

section \<open>Properties\<close>

text \<open>
  C15: Leader actions are gated by convergence: they fail with the list of blockers exactly if some
  member that must have seen the gossip has neither seen it nor is confirmed exiting, or some
  observer that is not Down reports a known, other, non-terminal, unconfirmed member as not reachable.
\<close>

theorem leader_actions_gated:
  assumes "hash_iter_law h" and "g_wf g"
  shows "(\<exists>e. on_convergence h g self ts confirmed = Err e) \<longleftrightarrow>
    (\<exists>m \<in> set (g_members g). must_have_seen g m \<and> m_node m |\<notin>| g_seen g \<and> m_node m |\<notin>| confirmed) \<or>
    (\<exists>r \<in> set (rc_records (g_reachability g)). blocking_observation g self confirmed r)"
proof -
  have "(\<exists>e. on_convergence h g self ts confirmed = Err e) \<longleftrightarrow> convergence_check h g self confirmed \<noteq> []"
    by (auto simp: on_convergence_def is_converged_def Let_def)
  also have "\<dots> \<longleftrightarrow> \<not> ((\<forall>m \<in> set (g_members g). must_have_seen g m \<longrightarrow> m_node m |\<in>| g_seen g \<or> m_node m |\<in>| confirmed) \<and>
      (\<forall>r \<in> set (rc_records (g_reachability g)). \<not> blocking_observation g self confirmed r))"
    using converged_iff [OF assms] by (simp only: not_not)
  finally show ?thesis by blast
qed

theorem leader_actions_gated_witness:
  "\<exists>e. on_convergence sorted_list_of_fset (gossip_of [up_member node_1]) node_1 7 {||} = Err e"
  using leader_actions_gated [of sorted_list_of_fset "gossip_of [up_member node_1]" node_1 7 "{||}"]
  by (simp add: g_wf_single) (simp add: must_have_seen_def g_new_def)

text \<open>
  C22: The selected leader is a member of the gossip that is not Down and is local or reachable; among such
  candidates it is the oldest Up or Leaving one, and only if there is none the least by fallback rank and age.
\<close>

theorem leader_is_oldest_eligible:
  assumes "leader_for_gossip g self = Some n"
  shows "\<exists>m \<in> set (g_members g). m_node m = n \<and> leader_candidate g self m \<and>
    (if \<exists>x \<in> set (g_members g). leader_candidate g self x \<and> m_status x \<in> {Up, Leaving}
     then m_status m \<in> {Up, Leaving} \<and>
       (\<forall>x \<in> set (g_members g). leader_candidate g self x \<longrightarrow> m_status x \<in> {Up, Leaving} \<longrightarrow> age_key m \<le> age_key x)
     else \<forall>x \<in> set (g_members g). leader_candidate g self x \<longrightarrow> leader_fallback_key m \<le> leader_fallback_key x)"
proof -
  from leader_for_members_cases [OF assms [unfolded leader_for_gossip_def]]
  obtain m where m: "m \<in> set (g_members g)" "leader_candidate g self m" "m_node m = n"
    "(m_status m \<in> {Up, Leaving} \<and>
       (\<forall>x \<in> set (g_members g). leader_candidate g self x \<longrightarrow> m_status x \<in> {Up, Leaving} \<longrightarrow> age_key m \<le> age_key x)) \<or>
     ((\<forall>x \<in> set (g_members g). leader_candidate g self x \<longrightarrow> m_status x \<notin> {Up, Leaving}) \<and>
       (\<forall>x \<in> set (g_members g). leader_candidate g self x \<longrightarrow> leader_fallback_key m \<le> leader_fallback_key x))"
    by (auto simp: participates_in_leader_selection_def)
  show ?thesis
  proof (cases "\<exists>x \<in> set (g_members g). leader_candidate g self x \<and> m_status x \<in> {Up, Leaving}")
    case True
    then show ?thesis unfolding if_P [OF True] using m by blast
  next
    case False
    then show ?thesis unfolding if_not_P [OF False] using m by blast
  qed
qed

theorem leader_is_oldest_eligible_witness:
  "leader_for_gossip (gossip_of [up_member node_1]) node_2 = Some node_1 \<and>
   (\<exists>m \<in> set (g_members (gossip_of [up_member node_1])). m_node m = node_1 \<and>
      leader_candidate (gossip_of [up_member node_1]) node_2 m)"
proof -
  have "leader_for_gossip (gossip_of [up_member node_1]) node_2 = Some node_1"
    by (simp add: leader_for_gossip_def leader_for_members_def participates_in_leader_selection_def
        is_all_reachable_def g_new_def rc_new_def)
  with leader_is_oldest_eligible [OF this] show ?thesis by blast
qed

text \<open>
  C8: The outcome of successful leader actions, unless 64-bit member numbers run out: the gossip stays well-formed; the removed members are
  gone and tombstoned; every other member moved from Joining or WeaklyUp to Up and from Leaving to Exiting and
  no other status changed; the members that came up have distinct numbers above all earlier numbers.
\<close>

theorem leader_actions_outcome:
  assumes "hash_iter_law h" and "g_wf g" and "on_convergence h g self ts confirmed = Ok out"
    and "unat (next_up_number g) + length (g_members g) < 2 ^ 64"
    and "\<forall>m \<in> set (g_members g). m_up_number m \<noteq> Some (- 1)"
  shows "g_wf (lo_gossip out) \<and>
    (\<forall>n. map_option m_status (g_member (lo_gossip out) n) =
       (if n \<in> set (lo_removed out) then None else map_option (\<lambda>m. next_status (m_status m)) (g_member g n))) \<and>
    (\<forall>n \<in> set (lo_removed out). fmlookup (g_tombstones (lo_gossip out)) n = Some ts) \<and>
    distinct (map m_up_number (filter (\<lambda>c. m_status c = Up) (lo_changed out))) \<and>
    (\<forall>c \<in> set (lo_changed out). m_status c = Up \<longrightarrow>
       (\<exists>u. m_up_number c = Some u \<and> (\<forall>m \<in> set (g_members g). \<forall>v. m_up_number m = Some v \<longrightarrow> v < u)))"
proof -
  let ?rm = "lo_removed out" and ?ch = "changed_members g"
  have ch: "lo_changed out = ?ch"
    using assms(3) by (auto simp: on_convergence_def Let_def split: if_splits)
  have rm: "\<forall>n \<in> set ?rm. wf_node n"
    using assms(2,3) by (auto simp: on_convergence_def Let_def g_wf_def members_wf_def split: if_splits)
  have dist: "distinct (map m_node (g_members g))" "distinct (map m_node ?ch)"
    using members_wf_distinct_nodes [OF g_wf_members [OF assms(2)]]
    by (auto simp: changed_members_def intro: changed_members_distinct)
  let ?u = "g_update_members h g ?ch"
  let ?f = "fold (\<lambda>node cg. g_remove cg node ts) ?rm ?u"
  note up = g_update_members_lookup [OF assms(1,2), of ?ch]
  have st: "map_option m_status (g_member ?u n) = map_option (\<lambda>m. next_status (m_status m)) (g_member g n)" for n
  proof (cases "g_member g n")
    case (Some m)
    have "fmlookup (bt_collect (map (\<lambda>m. (m_node m, m)) ?ch)) n = lookup_node ?ch n"
      using dist(2) by (simp add: map_of_rev_distinct map_of_nodes comp_def)
    moreover have "m_node m = n" using g_member_node [OF Some] by blast
    ultimately show ?thesis
      using changed_members_lookup [OF dist(1), of n m "next_up_number g"] Some
      unfolding up(2) by (simp add: changed_members_def [symmetric] g_member_def del: fmlookup_bt_collect)
  qed (simp add: up(2))
  have fr: "g_wf ?f" "g_member ?f n = (if n \<in> set ?rm then None else g_member ?u n)"
    "n \<in> set ?rm \<Longrightarrow> fmlookup (g_tombstones ?f) n = Some ts" for n
    using fold_remove [OF up(1) rm, where n = n] by simp_all
  have out: "lo_gossip out = g_only_seen (g_increment_version ?f self) self \<or> (lo_gossip out = g \<and> ?ch = [] \<and> ?rm = [])"
    using assms(3) by (auto simp: on_convergence_def Let_def split: if_splits)
  have same: "?ch = [] \<Longrightarrow> ?u = g" by (simp add: g_update_members_def bt_collect_def bt_is_empty_iff)
  have fields: "g_wf (lo_gossip out) = g_wf ?f" "g_members (lo_gossip out) = g_members ?f"
    "g_tombstones (lo_gossip out) = g_tombstones ?f"
    using out same by (auto simp: g_only_seen_def g_increment_version_def g_wf_def)
  have "g_member (lo_gossip out) n = g_member ?f n" for n by (simp add: g_member_def fields)
  moreover have "\<exists>u. m_up_number c = Some u \<and> (\<forall>m \<in> set (g_members g). \<forall>v. m_up_number m = Some v \<longrightarrow> v < u)"
    if "c \<in> set ?ch" "m_status c = Up" for c
    using promoted_above [OF that(1) [unfolded changed_members_def] that(2) assms(4)] next_up_number_above [OF _ _ assms(5)]
    by (meson order.strict_trans2)
  ultimately show ?thesis
    using fr st promoted_distinct [of "g_members g" "next_up_number g"] assms(4)
    by (simp add: fields ch changed_members_def [symmetric])
qed

theorem leader_actions_outcome_witness:
  "\<exists>out. on_convergence sorted_list_of_fset ((gossip_of [member_new node_1 []])\<lparr>g_seen := {|node_1|}\<rparr>) node_1 7 {||} = Ok out \<and>
     g_wf (lo_gossip out) \<and> map_option m_status (g_member (lo_gossip out) node_1) = Some Up"
proof -
  let ?g = "(gossip_of [member_new node_1 []])\<lparr>g_seen := {|node_1|}\<rparr>"
  have wf: "g_wf ?g" by (simp add: g_wf_def g_new_def)
  have st: "m_status (member_new node_1 []) = Joining" "m_up_number (member_new node_1 []) = None"
    by (simp_all add: member_new_def)
  have "convergence_check sorted_list_of_fset ?g node_1 {||} = []"
    using converged_iff [OF hash_iter_sorted wf, of node_1 "{||}"]
    by (simp add: g_new_def rc_new_def)
  then have "\<exists>out. on_convergence sorted_list_of_fset ?g node_1 7 {||} = Ok out \<and> lo_removed out = []"
    by (simp add: on_convergence_def is_converged_def Let_def st can_skip_unreachable_for_convergence_def split: if_split)
  then obtain out where out: "on_convergence sorted_list_of_fset ?g node_1 7 {||} = Ok out" and rm: "lo_removed out = []"
    by blast
  have num: "unat (next_up_number ?g) + length (g_members ?g) < 2 ^ 64" "\<forall>m \<in> set (g_members ?g). m_up_number m \<noteq> Some (- 1)"
    by (simp_all add: st next_up_number_def map_filter_simps)
  have "g_wf (lo_gossip out)" "map_option m_status (g_member (lo_gossip out) node_1) =
      map_option (\<lambda>m. next_status (m_status m)) (g_member ?g node_1)"
    using leader_actions_outcome [OF hash_iter_sorted wf out num] by (simp_all add: rm)
  with out show ?thesis by (intro exI [of _ out]) (simp add: g_member_def st)
qed

end
