(* ===== verification/Wire_Format.thy ===== *)
theory Wire_Format
  imports Actor_Path "HOL-Library.Sublist" "HOL-Library.Code_Target_Nat"
begin

text \<open>
  \<open>WireWriter\<close> and \<open>WireReader\<close> of \<open>kairo-serialization/src/wire.rs\<close>, with the errors of
  \<open>errors.rs\<close>. A writer is the byte vector it has accumulated and a reader is a buffer with a
  cursor. The text of a \<open>Message\<close> error is the source's, without the detail that the standard
  library appends to a UTF-8 error. \<open>CapacityFailure\<close> is the one constructor that \<open>errors.rs\<close> does not have: it stands
  for the panic or abort of \<open>Vec::with_capacity\<close>, with which a decoder ends instead of returning.

  The contract between a writer and a reader of one field has two levels. In the locale
  \<open>wire_written\<close> what is written is read back; in \<open>wire_field\<close>, which extends it, what is read is also
  exactly what a writer of the value read would have written. Every primitive field is an interpretation, and the combinator lemmas at the end
  (\<open>wire_seq\<close>, \<open>wire_iso\<close>, \<open>wire_partial\<close>, \<open>wire_guard\<close>, \<open>wire_choice\<close>, \<open>wire_counted\<close>,
  \<open>wire_reserved\<close>) carry the contract to the
  messages built from them.
\<close>

section \<open>Bytes and UTF-8\<close>

type_synonym u8 = "8 word"
type_synonym bytes = "u8 list"

datatype serialization_error =
    Message string
  | InvalidManifest string
  | InvalidActorRefPath string
  | DuplicateSerializerId u32
  | DuplicateManifest string
  | DuplicateTypeCodec string
  | MissingTypeCodec string
  | MissingWireCodec u32 string
  | UnexpectedManifest string string
  | TypeMismatch string
  | CapacityFailure

type_synonym 'a ser_result = "(serialization_error, 'a) result"

text \<open>\<open>str::as_bytes\<close> and the reinterpretation of bytes as a string.\<close>

definition as_bytes :: "string \<Rightarrow> bytes" where
  "as_bytes s = map (\<lambda>c. of_nat (of_char c)) s"

definition string_of_bytes :: "bytes \<Rightarrow> string" where
  "string_of_bytes bs = map (\<lambda>b. char_of (unat b)) bs"

text \<open>
  The well-formed UTF-8 sequences that \<open>String::from_utf8\<close> accepts: the lead byte determines how
  many continuation bytes follow and which range the first of them is in.
\<close>

definition continuation :: "u8 \<Rightarrow> bool" where
  "continuation b \<longleftrightarrow> 0x80 \<le> b \<and> b \<le> 0xBF"

fun valid_utf8 :: "bytes \<Rightarrow> bool" where
  "valid_utf8 [] = True"
| "valid_utf8 (a # bs) =
     (if a \<le> 0x7F then valid_utf8 bs
      else if 0xC2 \<le> a \<and> a \<le> 0xDF then
        (case bs of b # cs \<Rightarrow> continuation b \<and> valid_utf8 cs | _ \<Rightarrow> False)
      else if 0xE0 \<le> a \<and> a \<le> 0xEF then
        (case bs of
           b # c # ds \<Rightarrow>
             continuation b \<and> continuation c \<and> (a = 0xE0 \<longrightarrow> 0xA0 \<le> b) \<and> (a = 0xED \<longrightarrow> b \<le> 0x9F) \<and> valid_utf8 ds
         | _ \<Rightarrow> False)
      else if 0xF0 \<le> a \<and> a \<le> 0xF4 then
        (case bs of
           b # c # d # es \<Rightarrow>
             continuation b \<and> continuation c \<and> continuation d \<and>
             (a = 0xF0 \<longrightarrow> 0x90 \<le> b) \<and> (a = 0xF4 \<longrightarrow> b \<le> 0x8F) \<and> valid_utf8 es
         | _ \<Rightarrow> False)
      else False)"

text \<open>The invariant of Rust's \<open>String\<close>.\<close>

definition utf8_string :: "string \<Rightarrow> bool" where
  "utf8_string s \<longleftrightarrow> valid_utf8 (as_bytes s)"

text \<open>\<open>to_be_bytes\<close> and \<open>from_be_bytes\<close>.\<close>

primrec be_of_nat :: "nat \<Rightarrow> nat \<Rightarrow> bytes" where
  "be_of_nat 0 n = []"
| "be_of_nat (Suc k) n = be_of_nat k (n div 256) @ [of_nat (n mod 256)]"

definition nat_of_be :: "bytes \<Rightarrow> nat" where
  "nat_of_be bs = foldl (\<lambda>acc b. acc * 256 + unat b) 0 bs"

definition to_be_bytes :: "'n::len word \<Rightarrow> bytes" where
  "to_be_bytes w = be_of_nat (LENGTH('n) div 8) (unat w)"

definition from_be_bytes :: "bytes \<Rightarrow> 'n::len word" where
  "from_be_bytes bs = of_nat (nat_of_be bs)"

section \<open>The writer\<close>

type_synonym wire_writer = bytes

definition write_string :: "string \<Rightarrow> wire_writer \<Rightarrow> wire_writer ser_result" where
  "write_string value w =
     (let bs = as_bytes value
      in if length bs < 2 ^ 32 then Ok ((w @ to_be_bytes (of_nat (length bs) :: u32)) @ bs)
         else Err (Message ''wire string exceeds u32 length''))"

definition write_optional_string :: "string option \<Rightarrow> wire_writer \<Rightarrow> wire_writer ser_result" where
  "write_optional_string value w =
     (case value of Some v \<Rightarrow> write_string v (w @ [1]) | None \<Rightarrow> Ok (w @ [0]))"

definition write_bytes :: "bytes \<Rightarrow> wire_writer \<Rightarrow> wire_writer ser_result" where
  "write_bytes value w =
     (if length value < 2 ^ 32 then Ok ((w @ to_be_bytes (of_nat (length value) :: u32)) @ value)
      else Err (Message ''wire bytes exceed u32 length''))"

definition write_u8 :: "u8 \<Rightarrow> wire_writer \<Rightarrow> wire_writer" where
  "write_u8 v w = w @ [v]"

definition write_bool :: "bool \<Rightarrow> wire_writer \<Rightarrow> wire_writer" where
  "write_bool v w = write_u8 (of_bool v) w"

definition write_u16 :: "u16 \<Rightarrow> wire_writer \<Rightarrow> wire_writer" where
  "write_u16 v w = w @ to_be_bytes v"

definition write_u32 :: "u32 \<Rightarrow> wire_writer \<Rightarrow> wire_writer" where
  "write_u32 v w = w @ to_be_bytes v"

definition write_u64 :: "u64 \<Rightarrow> wire_writer \<Rightarrow> wire_writer" where
  "write_u64 v w = w @ to_be_bytes v"

definition write_u128 :: "u128 \<Rightarrow> wire_writer \<Rightarrow> wire_writer" where
  "write_u128 v w = w @ to_be_bytes v"

definition write_optional_u64 :: "u64 option \<Rightarrow> wire_writer \<Rightarrow> wire_writer" where
  "write_optional_u64 value w = (case value of Some v \<Rightarrow> write_u64 v (w @ [1]) | None \<Rightarrow> w @ [0])"

section \<open>The reader\<close>

record wire_reader =
  rd_bytes :: bytes
  rd_cursor :: nat

definition reader_new :: "bytes \<Rightarrow> wire_reader" where
  "reader_new bs = \<lparr>rd_bytes = bs, rd_cursor = 0\<rparr>"

definition remaining_len :: "wire_reader \<Rightarrow> nat" where
  "remaining_len r = length (rd_bytes r) - rd_cursor r"

definition is_finished :: "wire_reader \<Rightarrow> bool" where
  "is_finished r \<longleftrightarrow> remaining_len r = 0"

definition ensure_finished :: "wire_reader \<Rightarrow> unit ser_result" where
  "ensure_finished r =
     (if is_finished r then Ok ()
      else Err (Message (''wire payload has '' @ show_nat (remaining_len r) @ '' trailing byte(s)'')))"

type_synonym 'a read = "wire_reader \<Rightarrow> ('a \<times> wire_reader) ser_result"

definition read_exact :: "nat \<Rightarrow> bytes read" where
  "read_exact len r =
     (let stop = rd_cursor r + len
      in if 2 ^ 64 \<le> stop then Err (Message ''wire payload length overflow'')
         else if length (rd_bytes r) < stop then Err (Message ''wire payload ended early'')
         else Ok (take len (drop (rd_cursor r) (rd_bytes r)), r\<lparr>rd_cursor := stop\<rparr>))"

definition read_u8 :: "u8 read" where
  "read_u8 r = bind_result (read_exact 1 r) (\<lambda>(bs, r). Ok (bs ! 0, r))"

definition read_bool :: "bool read" where
  "read_bool r = bind_result (read_u8 r) (\<lambda>(b, r).
     if b = 0 then Ok (False, r) else if b = 1 then Ok (True, r)
     else Err (Message (''invalid bool marker '' @ show_nat (unat b))))"

definition read_u16 :: "u16 read" where
  "read_u16 r = bind_result (read_exact 2 r) (\<lambda>(bs, r). Ok (from_be_bytes bs, r))"

definition read_u32 :: "u32 read" where
  "read_u32 r = bind_result (read_exact 4 r) (\<lambda>(bs, r). Ok (from_be_bytes bs, r))"

definition read_u64 :: "u64 read" where
  "read_u64 r = bind_result (read_exact 8 r) (\<lambda>(bs, r). Ok (from_be_bytes bs, r))"

definition read_u128 :: "u128 read" where
  "read_u128 r = bind_result (read_exact 16 r) (\<lambda>(bs, r). Ok (from_be_bytes bs, r))"

definition read_string :: "string read" where
  "read_string r = bind_result (read_u32 r) (\<lambda>(len, r).
     bind_result (read_exact (unat len) r) (\<lambda>(bs, r).
       if valid_utf8 bs then Ok (string_of_bytes bs, r)
       else Err (Message ''wire string is not utf-8'')))"

definition read_bytes :: "bytes read" where
  "read_bytes r = bind_result (read_u32 r) (\<lambda>(len, r). read_exact (unat len) r)"

definition read_optional_string :: "string option read" where
  "read_optional_string r = bind_result (read_u8 r) (\<lambda>(b, r).
     if b = 0 then Ok (None, r)
     else if b = 1 then bind_result (read_string r) (\<lambda>(s, r). Ok (Some s, r))
     else Err (Message (''invalid optional string marker '' @ show_nat (unat b))))"

definition read_optional_u64 :: "u64 option read" where
  "read_optional_u64 r = bind_result (read_u8 r) (\<lambda>(b, r).
     if b = 0 then Ok (None, r)
     else if b = 1 then bind_result (read_u64 r) (\<lambda>(v, r). Ok (Some v, r))
     else Err (Message (''invalid optional u64 marker '' @ show_nat (unat b))))"

section \<open>Big-endian numbers and byte strings\<close>

lemma length_be_of_nat [simp]: "length (be_of_nat k n) = k"
  by (induction k arbitrary: n) simp_all

lemma nat_of_be_snoc [simp]: "nat_of_be (bs @ [b]) = nat_of_be bs * 256 + unat b"
  by (simp add: nat_of_be_def)

lemma nat_of_be_Nil [simp]: "nat_of_be [] = 0"
  by (simp add: nat_of_be_def)

lemma unat_u8: "unat (b :: u8) < 256"
proof -
  have "unat b < 2 ^ LENGTH(8)" by (rule unsigned_less)
  then show ?thesis by simp
qed

lemma nat_of_be_less: "nat_of_be bs < 256 ^ length bs"
proof (induction bs rule: rev_induct)
  case (snoc b bs)
  have "unat b < 256" by (rule unat_u8)
  with snoc show ?case by simp
qed simp

lemma nat_of_be_of_nat: "nat_of_be (be_of_nat k n) = n mod 256 ^ k"
proof (induction k arbitrary: n)
  case (Suc k)
  have "unat (of_nat (n mod 256) :: u8) = n mod 256" by (simp add: unat_of_nat)
  with Suc show ?case by (simp add: mod_mult2_eq)
qed simp

lemma be_of_nat_of_be: "be_of_nat (length bs) (nat_of_be bs) = bs"
proof (induction bs rule: rev_induct)
  case (snoc b bs)
  have "unat b < 256" by (rule unat_u8)
  with snoc show ?case by simp
qed simp

definition byte_sized :: "'n::len itself \<Rightarrow> nat \<Rightarrow> bool" where
  "byte_sized _ k \<longleftrightarrow> LENGTH('n) = 8 * k"

lemma byte_sized_simps [simp]:
  "byte_sized TYPE(16) 2" "byte_sized TYPE(32) 4" "byte_sized TYPE(64) 8" "byte_sized TYPE(128) 16"
  by (simp_all add: byte_sized_def)

lemma length_to_be_bytes [simp]: "length (to_be_bytes (w :: 'n::len word)) = LENGTH('n) div 8"
  by (simp add: to_be_bytes_def)

lemma from_to_be_bytes:
  assumes "byte_sized TYPE('n) k"
  shows "from_be_bytes (to_be_bytes w) = (w :: 'n::len word)"
proof -
  have "(256 :: nat) ^ k = 2 ^ LENGTH('n)"
    using assms by (simp add: byte_sized_def power_mult)
  then have "unat w mod 256 ^ k = unat w" by (simp only: mod_less unsigned_less)
  moreover have "LENGTH('n) div 8 = k" using assms by (simp add: byte_sized_def)
  ultimately show ?thesis
    by (simp add: from_be_bytes_def to_be_bytes_def nat_of_be_of_nat)
qed

lemma to_from_be_bytes:
  assumes "byte_sized TYPE('n) (length bs)"
  shows "to_be_bytes (from_be_bytes bs :: 'n::len word) = bs"
proof -
  have "(256 :: nat) ^ length bs = 2 ^ LENGTH('n)"
    using assms by (simp add: byte_sized_def power_mult)
  with nat_of_be_less [of bs] have "unat (of_nat (nat_of_be bs) :: 'n word) = nat_of_be bs"
    by (simp only: unat_of_nat mod_less)
  moreover have "LENGTH('n) div 8 = length bs" using assms by (simp add: byte_sized_def)
  ultimately show ?thesis
    by (simp add: from_be_bytes_def to_be_bytes_def be_of_nat_of_be)
qed

lemma string_of_as_bytes [simp]: "string_of_bytes (as_bytes s) = s"
proof -
  have "unat (of_nat (of_char c) :: u8) = of_char c" for c :: char
    by (simp add: unat_of_nat)
  then show ?thesis by (simp add: as_bytes_def string_of_bytes_def comp_def)
qed

lemma as_bytes_string_of [simp]: "as_bytes (string_of_bytes bs) = bs"
proof -
  have "of_nat (of_char (char_of (unat b) :: char)) = b" for b :: u8
  proof -
    have "unat b < 256" by (rule unat_u8)
    then show ?thesis by simp
  qed
  then show ?thesis by (simp add: as_bytes_def string_of_bytes_def comp_def)
qed

lemma length_as_bytes [simp]: "length (as_bytes s) = length s"
  by (simp add: as_bytes_def)

lemma length_string_of_bytes [simp]: "length (string_of_bytes bs) = length bs"
  by (simp add: string_of_bytes_def)

section \<open>The contract of a field\<close>

definition wf_reader :: "wire_reader \<Rightarrow> bool" where
  "wf_reader r \<longleftrightarrow> rd_cursor r \<le> length (rd_bytes r) \<and> length (rd_bytes r) < 2 ^ 64"

definition unread :: "wire_reader \<Rightarrow> bytes" where
  "unread r = drop (rd_cursor r) (rd_bytes r)"

definition advance :: "nat \<Rightarrow> wire_reader \<Rightarrow> wire_reader" where
  "advance n r = r\<lparr>rd_cursor := rd_cursor r + n\<rparr>"

lemma unread_advance [simp]: "unread (advance n r) = drop n (unread r)"
  by (simp add: unread_def advance_def add.commute)

lemma advance_advance [simp]: "advance m (advance n r) = advance (n + m) r"
  by (simp add: advance_def add.assoc)

lemma advance_0 [simp]: "advance 0 r = r"
  by (simp add: advance_def)

lemma wf_advance: "wf_reader r \<Longrightarrow> n \<le> length (unread r) \<Longrightarrow> wf_reader (advance n r)"
  by (auto simp: wf_reader_def unread_def advance_def)

lemma wf_reader_new: "length bs < 2 ^ 64 \<Longrightarrow> wf_reader (reader_new bs)"
  by (simp add: wf_reader_def reader_new_def)

lemma unread_reader_new [simp]: "unread (reader_new bs) = bs"
  by (simp add: unread_def reader_new_def)

lemma ensure_finished_Ok: "ensure_finished r = Ok u \<longleftrightarrow> unread r = []"
  by (auto simp: ensure_finished_def is_finished_def remaining_len_def unread_def)

lemma prefix_take_iff: "prefix xs ys \<longleftrightarrow> length xs \<le> length ys \<and> xs = take (length xs) ys"
  by (metis append_eq_conv_conj prefix_def prefix_length_le take_is_prefix)

lemma read_exact_Ok:
  assumes "wf_reader r"
  shows "read_exact n r = Ok (bs, r') \<longleftrightarrow> length bs = n \<and> prefix bs (unread r) \<and> r' = advance n r"
  using assms
  by (auto simp: read_exact_def wf_reader_def unread_def advance_def Let_def prefix_take_iff)

locale wire_written =
  fixes valid :: "'a \<Rightarrow> bool"
    and put :: "'a \<Rightarrow> wire_writer \<Rightarrow> wire_writer ser_result"
    and get :: "'a read"
  assumes put_append: "put x w = bind_result (put x []) (\<lambda>bs. Ok (w @ bs))"
    and put_get: "wf_reader r \<Longrightarrow> valid x \<Longrightarrow> put x [] = Ok bs \<Longrightarrow> unread r = bs @ rest \<Longrightarrow>
      get r = Ok (x, advance (length bs) r)"
begin

lemma put_Ok: "put x w = Ok w' \<longleftrightarrow> (\<exists>bs. put x [] = Ok bs \<and> w' = w @ bs)"
  by (subst put_append) auto

text \<open>A message is a field that fills its payload.\<close>

lemma decode_written:
  assumes "length b < 2 ^ 64" "valid m" "put m [] = Ok b"
  shows "bind_result (get (reader_new b)) (\<lambda>(m, r). bind_result (ensure_finished r) (\<lambda>_. Ok m)) = Ok m"
proof -
  have "get (reader_new b) = Ok (m, advance (length b) (reader_new b))"
    using assms by (intro put_get [where rest = "[]"] wf_reader_new) simp_all
  then show ?thesis by (simp add: ensure_finished_Ok)
qed

end

locale wire_field = wire_written +
  assumes get_put: "wf_reader r \<Longrightarrow> get r = Ok (x, r') \<Longrightarrow>
      valid x \<and> (\<exists>bs. put x [] = Ok bs \<and> prefix bs (unread r) \<and> r' = advance (length bs) r)"
begin

lemma reader_stays_wf: "wf_reader r \<Longrightarrow> get r = Ok (x, r') \<Longrightarrow> wf_reader r'"
  using get_put [of r x r'] by (auto intro!: wf_advance simp: prefix_length_le)

text \<open>Reading a message accepts exactly what is written.\<close>

lemma decode_iff:
  assumes "length b < 2 ^ 64"
  shows "bind_result (get (reader_new b)) (\<lambda>(m, r). bind_result (ensure_finished r) (\<lambda>_. Ok m)) = Ok m
     \<longleftrightarrow> valid m \<and> put m [] = Ok b"
    (is "?decode = _ \<longleftrightarrow> _")
proof
  assume "?decode = Ok m"
  then obtain r' where r: "get (reader_new b) = Ok (m, r')" "unread r' = []"
    by (auto simp: ensure_finished_Ok)
  from get_put [OF wf_reader_new [OF assms] r(1)] r(2) show "valid m \<and> put m [] = Ok b"
    by (auto elim!: prefixE)
qed (use decode_written [OF assms] in blast)

end

lemmas written = wire_field.axioms(1)

section \<open>Combinators\<close>

named_theorems wire_simps \<open>normal form of a sequence of reads\<close>

lemma bind_result_assoc [wire_simps]:
  "bind_result (bind_result r f) g = bind_result r (\<lambda>x. bind_result (f x) g)"
  by (cases r) simp_all

lemma bind_result_case_prod [wire_simps]:
  "bind_result (case p of (a, b) \<Rightarrow> f a b) g = (case p of (a, b) \<Rightarrow> bind_result (f a b) g)"
  by (cases p) simp

lemma wire_unit: "wire_field (\<lambda>_. True) (\<lambda>_ w. Ok w) (\<lambda>r. Ok ((), r))"
  by unfold_locales auto

lemma written_seq:
  assumes "wire_written v1 p1 g1" "wire_written v2 p2 g2"
  shows "wire_written (\<lambda>(a, b). v1 a \<and> v2 b) (\<lambda>(a, b) w. bind_result (p1 a w) (p2 b))
     (\<lambda>r. bind_result (g1 r) (\<lambda>(a, r). bind_result (g2 r) (\<lambda>(b, r). Ok ((a, b), r))))"
proof (unfold_locales, goal_cases)
  case (1 x w)
  obtain a b where x: "x = (a, b)" by fastforce
  show ?case
  proof (cases "p1 a []")
    case (Inr b1)
    then show ?thesis
      using x wire_written.put_append [OF assms(1), of a w]
        wire_written.put_append [OF assms(2), of b b1] wire_written.put_append [OF assms(2), of b "w @ b1"]
      by (cases "p2 b []") simp_all
  qed (use x wire_written.put_append [OF assms(1), of a w] in simp)
next
  case (2 r x bs rest)
  obtain a b where x: "x = (a, b)" by fastforce
  with 2 obtain b1 where b1: "p1 a [] = Ok b1" "p2 b b1 = Ok bs" by auto
  moreover from b1(2) obtain b2 where "p2 b [] = Ok b2" "bs = b1 @ b2"
    unfolding wire_written.put_Ok [OF assms(2), of b b1 bs] by blast
  ultimately have b: "p1 a [] = Ok b1" "p2 b [] = Ok b2" "bs = b1 @ b2" by simp_all
  from 2 b x have "g1 r = Ok (a, advance (length b1) r)"
    using wire_written.put_get [OF assms(1), of r a b1 "b2 @ rest"] by simp
  moreover have "g2 (advance (length b1) r) = Ok (b, advance (length b2) (advance (length b1) r))"
    using 2 b x wf_advance [of r "length b1"]
    by (intro wire_written.put_get [OF assms(2), where rest = rest]) auto
  ultimately show ?case using x b by simp
qed

lemma wire_seq:
  assumes "wire_field v1 p1 g1" "wire_field v2 p2 g2"
  shows "wire_field (\<lambda>(a, b). v1 a \<and> v2 b) (\<lambda>(a, b) w. bind_result (p1 a w) (p2 b))
     (\<lambda>r. bind_result (g1 r) (\<lambda>(a, r). bind_result (g2 r) (\<lambda>(b, r). Ok ((a, b), r))))"
proof (intro wire_field.intro wire_field_axioms.intro written_seq assms [THEN written], goal_cases)
  case (1 r x r')
  obtain a b where x: "x = (a, b)" by fastforce
  with 1 obtain r1 where g: "g1 r = Ok (a, r1)" "g2 r1 = Ok (b, r')" by auto
  from wire_field.get_put [OF assms(1) 1(1) g(1)]
  obtain b1 where b1: "v1 a" "p1 a [] = Ok b1" "prefix b1 (unread r)" "r1 = advance (length b1) r" by auto
  from wire_field.get_put [OF assms(2) wire_field.reader_stays_wf [OF assms(1) 1(1) g(1)] g(2)]
  obtain b2 where b2: "v2 b" "p2 b [] = Ok b2" "prefix b2 (unread r1)" "r' = advance (length b2) r1" by auto
  from b1 b2 have "prefix (b1 @ b2) (unread r)" by (auto elim!: prefixE)
  moreover have "p2 b b1 = Ok (b1 @ b2)" using b2(2) wire_written.put_Ok [OF written [OF assms(2)], of b b1 "b1 @ b2"] by blast
  ultimately show ?case using x b1 b2 by auto
qed

text \<open>A value read through a constructor that may refuse it.\<close>

lemma written_partial:
  assumes "wire_written v p g" and inv: "\<And>x. V x \<Longrightarrow> v (f x) \<and> h (f x) = Ok x"
  shows "wire_written V (\<lambda>x. p (f x))
     (\<lambda>r. bind_result (g r) (\<lambda>(a, r). bind_result (h a) (\<lambda>x. Ok (x, r))))"
proof (unfold_locales, goal_cases)
  case (1 x w)
  show ?case by (rule wire_written.put_append [OF assms(1)])
next
  case (2 r x bs rest)
  then have "g r = Ok (f x, advance (length bs) r)"
    using wire_written.put_get [OF assms(1), of r "f x" bs rest] inv [of x] by simp
  then show ?case using inv [OF 2(2)] by simp
qed

lemma wire_partial:
  assumes "wire_field v p g" and inv: "\<And>a x. v a \<Longrightarrow> h a = Ok x \<longleftrightarrow> a = f x \<and> V x"
  shows "wire_field (\<lambda>x. v (f x) \<and> V x) (\<lambda>x. p (f x))
     (\<lambda>r. bind_result (g r) (\<lambda>(a, r). bind_result (h a) (\<lambda>x. Ok (x, r))))"
proof (intro wire_field.intro wire_field_axioms.intro, goal_cases)
  case 1
  show ?case by (rule written_partial [OF written [OF assms(1)]]) (use inv in simp)
next
  case (2 r x r')
  then obtain a where a: "g r = Ok (a, r')" "h a = Ok x" by auto
  from wire_field.get_put [OF assms(1) 2(1) a(1)] have "v a" by simp
  with inv [of a x] a(2) have "a = f x" "V x" by simp_all
  with wire_field.get_put [OF assms(1) 2(1) a(1)] show ?case by simp
qed

lemma written_map:
  assumes "wire_written v p g" "\<And>x. V x \<Longrightarrow> v (f x) \<and> h (f x) = x"
  shows "wire_written V (\<lambda>x. p (f x)) (\<lambda>r. bind_result (g r) (\<lambda>(a, r). Ok (h a, r)))"
  using written_partial [OF assms(1), where h = "\<lambda>a. Ok (h a)" and f = f and V = V] assms(2) by simp

lemma wire_iso:
  assumes "wire_field v p g" "\<And>x. h (f x) = x" "\<And>a. v a \<Longrightarrow> f (h a) = a"
  shows "wire_field (\<lambda>x. v (f x)) (\<lambda>x. p (f x)) (\<lambda>r. bind_result (g r) (\<lambda>(a, r). Ok (h a, r)))"
proof -
  have "Ok (h a) = (Ok x :: _ ser_result) \<longleftrightarrow> a = f x \<and> True" if "v a" for a x
    using assms(2) [of x] assms(3) [OF that] by auto
  from wire_partial [OF assms(1) this] show ?thesis by simp
qed

text \<open>A check that the writer and the reader share.\<close>

lemma wire_guard:
  assumes "wire_field v p g"
  shows "wire_field (\<lambda>x. v x \<and> chk x = Ok ()) (\<lambda>x w. bind_result (chk x) (\<lambda>_. p x w))
     (\<lambda>r. bind_result (g r) (\<lambda>(x, r). bind_result (chk x) (\<lambda>_. Ok (x, r))))"
proof (unfold_locales, goal_cases)
  case (1 x w)
  show ?case using wire_written.put_append [OF written [OF assms], of x w] by (cases "chk x") simp_all
next
  case (2 r x bs rest)
  then show ?case using wire_written.put_get [OF written [OF assms], of r x bs rest] by simp
next
  case (3 r x r')
  then show ?case using wire_field.get_put [OF assms 3(1), of x r'] by auto
qed

section \<open>Primitive fields\<close>

lemma wire_exact: "wire_field (\<lambda>bs. length bs = n) (\<lambda>bs w. Ok (w @ bs)) (read_exact n)"
  by unfold_locales (auto simp: read_exact_Ok)

lemma wire_number:
  assumes "byte_sized TYPE('n) k"
  shows "wire_field (\<lambda>_. True) (\<lambda>v w. Ok (w @ to_be_bytes (v :: 'n::len word)))
     (\<lambda>r. bind_result (read_exact k r) (\<lambda>(bs, r). Ok (from_be_bytes bs, r)))"
proof -
  have "LENGTH('n) div 8 = k" using assms by (simp add: byte_sized_def)
  then show ?thesis
    using wire_iso [OF wire_exact [of k], where h = from_be_bytes and f = "to_be_bytes :: 'n word \<Rightarrow> _"] assms
    by (simp add: from_to_be_bytes to_from_be_bytes)
qed

interpretation u16f: wire_field "\<lambda>_. True" "\<lambda>v w. Ok (write_u16 v w)" read_u16
  unfolding write_u16_def read_u16_def [abs_def] by (rule wire_number) simp

interpretation u32f: wire_field "\<lambda>_. True" "\<lambda>v w. Ok (write_u32 v w)" read_u32
  unfolding write_u32_def read_u32_def [abs_def] by (rule wire_number) simp

interpretation u64f: wire_field "\<lambda>_. True" "\<lambda>v w. Ok (write_u64 v w)" read_u64
  unfolding write_u64_def read_u64_def [abs_def] by (rule wire_number) simp

interpretation u128f: wire_field "\<lambda>_. True" "\<lambda>v w. Ok (write_u128 v w)" read_u128
  unfolding write_u128_def read_u128_def [abs_def] by (rule wire_number) simp

interpretation u8f: wire_field "\<lambda>_. True" "\<lambda>v w. Ok (write_u8 v w)" read_u8
proof -
  have "f (bs ! 0) = bs" if "length bs = 1" "f = (\<lambda>b. [b])" for bs :: bytes and f
    using that by (cases bs) auto
  then show "wire_field (\<lambda>_. True) (\<lambda>v w. Ok (write_u8 v w)) read_u8"
    unfolding write_u8_def read_u8_def [abs_def]
    using wire_iso [OF wire_exact [of 1], where h = "\<lambda>bs. bs ! 0" and f = "\<lambda>b. [b]"] by simp
qed

lemma wire_prefixed:
  "wire_field (\<lambda>_. True)
     (\<lambda>bs w. if length bs < 2 ^ 32 then Ok ((w @ to_be_bytes (of_nat (length bs) :: u32)) @ bs) else Err e)
     (\<lambda>r. bind_result (read_u32 r) (\<lambda>(len, r). read_exact (unat len) r))"
proof (unfold_locales, goal_cases)
  case (1 x w)
  show ?case by simp
next
  case (2 r x bs rest)
  let ?n = "to_be_bytes (of_nat (length x) :: u32)"
  from 2 have len: "length x < 2 ^ 32" and bs: "bs = ?n @ x" by (auto split: if_splits)
  then have n: "unat (of_nat (length x) :: u32) = length x" by (simp add: unat_of_nat)
  have "read_u32 r = Ok (of_nat (length x), advance (length ?n) r)"
    using 2(1,4) bs by (intro u32f.put_get [where rest = "x @ rest"]) (simp_all add: write_u32_def)
  moreover have "wf_reader (advance (length ?n) r)"
    using 2(1,4) bs by (intro wf_advance) simp_all
  ultimately show ?case
    using 2(4) bs n by (simp add: read_exact_Ok)
next
  case (3 r x r')
  then obtain len r1 where g: "read_u32 r = Ok (len, r1)" "read_exact (unat len) r1 = Ok (x, r')" by auto
  from u32f.get_put [OF 3(1) g(1)] have n: "prefix (to_be_bytes len) (unread r)" "r1 = advance 4 r"
    by (auto simp: write_u32_def)
  from g(2) have x: "length x = unat len" "prefix x (unread r1)" "r' = advance (unat len) r1"
    unfolding read_exact_Ok [OF u32f.reader_stays_wf [OF 3(1) g(1)]] by simp_all
  have "unat len < 2 ^ LENGTH(32)" by (rule unsigned_less)
  with x(1) have len: "length x < 2 ^ 32" "of_nat (length x) = len" by simp_all
  have "prefix (to_be_bytes len @ x) (unread r)"
    using n x(2) by (auto elim!: prefixE)
  with x n len show ?case by simp
qed

interpretation bytesf: wire_field "\<lambda>_. True" write_bytes read_bytes
  unfolding write_bytes_def [abs_def] read_bytes_def [abs_def] by (rule wire_prefixed)

interpretation stringf: wire_field utf8_string write_string read_string
proof -
  define h :: "bytes \<Rightarrow> string ser_result" where
    "h bs = (if valid_utf8 bs then Ok (string_of_bytes bs) else Err (Message ''wire string is not utf-8''))" for bs
  have "h bs = Ok s \<longleftrightarrow> bs = as_bytes s \<and> utf8_string s" for bs s
    by (auto simp: h_def utf8_string_def)
  from wire_partial [OF wire_prefixed this]
  have "wire_field (\<lambda>x. True \<and> utf8_string x) write_string (\<lambda>r. bind_result
      (bind_result (read_u32 r) (\<lambda>(len, r). read_exact (unat len) r)) (\<lambda>(a, r). bind_result (h a) (\<lambda>x. Ok (x, r))))"
    unfolding write_string_def [abs_def] Let_def .
  moreover have "read_string = (\<lambda>r. bind_result
      (bind_result (read_u32 r) (\<lambda>(len, r). read_exact (unat len) r)) (\<lambda>(a, r). bind_result (h a) (\<lambda>x. Ok (x, r))))"
    by (rule ext) (auto simp: read_string_def h_def bind_result_def split: sum.splits)
  ultimately show "wire_field utf8_string write_string read_string" by simp
qed

text \<open>A one-byte tag, a function of the value, chooses between layouts.\<close>

lemma wire_choice:
  assumes fields: "\<And>t. t \<in> T \<Longrightarrow> wire_field (\<lambda>x. v x \<and> tag x = t) (p t) (g t)"
    and tags: "\<And>x. tag x \<in> T"
  shows "wire_field v (\<lambda>x w. p (tag x) x (write_u8 (tag x) w))
     (\<lambda>r. bind_result (read_u8 r) (\<lambda>(t, r). if t \<in> T then g t r else Err (e t)))"
proof (unfold_locales, goal_cases)
  case (1 x w)
  note f = fields [OF tags [of x]]
  show ?case
    using wire_written.put_append [OF written [OF f], of x "w @ [tag x]"] wire_written.put_append [OF written [OF f], of x "[tag x]"]
    by (cases "p (tag x) x []") (simp_all add: write_u8_def)
next
  case (2 r x bs rest)
  note f = fields [OF tags [of x]]
  from 2(3) obtain cs where cs: "p (tag x) x [] = Ok cs" "bs = tag x # cs"
    unfolding wire_written.put_Ok [OF written [OF f], of x _ bs] by (auto simp: write_u8_def)
  with 2 have r: "read_u8 r = Ok (tag x, advance 1 r)" "wf_reader (advance 1 r)"
    using u8f.put_get [of r "tag x" "[tag x]" "cs @ rest"] wf_advance [of r 1] by (simp_all add: write_u8_def)
  with cs 2 have "g (tag x) (advance 1 r) = Ok (x, advance (length cs) (advance 1 r))"
    using wire_written.put_get [OF written [OF f] r(2), of x cs rest] by simp
  with r cs tags show ?case by simp
next
  case (3 r x r')
  then obtain t r1 where t: "read_u8 r = Ok (t, r1)" "t \<in> T" "g t r1 = Ok (x, r')"
    by (auto split: if_splits)
  from u8f.get_put [OF 3(1) t(1)] have r1: "prefix [t] (unread r)" "r1 = advance 1 r"
    by (auto simp: write_u8_def)
  from wire_field.get_put [OF fields [OF t(2)] u8f.reader_stays_wf [OF 3(1) t(1)] t(3)]
  obtain cs where cs: "v x" "tag x = t" "p t x [] = Ok cs" "prefix cs (unread r1)" "r' = advance (length cs) r1"
    by auto
  from cs r1 have "prefix (t # cs) (unread r)" by (auto elim!: prefixE)
  with cs r1 t(2) show ?case
    using wire_written.put_append [OF written [OF fields [OF t(2)]], of x "[t]"] by (auto simp: write_u8_def)
qed

lemma wire_const: "wire_field (\<lambda>x. x = c) (\<lambda>_ w. Ok w) (\<lambda>r. Ok (c, r))"
  by unfold_locales auto

interpretation boolf: wire_field "\<lambda>_. True" "\<lambda>v w. Ok (write_bool v w)" read_bool
proof -
  have "wire_field (\<lambda>_. True) (\<lambda>v w. Ok (write_u8 (of_bool v) w)) (\<lambda>r. bind_result (read_u8 r) (\<lambda>(t, r).
      if t \<in> {0, 1} then Ok (t = 1, r) else Err (Message (''invalid bool marker '' @ show_nat (unat t)))))"
    by (rule wire_choice) (auto intro: wire_const [of True, simplified] wire_const [of False, simplified])
  moreover have "read_bool = (\<lambda>r. bind_result (read_u8 r) (\<lambda>(t, r).
      if t \<in> {0, 1} then Ok (t = 1, r) else Err (Message (''invalid bool marker '' @ show_nat (unat t)))))"
    by (rule ext) (auto simp: read_bool_def bind_result_def split: sum.splits)
  ultimately show "wire_field (\<lambda>_. True) (\<lambda>v w. Ok (write_bool v w)) read_bool"
    by (simp add: write_bool_def)
qed

text \<open>The presence marker of an optional field.\<close>

lemma wire_optional:
  assumes "wire_field v p g"
  shows "wire_field (pred_option v) (\<lambda>x w. case x of Some a \<Rightarrow> p a (w @ [1]) | None \<Rightarrow> Ok (w @ [0]))
     (\<lambda>r. bind_result (read_u8 r) (\<lambda>(b, r).
        if b = 0 then Ok (None, r) else if b = 1 then bind_result (g r) (\<lambda>(a, r). Ok (Some a, r)) else Err (e b)))"
    (is "wire_field _ ?p ?g")
proof -
  define tag :: "'a option \<Rightarrow> u8" where "tag x = (case x of None \<Rightarrow> 0 | Some _ \<Rightarrow> 1)" for x
  define q where "q t x w = (if t = 0 then Ok w else p (the x) w)" for t :: u8 and x :: "'a option" and w :: wire_writer
  define h where "h t r = (if t = 0 then Ok (None, r) else bind_result (g r) (\<lambda>(a, r). Ok (Some a, r)))" for t :: u8 and r
  have "wire_field (\<lambda>x. v (the x) \<and> x \<noteq> None) (\<lambda>x. p (the x)) (\<lambda>r. bind_result (g r) (\<lambda>(a, r). bind_result (Ok (Some a)) (\<lambda>x. Ok (x, r))))"
    by (rule wire_partial [OF assms]) auto
  moreover have "(\<lambda>x. pred_option v x \<and> tag x = 1) = (\<lambda>x. v (the x) \<and> x \<noteq> None)"
    "(\<lambda>x. pred_option v x \<and> tag x = 0) = (\<lambda>x. x = None)"
    by (auto simp: fun_eq_iff tag_def split: option.splits)
  ultimately have "wire_field (\<lambda>x. pred_option v x \<and> tag x = t) (q t) (h t)" if "t \<in> {0, 1}" for t
    using that wire_const [of "None :: 'a option"] by (auto simp: q_def [abs_def] h_def [abs_def])
  then have "wire_field (pred_option v) (\<lambda>x w. q (tag x) x (write_u8 (tag x) w))
      (\<lambda>r. bind_result (read_u8 r) (\<lambda>(t, r). if t \<in> {0, 1} then h t r else Err (e t)))"
    by (rule wire_choice) (auto simp: tag_def split: option.splits)
  moreover have "(\<lambda>x w. q (tag x) x (write_u8 (tag x) w)) = ?p"
    by (auto simp: fun_eq_iff q_def tag_def write_u8_def split: option.splits)
  moreover have "(\<lambda>r. bind_result (read_u8 r) (\<lambda>(t, r). if t \<in> {0, 1} then h t r else Err (e t))) = ?g"
    by (auto simp: fun_eq_iff h_def bind_result_def split: sum.splits)
  ultimately show ?thesis by simp
qed

interpretation optstringf: wire_field "pred_option utf8_string" write_optional_string read_optional_string
  unfolding write_optional_string_def [abs_def] read_optional_string_def [abs_def]
  by (rule wire_optional) unfold_locales

interpretation optu64f: wire_field "\<lambda>_. True" "\<lambda>v w. Ok (write_optional_u64 v w)" read_optional_u64
proof -
  have "(\<lambda>v w. Ok (write_optional_u64 v w) :: _ ser_result) =
      (\<lambda>x w. case x of Some a \<Rightarrow> Ok (write_u64 a (w @ [1])) | None \<Rightarrow> Ok (w @ [0]))"
    by (auto simp: fun_eq_iff write_optional_u64_def split: option.splits)
  then show "wire_field (\<lambda>_. True) (\<lambda>v w. Ok (write_optional_u64 v w)) read_optional_u64"
    unfolding read_optional_u64_def [abs_def]
    using wire_optional [OF u64f.wire_field_axioms,
        where e = "\<lambda>b. Message (''invalid optional u64 marker '' @ show_nat (unat b))"]
    by (simp add: option.pred_True)
qed

section \<open>Counted sequences\<close>

text \<open>
  The loops over a collection that writes each element, and that reads as many elements as a
  count says. The counts are \<open>u64\<close>; \<open>usize\<close> has the 64 bits of the supported targets. Each codec
  module has its own pair of checked conversions, which differ in the text of the error.
\<close>

primrec write_each :: "('a \<Rightarrow> wire_writer \<Rightarrow> wire_writer ser_result) \<Rightarrow> 'a list \<Rightarrow> wire_writer \<Rightarrow> wire_writer ser_result" where
  "write_each p [] w = Ok w"
| "write_each p (x # xs) w = bind_result (p x w) (write_each p xs)"

primrec read_each :: "'a read \<Rightarrow> nat \<Rightarrow> 'a list read" where
  "read_each g 0 r = Ok ([], r)"
| "read_each g (Suc n) r =
     bind_result (g r) (\<lambda>(x, r). bind_result (read_each g n r) (\<lambda>(xs, r). Ok (x # xs, r)))"

definition checked_len :: "string \<Rightarrow> nat \<Rightarrow> u64 ser_result" where
  "checked_len error len = (if len < 2 ^ 64 then Ok (of_nat len) else Err (Message error))"

definition checked_count :: "string \<Rightarrow> u64 \<Rightarrow> nat ser_result" where
  "checked_count error len = (if unat len < 2 ^ 64 then Ok (unat len) else Err (Message error))"

lemma checked_count_Ok [simp]: "checked_count error len = Ok (unat len)"
proof -
  have "unat len < 2 ^ LENGTH(64)" by (rule unsigned_less)
  then show ?thesis by (simp add: checked_count_def)
qed

lemma write_each_append:
  assumes "\<And>x w. x \<in> set xs \<Longrightarrow> p x w = bind_result (p x []) (\<lambda>bs. Ok (w @ bs))"
  shows "write_each p xs w = bind_result (write_each p xs []) (\<lambda>bs. Ok (w @ bs))"
  using assms
proof (induction xs arbitrary: w)
  case (Cons x xs)
  note IH = Cons.IH [OF Cons.prems [OF list.set_intros(2)]]
  show ?case
  proof (cases "p x []")
    case (Inr b)
    then show ?thesis
      using Cons.prems [of x w] IH [of b] IH [of "w @ b"] by (cases "write_each p xs []") simp_all
  qed (use Cons.prems [of x w] in simp)
qed simp

lemma written_each_append:
  assumes "wire_written v p g"
  shows "write_each p xs w = bind_result (write_each p xs []) (\<lambda>bs. Ok (w @ bs))"
  by (rule write_each_append) (rule wire_written.put_append [OF assms])

lemma read_each_written:
  assumes "wire_written v p g" "wf_reader r" "list_all v xs" "write_each p xs [] = Ok bs" "unread r = bs @ rest"
  shows "read_each g (length xs) r = Ok (xs, advance (length bs) r)"
  using assms(2-)
proof (induction xs arbitrary: r bs)
  case (Cons x xs)
  from Cons.prems(3) obtain b where b: "p x [] = Ok b" "write_each p xs b = Ok bs" by auto
  with written_each_append [OF assms(1), of xs b] obtain bs' where bs': "write_each p xs [] = Ok bs'" "bs = b @ bs'"
    by (cases "write_each p xs []") auto
  have "g r = Ok (x, advance (length b) r)"
    using Cons.prems b bs' wire_written.put_get [OF assms(1), of r x b "bs' @ rest"] by simp
  moreover have "read_each g (length xs) (advance (length b) r) = Ok (xs, advance (length bs') (advance (length b) r))"
    using Cons.prems bs' by (intro Cons.IH wf_advance) simp_all
  ultimately show ?case using bs' by simp
qed simp

lemma read_each_writes:
  assumes "wire_field v p g" "wf_reader r" "read_each g n r = Ok (xs, r')"
  shows "length xs = n \<and> list_all v xs \<and>
     (\<exists>bs. write_each p xs [] = Ok bs \<and> prefix bs (unread r) \<and> r' = advance (length bs) r)"
  using assms(2-)
proof (induction n arbitrary: r xs)
  case (Suc n)
  then obtain x ys r1 where g: "g r = Ok (x, r1)" "read_each g n r1 = Ok (ys, r')" "xs = x # ys" by auto
  from wire_field.get_put [OF assms(1) Suc.prems(1) g(1)]
  obtain b where b: "v x" "p x [] = Ok b" "prefix b (unread r)" "r1 = advance (length b) r" by auto
  from Suc.IH [OF wire_field.reader_stays_wf [OF assms(1) Suc.prems(1) g(1)] g(2)]
  obtain bs where bs: "length ys = n" "list_all v ys" "write_each p ys [] = Ok bs" "prefix bs (unread r1)"
    "r' = advance (length bs) r1" by auto
  from b bs have "prefix (b @ bs) (unread r)" by (auto elim!: prefixE)
  with g b bs written_each_append [OF written [OF assms(1)], of ys b] show ?case by auto
qed simp

lemma written_each:
  assumes "wire_written v p g"
  shows "wire_written (\<lambda>xs. length xs = n \<and> list_all v xs) (write_each p) (read_each g n)"
  using written_each_append [OF assms] read_each_written [OF assms] by unfold_locales blast+

lemma wire_each:
  assumes "wire_field v p g"
  shows "wire_field (\<lambda>xs. length xs = n \<and> list_all v xs) (write_each p) (read_each g n)"
  using written_each [OF written [OF assms]] read_each_writes [OF assms]
  by (intro wire_field.intro wire_field_axioms.intro) blast+

lemma written_counted:
  assumes "wire_written v p g"
  shows "wire_written (list_all v)
     (\<lambda>xs w. bind_result (checked_len e1 (length xs)) (\<lambda>n. write_each p xs (write_u64 n w)))
     (\<lambda>r. bind_result (read_u64 r) (\<lambda>(n, r). bind_result (checked_count e2 n) (\<lambda>n. read_each g n r)))"
proof (unfold_locales, goal_cases)
  case (1 xs w)
  show ?case
    using wire_written.put_append [OF written_each [OF assms, of 0], of xs "w @ to_be_bytes (of_nat (length xs) :: u64)"]
      wire_written.put_append [OF written_each [OF assms, of 0], of xs "to_be_bytes (of_nat (length xs) :: u64)"]
    by (cases "write_each p xs []") (simp_all add: checked_len_def write_u64_def)
next
  case (2 r xs bs rest)
  let ?n = "to_be_bytes (of_nat (length xs) :: u64)"
  from 2(3) have len: "length xs < 2 ^ 64" and "write_each p xs ?n = Ok bs"
    by (auto simp: checked_len_def write_u64_def split: if_splits)
  then obtain b where b: "write_each p xs [] = Ok b" "bs = ?n @ b"
    unfolding wire_written.put_Ok [OF written_each [OF assms, of 0], of xs ?n bs] by auto
  from len have n: "unat (of_nat (length xs) :: u64) = length xs" by (simp add: unat_of_nat)
  have "read_u64 r = Ok (of_nat (length xs), advance (length ?n) r)"
    using 2(1,4) b by (intro u64f.put_get [where rest = "b @ rest"]) (simp_all add: write_u64_def)
  moreover have "read_each g (length xs) (advance (length ?n) r) = Ok (xs, advance (length b) (advance (length ?n) r))"
    using 2 b by (intro wire_written.put_get [OF written_each [OF assms], where rest = rest] wf_advance) simp_all
  ultimately show ?case using b n by simp
qed

lemma wire_counted:
  assumes "wire_field v p g"
  shows "wire_field (list_all v)
     (\<lambda>xs w. bind_result (checked_len e1 (length xs)) (\<lambda>n. write_each p xs (write_u64 n w)))
     (\<lambda>r. bind_result (read_u64 r) (\<lambda>(n, r). bind_result (checked_count e2 n) (\<lambda>n. read_each g n r)))"
proof (intro wire_field.intro wire_field_axioms.intro written_counted assms [THEN written], goal_cases)
  case (1 r xs r')
  then obtain n r1 where g: "read_u64 r = Ok (n, r1)" "read_each g (unat n) r1 = Ok (xs, r')" by auto
  from u64f.get_put [OF 1(1) g(1)] have n: "prefix (to_be_bytes n) (unread r)" "r1 = advance 8 r"
    by (auto simp: write_u64_def)
  from wire_field.get_put [OF wire_each [OF assms] u64f.reader_stays_wf [OF 1(1) g(1)] g(2)]
  obtain b where b: "length xs = unat n" "list_all v xs" "write_each p xs [] = Ok b" "prefix b (unread r1)"
    "r' = advance (length b) r1" by auto
  have "unat n < 2 ^ LENGTH(64)" by (rule unsigned_less)
  with b(1) have len: "length xs < 2 ^ 64" "of_nat (length xs) = n" by simp_all
  from n b have "prefix (to_be_bytes n @ b) (unread r)" by (auto elim!: prefixE)
  moreover have "write_each p xs (to_be_bytes n) = Ok (to_be_bytes n @ b)"
    using b(3) wire_written.put_append [OF written [OF wire_each [OF assms, of 0]], of xs "to_be_bytes n"] by simp
  ultimately show ?case using b n len by (auto simp: checked_len_def write_u64_def)
qed

section \<open>Reserved vectors\<close>

text \<open>
  Some decoders hand the count to \<open>Vec::with_capacity\<close> before they read the elements. That call panics when
  the capacity exceeds \<open>isize::MAX\<close> bytes and aborts the process when the memory is not there. Which counts are
  served depends on the size of the element type and on the memory of the machine, so it is an argument: the allocator says,
  for an element type and a number of elements, whether the reservation succeeds.
\<close>

type_synonym allocator = "string \<Rightarrow> nat \<Rightarrow> bool"

definition vec_with_capacity :: "allocator \<Rightarrow> string \<Rightarrow> nat \<Rightarrow> unit ser_result" where
  "vec_with_capacity alloc element n = (if alloc element n then Ok () else Err CapacityFailure)"

lemma vec_with_capacity_Ok [simp]: "vec_with_capacity alloc element n = Ok u \<longleftrightarrow> alloc element n"
  by (simp add: vec_with_capacity_def)

lemma length_read_each: "read_each g n r = Ok (xs, r') \<Longrightarrow> length xs = n"
  by (induction n arbitrary: r xs) auto

lemma written_reserved:
  assumes "wire_written v p g"
  shows "wire_written (\<lambda>xs. alloc element (length xs) \<and> list_all v xs)
     (\<lambda>xs w. bind_result (checked_len e1 (length xs)) (\<lambda>n. write_each p xs (write_u64 n w)))
     (\<lambda>r. bind_result (read_u64 r) (\<lambda>(n, r). bind_result (checked_count e2 n) (\<lambda>n.
        bind_result (vec_with_capacity alloc element n) (\<lambda>_. read_each g n r))))"
proof (unfold_locales, goal_cases)
  case (1 xs w)
  show ?case by (rule wire_written.put_append [OF written_counted [OF assms]])
next
  case (2 r xs bs rest)
  then have "list_all v xs" by simp
  from wire_written.put_get [OF written_counted [OF assms] 2(1) this 2(3,4), of e2]
  obtain n r1 where n: "read_u64 r = Ok (n, r1)" "read_each g (unat n) r1 = Ok (xs, advance (length bs) r)" by auto
  with length_read_each [OF n(2)] 2(2) show ?case by (simp add: vec_with_capacity_def)
qed

lemma wire_reserved:
  assumes "wire_field v p g"
  shows "wire_field (\<lambda>xs. alloc element (length xs) \<and> list_all v xs)
     (\<lambda>xs w. bind_result (checked_len e1 (length xs)) (\<lambda>n. write_each p xs (write_u64 n w)))
     (\<lambda>r. bind_result (read_u64 r) (\<lambda>(n, r). bind_result (checked_count e2 n) (\<lambda>n.
        bind_result (vec_with_capacity alloc element n) (\<lambda>_. read_each g n r))))"
proof (intro wire_field.intro wire_field_axioms.intro written_reserved assms [THEN written], goal_cases)
  case (1 r xs r')
  then obtain n r1 where n: "read_u64 r = Ok (n, r1)" "alloc element (unat n)" "read_each g (unat n) r1 = Ok (xs, r')" by auto
  then have "bind_result (read_u64 r) (\<lambda>(n, r). bind_result (checked_count e2 n) (\<lambda>n. read_each g n r)) = Ok (xs, r')" by simp
  from wire_field.get_put [OF wire_counted [OF assms] 1(1) this, of e1] length_read_each [OF n(3)] n(2) show ?case by simp
qed

end
