(* ===== verification/Remote_Envelope.thy ===== *)
theory Remote_Envelope
  imports Wire_Format
begin

text \<open>
  \<open>Manifest\<close>, \<open>ActorRefWireData\<close>, \<open>SerializedMessage\<close> and \<open>RemoteEnvelope\<close> of
  \<open>kairo-serialization\<close>: validation of manifests and actor-ref paths, and the wire form of the
  envelope that carries every remote message. The lemmas show that the envelope codec is a
  bijection between well-formed envelopes and the payloads it accepts, and that the path parser
  of this crate agrees with the one of \<open>kairo-actor\<close> on every path it accepts.
\<close>

section \<open>White space\<close>

text \<open>The UTF-8 encodings of the characters with the Unicode property \<open>White_Space\<close>.\<close>

definition white_space :: "string list" where
  "white_space = map (map (char_of :: nat \<Rightarrow> char))
     ([[0x09], [0x0A], [0x0B], [0x0C], [0x0D], [0x20], [0xC2, 0x85], [0xC2, 0xA0], [0xE1, 0x9A, 0x80]]
      @ map (\<lambda>b. [0xE2, 0x80, b]) ([0x80..<0x8B] @ [0xA8, 0xA9, 0xAF])
      @ [[0xE2, 0x81, 0x9F], [0xE3, 0x80, 0x80]])"

lemma white_space_nonempty: "find P white_space = Some e \<Longrightarrow> e \<noteq> []"
  by (auto simp: find_Some_iff white_space_def nth_append nth_Cons' split: if_splits)

text \<open>\<open>str::trim_start\<close>, \<open>str::trim_end\<close> and \<open>str::trim\<close>.\<close>

function trim_start :: "string \<Rightarrow> string" where
  "trim_start s =
     (case find (\<lambda>e. prefix e s) white_space of None \<Rightarrow> s | Some e \<Rightarrow> trim_start (drop (length e) s))"
  by pat_completeness auto

termination
proof (relation "measure length")
  fix s e
  assume "find (\<lambda>e. prefix e s) white_space = Some e"
  then have "prefix e s" "e \<noteq> []" using white_space_nonempty by (auto simp: find_Some_iff)
  then show "(drop (length e) s, s) \<in> measure length" by (cases s) auto
qed simp

function trim_end :: "string \<Rightarrow> string" where
  "trim_end s =
     (case find (\<lambda>e. suffix e s) white_space of
        None \<Rightarrow> s | Some e \<Rightarrow> trim_end (take (length s - length e) s))"
  by pat_completeness auto

termination
proof (relation "measure length")
  fix s e
  assume "find (\<lambda>e. suffix e s) white_space = Some e"
  then have "suffix e s" "e \<noteq> []" using white_space_nonempty by (auto simp: find_Some_iff)
  then show "(take (length s - length e) s, s) \<in> measure length" by (cases s) auto
qed simp

declare trim_start.simps [simp del] trim_end.simps [simp del]

definition trim :: "string \<Rightarrow> string" where
  "trim s = trim_end (trim_start s)"

section \<open>Manifests\<close>

datatype manifest = Manifest (manifest_str: string)

definition manifest_try_new :: "string \<Rightarrow> manifest ser_result" where
  "manifest_try_new value = (if trim value = [] then Err (InvalidManifest value) else Ok (Manifest value))"

section \<open>Actor references on the wire\<close>

record actor_ref_wire_data =
  ar_path :: string
  ar_protocol :: string
  ar_system :: string
  ar_host :: "string option"
  ar_port :: "u16 option"

definition is_ascii_whitespace :: "char \<Rightarrow> bool" where
  "is_ascii_whitespace c \<longleftrightarrow> of_char c \<in> {0x09, 0x0A, 0x0C, 0x0D, 0x20 :: nat}"

definition is_valid_protocol_or_system :: "string \<Rightarrow> bool" where
  "is_valid_protocol_or_system value \<longleftrightarrow>
     value \<noteq> [] \<and> trim value = value \<and>
     \<not> list_ex (\<lambda>b. is_ascii_whitespace b \<or> b \<in> set '':/@#'') value"

definition is_valid_host :: "string \<Rightarrow> bool" where
  "is_valid_host value \<longleftrightarrow>
     value \<noteq> [] \<and> trim value = value \<and>
     \<not> list_ex (\<lambda>b. is_ascii_whitespace b \<or> b \<in> set ''/@#'') value"

definition is_valid_ref_element :: "string \<Rightarrow> bool" where
  "is_valid_ref_element name \<longleftrightarrow> name \<noteq> [] \<and> valid_path_bytes name"

definition parse_ref_authority :: "string \<Rightarrow> (string \<times> string option \<times> u16 option) option" where
  "parse_ref_authority authority =
     (case split_once ''@'' authority of
        None \<Rightarrow> if \<not> is_valid_protocol_or_system authority then None else Some (authority, None, None)
      | Some (system, host_port) \<Rightarrow>
          if \<not> is_valid_protocol_or_system system \<or> host_port = [] then None
          else (case rsplit_once (CHR '':'') host_port of
                  Some (host, port) \<Rightarrow>
                    if \<not> is_valid_host host \<or> port = [] then None
                    else (case parse_unsigned 16 port of
                            None \<Rightarrow> None
                          | Some p \<Rightarrow> Some (system, Some host, Some (of_nat p)))
                | None \<Rightarrow> None))"

fun validate_path_segments :: "string \<Rightarrow> string list \<Rightarrow> unit ser_result" where
  "validate_path_segments full_path [] = Ok ()"
| "validate_path_segments full_path (segment # segments) =
     (let (name, uid) = unwrap_or (rsplit_once (CHR ''#'') segment) (segment, [])
      in if \<not> is_valid_ref_element name then Err (InvalidActorRefPath full_path)
         else if CHR ''#'' \<in> set segment \<and> parse_unsigned 64 uid = None then Err (InvalidActorRefPath full_path)
         else validate_path_segments full_path segments)"

definition parse_actor_ref_path ::
  "string \<Rightarrow> (string \<times> string \<times> string option \<times> u16 option) ser_result" where
  "parse_actor_ref_path path =
     (case split_once ''://'' path of
        None \<Rightarrow> Err (InvalidActorRefPath path)
      | Some (protocol, rest) \<Rightarrow>
          (case split_once ''/'' rest of
             None \<Rightarrow> Err (InvalidActorRefPath path)
           | Some (authority, actor_path) \<Rightarrow>
               if \<not> is_valid_protocol_or_system protocol \<or> trim authority = [] \<or> actor_path = []
               then Err (InvalidActorRefPath path)
               else bind_result (validate_path_segments path (split_char (CHR ''/'') actor_path)) (\<lambda>_.
                 bind_result (ok_or (parse_ref_authority authority) (InvalidActorRefPath path))
                   (\<lambda>(system, host, port). Ok (protocol, system, host, port)))))"

definition actor_ref_new :: "string \<Rightarrow> actor_ref_wire_data ser_result" where
  "actor_ref_new path = bind_result (parse_actor_ref_path path) (\<lambda>(protocol, system, host, port).
     Ok \<lparr>ar_path = path, ar_protocol = protocol, ar_system = system, ar_host = host, ar_port = port\<rparr>)"

definition actor_ref_from_parts ::
  "string \<Rightarrow> string \<Rightarrow> string option \<Rightarrow> u16 option \<Rightarrow> string \<Rightarrow> actor_ref_wire_data ser_result" where
  "actor_ref_from_parts protocol system host port path =
     (if (host \<noteq> None) \<noteq> (port \<noteq> None) then Err (InvalidActorRefPath path)
      else bind_result (parse_actor_ref_path path) (\<lambda>parsed.
        if parsed \<noteq> (protocol, system, host, port) then Err (InvalidActorRefPath path)
        else Ok \<lparr>ar_path = path, ar_protocol = protocol, ar_system = system, ar_host = host, ar_port = port\<rparr>))"

section \<open>Messages and envelopes\<close>

record serialized_message =
  sm_serializer_id :: u32
  sm_manifest :: manifest
  sm_version :: u16
  sm_payload :: bytes

definition sm_write_wire :: "serialized_message \<Rightarrow> wire_writer \<Rightarrow> wire_writer ser_result" where
  "sm_write_wire m w =
     (let w = write_u32 (sm_serializer_id m) w
      in bind_result (write_string (manifest_str (sm_manifest m)) w) (\<lambda>w.
        let w = write_u16 (sm_version m) w in write_bytes (sm_payload m) w))"

definition sm_read_wire :: "serialized_message read" where
  "sm_read_wire r =
     bind_result (read_u32 r) (\<lambda>(serializer_id, r).
     bind_result (read_string r) (\<lambda>(s, r).
     bind_result (manifest_try_new s) (\<lambda>manifest.
     bind_result (read_u16 r) (\<lambda>(version, r).
     bind_result (read_bytes r) (\<lambda>(payload, r).
       Ok (\<lparr>sm_serializer_id = serializer_id, sm_manifest = manifest, sm_version = version,
            sm_payload = payload\<rparr>, r))))))"

definition sm_encode_wire :: "serialized_message \<Rightarrow> bytes ser_result" where
  "sm_encode_wire m = sm_write_wire m []"

definition sm_decode_wire :: "bytes \<Rightarrow> serialized_message ser_result" where
  "sm_decode_wire b = bind_result (sm_read_wire (reader_new b)) (\<lambda>(m, r).
     bind_result (ensure_finished r) (\<lambda>_. Ok m))"

record remote_envelope =
  re_recipient :: actor_ref_wire_data
  re_sender :: "actor_ref_wire_data option"
  re_message :: serialized_message

text \<open>\<open>Option::transpose\<close> after \<open>map\<close>.\<close>

definition map_transpose :: "('a \<Rightarrow> ('e, 'b) result) \<Rightarrow> 'a option \<Rightarrow> ('e, 'b option) result" where
  "map_transpose f x = (case x of None \<Rightarrow> Ok None | Some a \<Rightarrow> bind_result (f a) (\<lambda>b. Ok (Some b)))"

definition envelope_from_paths ::
  "string \<Rightarrow> string option \<Rightarrow> serialized_message \<Rightarrow> remote_envelope ser_result" where
  "envelope_from_paths recipient sender message =
     bind_result (actor_ref_new recipient) (\<lambda>recipient.
     bind_result (map_transpose actor_ref_new sender) (\<lambda>sender.
       Ok \<lparr>re_recipient = recipient, re_sender = sender, re_message = message\<rparr>))"

definition envelope_encode_wire :: "remote_envelope \<Rightarrow> bytes ser_result" where
  "envelope_encode_wire e =
     bind_result (write_string (ar_path (re_recipient e)) []) (\<lambda>w.
     bind_result (write_optional_string (map_option ar_path (re_sender e)) w) (\<lambda>w.
       sm_write_wire (re_message e) w))"

definition envelope_decode_wire :: "bytes \<Rightarrow> remote_envelope ser_result" where
  "envelope_decode_wire b =
     bind_result (read_string (reader_new b)) (\<lambda>(s, r).
     bind_result (actor_ref_new s) (\<lambda>recipient.
     bind_result (read_optional_string r) (\<lambda>(t, r).
     bind_result (map_transpose actor_ref_new t) (\<lambda>sender.
     bind_result (sm_read_wire r) (\<lambda>(message, r).
     bind_result (ensure_finished r) (\<lambda>_.
       Ok \<lparr>re_recipient = recipient, re_sender = sender, re_message = message\<rparr>))))))"

section \<open>The message tuple\<close>

definition wf_manifest :: "manifest \<Rightarrow> bool" where
  "wf_manifest m \<longleftrightarrow> utf8_string (manifest_str m) \<and> trim (manifest_str m) \<noteq> []"

definition wf_serialized_message :: "serialized_message \<Rightarrow> bool" where
  "wf_serialized_message m \<longleftrightarrow> wf_manifest (sm_manifest m)"

lemma manifest_try_new_Ok: "manifest_try_new s = Ok m \<longleftrightarrow> s = manifest_str m \<and> trim (manifest_str m) \<noteq> []"
  by (cases m) (auto simp: manifest_try_new_def)

lemma wire_manifest:
  "wire_field wf_manifest (\<lambda>m. write_string (manifest_str m))
     (\<lambda>r. bind_result (read_string r) (\<lambda>(s, r). bind_result (manifest_try_new s) (\<lambda>m. Ok (m, r))))"
  unfolding wf_manifest_def [abs_def]
  by (rule wire_partial [OF stringf.wire_field_axioms]) (rule manifest_try_new_Ok)

interpretation messagef: wire_field wf_serialized_message sm_write_wire sm_read_wire
proof -
  let ?f = "\<lambda>m. (sm_serializer_id m, sm_manifest m, sm_version m, sm_payload m)"
  let ?h = "\<lambda>(i, m, v, b). \<lparr>sm_serializer_id = i, sm_manifest = m, sm_version = v, sm_payload = b\<rparr>"
  note fields = wire_seq [OF u32f.wire_field_axioms
      wire_seq [OF wire_manifest wire_seq [OF u16f.wire_field_axioms bytesf.wire_field_axioms]]]
  from wire_iso [OF fields, where f = ?f and h = ?h]
  show "wire_field wf_serialized_message sm_write_wire sm_read_wire"
    by (simp add: wf_serialized_message_def [abs_def] sm_write_wire_def [abs_def] sm_read_wire_def [abs_def]
        wire_simps split_def)
qed

section \<open>Actor references\<close>

text \<open>
  The fields of \<open>ActorRefWireData\<close> are private: a value exists only as the result of one of the two
  constructors, both of which parse the path.
\<close>

definition wf_actor_ref :: "actor_ref_wire_data \<Rightarrow> bool" where
  "wf_actor_ref a \<longleftrightarrow> utf8_string (ar_path a) \<and> actor_ref_new (ar_path a) = Ok a"

lemma actor_ref_new_path: "actor_ref_new path = Ok a \<Longrightarrow> ar_path a = path"
  by (auto simp: actor_ref_new_def)

lemma actor_ref_new_Ok: "actor_ref_new path = Ok a \<longleftrightarrow> path = ar_path a \<and> actor_ref_new (ar_path a) = Ok a"
  using actor_ref_new_path by blast

lemma actor_ref_from_parts_new: "actor_ref_from_parts protocol system host port path = Ok a \<Longrightarrow> actor_ref_new path = Ok a"
  by (auto simp: actor_ref_from_parts_def actor_ref_new_def split: if_splits)

lemma wire_actor_ref:
  "wire_field wf_actor_ref (\<lambda>a. write_string (ar_path a))
     (\<lambda>r. bind_result (read_string r) (\<lambda>(s, r). bind_result (actor_ref_new s) (\<lambda>a. Ok (a, r))))"
  unfolding wf_actor_ref_def [abs_def]
  by (rule wire_partial [OF stringf.wire_field_axioms]) (rule actor_ref_new_Ok)

lemma map_transpose_ref_Ok:
  "map_transpose actor_ref_new s = Ok a \<longleftrightarrow>
     s = map_option ar_path a \<and> pred_option (\<lambda>a. actor_ref_new (ar_path a) = Ok a) a"
  using actor_ref_new_Ok [of "the s" "the a"] by (cases s; cases a) (simp_all add: map_transpose_def)

lemma wire_optional_ref:
  "wire_field (pred_option wf_actor_ref) (\<lambda>a. write_optional_string (map_option ar_path a))
     (\<lambda>r. bind_result (read_optional_string r) (\<lambda>(s, r). bind_result (map_transpose actor_ref_new s) (\<lambda>a. Ok (a, r))))"
proof -
  have "pred_option wf_actor_ref = (\<lambda>a. pred_option utf8_string (map_option ar_path a) \<and>
      pred_option (\<lambda>a. actor_ref_new (ar_path a) = Ok a) a)"
    by (rule ext, rename_tac a, case_tac a) (simp_all add: wf_actor_ref_def)
  then show ?thesis
    using wire_partial [OF optstringf.wire_field_axioms map_transpose_ref_Ok] by simp
qed

section \<open>Remote envelopes\<close>

definition wf_envelope :: "remote_envelope \<Rightarrow> bool" where
  "wf_envelope e \<longleftrightarrow> wf_actor_ref (re_recipient e) \<and> pred_option wf_actor_ref (re_sender e)
     \<and> wf_serialized_message (re_message e)"

lemma wire_envelope:
  "wire_field wf_envelope
     (\<lambda>e w. bind_result (write_string (ar_path (re_recipient e)) w) (\<lambda>w.
        bind_result (write_optional_string (map_option ar_path (re_sender e)) w) (sm_write_wire (re_message e))))
     (\<lambda>r. bind_result (read_string r) (\<lambda>(s, r). bind_result (actor_ref_new s) (\<lambda>recipient.
        bind_result (read_optional_string r) (\<lambda>(t, r). bind_result (map_transpose actor_ref_new t) (\<lambda>sender.
        bind_result (sm_read_wire r) (\<lambda>(message, r).
          Ok (\<lparr>re_recipient = recipient, re_sender = sender, re_message = message\<rparr>, r)))))))"
proof -
  let ?f = "\<lambda>e. (re_recipient e, re_sender e, re_message e)"
  let ?h = "\<lambda>(a, s, m). \<lparr>re_recipient = a, re_sender = s, re_message = m\<rparr>"
  from wire_iso [OF wire_seq [OF wire_actor_ref wire_seq [OF wire_optional_ref messagef.wire_field_axioms]],
      where f = ?f and h = ?h]
  show ?thesis by (simp add: wf_envelope_def [abs_def] wire_simps split_def)
qed

text \<open>
  C33: The envelope codec is a bijection. For a payload of addressable length, decoding it gives
  an envelope exactly when that envelope is well formed (its strings are UTF-8, its manifest is
  not blank, its actor references are parsed from their paths) and encodes to that payload. So
  every well-formed envelope that can be encoded is read back unchanged, no payload is read as an envelope
  that would have been written differently, and no two well-formed envelopes share a wire form.
\<close>

theorem envelope_wire_bijective:
  assumes "length b < 2 ^ 64"
  shows "envelope_decode_wire b = Ok e \<longleftrightarrow> wf_envelope e \<and> envelope_encode_wire e = Ok b"
  using wire_field.decode_iff [OF wire_envelope assms, of e]
  by (simp add: envelope_decode_wire_def envelope_encode_wire_def wire_simps split_def)

definition sample_ref :: actor_ref_wire_data where
  "sample_ref = \<lparr>ar_path = ''kairo://s@h:1/a'', ar_protocol = ''kairo'', ar_system = ''s'',
     ar_host = Some ''h'', ar_port = Some 1\<rparr>"

definition sample_envelope :: remote_envelope where
  "sample_envelope = \<lparr>re_recipient = sample_ref, re_sender = None, re_message =
     \<lparr>sm_serializer_id = 3000, sm_manifest = Manifest ''m'', sm_version = 2, sm_payload = [7, 8]\<rparr>\<rparr>"

definition sample_wire :: bytes where
  "sample_wire = [0, 0, 0, 15] @ as_bytes ''kairo://s@h:1/a'' @
     [0, 0, 0, 11, 184, 0, 0, 0, 1, 109, 0, 2, 0, 0, 0, 2, 7, 8]"

lemma wf_sample_envelope: "wf_envelope sample_envelope"
proof -
  have "wf_actor_ref sample_ref" by code_simp
  moreover have "wf_manifest (Manifest ''m'')" by code_simp
  ultimately show ?thesis by (simp add: wf_envelope_def wf_serialized_message_def sample_envelope_def)
qed

theorem envelope_wire_bijective_witness: "envelope_decode_wire sample_wire = Ok sample_envelope"
proof -
  have "length sample_wire < 2 ^ 64" by (simp add: sample_wire_def)
  moreover have "envelope_encode_wire sample_envelope = Ok sample_wire" by code_simp
  ultimately show ?thesis using envelope_wire_bijective wf_sample_envelope by blast
qed

lemma ref_authority_agrees:
  assumes "parse_ref_authority authority = Some (system, host, port)"
  shows "parse_authority authority = (system, host, port)"
  using assms
  by (auto simp: parse_ref_authority_def parse_authority_def split: option.splits if_splits prod.splits)

lemma ps_name_parse_segment:
  "ps_name (parse_segment seg) = fst (unwrap_or (rsplit_once (CHR ''#'') seg) (seg, []))"
  by (simp add: parse_segment_def split: option.split prod.split)

lemma internal_name_iff: "is_valid_internal_name name \<longleftrightarrow> is_valid_ref_element name"
  by (cases name) (simp_all add: is_valid_internal_name_def is_valid_path_element_def is_valid_ref_element_def)

lemma validated_segment:
  assumes "validate_path_segments path segs = Ok u" "seg \<in> set segs"
  shows "is_valid_internal_name (ps_name (parse_segment seg))"
  using assms unfolding ps_name_parse_segment internal_name_iff
  by (induction segs) (auto simp: Let_def split_def split: if_splits)

lemma parse_segment_empty: "ps_name (parse_segment []) = []"
  by (simp add: parse_segment_def rsplit_once_def)

text \<open>
  C34: The two path parsers agree. Whenever \<open>ActorRefWireData::new\<close> accepts a path, the actor
  crate's \<open>ActorPath\<close> parser accepts it too, with the same protocol, system, host and port, with
  at least one segment, and with every segment name valid, reserved names included. So a
  reference that passes validation at the serialization boundary is never read differently by
  the actor system that resolves it.
\<close>

theorem actor_ref_parsers_agree:
  assumes "actor_ref_new path = Ok a"
  shows "\<exists>segs. parse_path path = Some (\<lparr>ad_protocol = ar_protocol a, ad_system = ar_system a,
       ad_host = ar_host a, ad_port = ar_port a\<rparr>, segs)
     \<and> segs \<noteq> [] \<and> (\<forall>seg \<in> set segs. is_valid_internal_name (ps_name seg))"
proof -
  from assms obtain protocol rest authority actor_path system host port where
    p: "split_once ''://'' path = Some (protocol, rest)" "split_once ''/'' rest = Some (authority, actor_path)"
      "actor_path \<noteq> []" "validate_path_segments path (split_char (CHR ''/'') actor_path) = Ok ()"
      "parse_ref_authority authority = Some (system, host, port)"
      and a: "a = \<lparr>ar_path = path, ar_protocol = protocol, ar_system = system, ar_host = host, ar_port = port\<rparr>"
    by (auto simp: actor_ref_new_def parse_actor_ref_path_def split: option.splits if_splits)
  let ?segs = "split_char (CHR ''/'') actor_path"
  have "seg \<noteq> []" if "seg \<in> set ?segs" for seg
    using validated_segment [OF p(4) that] parse_segment_empty
    by (auto simp: internal_name_iff is_valid_ref_element_def)
  then have "filter (\<lambda>seg. seg \<noteq> []) ?segs = ?segs" by (simp add: filter_id_conv)
  with p a ref_authority_agrees [OF p(5)]
  have "parse_path path = Some (\<lparr>ad_protocol = ar_protocol a, ad_system = ar_system a,
      ad_host = ar_host a, ad_port = ar_port a\<rparr>, map parse_segment ?segs)"
    by (simp add: parse_path_def)
  moreover have "?segs \<noteq> []" by (cases actor_path) (auto split: list.split)
  ultimately show ?thesis using validated_segment [OF p(4)] by auto
qed

theorem actor_ref_parsers_agree_witness:
  "\<exists>segs. parse_path ''kairo://s@h:1/a'' = Some (\<lparr>ad_protocol = ''kairo'', ad_system = ''s'',
     ad_host = Some ''h'', ad_port = Some 1\<rparr>, segs) \<and> segs \<noteq> []"
proof -
  have "actor_ref_new ''kairo://s@h:1/a'' = Ok sample_ref" by code_simp
  from actor_ref_parsers_agree [OF this] show ?thesis by (auto simp: sample_ref_def)
qed

end
