(* ===== verification/Downing.thy ===== *)
theory Downing
  imports Gossip_State Remote_Envelope
begin

text \<open>
  Downing of partitioned members: \<open>downing.rs\<close>, \<open>downing/split_brain.rs\<close> and \<open>downing/lease_majority.rs\<close> of
  \<open>kairo-cluster/src\<close>. Hash sets of nodes are finite sets, and where one is turned into a vector its
  iteration order is an argument. The lease is an argument, the answer to one acquisition. Durations are naturals.

  The lemmas show what each decision downs, and that the two sides of a clean partition agree on
  which of them survives.
\<close>

section \<open>Decisions and plans\<close>

datatype downing_decision =
    NoAction
  | DownReachable
  | DownUnreachable
  | DownAll
  | DownIndirectlyConnected
  | ReverseDownIndirectlyConnected
  | DownSelfQuarantinedByRemote

datatype split_brain_strategy =
    SplitDownAll
  | KeepMajority "string option"
  | KeepOldest "string option" bool

record downing_plan =
  pl_decision :: downing_decision
  pl_nodes_to_down :: "unique_address list"
  pl_down_self :: bool

definition downable_nodes :: "gossip \<Rightarrow> unique_address list" where
  "downable_nodes g = map m_node (filter (\<lambda>m. m_status m \<notin> {Down, Exiting, Removed}) (g_members g))"

definition decision_members :: "gossip \<Rightarrow> string option \<Rightarrow> member list" where
  "decision_members g role =
     sort_key (\<lambda>m. ordering_key (m_node m))
       (filter (\<lambda>m. case role of None \<Rightarrow> True | Some r \<Rightarrow> has_role m r)
         (filter (\<lambda>m. m_status m \<notin> {Joining, WeaklyUp, Down, Exiting, Removed}) (g_members g)))"

abbreviation unreachable_nodes :: "gossip \<Rightarrow> unique_address fset" where
  "unreachable_nodes g \<equiv> all_unreachable_or_terminated (g_reachability g)"

definition indirectly_connected_from_observer_subject_intersection :: "gossip \<Rightarrow> unique_address fset" where
  "indirectly_connected_from_observer_subject_intersection g =
     all_observers (g_reachability g) |\<inter>| unreachable_nodes g"

definition indirectly_connected_from_seen_current_gossip :: "gossip \<Rightarrow> unique_address fset" where
  "indirectly_connected_from_seen_current_gossip g =
     fold (\<lambda>r nodes.
         if \<not> (rr_status r = Unreachable \<or> rr_status r = Terminated) then nodes
         else if rr_subject r |\<in>| g_seen g then finsert (rr_subject r) (finsert (rr_observer r) nodes)
         else nodes) (rc_records (g_reachability g)) {||}"

definition indirectly_connected_nodes :: "gossip \<Rightarrow> unique_address fset" where
  "indirectly_connected_nodes g =
     indirectly_connected_from_observer_subject_intersection g |\<union>| indirectly_connected_from_seen_current_gossip g"

definition has_indirectly_connected :: "gossip \<Rightarrow> bool" where
  "has_indirectly_connected g \<longleftrightarrow> indirectly_connected_nodes g \<noteq> {||}"

definition majority_decision :: "nat \<Rightarrow> nat \<Rightarrow> unique_address fset \<Rightarrow> member \<Rightarrow> downing_decision" where
  "majority_decision reachable_size unreachable_size unreachable lowest =
     (if reachable_size = unreachable_size
      then (if m_node lowest |\<in>| unreachable then DownReachable else DownUnreachable)
      else if reachable_size > unreachable_size then DownUnreachable
      else DownReachable)"

definition keep_majority_decision :: "gossip \<Rightarrow> string option \<Rightarrow> downing_decision" where
  "keep_majority_decision g role =
     (let members = decision_members g role
      in case min_by_key (\<lambda>m. ordering_key (m_node m)) members of
           None \<Rightarrow> DownAll
         | Some lowest \<Rightarrow>
             let unreachable = unreachable_nodes g;
                 reachable_size = length (filter (\<lambda>m. m_node m |\<notin>| unreachable) members);
                 unreachable_size = length members - reachable_size
             in majority_decision reachable_size unreachable_size unreachable lowest)"

definition keep_oldest_decision :: "gossip \<Rightarrow> string option \<Rightarrow> bool \<Rightarrow> downing_decision" where
  "keep_oldest_decision g role down_if_alone =
     (let members = decision_members g role
      in case min_by_key age_key members of
           None \<Rightarrow> DownAll
         | Some oldest \<Rightarrow>
             let unreachable = unreachable_nodes g;
                 oldest_is_reachable = (m_node oldest |\<notin>| unreachable);
                 reachable_count = length (filter (\<lambda>m. m_node m |\<notin>| unreachable) members);
                 unreachable_count = length members - reachable_count
             in if oldest_is_reachable
                then (if down_if_alone \<and> reachable_count = 1 \<and> unreachable_count \<ge> 2 then DownReachable else DownUnreachable)
                else if down_if_alone \<and> unreachable_count = 1 \<and> reachable_count \<ge> 2 then DownUnreachable
                else DownReachable)"

definition decision_without_indirect_check :: "gossip \<Rightarrow> split_brain_strategy \<Rightarrow> downing_decision" where
  "decision_without_indirect_check g strategy =
     (case strategy of
        SplitDownAll \<Rightarrow> DownAll
      | KeepMajority role \<Rightarrow> keep_majority_decision g role
      | KeepOldest role down_if_alone \<Rightarrow> keep_oldest_decision g role down_if_alone)"

definition split_brain_decision :: "gossip \<Rightarrow> split_brain_strategy \<Rightarrow> downing_decision" where
  "split_brain_decision g strategy =
     (case strategy of
        SplitDownAll \<Rightarrow> DownAll
      | KeepMajority role \<Rightarrow> if has_indirectly_connected g then DownIndirectlyConnected else keep_majority_decision g role
      | KeepOldest role down_if_alone \<Rightarrow>
          if has_indirectly_connected g then DownIndirectlyConnected else keep_oldest_decision g role down_if_alone)"

definition nodes_to_down_for_decision ::
  "unique_address hash_iter \<Rightarrow> downing_decision \<Rightarrow> gossip \<Rightarrow> unique_address list" where
  "nodes_to_down_for_decision h decision g =
     (case decision of
        NoAction \<Rightarrow> []
      | DownUnreachable \<Rightarrow> filter (\<lambda>node. node |\<in>| unreachable_nodes g) (downable_nodes g)
      | DownReachable \<Rightarrow> filter (\<lambda>node. node |\<notin>| unreachable_nodes g) (downable_nodes g)
      | DownAll \<Rightarrow> downable_nodes g
      | DownIndirectlyConnected \<Rightarrow> h (indirectly_connected_nodes g |\<inter>| fset_of_list (downable_nodes g))
      | ReverseDownIndirectlyConnected \<Rightarrow>
          filter (\<lambda>node. node |\<in>| indirectly_connected_nodes g \<or> node |\<notin>| unreachable_nodes g) (downable_nodes g)
      | DownSelfQuarantinedByRemote \<Rightarrow> [])"

text \<open>\<open>Vec::dedup\<close> removes repeated neighbours.\<close>

definition plan_new :: "downing_decision \<Rightarrow> unique_address list \<Rightarrow> bool \<Rightarrow> downing_plan" where
  "plan_new decision nodes_to_down down_self =
     \<lparr>pl_decision = decision, pl_nodes_to_down = remdups_adj (sort_key ordering_key nodes_to_down), pl_down_self = down_self\<rparr>"

definition plan_from_decision ::
  "unique_address hash_iter \<Rightarrow> downing_decision \<Rightarrow> gossip \<Rightarrow> unique_address \<Rightarrow> downing_plan" where
  "plan_from_decision h decision g self_node =
     (let nodes_to_down = (case decision of
              NoAction \<Rightarrow> []
            | DownUnreachable \<Rightarrow> filter (\<lambda>node. node |\<in>| unreachable_nodes g) (downable_nodes g)
            | DownReachable \<Rightarrow> filter (\<lambda>node. node |\<notin>| unreachable_nodes g) (downable_nodes g)
            | DownAll \<Rightarrow> downable_nodes g
            | DownIndirectlyConnected \<Rightarrow> nodes_to_down_for_decision h decision g
            | ReverseDownIndirectlyConnected \<Rightarrow> nodes_to_down_for_decision h decision g
            | DownSelfQuarantinedByRemote \<Rightarrow> if g_has_member g self_node then [self_node] else []);
          nodes_to_down = remdups_adj (sort_key ordering_key nodes_to_down)
      in plan_new decision nodes_to_down (self_node \<in> set nodes_to_down))"

definition additional_nodes_to_down ::
  "unique_address hash_iter \<Rightarrow> gossip \<Rightarrow> split_brain_strategy \<Rightarrow> unique_address fset \<Rightarrow> unique_address fset \<Rightarrow> unique_address fset" where
  "additional_nodes_to_down h g strategy downable indirectly_connected =
     (if unreachable_nodes g |-| indirectly_connected = {||} then {||}
      else
        let intersection = indirectly_connected_from_observer_subject_intersection g;
            seen_current = indirectly_connected_from_seen_current_gossip g;
            filtered_records = filter (\<lambda>r. rr_observer r |\<in>| downable \<and> rr_subject r |\<in>| downable \<and>
                (rr_status r = Unreachable \<or> rr_status r = Terminated) \<and>
                \<not> (rr_observer r |\<in>| intersection \<and> rr_subject r |\<in>| intersection \<or>
                   rr_observer r |\<in>| seen_current \<and> rr_subject r |\<in>| seen_current))
              (rc_records (g_reachability g));
            filtered_reachability = rc_from_parts filtered_records
              (filter (\<lambda>(observer, _). observer |\<in>| downable) (bt_entries (rc_versions (g_reachability g))));
            filtered_gossip = g_with_reachability g filtered_reachability;
            additional_decision = decision_without_indirect_check filtered_gossip strategy
        in if additional_decision = DownIndirectlyConnected then downable
           else fset_of_list (nodes_to_down_for_decision h additional_decision filtered_gossip))"

definition indirectly_connected_nodes_to_down ::
  "unique_address hash_iter \<Rightarrow> gossip \<Rightarrow> split_brain_strategy \<Rightarrow> unique_address fset" where
  "indirectly_connected_nodes_to_down h g strategy =
     (let downable = fset_of_list (downable_nodes g);
          indirectly_connected = indirectly_connected_nodes g;
          additional = additional_nodes_to_down h g strategy downable indirectly_connected
      in downable |\<inter>| (indirectly_connected |\<union>| additional))"

definition split_brain_plan ::
  "unique_address hash_iter \<Rightarrow> split_brain_strategy \<Rightarrow> gossip \<Rightarrow> unique_address \<Rightarrow> downing_plan" where
  "split_brain_plan h strategy g self_node =
     (let decision = split_brain_decision g strategy
      in if decision \<noteq> DownIndirectlyConnected then plan_from_decision h decision g self_node
         else let nodes_to_down = h (indirectly_connected_nodes_to_down h g strategy)
              in plan_new decision nodes_to_down (self_node \<in> set nodes_to_down))"

definition plan_apply_to :: "downing_plan \<Rightarrow> gossip \<Rightarrow> unique_address \<Rightarrow> gossip" where
  "plan_apply_to plan g self_node =
     (let (changed, did_change) = fold (\<lambda>node (changed, did_change).
            case g_member changed node of
              Some m \<Rightarrow> if m_status m \<noteq> Down then (g_mark_down changed node, True) else (changed, did_change)
            | None \<Rightarrow> (changed, did_change)) (pl_nodes_to_down plan) (g, False)
      in if did_change then g_only_seen (g_increment_version changed self_node) self_node else changed)"

section \<open>Lease majority\<close>

record lease_majority_settings =
  lm_lease_name :: string
  lm_role :: "string option"
  lm_acquire_lease_delay_for_minority :: nat
  lm_release_after :: nat

datatype lease_majority_settings_error = EmptyLeaseName

definition lease_majority_settings_new ::
  "string \<Rightarrow> string option \<Rightarrow> nat \<Rightarrow> nat \<Rightarrow> (lease_majority_settings_error, lease_majority_settings) result" where
  "lease_majority_settings_new lease_name role delay release_after =
     (if trim lease_name = [] then Err EmptyLeaseName
      else Ok \<lparr>lm_lease_name = lease_name, lm_role = role,
               lm_acquire_lease_delay_for_minority = delay, lm_release_after = release_after\<rparr>)"

datatype lease_requested_decision = RequestDownUnreachable | RequestDownIndirectlyConnected

fun acquired_decision :: "lease_requested_decision \<Rightarrow> downing_decision" where
  "acquired_decision RequestDownUnreachable = DownUnreachable"
| "acquired_decision RequestDownIndirectlyConnected = DownIndirectlyConnected"

fun denied_decision :: "lease_requested_decision \<Rightarrow> downing_decision" where
  "denied_decision RequestDownUnreachable = DownReachable"
| "denied_decision RequestDownIndirectlyConnected = ReverseDownIndirectlyConnected"

definition lease_requested_decision_for :: "gossip \<Rightarrow> lease_requested_decision" where
  "lease_requested_decision_for g =
     (if has_indirectly_connected g then RequestDownIndirectlyConnected else RequestDownUnreachable)"

definition lease_majority_decide :: "(string \<Rightarrow> bool) \<Rightarrow> lease_majority_settings \<Rightarrow> gossip \<Rightarrow> downing_decision" where
  "lease_majority_decide acquire settings g =
     (let requested = lease_requested_decision_for g
      in if acquire (lm_lease_name settings) then acquired_decision requested else denied_decision requested)"

definition lease_majority_plan ::
  "unique_address hash_iter \<Rightarrow> (string \<Rightarrow> bool) \<Rightarrow> lease_majority_settings \<Rightarrow> gossip \<Rightarrow> unique_address \<Rightarrow> downing_plan" where
  "lease_majority_plan h acquire settings g self_node =
     plan_from_decision h (lease_majority_decide acquire settings g) g self_node"

definition is_in_minority :: "gossip \<Rightarrow> string option \<Rightarrow> bool" where
  "is_in_minority g role =
     (let members = decision_members g role
      in case members of
           [] \<Rightarrow> False
         | first # _ \<Rightarrow>
             let unreachable = unreachable_nodes g;
                 unreachable_size = length (filter (\<lambda>m. m_node m |\<in>| unreachable) members);
                 members_size = length members
             in if unreachable_size * 2 = members_size then m_node first |\<in>| unreachable
                else unreachable_size * 2 > members_size)"

definition lease_decision_delay :: "lease_majority_settings \<Rightarrow> gossip \<Rightarrow> nat" where
  "lease_decision_delay settings g =
     (if is_in_minority g (lm_role settings) then lm_acquire_lease_delay_for_minority settings else 0)"

section \<open>The two sides of a partition\<close>

text \<open>
  Both sides still hold the same member list, every member is unreachable from exactly one of them,
  and no node is seen to be connected to both.
\<close>

definition clean_partition :: "gossip \<Rightarrow> gossip \<Rightarrow> bool" where
  "clean_partition ga gb \<longleftrightarrow> g_members ga = g_members gb \<and>
     list_all (\<lambda>m. (m_node m |\<in>| unreachable_nodes ga) \<noteq> (m_node m |\<in>| unreachable_nodes gb)) (g_members ga) \<and>
     \<not> has_indirectly_connected ga \<and> \<not> has_indirectly_connected gb"

fun opposite :: "downing_decision \<Rightarrow> downing_decision" where
  "opposite DownReachable = DownUnreachable"
| "opposite DownUnreachable = DownReachable"
| "opposite d = d"

fun strategy_role :: "split_brain_strategy \<Rightarrow> string option" where
  "strategy_role SplitDownAll = None"
| "strategy_role (KeepMajority role) = role"
| "strategy_role (KeepOldest role _) = role"

text \<open>The downable members outside the side whose view is \<^term>\<open>g\<close>.\<close>

definition other_side :: "gossip \<Rightarrow> unique_address set" where
  "other_side g = {n \<in> set (downable_nodes g). n |\<in>| unreachable_nodes g}"

lemma clean_partition_members: "clean_partition ga gb \<Longrightarrow> g_members gb = g_members ga"
  by (simp add: clean_partition_def)

lemma clean_partition_sym: "clean_partition ga gb \<Longrightarrow> clean_partition gb ga"
  by (auto simp: clean_partition_def list_all_iff)

lemma clean_partition_node:
  "clean_partition ga gb \<Longrightarrow> m \<in> set (g_members ga) \<Longrightarrow> m_node m |\<in>| unreachable_nodes gb \<longleftrightarrow> m_node m |\<notin>| unreachable_nodes ga"
  by (auto simp: clean_partition_def list_all_iff)

lemma decision_members_subset: "set (decision_members g role) \<subseteq> set (g_members g)"
  by (auto simp: decision_members_def split: option.splits)

lemma decision_members_cong: "g_members ga = g_members gb \<Longrightarrow> decision_members ga role = decision_members gb role"
  by (simp add: decision_members_def)

lemma downable_nodes_cong: "g_members ga = g_members gb \<Longrightarrow> downable_nodes ga = downable_nodes gb"
  by (simp add: downable_nodes_def)

lemma downable_nodes_member: "n \<in> set (downable_nodes g) \<Longrightarrow> \<exists>m \<in> set (g_members g). n = m_node m"
  by (auto simp: downable_nodes_def)

lemma decision_member_downable: "m \<in> set (decision_members g role) \<Longrightarrow> m_node m \<in> set (downable_nodes g)"
  by (auto simp: decision_members_def downable_nodes_def)

lemma min_by_key_in: "min_by_key f xs = Some x \<Longrightarrow> x \<in> set xs"
  by (drule min_by_key_Some) simp

lemma other_count: "length xs - length (filter P xs) = length (filter (\<lambda>x. \<not> P x) xs)"
  using sum_length_filter_compl [of P xs] by simp

lemma partition_counts:
  assumes "clean_partition ga gb"
  shows "filter (\<lambda>m. m_node m |\<notin>| unreachable_nodes gb) (decision_members ga role) =
      filter (\<lambda>m. m_node m |\<in>| unreachable_nodes ga) (decision_members ga role)"
    and "filter (\<lambda>m. m_node m |\<in>| unreachable_nodes gb) (decision_members ga role) =
      filter (\<lambda>m. m_node m |\<notin>| unreachable_nodes ga) (decision_members ga role)"
  using clean_partition_node [OF assms] decision_members_subset [of ga role] by (auto intro!: filter_cong)

lemma keep_majority_opposite:
  assumes "clean_partition ga gb"
  shows "keep_majority_decision gb role = opposite (keep_majority_decision ga role)"
proof -
  note cong = decision_members_cong [OF clean_partition_members [OF assms], of role]
  show ?thesis
  proof (cases "min_by_key (\<lambda>m. ordering_key (m_node m)) (decision_members ga role)")
    case None
    then show ?thesis by (simp add: keep_majority_decision_def cong)
  next
    case (Some m)
    then have "m \<in> set (g_members ga)" using min_by_key_in decision_members_subset by fastforce
    then show ?thesis
      using Some clean_partition_node [OF assms]
      by (auto simp: keep_majority_decision_def majority_decision_def cong other_count partition_counts [OF assms] Let_def)
  qed
qed

lemma keep_oldest_opposite:
  assumes "clean_partition ga gb"
  shows "keep_oldest_decision gb role alone = opposite (keep_oldest_decision ga role alone)"
proof -
  note cong = decision_members_cong [OF clean_partition_members [OF assms], of role]
  show ?thesis
  proof (cases "min_by_key age_key (decision_members ga role)")
    case None
    then show ?thesis by (simp add: keep_oldest_decision_def cong)
  next
    case (Some m)
    then have "m \<in> set (g_members ga)" using min_by_key_in decision_members_subset by fastforce
    then show ?thesis
      using Some clean_partition_node [OF assms]
      by (auto simp: keep_oldest_decision_def cong other_count partition_counts [OF assms] Let_def)
  qed
qed

lemma strategy_opposite:
  "clean_partition ga gb \<Longrightarrow> decision_without_indirect_check gb s = opposite (decision_without_indirect_check ga s)"
  by (cases s) (simp_all add: decision_without_indirect_check_def keep_majority_opposite keep_oldest_opposite)

text \<open>The side a strategy keeps holds a member it counts, and never fewer than half of them under keep-majority.\<close>

lemma keep_majority_survivors:
  assumes "decision_members g role \<noteq> []"
  shows "keep_majority_decision g role = DownUnreachable \<and> (\<exists>m \<in> set (decision_members g role). m_node m |\<notin>| unreachable_nodes g) \<or>
    keep_majority_decision g role = DownReachable \<and> (\<exists>m \<in> set (decision_members g role). m_node m |\<in>| unreachable_nodes g)"
proof -
  obtain m where m: "min_by_key (\<lambda>m. ordering_key (m_node m)) (decision_members g role) = Some m"
    using assms min_by_key_None by blast
  have ex: "length (filter P xs) > length (filter Q xs) \<Longrightarrow> \<exists>x \<in> set xs. P x" for P Q and xs :: "member list"
    by (metis filter_False list.size(3) not_less_zero)
  show ?thesis
    using m min_by_key_in [OF m] ex [of "\<lambda>m. m_node m |\<notin>| unreachable_nodes g" "decision_members g role" "\<lambda>m. m_node m |\<in>| unreachable_nodes g"]
      ex [of "\<lambda>m. m_node m |\<in>| unreachable_nodes g" "decision_members g role" "\<lambda>m. m_node m |\<notin>| unreachable_nodes g"]
    by (auto simp: keep_majority_decision_def majority_decision_def other_count Let_def)
qed

lemma keep_oldest_survivors:
  assumes "decision_members g role \<noteq> []"
  shows "keep_oldest_decision g role alone = DownUnreachable \<and> (\<exists>m \<in> set (decision_members g role). m_node m |\<notin>| unreachable_nodes g) \<or>
    keep_oldest_decision g role alone = DownReachable \<and> (\<exists>m \<in> set (decision_members g role). m_node m |\<in>| unreachable_nodes g)"
proof -
  obtain m where m: "min_by_key age_key (decision_members g role) = Some m"
    using assms min_by_key_None by blast
  have ex: "2 \<le> length (filter P xs) \<Longrightarrow> \<exists>x \<in> set xs. P x" for P and xs :: "member list"
    by (metis filter_False list.size(3) not_numeral_le_zero)
  show ?thesis
    using m min_by_key_in [OF m] ex [of "\<lambda>m. m_node m |\<notin>| unreachable_nodes g" "decision_members g role"]
      ex [of "\<lambda>m. m_node m |\<in>| unreachable_nodes g" "decision_members g role"]
    by (auto simp: keep_oldest_decision_def other_count Let_def)
qed

lemma strategy_survivors:
  assumes "s \<noteq> SplitDownAll" "decision_members g (strategy_role s) \<noteq> []"
  shows "decision_without_indirect_check g s = DownUnreachable \<and>
      (\<exists>m \<in> set (decision_members g (strategy_role s)). m_node m |\<notin>| unreachable_nodes g) \<or>
    decision_without_indirect_check g s = DownReachable \<and>
      (\<exists>m \<in> set (decision_members g (strategy_role s)). m_node m |\<in>| unreachable_nodes g)"
  using assms keep_majority_survivors keep_oldest_survivors
  by (cases s) (simp_all add: decision_without_indirect_check_def)

section \<open>Plans\<close>

lemma plan_from_decision_nodes:
  "set (pl_nodes_to_down (plan_from_decision h d g self)) =
     (if d = DownSelfQuarantinedByRemote then (if g_has_member g self then {self} else {})
      else set (nodes_to_down_for_decision h d g))"
  by (cases d) (simp_all add: plan_from_decision_def plan_new_def nodes_to_down_for_decision_def Let_def)

lemma plan_from_decision_opposite:
  assumes "clean_partition ga gb" "d \<in> {DownReachable, DownUnreachable, DownAll}"
  shows "pl_nodes_to_down (plan_from_decision h (opposite d) gb b) = pl_nodes_to_down (plan_from_decision h d ga a)"
proof -
  have same: "downable_nodes gb = downable_nodes ga"
    by (rule downable_nodes_cong [OF clean_partition_members [OF assms(1)]])
  have swap: "n |\<in>| unreachable_nodes gb \<longleftrightarrow> n |\<notin>| unreachable_nodes ga" if "n \<in> set (downable_nodes ga)" for n
    using downable_nodes_member [OF that] clean_partition_node [OF assms(1)] by blast
  have "filter (\<lambda>n. n |\<in>| unreachable_nodes gb) (downable_nodes ga) = filter (\<lambda>n. n |\<notin>| unreachable_nodes ga) (downable_nodes ga)"
    "filter (\<lambda>n. n |\<notin>| unreachable_nodes gb) (downable_nodes ga) = filter (\<lambda>n. n |\<in>| unreachable_nodes ga) (downable_nodes ga)"
    using swap by (auto intro!: filter_cong)
  with assms(2) same show ?thesis
    by (auto simp: plan_from_decision_def plan_new_def Let_def)
qed

lemma split_brain_plan_clean:
  assumes "\<not> has_indirectly_connected g" "decision_without_indirect_check g s \<noteq> DownIndirectlyConnected"
  shows "split_brain_plan h s g self = plan_from_decision h (decision_without_indirect_check g s) g self"
  using assms by (cases s) (simp_all add: split_brain_plan_def split_brain_decision_def decision_without_indirect_check_def)

lemma mark_down_members_Down:
  assumes "distinct (map m_node ms)" "find (\<lambda>m. m_node m = n) ms = Some x" "m_status x = Down"
  shows "map (\<lambda>m. if m_node m = n then with_status m Down else m) ms = ms"
proof (rule map_idI)
  fix m
  assume m: "m \<in> set ms"
  have "x \<in> set ms" "m_node x = n" using assms(2) by (auto simp: find_Some_iff)
  then have "m = x" if "m_node m = n" using that m assms(1) by (auto simp: distinct_map inj_on_def)
  then show "(if m_node m = n then with_status m Down else m) = m" using assms(3) by (auto simp: with_status_def)
qed

lemma mark_down_absent:
  "find (\<lambda>m. m_node m = n) ms = None \<Longrightarrow> map (\<lambda>m. if m_node m = n then with_status m Down else m) ms = ms"
  by (intro map_idI) (auto simp: find_None_iff)

definition down_members :: "unique_address set \<Rightarrow> member list \<Rightarrow> member list" where
  "down_members A ms = map (\<lambda>m. if m_node m \<in> A then with_status m Down else m) ms"

lemma down_members_nodes: "map m_node (down_members A ms) = map m_node ms"
  by (auto simp: down_members_def with_status_def)

lemma down_members_insert:
  "down_members A (map (\<lambda>m. if m_node m = n then with_status m Down else m) ms) = down_members (insert n A) ms"
  by (auto simp: down_members_def with_status_def)

lemma apply_fold_members:
  assumes "distinct (map m_node (g_members g))"
  shows "g_members (fst (fold (\<lambda>node (changed, did_change).
            case g_member changed node of
              Some m \<Rightarrow> if m_status m \<noteq> Down then (g_mark_down changed node, True) else (changed, did_change)
            | None \<Rightarrow> (changed, did_change)) nodes (g, c))) = down_members (set nodes) (g_members g)"
  using assms
proof (induction nodes arbitrary: g c)
  case Nil
  then show ?case by (simp add: down_members_def)
next
  case (Cons n ns)
  let ?mark = "map (\<lambda>m. if m_node m = n then with_status m Down else m) (g_members g)"
  have marked: "g_members (g_mark_down g n) = ?mark" by (simp add: g_mark_down_def)
  have nodes: "map m_node ?mark = map m_node (g_members g)" by (auto simp: with_status_def)
  show ?case
  proof (cases "\<exists>m. g_member g n = Some m \<and> m_status m \<noteq> Down")
    case True
    have "distinct (map m_node (g_members (g_mark_down g n)))"
      using Cons.prems by (simp only: marked nodes)
    from Cons.IH [OF this, of True] True show ?thesis
      by (auto simp: marked down_members_insert)
  next
    case False
    then have "?mark = g_members g"
      using mark_down_members_Down [OF Cons.prems] mark_down_absent
      by (cases "g_member g n") (auto simp: g_member_def)
    then have "down_members (set ns) (g_members g) = down_members (set (n # ns)) (g_members g)"
      using down_members_insert [of "set ns" n "g_members g"] by simp
    then show ?thesis
      using False Cons.IH [OF Cons.prems, of c] by (auto split: option.splits)
  qed
qed

lemma plan_apply_members:
  assumes "g_wf g"
  shows "g_members (plan_apply_to p g self) = down_members (set (pl_nodes_to_down p)) (g_members g)"
proof -
  have "distinct (map m_node (g_members g))" using assms members_wf_distinct_nodes by (simp add: g_wf_def)
  from apply_fold_members [OF this, of "pl_nodes_to_down p" False] show ?thesis
    by (simp add: plan_apply_to_def g_only_seen_def g_increment_version_def split_beta Let_def)
qed

section \<open>Properties\<close>

text \<open>
  C4: When a cluster that has a member the strategy counts splits cleanly in two, keep-majority and keep-oldest (with or without
  \<open>down_if_alone\<close>) let exactly one side survive although each side decides alone: both sides compute
  the same nodes to down, these are the downable members outside one of the two sides, a
  member the strategy counts survives on that side, each node knows whether the plan downs itself,
  and after both have applied their plans the two member lists are equal.
\<close>

theorem split_brain_sides_agree:
  fixes h :: "unique_address hash_iter" and a b :: unique_address
  assumes "clean_partition ga gb" "g_wf ga" "g_wf gb" "s \<noteq> SplitDownAll" "decision_members ga (strategy_role s) \<noteq> []"
  defines "pa \<equiv> split_brain_plan h s ga a" and "pb \<equiv> split_brain_plan h s gb b"
  shows "pl_nodes_to_down pb = pl_nodes_to_down pa \<and>
    (\<exists>g \<in> {ga, gb}. set (pl_nodes_to_down pa) = other_side g \<and>
       (\<exists>m \<in> set (decision_members g (strategy_role s)). m_node m \<notin> other_side g)) \<and>
    (pl_down_self pa \<longleftrightarrow> a \<in> set (pl_nodes_to_down pa)) \<and> (pl_down_self pb \<longleftrightarrow> b \<in> set (pl_nodes_to_down pa)) \<and>
    g_members (plan_apply_to pa ga a) = down_members (set (pl_nodes_to_down pa)) (g_members ga) \<and>
    g_members (plan_apply_to pb gb b) = g_members (plan_apply_to pa ga a)"
proof -
  let ?d = "decision_without_indirect_check ga s"
  note surv = strategy_survivors [OF assms(4,5)]
  have d: "?d \<in> {DownReachable, DownUnreachable, DownAll}" "?d \<noteq> DownIndirectlyConnected"
    "opposite ?d \<noteq> DownIndirectlyConnected" using surv by auto
  have clean: "\<not> has_indirectly_connected ga" "\<not> has_indirectly_connected gb"
    using assms(1) by (simp_all add: clean_partition_def)
  have pa: "pa = plan_from_decision h ?d ga a"
    unfolding pa_def by (rule split_brain_plan_clean [OF clean(1) d(2)])
  have pb: "pb = plan_from_decision h (opposite ?d) gb b"
    unfolding pb_def using split_brain_plan_clean [OF clean(2), of s h b] d(3) strategy_opposite [OF assms(1), of s] by simp
  have same: "pl_nodes_to_down pb = pl_nodes_to_down pa"
    unfolding pa pb by (rule plan_from_decision_opposite [OF assms(1) d(1)])
  have self: "pl_down_self pa \<longleftrightarrow> a \<in> set (pl_nodes_to_down pa)" "pl_down_self pb \<longleftrightarrow> b \<in> set (pl_nodes_to_down pb)"
    by (simp_all add: pa pb plan_from_decision_def plan_new_def Let_def)
  have side: "\<exists>g \<in> {ga, gb}. set (pl_nodes_to_down pa) = other_side g \<and>
       (\<exists>m \<in> set (decision_members g (strategy_role s)). m_node m \<notin> other_side g)"
    using surv
  proof (elim disjE conjE)
    assume "?d = DownUnreachable" "\<exists>m \<in> set (decision_members ga (strategy_role s)). m_node m |\<notin>| unreachable_nodes ga"
    then show ?thesis
      by (auto simp: pa plan_from_decision_nodes nodes_to_down_for_decision_def other_side_def)
  next
    assume r: "?d = DownReachable" "\<exists>m \<in> set (decision_members ga (strategy_role s)). m_node m |\<in>| unreachable_nodes ga"
    have "set (pl_nodes_to_down pb) = other_side gb"
      using r(1) by (auto simp: pb plan_from_decision_nodes nodes_to_down_for_decision_def other_side_def)
    moreover have "\<exists>m \<in> set (decision_members gb (strategy_role s)). m_node m \<notin> other_side gb"
      using r(2) clean_partition_node [OF assms(1)] decision_members_subset [of ga "strategy_role s"]
        decision_members_cong [OF clean_partition_members [OF assms(1)]]
      by (fastforce simp: other_side_def)
    ultimately show ?thesis using same by auto
  qed
  show ?thesis
    using same side self plan_apply_members [OF assms(2)] plan_apply_members [OF assms(3)] clean_partition_members [OF assms(1)]
    by simp
qed

text \<open>A cluster of two members, each of which sees the other as unreachable.\<close>

definition sample_side :: "unique_address \<Rightarrow> unique_address \<Rightarrow> gossip" where
  "sample_side self other =
     (gossip_of [up_member node_1, up_member node_2])\<lparr>g_seen := {|self|}, g_reachability := rc_unreachable rc_new self other\<rparr>"

lemma sample_partition: "clean_partition (sample_side node_1 node_2) (sample_side node_2 node_1)"
  by code_simp

lemma sample_side_wf: "g_wf (sample_side node_1 node_2)" "g_wf (sample_side node_2 node_1)"
  by code_simp+

lemma sample_side_counted: "decision_members (sample_side node_1 node_2) None \<noteq> []"
  by code_simp

theorem split_brain_sides_agree_witness:
  "pl_nodes_to_down (split_brain_plan sorted_list_of_fset (KeepMajority None) (sample_side node_2 node_1) node_2) =
   pl_nodes_to_down (split_brain_plan sorted_list_of_fset (KeepMajority None) (sample_side node_1 node_2) node_1)"
  using split_brain_sides_agree [OF sample_partition sample_side_wf, of "KeepMajority None" sorted_list_of_fset node_2 node_1]
    sample_side_counted by simp

text \<open>
  C40: Under lease-majority the two sides of a clean partition agree on the nodes to down whenever exactly one
  of them acquires the lease, and it is the holder's side that survives; when neither acquires it every
  downable member is downed, and when both do, each side downs the other.
\<close>

theorem lease_majority_sides_agree:
  fixes h :: "unique_address hash_iter" and a b :: unique_address and settings :: lease_majority_settings
  assumes "clean_partition ga gb"
  defines "na acq \<equiv> set (pl_nodes_to_down (lease_majority_plan h (\<lambda>_. acq) settings ga a))"
    and "nb acq \<equiv> set (pl_nodes_to_down (lease_majority_plan h (\<lambda>_. acq) settings gb b))"
  shows "na True = other_side ga \<and> nb False = other_side ga \<and> na False = other_side gb \<and> nb True = other_side gb \<and>
    other_side ga \<inter> other_side gb = {} \<and> other_side ga \<union> other_side gb = set (downable_nodes ga)"
proof -
  have clean: "\<not> has_indirectly_connected ga" "\<not> has_indirectly_connected gb"
    using assms(1) by (simp_all add: clean_partition_def)
  have same: "set (downable_nodes gb) = set (downable_nodes ga)"
    using downable_nodes_cong [OF clean_partition_members [OF assms(1)]] by simp
  have swap: "n |\<in>| unreachable_nodes gb \<longleftrightarrow> n |\<notin>| unreachable_nodes ga" if "n \<in> set (downable_nodes ga)" for n
    using downable_nodes_member [OF that] clean_partition_node [OF assms(1)] by blast
  show ?thesis
    using clean swap same
    by (auto simp: na_def nb_def lease_majority_plan_def lease_majority_decide_def lease_requested_decision_for_def
        plan_from_decision_nodes nodes_to_down_for_decision_def other_side_def)
qed

theorem lease_majority_sides_agree_witness:
  "set (pl_nodes_to_down (lease_majority_plan sorted_list_of_fset (\<lambda>_. True)
      \<lparr>lm_lease_name = ''sbr'', lm_role = None, lm_acquire_lease_delay_for_minority = 2, lm_release_after = 40\<rparr>
      (sample_side node_1 node_2) node_1)) = {node_2}"
proof -
  have "other_side (sample_side node_1 node_2) = {node_2}" by code_simp
  then show ?thesis
    using lease_majority_sides_agree [OF sample_partition, of sorted_list_of_fset
        "\<lparr>lm_lease_name = ''sbr'', lm_role = None, lm_acquire_lease_delay_for_minority = 2, lm_release_after = 40\<rparr>" node_1 node_2]
    by simp
qed

end
