(* ===== verification/OR_Set.thy ===== *)
theory OR_Set
  imports Replicated_Data
begin

text \<open>
  \<open>ORSet\<close> of \<open>kairo-distributed-data/src/orset.rs\<close>: elements with their birth dots, the causal
  context (a version vector) and the pending operation delta. The abstract specification is the
  dotted set: a state is a set of dots (element, replica, version) and the set of dots already
  seen; the join keeps a dot that both sides hold or that the other side has not seen. The
  interpretation \<open>os\<close> shows that \<open>ORSet::merge\<close> refines that join, hence the contract of
  \<open>ReplicatedData\<close>. Further lemmas give the effect of adds, removes, deltas and pruning.
\<close>

section \<open>Version vectors\<close>

type_synonym version_vector = "(replica_id, u64) fmap"

definition vv_one :: "replica_id \<Rightarrow> u64 \<Rightarrow> version_vector" where
  "vv_one replica version = (if version = 0 then fmempty else fmupd replica version fmempty)"

definition vv_version_at :: "version_vector \<Rightarrow> replica_id \<Rightarrow> u64" where
  "vv_version_at vv replica = unwrap_or (fmlookup vv replica) 0"

definition vv_increment :: "version_vector \<Rightarrow> replica_id \<Rightarrow> version_vector" where
  "vv_increment vv replica = fmupd replica (saturating_add (vv_version_at vv replica) 1) vv"

definition vv_merge :: "version_vector \<Rightarrow> version_vector \<Rightarrow> version_vector" where
  "vv_merge a b = merge_max a b"

definition vv_dominates :: "version_vector \<Rightarrow> version_vector \<Rightarrow> bool" where
  "vv_dominates vv dots \<longleftrightarrow>
     list_all (\<lambda>(replica, version). vv_version_at vv replica \<ge> version) (bt_entries dots)"

definition vv_need_pruning_from :: "version_vector \<Rightarrow> replica_id \<Rightarrow> bool" where
  "vv_need_pruning_from vv removed \<longleftrightarrow> fmlookup vv removed \<noteq> None"

definition vv_pruning_cleanup :: "version_vector \<Rightarrow> replica_id \<Rightarrow> version_vector" where
  "vv_pruning_cleanup vv removed = fmdrop removed vv"

definition vv_prune :: "version_vector \<Rightarrow> replica_id \<Rightarrow> replica_id \<Rightarrow> version_vector" where
  "vv_prune vv removed collapse_into = vv_increment (vv_pruning_cleanup vv removed) collapse_into"

section \<open>\<open>ORSet\<close> and its deltas\<close>

datatype 'a orset_remove =
  ORSetRemoveDelta (rm_element: 'a) (rm_seen: version_vector) (rm_dot: version_vector)

datatype 'a orset =
    ORSet (os_elements: "('a, version_vector) fmap") (os_vv: version_vector)
      (os_delta: "'a orset_delta option")
and 'a orset_delta =
    AddDelta "'a orset"
  | RemoveDelta "'a orset_remove"
  | GroupDelta "'a orset_delta list"

definition os_new :: "'a orset" where
  "os_new = ORSet fmempty fmempty None"

definition os_contains :: "'a orset \<Rightarrow> 'a \<Rightarrow> bool" where
  "os_contains s element \<longleftrightarrow> fmlookup (os_elements s) element \<noteq> None"

definition os_element_list :: "'a::linorder orset \<Rightarrow> 'a list" where
  "os_element_list s = bt_keys (os_elements s)"

fun delta_merge :: "'a orset_delta \<Rightarrow> 'a orset_delta \<Rightarrow> 'a orset_delta" where
  "delta_merge (GroupDelta left) (GroupDelta right) = GroupDelta (left @ right)"
| "delta_merge (GroupDelta left) right = GroupDelta (left @ [right])"
| "delta_merge left (GroupDelta right) = GroupDelta (left # right)"
| "delta_merge left right = GroupDelta [left, right]"

definition merge_optional_delta :: "'a orset_delta option \<Rightarrow> 'a orset_delta \<Rightarrow> 'a orset_delta" where
  "merge_optional_delta existing new =
     (case existing of None \<Rightarrow> new | Some d \<Rightarrow> delta_merge d new)"

definition os_add :: "'a orset \<Rightarrow> replica_id \<Rightarrow> 'a \<Rightarrow> 'a orset" where
  "os_add s replica element =
     (let next_version_vector = vv_increment (os_vv s) replica;
          element_dot = vv_one replica (vv_version_at next_version_vector replica);
          elements = fmupd element element_dot (os_elements s);
          add_delta = AddDelta (ORSet (fmupd element element_dot fmempty) element_dot None)
      in ORSet elements next_version_vector (Some (merge_optional_delta (os_delta s) add_delta)))"

definition os_remove :: "'a orset \<Rightarrow> replica_id \<Rightarrow> 'a \<Rightarrow> 'a orset" where
  "os_remove s replica element =
     (case fmlookup (os_elements s) element of
        None \<Rightarrow> s
      | Some _ \<Rightarrow>
          let remove_delta = RemoveDelta (ORSetRemoveDelta element (os_vv s)
                (vv_one replica (vv_version_at (os_vv s) replica)))
          in ORSet (fmdrop element (os_elements s)) (os_vv s)
               (Some (merge_optional_delta (os_delta s) remove_delta)))"

definition os_from_wire_state :: "('a \<times> version_vector) list \<Rightarrow> version_vector \<Rightarrow> 'a orset" where
  "os_from_wire_state elements version_vector =
     ORSet (bt_collect (filter (\<lambda>(_, dots). \<not> bt_is_empty dots) elements)) version_vector None"

definition merge_element_dots ::
  "version_vector \<Rightarrow> version_vector \<Rightarrow> version_vector \<Rightarrow> version_vector \<Rightarrow> version_vector" where
  "merge_element_dots left right left_context right_context =
     (let merged = fold (\<lambda>(replica, version) m.
                       if vv_version_at right replica = version \<or> vv_version_at right_context replica < version
                       then fmupd replica version m else m)
                     (bt_entries left) fmempty
      in fold (\<lambda>(replica, version) m.
             if vv_version_at left_context replica < version then fmupd replica version m else m)
           (bt_entries right) merged)"

definition subtract_dominated_dots :: "version_vector \<Rightarrow> version_vector \<Rightarrow> version_vector" where
  "subtract_dominated_dots dots context =
     bt_collect (filter (\<lambda>(replica, version). vv_version_at context replica < version) (bt_entries dots))"

definition os_merged_dots :: "'a orset \<Rightarrow> 'a orset \<Rightarrow> 'a \<Rightarrow> version_vector" where
  "os_merged_dots a b element =
     (case (fmlookup (os_elements a) element, fmlookup (os_elements b) element) of
        (Some left, Some right) \<Rightarrow> merge_element_dots left right (os_vv a) (os_vv b)
      | (Some left, None) \<Rightarrow> subtract_dominated_dots left (os_vv b)
      | (None, Some right) \<Rightarrow> subtract_dominated_dots right (os_vv a)
      | (None, None) \<Rightarrow> fmempty)"

definition os_merge :: "'a::linorder orset \<Rightarrow> 'a orset \<Rightarrow> 'a orset" where
  "os_merge a b =
     (let keys = sorted_list_of_fset (fmdom (os_elements a) |\<union>| fmdom (os_elements b));
          elements = fold (\<lambda>element m.
              if bt_is_empty (os_merged_dots a b element) then m
              else fmupd element (os_merged_dots a b element) m) keys fmempty
      in ORSet elements (vv_merge (os_vv a) (os_vv b)) None)"

definition os_merge_add_delta :: "'a::linorder orset \<Rightarrow> 'a orset \<Rightarrow> 'a orset" where
  "os_merge_add_delta s add =
     (let elements = fold (\<lambda>(element, add_dots) m.
            let merged = (case fmlookup m element of
                            Some existing_dots \<Rightarrow>
                              merge_element_dots existing_dots add_dots (os_vv s) (os_vv add)
                          | None \<Rightarrow> add_dots)
            in if bt_is_empty merged then fmdrop element m else fmupd element merged m)
          (bt_entries (os_elements add)) (os_elements s)
      in ORSet elements (vv_merge (os_vv s) (os_vv add)) None)"

definition os_merge_remove_delta :: "'a orset \<Rightarrow> 'a orset_remove \<Rightarrow> 'a orset" where
  "os_merge_remove_delta s remove =
     (let elements = (case fmlookup (os_elements s) (rm_element remove) of
            Some dots \<Rightarrow> if vv_dominates (rm_seen remove) dots
                        then fmdrop (rm_element remove) (os_elements s) else os_elements s
          | None \<Rightarrow> os_elements s)
      in ORSet elements (vv_merge (os_vv s) (rm_dot remove)) None)"

fun os_merge_delta :: "'a::linorder orset \<Rightarrow> 'a orset_delta \<Rightarrow> 'a orset" where
  "os_merge_delta s (AddDelta add) = os_merge_add_delta s add"
| "os_merge_delta s (RemoveDelta remove) = os_merge_remove_delta s remove"
| "os_merge_delta s (GroupDelta ops) = fold (\<lambda>op current. os_merge_delta current op) ops s"

definition os_reset_delta :: "'a orset \<Rightarrow> 'a orset" where
  "os_reset_delta s = ORSet (os_elements s) (os_vv s) None"

definition os_zero :: "'a orset_delta \<Rightarrow> 'a orset" where
  "os_zero d = os_new"

definition os_modified_by :: "'a orset \<Rightarrow> replica_id list" where
  "os_modified_by s = bt_keys (os_vv s)"

definition os_need_pruning_from :: "'a orset \<Rightarrow> replica_id \<Rightarrow> bool" where
  "os_need_pruning_from s removed = vv_need_pruning_from (os_vv s) removed"

definition os_prune :: "'a::linorder orset \<Rightarrow> replica_id \<Rightarrow> replica_id \<Rightarrow> (crdt_error, 'a orset) result" where
  "os_prune s removed collapse_into =
     (let pruned_elements = fmmap (\<lambda>dots.
            if vv_need_pruning_from dots removed then vv_prune dots removed collapse_into else dots)
          (os_elements s);
          touched_elements = map fst (filter (\<lambda>(_, dots). vv_need_pruning_from dots removed)
            (bt_entries (os_elements s)));
          base = ORSet pruned_elements (vv_prune (os_vv s) removed collapse_into) None
      in Ok (fold (\<lambda>element current. os_add current collapse_into element) touched_elements base))"

definition os_pruning_cleanup :: "'a::linorder orset \<Rightarrow> replica_id \<Rightarrow> 'a orset" where
  "os_pruning_cleanup s removed =
     ORSet
       (bt_collect (filter (\<lambda>(_, dots). \<not> bt_is_empty dots)
          (map (\<lambda>(element, dots).
                 (element, if vv_need_pruning_from dots removed
                           then vv_pruning_cleanup dots removed else dots))
            (bt_entries (os_elements s)))))
       (vv_pruning_cleanup (os_vv s) removed) None"

section \<open>Invariant and abstract specification\<close>

definition vv_pos :: "version_vector \<Rightarrow> bool" where
  "vv_pos vv \<longleftrightarrow> fmpred (\<lambda>_ v. 0 < v) vv"

text \<open>Every element has a dot, and every dot has been seen.\<close>

definition os_wf :: "'a orset \<Rightarrow> bool" where
  "os_wf s \<longleftrightarrow> vv_pos (os_vv s) \<and>
     fmpred (\<lambda>_ dots. dots \<noteq> fmempty \<and> vv_pos dots \<and> fmpred (\<lambda>r v. v \<le> vv_version_at (os_vv s) r) dots)
       (os_elements s)"

type_synonym 'a dotted = "('a \<times> replica_id \<times> u64) set \<times> (replica_id \<times> u64) set"

definition os_dots :: "'a orset \<Rightarrow> ('a \<times> replica_id \<times> u64) set" where
  "os_dots s = {(e, r, v). \<exists>d. fmlookup (os_elements s) e = Some d \<and> fmlookup d r = Some v}"

definition os_seen :: "'a orset \<Rightarrow> (replica_id \<times> u64) set" where
  "os_seen s = {(r, v). 0 < v \<and> v \<le> vv_version_at (os_vv s) r}"

definition os_abs :: "'a orset \<Rightarrow> 'a dotted" where
  "os_abs s = (os_dots s, os_seen s)"

definition dot_join :: "'a dotted \<Rightarrow> 'a dotted \<Rightarrow> 'a dotted" where
  "dot_join x y =
     ({d \<in> fst x. d \<in> fst y \<or> snd d \<notin> snd y} \<union> {d \<in> fst y. d \<in> fst x \<or> snd d \<notin> snd x},
      snd x \<union> snd y)"

definition dot_valid :: "'a dotted \<Rightarrow> bool" where
  "dot_valid x \<longleftrightarrow> (\<forall>d \<in> fst x. snd d \<in> snd x)"

section \<open>Lemmas on version vectors\<close>

lemma vv_version_at_simps [simp]:
  "vv_version_at fmempty r = 0"
  "vv_version_at (fmupd q v m) r = (if r = q then v else vv_version_at m r)"
  "vv_version_at (fmdrop q m) r = (if r = q then 0 else vv_version_at m r)"
  by (simp_all add: vv_version_at_def)

lemma vv_version_at_merge [simp]:
  "vv_version_at (vv_merge a b) r = max (vv_version_at a r) (vv_version_at b r)"
  by (auto simp: vv_version_at_def vv_merge_def fmlookup_merge_max max_def split: option.splits)

lemma vv_version_at_one [simp]: "vv_version_at (vv_one q v) r = (if r = q then v else 0)"
  by (simp add: vv_one_def)

lemma vv_version_at_increment [simp]:
  "vv_version_at (vv_increment vv q) r =
     (if r = q then saturating_add (vv_version_at vv q) 1 else vv_version_at vv r)"
  by (simp add: vv_increment_def)

lemma saturating_Suc_pos [simp]: "0 < saturating_add v (1 :: u64)"
  by (simp add: word_less_nat_alt unat_saturating_add)

lemma saturating_Suc_ne [simp]: "saturating_add v (1 :: u64) \<noteq> 0"
  using saturating_Suc_pos [of v] by (simp only: word_gt_0)

lemma saturating_Suc_less: "a \<le> b \<Longrightarrow> b \<noteq> - 1 \<Longrightarrow> a < saturating_add b (1 :: u64)"
  using word_order.not_eq_extremum [of b] word_Suc_greater [of b]
  by (auto simp: saturating_add_def intro: order.strict_trans1)

lemma vv_pos_simps [simp]:
  "vv_pos fmempty"
  "vv_pos a \<Longrightarrow> 0 < v \<Longrightarrow> vv_pos (fmupd q v a)"
  "vv_pos a \<Longrightarrow> vv_pos (fmdrop q a)"
  "vv_pos (vv_one q v)"
  "vv_pos a \<Longrightarrow> vv_pos b \<Longrightarrow> vv_pos (vv_merge a b)"
  by (auto simp: vv_pos_def fmpred_iff vv_one_def vv_merge_def fmlookup_merge_max word_gt_0
      split: option.splits if_splits)

lemma vv_pos_increment [simp]: "vv_pos a \<Longrightarrow> vv_pos (vv_increment a q)"
  by (simp add: vv_increment_def)

lemma vv_ext:
  assumes "vv_pos a" "vv_pos b" "\<And>r. vv_version_at a r = vv_version_at b r"
  shows "a = b"
proof (rule fmap_ext)
  fix r
  show "fmlookup a r = fmlookup b r"
    using assms(3) [of r] assms(1,2)
    by (auto simp: vv_version_at_def vv_pos_def fmpred_iff split: option.splits)
qed

lemma fmupd_ne: "fmupd k v m \<noteq> fmempty"
  by (metis fmempty_lookup fmupd_lookup option.distinct(1))

lemma vv_lookup: "vv_pos d \<Longrightarrow> fmlookup d r = Some v \<longleftrightarrow> 0 < v \<and> vv_version_at d r = v"
  by (auto simp: vv_version_at_def vv_pos_def fmpred_iff split: option.splits)

lemma vv_dominates_iff: "vv_dominates vv dots \<longleftrightarrow> (\<forall>r v. fmlookup dots r = Some v \<longrightarrow> v \<le> vv_version_at vv r)"
  by (auto simp: vv_dominates_def list_all_iff)

lemma lookup_merge_element_dots:
  "fmlookup (merge_element_dots l r lc rc) q =
     (case fmlookup r q of
        Some w \<Rightarrow> if vv_version_at lc q < w then Some w
          else (case fmlookup l q of
                  Some v \<Rightarrow> if w = v \<or> vv_version_at rc q < v then Some v else None
                | None \<Rightarrow> None)
      | None \<Rightarrow> (case fmlookup l q of
                  Some v \<Rightarrow> if v = 0 \<or> vv_version_at rc q < v then Some v else None
                | None \<Rightarrow> None))"
  by (auto simp: merge_element_dots_def fold_fmupd_if_lookup Let_def vv_version_at_def [of r]
      split: option.splits)

lemma lookup_subtract_dominated_dots:
  "fmlookup (subtract_dominated_dots d c) q =
     (case fmlookup d q of None \<Rightarrow> None | Some v \<Rightarrow> if vv_version_at c q < v then Some v else None)"
  by (simp add: subtract_dominated_dots_def fmlookup_collect_filter del: fmlookup_bt_collect)

section \<open>Refinement of the dotted set\<close>

text \<open>The birth version of an element at a replica, 0 when there is none.\<close>

definition os_at :: "'a orset \<Rightarrow> 'a \<Rightarrow> replica_id \<Rightarrow> u64" where
  "os_at s e r = (case fmlookup (os_elements s) e of None \<Rightarrow> 0 | Some d \<Rightarrow> vv_version_at d r)"

lemma os_wfD:
  assumes "os_wf s"
  shows "vv_pos (os_vv s)"
    and "fmlookup (os_elements s) e = Some d \<Longrightarrow> d \<noteq> fmempty \<and> vv_pos d"
    and "fmlookup (os_elements s) e = Some d \<Longrightarrow> fmlookup d r = Some v \<Longrightarrow> v \<le> vv_version_at (os_vv s) r"
  using assms by (auto simp: os_wf_def fmpred_iff)

lemma os_at_le: "os_wf s \<Longrightarrow> os_at s e r \<le> vv_version_at (os_vv s) r"
  by (auto simp: os_at_def vv_version_at_def [of _ r] dest: os_wfD split: option.splits)

lemma os_wfI:
  assumes "vv_pos (os_vv s)"
    and "\<And>e d. fmlookup (os_elements s) e = Some d \<Longrightarrow> d \<noteq> fmempty \<and> vv_pos d"
    and "\<And>e r. os_at s e r \<le> vv_version_at (os_vv s) r"
  shows "os_wf s"
proof -
  have "v \<le> vv_version_at (os_vv s) r"
    if "fmlookup (os_elements s) e = Some d" "fmlookup d r = Some v" for e d r v
    using assms(3) [of e r] that by (simp add: os_at_def vv_version_at_def [of d])
  then show ?thesis using assms(1,2) by (auto simp: os_wf_def fmpred_iff)
qed

lemma mem_os_dots: "os_wf s \<Longrightarrow> (e, r, v) \<in> os_dots s \<longleftrightarrow> 0 < v \<and> os_at s e r = v"
  by (auto simp: os_dots_def os_at_def vv_lookup os_wfD split: option.splits)

lemma mem_os_seen: "(r, v) \<in> os_seen s \<longleftrightarrow> 0 < v \<and> v \<le> vv_version_at (os_vv s) r"
  by (simp add: os_seen_def)

lemma unseen_dot_iff:
  "os_wf b \<Longrightarrow> (e, q, v) \<in> os_dots b \<and> (q, v) \<notin> os_seen a \<longleftrightarrow>
     v = os_at b e q \<and> vv_version_at (os_vv a) q < os_at b e q"
  by (auto simp: mem_os_dots mem_os_seen not_le word_gt_0)

lemma os_elements_eqI:
  assumes "os_wf s" "os_wf t" "\<And>e r. os_at s e r = os_at t e r"
  shows "os_elements s = os_elements t"
proof (rule fmap_ext)
  fix e
  have nz: "\<exists>r. vv_version_at d r \<noteq> 0" if "d \<noteq> fmempty" "vv_pos d" for d
    using vv_ext [of d fmempty] that by auto
  show "fmlookup (os_elements s) e = fmlookup (os_elements t) e"
  proof (cases "fmlookup (os_elements s) e"; cases "fmlookup (os_elements t) e")
    fix d d' assume *: "fmlookup (os_elements s) e = Some d" "fmlookup (os_elements t) e = Some d'"
    then have "vv_version_at d r = vv_version_at d' r" for r
      using assms(3) [of e r] by (simp add: os_at_def)
    then show ?thesis
      using * assms os_wfD(2) vv_ext by metis
  qed (use nz assms(3) [of e] os_wfD(2) [OF assms(1), of e] os_wfD(2) [OF assms(2), of e] in
      \<open>force simp: os_at_def\<close>)+
qed

lemma os_contains_iff: "os_wf s \<Longrightarrow> os_contains s e \<longleftrightarrow> (\<exists>r v. (e, r, v) \<in> os_dots s)"
proof -
  assume "os_wf s"
  then have "\<exists>r v. fmlookup d r = Some v" if "fmlookup (os_elements s) e = Some d" for d
    using os_wfD(2) [OF \<open>os_wf s\<close> that] fmap_ext [of d fmempty] by fastforce
  then show ?thesis
    by (auto simp: os_contains_def os_dots_def)
qed

lemma merge_element_dots_pos: "vv_pos l \<Longrightarrow> vv_pos r \<Longrightarrow> vv_pos (merge_element_dots l r lc rc)"
  unfolding vv_pos_def fmpred_iff
  by (auto simp: lookup_merge_element_dots split: option.splits if_splits)

lemma os_merged_dots_pos:
  "os_wf a \<Longrightarrow> os_wf b \<Longrightarrow> vv_pos (os_merged_dots a b e)"
  unfolding vv_pos_def fmpred_iff
  by (auto simp: os_merged_dots_def lookup_merge_element_dots lookup_subtract_dominated_dots vv_lookup os_wfD
      split: option.splits if_splits)

lemma os_elements_merge:
  "fmlookup (os_elements (os_merge a b)) e =
     (if os_merged_dots a b e = fmempty then None else Some (os_merged_dots a b e))"
proof -
  have "fmlookup (os_elements (os_merge a b)) e =
    (if e |\<in>| fmdom (os_elements a) |\<union>| fmdom (os_elements b) \<and> os_merged_dots a b e \<noteq> fmempty
     then Some (os_merged_dots a b e) else None)"
    by (simp add: os_merge_def fold_fmupd_key_lookup bt_is_empty_iff)
  moreover have "os_merged_dots a b e = fmempty"
    if "e |\<notin>| fmdom (os_elements a) |\<union>| fmdom (os_elements b)"
    using that by (simp add: os_merged_dots_def fmdom_notD)
  ultimately show ?thesis by auto
qed

lemma os_vv_merge [simp]: "os_vv (os_merge a b) = vv_merge (os_vv a) (os_vv b)"
  by (simp add: os_merge_def Let_def)

lemma version_at_merge_element_dots:
  "vv_pos l \<Longrightarrow> vv_pos r \<Longrightarrow>
   vv_version_at (merge_element_dots l r lc rc) q =
     (if vv_version_at lc q < vv_version_at r q then vv_version_at r q
      else if vv_version_at r q = vv_version_at l q \<or> vv_version_at rc q < vv_version_at l q
      then vv_version_at l q else 0)"
  by (auto simp: vv_version_at_def [of "merge_element_dots l r lc rc"] vv_version_at_def [of l] vv_version_at_def [of r]
      lookup_merge_element_dots vv_pos_def fmpred_iff split: option.splits)

lemma version_at_subtract:
  "vv_version_at (subtract_dominated_dots d c) q =
     (if vv_version_at c q < vv_version_at d q then vv_version_at d q else 0)"
  by (auto simp: vv_version_at_def [of "subtract_dominated_dots d c"] vv_version_at_def [of d]
      lookup_subtract_dominated_dots split: option.splits)

text \<open>The merge, dot by dot.\<close>

lemma os_at_merge:
  assumes "os_wf a" "os_wf b"
  shows "os_at (os_merge a b) e r =
     (if vv_version_at (os_vv a) r < os_at b e r then os_at b e r
      else if os_at b e r = os_at a e r \<or> vv_version_at (os_vv b) r < os_at a e r
      then os_at a e r else 0)"
proof -
  have "os_at (os_merge a b) e r = vv_version_at (os_merged_dots a b e) r"
    by (simp add: os_at_def os_elements_merge)
  then show ?thesis
    using assms os_wfD(2) [OF assms(1), of e] os_wfD(2) [OF assms(2), of e]
    by (auto simp: os_merged_dots_def os_at_def version_at_merge_element_dots version_at_subtract
        split: option.splits)
qed

lemma os_wf_merge: "os_wf a \<Longrightarrow> os_wf b \<Longrightarrow> os_wf (os_merge a b)"
  by (rule os_wfI)
    (auto simp: os_wfD os_elements_merge os_merged_dots_pos os_at_merge os_at_le le_max_iff_disj split: if_splits)

lemma os_abs_merge:
  assumes "os_wf a" "os_wf b"
  shows "os_abs (os_merge a b) = dot_join (os_abs a) (os_abs b)"
proof -
  have "(e, r, v) \<in> os_dots (os_merge a b) \<longleftrightarrow> (e, r, v) \<in> fst (dot_join (os_abs a) (os_abs b))" for e r v
    using os_at_le [OF assms(1), of e r] os_at_le [OF assms(2), of e r]
    by (auto simp: mem_os_dots mem_os_seen os_wf_merge assms os_at_merge dot_join_def os_abs_def)
  then have "os_dots (os_merge a b) = fst (dot_join (os_abs a) (os_abs b))"
    by auto
  moreover have "os_seen (os_merge a b) = snd (dot_join (os_abs a) (os_abs b))"
    by (auto simp: mem_os_seen dot_join_def os_abs_def le_max_iff_disj)
  ultimately show ?thesis by (simp add: os_abs_def prod_eq_iff)
qed

lemma os_seen_subset:
  assumes "os_seen a \<subseteq> os_seen b"
  shows "vv_version_at (os_vv a) r \<le> vv_version_at (os_vv b) r"
proof (cases "vv_version_at (os_vv a) r = 0")
  case False
  then have "(r, vv_version_at (os_vv a) r) \<in> os_seen a"
    by (simp add: mem_os_seen word_gt_0)
  then show ?thesis using assms mem_os_seen by blast
qed simp

lemma os_seen_inj: "os_seen a = os_seen b \<Longrightarrow> vv_version_at (os_vv a) r = vv_version_at (os_vv b) r"
  by (intro order.antisym os_seen_subset) simp_all

lemma os_abs_inject:
  assumes "os_wf a" "os_wf b" "os_abs a = os_abs b"
  shows "os_reset_delta a = os_reset_delta b"
proof -
  have "os_vv a = os_vv b"
    using assms by (intro vv_ext) (auto simp: os_wfD os_abs_def intro: os_seen_inj)
  moreover have "os_at a e r = os_at b e r" for e r
  proof -
    have "(e, r, v) \<in> os_dots a \<longleftrightarrow> (e, r, v) \<in> os_dots b" for v
      using assms(3) by (simp add: os_abs_def)
    then have "0 < v \<and> os_at a e r = v \<longleftrightarrow> 0 < v \<and> os_at b e r = v" for v
      by (simp add: mem_os_dots assms)
    from this [of "os_at a e r"] this [of "os_at b e r"] show ?thesis
      by (cases "os_at a e r = 0") (simp_all add: word_gt_0)
  qed
  then have "os_elements a = os_elements b"
    using assms by (intro os_elements_eqI)
  ultimately show ?thesis by (simp add: os_reset_delta_def)
qed

lemma os_reset_simps [simp]:
  "os_elements (os_reset_delta s) = os_elements s" "os_vv (os_reset_delta s) = os_vv s"
  "os_delta (os_reset_delta s) = None" "os_reset_delta (os_reset_delta s) = os_reset_delta s"
  by (simp_all add: os_reset_delta_def)

lemma os_wf_reset [simp]: "os_wf (os_reset_delta s) = os_wf s"
  by (simp add: os_wf_def)

interpretation os: refined_data os_wf os_merge os_reset_delta os_abs dot_join dot_valid
proof
  fix a b :: "'a orset" and x y z :: "'a dotted"
  show "os_wf a \<Longrightarrow> os_wf b \<Longrightarrow> os_wf (os_merge a b)" by (rule os_wf_merge)
  show "os_wf a \<Longrightarrow> os_wf (os_reset_delta a)" by simp
  show "os_wf a \<Longrightarrow> dot_valid (os_abs a)"
    by (auto simp: dot_valid_def os_abs_def mem_os_dots mem_os_seen os_at_le)
  show "dot_valid x \<Longrightarrow> dot_valid y \<Longrightarrow> dot_join x y = dot_join y x"
    by (auto simp: dot_join_def)
  show "dot_valid x \<Longrightarrow> dot_valid y \<Longrightarrow> dot_valid z \<Longrightarrow>
    dot_join (dot_join x y) z = dot_join x (dot_join y z)"
    by (auto simp: dot_join_def dot_valid_def)
  show "dot_valid x \<Longrightarrow> dot_join x x = x"
    by (auto simp: dot_join_def prod_eq_iff)
  show "os_wf a \<Longrightarrow> os_wf b \<Longrightarrow> os_abs (os_merge a b) = dot_join (os_abs a) (os_abs b)"
    by (rule os_abs_merge)
  show "os_wf a \<Longrightarrow> os_abs (os_reset_delta a) = os_abs a"
    by (simp add: os_abs_def os_dots_def os_seen_def)
  show "os_wf a \<Longrightarrow> os_wf b \<Longrightarrow> os_abs a = os_abs b \<Longrightarrow> os_reset_delta a = os_reset_delta b"
    by (rule os_abs_inject)
  show "os_reset_delta (os_reset_delta a) = os_reset_delta a" by simp
  show "os_reset_delta (os_merge a b) = os_merge a b"
    by (simp add: os_reset_delta_def os_merge_def Let_def)
qed

section \<open>Operations, dot by dot\<close>

lemma os_at_simps [simp]:
  "os_at (ORSet (fmupd x d m) vv del) e r = (if e = x then vv_version_at d r else os_at (ORSet m vv del) e r)"
  "os_at (ORSet (fmdrop x m) vv del) e r = (if e = x then 0 else os_at (ORSet m vv del) e r)"
  by (simp_all add: os_at_def)

lemma os_at_cong: "os_elements s = os_elements t \<Longrightarrow> os_at s e r = os_at t e r"
  by (simp add: os_at_def)

lemma os_at_fields [simp]: "os_at (ORSet (os_elements s) vv del) e r = os_at s e r"
  by (simp add: os_at_def)

lemma os_vv_add [simp]: "os_vv (os_add s r x) = vv_increment (os_vv s) r"
  by (simp add: os_add_def Let_def)

lemma os_at_add:
  "os_at (os_add s r x) e q =
     (if e = x then (if q = r then saturating_add (vv_version_at (os_vv s) r) 1 else 0) else os_at s e q)"
  by (simp add: os_add_def Let_def)

lemma os_contains_add: "os_contains (os_add s r x) e \<longleftrightarrow> e = x \<or> os_contains s e"
  by (simp add: os_add_def os_contains_def Let_def)

lemma os_wf_add: "os_wf s \<Longrightarrow> os_wf (os_add s r x)"
proof (rule os_wfI)
  assume wf: "os_wf s"
  show "vv_pos (os_vv (os_add s r x))" using wf by (simp add: os_wfD)
  show "d \<noteq> fmempty \<and> vv_pos d" if "fmlookup (os_elements (os_add s r x)) e = Some d" for e d
    using that wf word_gt_0 [of "saturating_add (vv_version_at (os_vv s) r) 1"]
    by (auto simp: os_add_def Let_def vv_one_def dest: os_wfD split: if_splits)
  show "os_at (os_add s r x) e q \<le> vv_version_at (os_vv (os_add s r x)) q" for e q
    using os_at_le [OF wf, of e q] saturating_add_ge [of "vv_version_at (os_vv s) q" 1]
    by (auto simp: os_at_add)
qed

lemma os_vv_remove [simp]: "os_vv (os_remove s r x) = os_vv s"
  by (simp add: os_remove_def Let_def split: option.splits)

lemma os_at_remove: "os_at (os_remove s r x) e q = (if e = x then 0 else os_at s e q)"
  by (auto simp: os_remove_def Let_def os_at_def split: option.splits)

lemma os_contains_remove: "os_contains (os_remove s r x) e \<longleftrightarrow> e \<noteq> x \<and> os_contains s e"
  by (auto simp: os_remove_def os_contains_def Let_def split: option.splits)

lemma os_wf_remove:
  assumes "os_wf s"
  shows "os_wf (os_remove s r x)"
proof (rule os_wfI)
  show "d \<noteq> fmempty \<and> vv_pos d" if "fmlookup (os_elements (os_remove s r x)) e = Some d" for e d
    using that os_wfD(2) [OF assms, of e d]
    by (auto simp: os_remove_def Let_def split: option.splits if_splits)
qed (use assms in \<open>auto simp: os_wfD os_at_remove os_at_le\<close>)

lemma os_new_simps [simp]: "os_elements os_new = fmempty" "os_vv os_new = fmempty" "os_delta os_new = None"
  by (simp_all add: os_new_def)

lemma os_wf_new [simp]: "os_wf os_new"
  by (simp add: os_wf_def os_new_def)

lemma os_contains_at: "os_wf s \<Longrightarrow> os_contains s e \<longleftrightarrow> (\<exists>r. os_at s e r \<noteq> 0)"
  by (auto simp: os_contains_iff mem_os_dots word_gt_0)

lemma os_contains_merge:
  assumes "os_wf a" "os_wf b"
  shows "os_contains (os_merge a b) e \<longleftrightarrow>
    (\<exists>r. os_at a e r \<noteq> 0 \<and> (os_at b e r = os_at a e r \<or> vv_version_at (os_vv b) r < os_at a e r)) \<or>
    (\<exists>r. vv_version_at (os_vv a) r < os_at b e r)"
proof -
  have "os_at (os_merge a b) e r \<noteq> 0 \<longleftrightarrow>
    (os_at a e r \<noteq> 0 \<and> (os_at b e r = os_at a e r \<or> vv_version_at (os_vv b) r < os_at a e r)) \<or>
    vv_version_at (os_vv a) r < os_at b e r" for r
    by (auto simp: os_at_merge [OF assms])
  then show ?thesis
    using os_wf_merge [OF assms] by (auto simp: os_contains_at)
qed

section \<open>Convergence, add wins, observed remove\<close>

text \<open>
  C9: Refinement: merging two well-formed OR-sets gives a well-formed OR-set whose dots and seen
  dots are exactly those of the abstract dotted-set join.
\<close>

theorem orset_merge_refines_dot_join:
  fixes a b :: "'a::linorder orset"
  assumes "os_wf a" and "os_wf b"
  shows "os_wf (os_merge a b) \<and> os_abs (os_merge a b) = dot_join (os_abs a) (os_abs b)"
  using os.keeps_wf(1) [OF assms] os.abs_merge [OF assms] by blast

abbreviation replica_a :: replica_id where
  "replica_a \<equiv> ReplicaId ''a''"

abbreviation replica_b :: replica_id where
  "replica_b \<equiv> ReplicaId ''b''"

lemma os_wf_runs [simp]:
  "os_wf (os_add os_new r x)" "os_wf (os_add (os_add os_new r x) q y)" "os_wf (os_remove (os_add os_new r x) q y)"
  by (simp_all add: os_wf_add os_wf_remove)

theorem orset_merge_refines_dot_join_witness:
  "os_abs (os_merge (os_add os_new replica_a (1 :: int)) (os_add os_new replica_b 1)) =
     dot_join (os_abs (os_add os_new replica_a 1)) (os_abs (os_add os_new replica_b 1))"
  using orset_merge_refines_dot_join [of "os_add os_new replica_a (1 :: int)" "os_add os_new replica_b 1"]
  by simp

text \<open>
  C14: Strong eventual consistency of OR-sets: replicas that start from the same state and receive
  the same set of states, in any order and any number of times, are equal.
\<close>

theorem orset_convergence:
  fixes s :: "'a::linorder orset"
  assumes "os_wf s" and "\<forall>x \<in> set xs. os_wf x" and "set xs = set ys" and "xs \<noteq> []"
  shows "deliver os_merge s xs = deliver os_merge s ys"
  using assms by (rule os.deliver_same_set)

theorem orset_convergence_witness:
  "deliver os_merge os_new [os_add os_new replica_a (1 :: int), os_remove (os_add os_new replica_a 1) replica_b 1] =
   deliver os_merge os_new [os_remove (os_add os_new replica_a 1) replica_b 1, os_add os_new replica_a 1,
     os_remove (os_add os_new replica_a 1) replica_b 1]"
  by (rule orset_convergence) auto

text \<open>
  C17: Add wins over a concurrent remove, and a remove takes away exactly what it observed. An
  element added at a replica whose new dot the other side has not seen is in the merge whatever the
  other side did; after a remove the merge contains the element exactly if the other side holds a
  dot of it that the remover had not seen; no other element is affected.
\<close>

theorem orset_add_wins_observed_remove:
  fixes a b :: "'a::linorder orset"
  assumes "os_wf a" and "os_wf b"
  shows "(vv_version_at (os_vv b) r \<le> vv_version_at (os_vv a) r \<longrightarrow> vv_version_at (os_vv a) r \<noteq> - 1 \<longrightarrow>
            os_contains (os_merge (os_add a r e) b) e) \<and>
         (os_contains (os_merge (os_remove a r e) b) e \<longleftrightarrow>
            (\<exists>q v. (e, q, v) \<in> os_dots b \<and> (q, v) \<notin> os_seen a)) \<and>
         (x \<noteq> e \<longrightarrow> os_contains (os_merge (os_remove a r e) b) x = os_contains (os_merge a b) x)"
proof (intro conjI impI)
  assume "vv_version_at (os_vv b) r \<le> vv_version_at (os_vv a) r" and "vv_version_at (os_vv a) r \<noteq> - 1"
  then have "vv_version_at (os_vv b) r < saturating_add (vv_version_at (os_vv a) r) 1"
    by (simp add: saturating_Suc_less)
  then have "os_at (os_add a r e) e r \<noteq> 0" "vv_version_at (os_vv b) r < os_at (os_add a r e) e r"
    by (auto simp: os_at_add)
  then show "os_contains (os_merge (os_add a r e) b) e"
    using assms by (auto simp: os_contains_merge os_wf_add)
next
  show "os_contains (os_merge (os_remove a r e) b) e \<longleftrightarrow>
      (\<exists>q v. (e, q, v) \<in> os_dots b \<and> (q, v) \<notin> os_seen a)"
    using assms by (simp add: os_contains_merge os_wf_remove os_at_remove unseen_dot_iff)
next
  show "x \<noteq> e \<Longrightarrow> os_contains (os_merge (os_remove a r e) b) x = os_contains (os_merge a b) x"
    using assms by (simp add: os_contains_merge os_wf_remove os_at_remove)
qed

theorem orset_add_wins_observed_remove_witness:
  "os_contains (os_merge (os_add (os_add os_new replica_a (1 :: int)) replica_a 1)
      (os_remove (os_add os_new replica_a 1) replica_b 1)) 1"
  by (rule orset_add_wins_observed_remove [THEN conjunct1, rule_format])
    (simp_all add: saturating_add_def)

section \<open>Deltas\<close>

text \<open>Applying an accumulated delta is applying its operations one after the other.\<close>

lemma os_merge_delta_merge: "os_merge_delta s (delta_merge d e) = os_merge_delta (os_merge_delta s d) e"
  by (cases "(d, e)" rule: delta_merge.cases) simp_all

lemma os_merge_delta_optional:
  "os_merge_delta s (merge_optional_delta d e) =
     os_merge_delta (case d of None \<Rightarrow> s | Some d \<Rightarrow> os_merge_delta s d) e"
  by (simp add: merge_optional_delta_def os_merge_delta_merge split: option.splits)

definition add_delta_of :: "version_vector \<Rightarrow> replica_id \<Rightarrow> 'a \<Rightarrow> 'a orset" where
  "add_delta_of vv r x =
     (let dot = vv_one r (vv_version_at (vv_increment vv r) r) in ORSet (fmupd x dot fmempty) dot None)"

definition remove_delta_of :: "version_vector \<Rightarrow> replica_id \<Rightarrow> 'a \<Rightarrow> 'a orset_remove" where
  "remove_delta_of vv r x = ORSetRemoveDelta x vv (vv_one r (vv_version_at vv r))"

lemma os_delta_add:
  "os_delta (os_add s r x) = Some (merge_optional_delta (os_delta s) (AddDelta (add_delta_of (os_vv s) r x)))"
  by (simp add: os_add_def add_delta_of_def Let_def)

lemma os_delta_remove:
  "os_delta (os_remove s r x) =
     (if os_contains s x
      then Some (merge_optional_delta (os_delta s) (RemoveDelta (remove_delta_of (os_vv s) r x)))
      else os_delta s)"
  by (auto simp: os_remove_def remove_delta_of_def os_contains_def Let_def split: option.splits)

lemma os_vv_merge_add_delta [simp]: "os_vv (os_merge_add_delta s a) = vv_merge (os_vv s) (os_vv a)"
  by (simp add: os_merge_add_delta_def Let_def)

lemma os_vv_merge_remove_delta [simp]: "os_vv (os_merge_remove_delta s m) = vv_merge (os_vv s) (rm_dot m)"
  by (simp add: os_merge_remove_delta_def Let_def)

lemma add_delta_entries:
  "bt_entries (os_elements (add_delta_of vv r x)) = [(x, vv_one r (saturating_add (vv_version_at vv r) 1))]"
  by (simp add: add_delta_of_def bt_entries_def bt_keys_fmupd Let_def)

lemma os_vv_add_delta_of [simp]:
  "os_vv (add_delta_of vv r x) = vv_one r (saturating_add (vv_version_at vv r) 1)"
  by (simp add: add_delta_of_def Let_def)

lemma os_at_merge_add_delta:
  fixes t :: "'a::linorder orset"
  assumes "os_wf t" and "vv_version_at (os_vv t) r < saturating_add (vv_version_at vv r) 1"
  shows "os_at (os_merge_add_delta t (add_delta_of vv r x)) e q =
    (if e = x \<and> q = r then saturating_add (vv_version_at vv r) 1 else os_at t e q)"
proof -
  let ?n = "saturating_add (vv_version_at vv r) 1" and ?d = "add_delta_of vv r x"
  let ?m = "case fmlookup (os_elements t) x of
      Some d \<Rightarrow> merge_element_dots d (vv_one r ?n) (os_vv t) (os_vv ?d) | None \<Rightarrow> vv_one r ?n"
  have at: "vv_version_at ?m q' = (if q' = r then ?n else os_at t x q')" for q'
    using assms os_wfD(2) [OF assms(1), of x]
    by (auto simp: os_at_def version_at_merge_element_dots split: option.splits)
  then have "?m \<noteq> fmempty"
    using saturating_Suc_pos [of "vv_version_at vv r"] by (metis vv_version_at_simps(1) less_irrefl)
  then have "os_elements (os_merge_add_delta t ?d) = fmupd x ?m (os_elements t)"
    by (simp add: os_merge_add_delta_def add_delta_entries bt_is_empty_iff Let_def)
  then show ?thesis
    using at [of q]
    by (cases "e = x") (simp_all add: os_at_def [of "os_merge_add_delta t ?d"] os_at_def [of t e])
qed

lemma os_wf_merge_add_delta:
  fixes t :: "'a::linorder orset"
  assumes "os_wf t" and "vv_version_at (os_vv t) r < saturating_add (vv_version_at vv r) 1"
  shows "os_wf (os_merge_add_delta t (add_delta_of vv r x))"
proof (rule os_wfI)
  show "vv_pos (os_vv (os_merge_add_delta t (add_delta_of vv r x)))"
    using assms by (simp add: os_wfD)
  show "os_at (os_merge_add_delta t (add_delta_of vv r x)) e q
      \<le> vv_version_at (os_vv (os_merge_add_delta t (add_delta_of vv r x))) q" for e q
    using assms by (auto simp: os_at_merge_add_delta os_at_le le_max_iff_disj)
  show "d \<noteq> fmempty \<and> vv_pos d"
    if "fmlookup (os_elements (os_merge_add_delta t (add_delta_of vv r x))) e = Some d" for e d
    using that os_wfD(2) [OF assms(1)]
    by (auto simp: os_merge_add_delta_def add_delta_entries bt_is_empty_iff Let_def merge_element_dots_pos
        split: if_splits option.splits)
qed

lemma os_dominated_iff:
  "os_wf t \<Longrightarrow> fmlookup (os_elements t) x = Some d \<Longrightarrow>
     vv_dominates vv d \<longleftrightarrow> (\<forall>q. os_at t x q \<le> vv_version_at vv q)"
  by (auto simp: vv_dominates_iff os_at_def vv_version_at_def [of d] split: option.splits)

lemma os_at_merge_remove_delta:
  assumes "os_wf t"
  shows "os_at (os_merge_remove_delta t m) e q =
    (if e = rm_element m \<and> (\<forall>q. os_at t e q \<le> vv_version_at (rm_seen m) q) then 0 else os_at t e q)"
  using os_dominated_iff [OF assms, of "rm_element m"]
  by (auto simp: os_merge_remove_delta_def Let_def split: option.splits) (simp_all add: os_at_def)

lemma os_wf_merge_remove_delta:
  assumes "os_wf t" and "vv_pos (rm_dot m)"
  shows "os_wf (os_merge_remove_delta t m)"
proof (rule os_wfI)
  show "d \<noteq> fmempty \<and> vv_pos d" if "fmlookup (os_elements (os_merge_remove_delta t m)) e = Some d" for e d
    using that os_wfD(2) [OF assms(1), of e d]
    by (auto simp: os_merge_remove_delta_def Let_def split: option.splits if_splits)
qed (use assms in \<open>auto simp: os_wfD os_at_merge_remove_delta os_at_le le_max_iff_disj\<close>)

text \<open>
  A run of operations at replica \<open>r\<close> and the delta it accumulates. The simulation relates the
  replica \<open>t\<close> that applied the delta to the merge of its start \<open>t\<^sub>0\<close> with the full state: same
  seen dots, same elements; \<open>t\<close> may keep a dot that the origin has superseded, never an unseen one.
\<close>

datatype 'a os_op = OAdd 'a | ORemove 'a

primrec os_apply :: "replica_id \<Rightarrow> 'a os_op \<Rightarrow> 'a orset \<Rightarrow> 'a orset" where
  "os_apply r (OAdd x) s = os_add s r x"
| "os_apply r (ORemove x) s = os_remove s r x"

definition os_run :: "replica_id \<Rightarrow> 'a os_op list \<Rightarrow> 'a orset \<Rightarrow> 'a orset" where
  "os_run r ops s = fold (os_apply r) ops s"

definition os_apply_opt :: "'a::linorder orset \<Rightarrow> 'a orset_delta option \<Rightarrow> 'a orset" where
  "os_apply_opt t d = (case d of None \<Rightarrow> t | Some d \<Rightarrow> os_merge_delta t d)"

definition delta_sim :: "replica_id \<Rightarrow> 'a::linorder orset \<Rightarrow> 'a orset \<Rightarrow> 'a orset \<Rightarrow> bool" where
  "delta_sim r t\<^sub>0 s t \<longleftrightarrow> os_wf s \<and> os_wf t \<and>
     (\<forall>q. vv_version_at (os_vv t) q = max (vv_version_at (os_vv t\<^sub>0) q) (vv_version_at (os_vv s) q)) \<and>
     (\<forall>q. q \<noteq> r \<longrightarrow> vv_version_at (os_vv s) q \<le> vv_version_at (os_vv t\<^sub>0) q) \<and>
     vv_version_at (os_vv t\<^sub>0) r \<le> vv_version_at (os_vv s) r \<and>
     (\<forall>e q. os_at (os_merge t\<^sub>0 s) e q \<noteq> 0 \<longrightarrow> os_at t e q = os_at (os_merge t\<^sub>0 s) e q) \<and>
     (\<forall>e q. os_at t e q \<noteq> os_at (os_merge t\<^sub>0 s) e q \<longrightarrow> os_at t e q \<le> vv_version_at (os_vv s) q) \<and>
     (\<forall>e. os_contains t e = os_contains (os_merge t\<^sub>0 s) e)"

lemma delta_sim_unseen:
  assumes "delta_sim r t\<^sub>0 s t" "os_wf t\<^sub>0"
    and "vv_version_at (os_vv s) q < os_at t e q \<or> vv_version_at (os_vv s) q < os_at t\<^sub>0 e q"
  shows "os_at t e q = os_at t\<^sub>0 e q"
proof -
  let ?u = "os_at (os_merge t\<^sub>0 s) e q"
  have wf: "os_wf s" and eq: "?u \<noteq> 0 \<Longrightarrow> os_at t e q = ?u"
    and ex: "os_at t e q \<noteq> ?u \<Longrightarrow> os_at t e q \<le> vv_version_at (os_vv s) q"
    using assms(1) by (auto simp: delta_sim_def)
  have le: "os_at s e q \<le> vv_version_at (os_vv s) q" "os_at t\<^sub>0 e q \<le> vv_version_at (os_vv t\<^sub>0) q"
    using wf assms(2) by (auto intro: os_at_le)
  from assms(3) show ?thesis
  proof
    assume *: "vv_version_at (os_vv s) q < os_at t e q"
    then have "os_at t e q = ?u" using ex by force
    then show ?thesis using * le by (auto simp: os_at_merge wf assms(2) split: if_splits)
  next
    assume *: "vv_version_at (os_vv s) q < os_at t\<^sub>0 e q"
    then have "?u = os_at t\<^sub>0 e q" using le by (auto simp: os_at_merge wf assms(2))
    then show ?thesis using eq * by force
  qed
qed

lemma delta_sim_kept:
  "delta_sim r t\<^sub>0 s t \<Longrightarrow> vv_version_at (os_vv s) q < os_at t e q \<Longrightarrow> os_at (os_merge t\<^sub>0 s) e q = os_at t e q"
  unfolding delta_sim_def by (metis leD)

lemma delta_sim_add:
  fixes t :: "'a::linorder orset"
  assumes sim: "delta_sim r t\<^sub>0 s t" and t0: "os_wf t\<^sub>0" and no: "vv_version_at (os_vv s) r \<noteq> - 1"
  shows "delta_sim r t\<^sub>0 (os_add s r x) (os_merge_add_delta t (add_delta_of (os_vv s) r x))"
proof -
  let ?s = "os_add s r x" and ?t = "os_merge_add_delta t (add_delta_of (os_vv s) r x)"
  let ?n = "saturating_add (vv_version_at (os_vv s) r) 1"
  note S = sim [unfolded delta_sim_def]
  have wf: "os_wf s" "os_wf t" using S by auto
  have vr: "vv_version_at (os_vv s) r < ?n" using no by (simp add: saturating_Suc_less)
  have tr: "vv_version_at (os_vv t) r < ?n" "vv_version_at (os_vv t\<^sub>0) r < ?n"
    using S vr by (auto simp: max_def intro: order.strict_trans1)
  have wf': "os_wf ?s" "os_wf ?t" using wf tr by (auto intro: os_wf_add os_wf_merge_add_delta)
  note at = os_at_merge_add_delta [OF wf(2) tr(1)]
  have le0: "os_at t\<^sub>0 e q \<le> vv_version_at (os_vv t\<^sub>0) q" for e q using t0 by (rule os_at_le)
  have r0: "\<not> vv_version_at (os_vv s) r < os_at t\<^sub>0 e r" "\<not> ?n < os_at t\<^sub>0 e r" for e
    using le0 [of e r] S tr by (auto simp: not_less)
  have other: "os_at (os_merge t\<^sub>0 ?s) e q = os_at (os_merge t\<^sub>0 s) e q" if "e \<noteq> x" for e q
    using that r0 [of e] by (auto simp: os_at_merge t0 wf wf' os_at_add)
  have fresh: "os_at (os_merge t\<^sub>0 ?s) x r = ?n"
    using tr by (simp add: os_at_merge t0 wf' os_at_add)
  have old: "os_at (os_merge t\<^sub>0 ?s) x q =
      (if vv_version_at (os_vv s) q < os_at t\<^sub>0 x q then os_at t\<^sub>0 x q else 0)" if "q \<noteq> r" for q
    using that by (auto simp: os_at_merge t0 wf' os_at_add)
  have eq: "os_at ?t e q = os_at (os_merge t\<^sub>0 ?s) e q" if "os_at (os_merge t\<^sub>0 ?s) e q \<noteq> 0" for e q
    using that S delta_sim_unseen [OF sim t0, of q e]
    by (cases "e = x"; cases "q = r") (auto simp: at other fresh old split: if_splits)
  have seen: "os_at ?t e q \<le> vv_version_at (os_vv ?s) q" if "os_at ?t e q \<noteq> os_at (os_merge t\<^sub>0 ?s) e q" for e q
  proof (rule ccontr)
    assume "\<not> ?thesis"
    then have gt: "vv_version_at (os_vv s) q < os_at ?t e q"
      using vr by (auto simp: not_le intro: order.strict_trans split: if_splits)
    show False
      using that gt delta_sim_kept [OF sim, of q e] delta_sim_unseen [OF sim t0, of q e]
      by (cases "e = x"; cases "q = r") (auto simp: at other fresh old not_le)
  qed
  have cont: "os_contains ?t e = os_contains (os_merge t\<^sub>0 ?s) e" for e
  proof (cases "e = x")
    case True
    then have "os_at ?t e r \<noteq> 0" "os_at (os_merge t\<^sub>0 ?s) e r \<noteq> 0" using vr by (auto simp: at fresh)
    then show ?thesis using wf' t0 by (auto simp: os_contains_at os_wf_merge)
  next
    case False
    then show ?thesis using S wf' wf t0 by (simp add: os_contains_at os_wf_merge at other)
  qed
  show ?thesis
    unfolding delta_sim_def using wf' eq seen cont S vr tr
    by (auto simp: max_def intro: order.trans)
qed

lemma delta_sim_remove:
  fixes t :: "'a::linorder orset"
  assumes sim: "delta_sim r t\<^sub>0 s t" and t0: "os_wf t\<^sub>0"
  shows "delta_sim r t\<^sub>0 (os_remove s r x) (os_merge_remove_delta t (remove_delta_of (os_vv s) r x))"
proof -
  let ?s = "os_remove s r x" and ?t = "os_merge_remove_delta t (remove_delta_of (os_vv s) r x)"
  note S = sim [unfolded delta_sim_def]
  have wf: "os_wf s" "os_wf t" using S by auto
  have wf': "os_wf ?s" "os_wf ?t"
    using wf by (auto intro: os_wf_remove os_wf_merge_remove_delta simp: remove_delta_of_def)
  have at: "os_at ?t e q =
      (if e = x \<and> (\<forall>q. os_at t x q \<le> vv_version_at (os_vv s) q) then 0 else os_at t e q)" for e q
    using wf by (cases "e = x") (simp_all add: os_at_merge_remove_delta remove_delta_of_def)
  have other: "os_at (os_merge t\<^sub>0 ?s) e q = os_at (os_merge t\<^sub>0 s) e q" if "e \<noteq> x" for e q
    using that by (simp add: os_at_merge t0 wf wf' os_at_remove)
  have gone: "os_at (os_merge t\<^sub>0 ?s) x q =
      (if vv_version_at (os_vv s) q < os_at t\<^sub>0 x q then os_at t\<^sub>0 x q else 0)" for q
    by (auto simp: os_at_merge t0 wf' os_at_remove)
  note un = delta_sim_unseen [OF sim t0]
  have eq: "os_at ?t e q = os_at (os_merge t\<^sub>0 ?s) e q" if "os_at (os_merge t\<^sub>0 ?s) e q \<noteq> 0" for e q
  proof (cases "e = x")
    case True
    then have *: "vv_version_at (os_vv s) q < os_at t\<^sub>0 x q" using that by (auto simp: gone split: if_splits)
    then have "\<not> os_at t x q \<le> vv_version_at (os_vv s) q" using un [of q x] by (simp add: not_le)
    then have "\<not> (\<forall>q. os_at t x q \<le> vv_version_at (os_vv s) q)" by blast
    then show ?thesis using * True un [of q x] by (auto simp: at gone)
  next
    case False
    then show ?thesis using that S by (simp add: at other)
  qed
  have seen: "os_at ?t e q \<le> vv_version_at (os_vv ?s) q" if "os_at ?t e q \<noteq> os_at (os_merge t\<^sub>0 ?s) e q" for e q
  proof (rule ccontr)
    assume "\<not> ?thesis"
    then have "vv_version_at (os_vv s) q < os_at ?t e q" by (simp add: not_le)
    then show False
      using that delta_sim_kept [OF sim, of q e] un [of q e]
      by (cases "e = x") (auto simp: at other gone not_le split: if_splits)
  qed
  have cont: "os_contains ?t e = os_contains (os_merge t\<^sub>0 ?s) e" for e
  proof (cases "e = x")
    case True
    have "os_contains ?t x \<longleftrightarrow> (\<exists>q. vv_version_at (os_vv s) q < os_at t x q)"
      using wf' by (auto simp: os_contains_at at not_le) (metis word_not_simps(1))
    also have "\<dots> \<longleftrightarrow> (\<exists>q. vv_version_at (os_vv s) q < os_at t\<^sub>0 x q)"
      using un [of _ x] by metis
    also have "\<dots> \<longleftrightarrow> os_contains (os_merge t\<^sub>0 ?s) x"
      using wf' t0 by (auto simp: os_contains_at os_wf_merge gone) (metis word_not_simps(1))
    finally show ?thesis using True by simp
  next
    case False
    then show ?thesis using S wf' wf t0 by (simp add: os_contains_at os_wf_merge at other)
  qed
  show ?thesis
    unfolding delta_sim_def using wf' eq seen cont S by (auto simp: remove_delta_of_def max_def)
qed

lemma os_apply_opt_simps [simp]:
  "os_apply_opt t (Some (merge_optional_delta d e)) = os_merge_delta (os_apply_opt t d) e"
  "os_apply_opt t None = t"
  by (simp_all add: os_apply_opt_def os_merge_delta_optional)

lemma delta_sim_apply:
  assumes "delta_sim r t\<^sub>0 s (os_apply_opt t\<^sub>0 (os_delta s))" "os_wf t\<^sub>0" "vv_version_at (os_vv s) r \<noteq> - 1"
  shows "delta_sim r t\<^sub>0 (os_apply r op s) (os_apply_opt t\<^sub>0 (os_delta (os_apply r op s)))"
proof (cases op)
  case (OAdd x)
  then show ?thesis using delta_sim_add [OF assms] by (simp add: os_delta_add)
next
  case (ORemove x)
  show ?thesis
  proof (cases "os_contains s x")
    case True
    then show ?thesis using ORemove delta_sim_remove [OF assms(1,2)] by (simp add: os_delta_remove)
  next
    case False
    then show ?thesis using ORemove assms(1) by (simp add: os_remove_def os_contains_def)
  qed
qed

lemma delta_sim_run:
  assumes "os_wf t\<^sub>0" "delta_sim r t\<^sub>0 s (os_apply_opt t\<^sub>0 (os_delta s))"
    and "unat (vv_version_at (os_vv s) r) + length ops < 2 ^ 64"
  shows "delta_sim r t\<^sub>0 (os_run r ops s) (os_apply_opt t\<^sub>0 (os_delta (os_run r ops s)))"
  using assms(2,3)
proof (induction ops arbitrary: s)
  case Nil
  then show ?case by (simp add: os_run_def)
next
  case (Cons op ops)
  have "unat (- 1 :: u64) = 2 ^ 64 - 1" by (simp add: unsigned_minus_1_eq_mask mask_eq_exp_minus_1)
  then have no: "vv_version_at (os_vv s) r \<noteq> - 1" using Cons.prems(2) by auto
  have le: "unat (vv_version_at (os_vv (os_apply r op s)) r) \<le> Suc (unat (vv_version_at (os_vv s) r))"
    by (cases op) (simp_all add: unat_saturating_add)
  have "delta_sim r t\<^sub>0 (os_run r ops (os_apply r op s)) (os_apply_opt t\<^sub>0 (os_delta (os_run r ops (os_apply r op s))))"
    using Cons.prems le by (intro Cons.IH delta_sim_apply assms no) auto
  then show ?case by (simp add: os_run_def)
qed

lemma os_merge_new:
  assumes "os_wf t"
  shows "os_merge os_new t = os_reset_delta t"
proof -
  have "os_abs (os_merge os_new t) = os_abs t"
    using assms by (simp add: os_abs_merge) (auto simp: os_abs_def dot_join_def os_dots_def os_seen_def)
  then show ?thesis
    using os.abs_inject [OF os_wf_merge [OF os_wf_new assms] assms] by (simp add: os.reset_idem)
qed

lemma delta_sim_start:
  assumes "os_wf s" "os_wf t" "os.below s t" "vv_version_at (os_vv t) r = vv_version_at (os_vv s) r"
  shows "delta_sim r t s t"
proof -
  have m: "os_merge t s = os_reset_delta t"
    using assms(3) os.merge_commute [OF assms(1,2)] by (simp add: os.below_def)
  have "vv_merge (os_vv t) (os_vv s) = os_vv t"
    using m by (metis os_reset_simps(2) os_vv_merge)
  then have vv: "max (vv_version_at (os_vv t) q) (vv_version_at (os_vv s) q) = vv_version_at (os_vv t) q" for q
    by (metis vv_version_at_merge)
  have at: "os_at (os_reset_delta t) e q = os_at t e q" for e q
    by (rule os_at_cong) simp
  have "os_contains (os_reset_delta t) e = os_contains t e" for e
    by (simp add: os_contains_def)
  then show ?thesis
    unfolding delta_sim_def m using assms vv by (simp add: at) (metis max.cobounded2)
qed

text \<open>
  C1: Delta replication of an OR-set agrees with full-state replication. Replica \<open>r\<close> performs any
  run of adds and removes from a delta-free state \<open>s\<close>; a replica \<open>t\<close> that is at or above \<open>s\<close> and
  has seen none of \<open>r\<close>'s later operations gets, from the accumulated delta, the same elements and the
  same version vector as from merging the full state. The version counter of \<open>r\<close> must not reach 2^64 in the run.
\<close>

theorem orset_delta_run_equivalent:
  fixes s t :: "'a::linorder orset"
  assumes "os_wf s" and "os_wf t" and "os_delta s = None"
    and "os_merge s t = os_reset_delta t"
    and "vv_version_at (os_vv t) r = vv_version_at (os_vv s) r"
    and "unat (vv_version_at (os_vv s) r) + length ops < 2 ^ 64"
    and "os_delta (os_run r ops s) = Some d"
  shows "os_element_list (os_merge_delta t d) = os_element_list (os_merge t (os_run r ops s)) \<and>
         os_vv (os_merge_delta t d) = os_vv (os_merge t (os_run r ops s))"
proof -
  have "delta_sim r t s t"
    using assms(1,2,4,5) by (intro delta_sim_start) (simp_all add: os.below_def)
  then have sim: "delta_sim r t (os_run r ops s) (os_merge_delta t d)"
    using delta_sim_run [of t r s ops] assms by (simp add: os_apply_opt_def)
  then have "fmdom' (os_elements (os_merge_delta t d)) = fmdom' (os_elements (os_merge t (os_run r ops s)))"
    by (auto simp: delta_sim_def os_contains_def fmlookup_dom'_iff)
  then have "fmdom (os_elements (os_merge_delta t d)) = fmdom (os_elements (os_merge t (os_run r ops s)))"
    by (simp add: fmdom'_alt_def fset_inject)
  then have "os_element_list (os_merge_delta t d) = os_element_list (os_merge t (os_run r ops s))"
    by (simp add: os_element_list_def bt_keys_def)
  moreover have "os_vv (os_merge_delta t d) = os_vv (os_merge t (os_run r ops s))"
    using sim assms(2) by (intro vv_ext) (auto simp: delta_sim_def os_wfD)
  ultimately show ?thesis ..
qed

theorem orset_delta_run_equivalent_witness:
  "let ops = [OAdd (1 :: int), ORemove 1, OAdd 2]; t = os_add os_new replica_b 1;
       d = the (os_delta (os_run replica_a ops os_new))
   in os_element_list (os_merge_delta t d) = os_element_list (os_merge t (os_run replica_a ops os_new))"
proof -
  have "os_delta (os_run replica_a [OAdd (1 :: int), ORemove 1, OAdd 2] os_new) =
      Some (the (os_delta (os_run replica_a [OAdd 1, ORemove 1, OAdd 2] os_new)))"
    by (simp add: os_run_def os_delta_add)
  moreover have "os_merge os_new (os_add os_new replica_b (1 :: int)) = os_reset_delta (os_add os_new replica_b 1)"
    by (simp add: os_merge_new)
  ultimately show ?thesis
    using orset_delta_run_equivalent [of os_new "os_add os_new replica_b (1 :: int)" replica_a
        "[OAdd 1, ORemove 1, OAdd 2]"]
    by (simp add: Let_def)
qed

text \<open>
  C26: A late add delta brings a removed element back. If a replica has already seen the dot of an add
  and no longer has the element, merging the full state of the adder leaves it out, but applying
  the add's delta inserts it again: \<open>merge_add_delta\<close> takes the dots of an absent element without
  comparing them to the version vector.
\<close>

theorem orset_stale_add_delta_resurrects:
  fixes s t :: "'a::linorder orset"
  assumes "os_wf s" and "os_wf t" and "os_delta s = None" and "\<not> os_contains t e"
    and "vv_version_at (os_vv (os_add s r e)) r \<le> vv_version_at (os_vv t) r"
    and "os_delta (os_add s r e) = Some d"
  shows "os_contains (os_merge_delta t d) e \<and> \<not> os_contains (os_merge t (os_add s r e)) e"
proof
  let ?n = "saturating_add (vv_version_at (os_vv s) r) 1"
  have d: "d = AddDelta (add_delta_of (os_vv s) r e)"
    using assms(3,6) by (simp add: os_delta_add merge_optional_delta_def)
  have "vv_one r ?n \<noteq> fmempty"
    by (simp add: vv_one_def fmupd_ne)
  then show "os_contains (os_merge_delta t d) e"
    using assms(4)
    by (auto simp: d os_contains_def os_merge_add_delta_def add_delta_entries bt_is_empty_iff Let_def)
  have "os_at t e q = 0" for q
    using assms(4) by (simp add: os_contains_def os_at_def)
  then show "\<not> os_contains (os_merge t (os_add s r e)) e"
    using assms(1,2,5) by (auto simp: os_contains_merge os_wf_add os_at_add not_less)
qed

theorem orset_stale_add_delta_resurrects_witness:
  "let s = os_add os_new replica_a (1 :: int); t = os_remove (os_reset_delta s) replica_b 1;
       d = the (os_delta s)
   in \<not> os_contains t 1 \<and> os_contains (os_merge_delta t d) 1 \<and> \<not> os_contains (os_merge t s) 1"
proof -
  let ?s = "os_add os_new replica_a (1 :: int)"
  let ?t = "os_remove (os_reset_delta ?s) replica_b 1"
  have t: "os_wf ?t" by (simp add: os_wf_remove)
  have "os_contains (os_merge_delta ?t (the (os_delta ?s))) 1 \<and> \<not> os_contains (os_merge ?t ?s) 1"
    by (rule orset_stale_add_delta_resurrects [of os_new ?t])
      (use t in \<open>simp_all add: os_contains_remove os_delta_add\<close>)
  then show ?thesis by (simp add: Let_def os_contains_remove)
qed

section \<open>Pruning\<close>

lemma vv_prune_lookup:
  "removed \<noteq> into \<Longrightarrow> fmlookup (vv_prune vv removed into) removed = None"
  by (simp add: vv_prune_def vv_increment_def vv_pruning_cleanup_def)

lemma vv_version_at_prune:
  "removed \<noteq> into \<Longrightarrow> vv_version_at (vv_prune vv removed into) r =
     (if r = removed then 0 else if r = into then saturating_add (vv_version_at vv into) 1 else vv_version_at vv r)"
  by (simp add: vv_prune_def vv_pruning_cleanup_def)

lemma vv_not_need_pruning: "\<not> vv_need_pruning_from vv r \<Longrightarrow> vv_version_at vv r = 0"
  by (simp add: vv_need_pruning_from_def vv_version_at_def)

lemma vv_pos_prune [simp]: "vv_pos vv \<Longrightarrow> vv_pos (vv_prune vv removed into)"
  by (simp add: vv_prune_def vv_pruning_cleanup_def)

definition os_prune_base :: "'a orset \<Rightarrow> replica_id \<Rightarrow> replica_id \<Rightarrow> 'a orset" where
  "os_prune_base s removed into = ORSet
     (fmmap (\<lambda>dots. if vv_need_pruning_from dots removed then vv_prune dots removed into else dots) (os_elements s))
     (vv_prune (os_vv s) removed into) None"

lemma os_prune_fold:
  "\<exists>touched. set touched \<subseteq> {e. os_contains s e} \<and>
     os_prune s removed into = Ok (fold (\<lambda>e cur. os_add cur into e) touched (os_prune_base s removed into))"
  by (rule exI [of _ "map fst (filter (\<lambda>(_, dots). vv_need_pruning_from dots removed) (bt_entries (os_elements s)))"])
    (auto simp: os_prune_def os_prune_base_def Let_def os_contains_def)

lemma os_wf_prune_base:
  assumes "os_wf s" "removed \<noteq> into"
  shows "os_wf (os_prune_base s removed into)"
proof (rule os_wfI)
  show "vv_pos (os_vv (os_prune_base s removed into))" using assms by (simp add: os_prune_base_def os_wfD)
  show "d \<noteq> fmempty \<and> vv_pos d" if d: "fmlookup (os_elements (os_prune_base s removed into)) e = Some d" for e d
  proof -
    obtain d0 where d0: "fmlookup (os_elements s) e = Some d0"
      "d = (if vv_need_pruning_from d0 removed then vv_prune d0 removed into else d0)"
      using d by (auto simp: os_prune_base_def)
    moreover have "vv_prune d0 removed into \<noteq> fmempty"
      by (simp add: vv_prune_def vv_increment_def fmupd_ne)
    ultimately show ?thesis using os_wfD(2) [OF assms(1) d0(1)] by simp
  qed
  show "os_at (os_prune_base s removed into) e r \<le> vv_version_at (os_vv (os_prune_base s removed into)) r" for e r
    using os_at_le [OF assms(1), of e r] assms(2) saturating_add_ge [of "vv_version_at (os_vv s) into" 1]
      saturating_add_mono [of "os_at s e into" "vv_version_at (os_vv s) into" 1]
    by (auto simp: os_prune_base_def os_at_def vv_version_at_prune vv_not_need_pruning
        split: option.splits if_splits intro: order.trans)
qed

lemma fold_os_add:
  "os_wf s \<Longrightarrow> os_wf (fold (\<lambda>e cur. os_add cur into e) xs s)"
  "os_contains (fold (\<lambda>e cur. os_add cur into e) xs s) x \<longleftrightarrow> x \<in> set xs \<or> os_contains s x"
  "removed \<noteq> into \<Longrightarrow> fmlookup (os_vv (fold (\<lambda>e cur. os_add cur into e) xs s)) removed = fmlookup (os_vv s) removed"
  by (induction xs arbitrary: s) (auto simp: os_wf_add os_contains_add vv_increment_def)

text \<open>
  Pruning a removed replica succeeds, keeps the OR-set well-formed, keeps its elements, and
  leaves no trace of the replica in the version vector.
\<close>

lemma orset_prune_correct:
  assumes "os_wf s" "removed \<noteq> into"
  shows "\<exists>s'. os_prune s removed into = Ok s' \<and> os_wf s' \<and>
    (\<forall>x. os_contains s' x = os_contains s x) \<and> \<not> os_need_pruning_from s' removed"
proof -
  obtain touched where t: "set touched \<subseteq> {e. os_contains s e}"
    "os_prune s removed into = Ok (fold (\<lambda>e cur. os_add cur into e) touched (os_prune_base s removed into))"
    using os_prune_fold by blast
  have "os_contains (os_prune_base s removed into) x = os_contains s x" for x
    by (auto simp: os_prune_base_def os_contains_def)
  then show ?thesis
    using t os_wf_prune_base [OF assms] assms
    by (auto simp: fold_os_add os_need_pruning_from_def vv_need_pruning_from_def os_prune_base_def vv_prune_lookup)
qed

lemma os_elements_cleanup:
  "fmlookup (os_elements (os_pruning_cleanup s removed)) e =
     (case fmlookup (os_elements s) e of None \<Rightarrow> None
      | Some d \<Rightarrow> if fmdrop removed d = fmempty then None else Some (fmdrop removed d))"
proof -
  have drop: "(if vv_need_pruning_from d removed then vv_pruning_cleanup d removed else d) = fmdrop removed d" for d
    by (auto simp: vv_need_pruning_from_def vv_pruning_cleanup_def fmdrop_idle' fmdom'_notI)
  then have "os_elements (os_pruning_cleanup s removed) =
      bt_collect (filter (\<lambda>(_, d). d \<noteq> fmempty) (bt_entries (fmmap (fmdrop removed) (os_elements s))))"
    by (simp add: os_pruning_cleanup_def bt_is_empty_iff bt_entries_fmmap)
  then show ?thesis
    by (simp add: fmlookup_collect_filter del: fmlookup_bt_collect split: option.splits)
qed

lemma os_wf_pruning_cleanup:
  assumes "os_wf s"
  shows "os_wf (os_pruning_cleanup s removed) \<and> \<not> os_need_pruning_from (os_pruning_cleanup s removed) removed"
proof
  have vv: "os_vv (os_pruning_cleanup s removed) = fmdrop removed (os_vv s)"
    by (simp add: os_pruning_cleanup_def vv_pruning_cleanup_def)
  have at: "os_at (os_pruning_cleanup s removed) e r = (if r = removed then 0 else os_at s e r)" for e r
    by (auto simp: os_at_def os_elements_cleanup split: option.splits)
      (metis vv_version_at_simps(1,3))
  show "os_wf (os_pruning_cleanup s removed)"
  proof (rule os_wfI)
    show "d \<noteq> fmempty \<and> vv_pos d" if "fmlookup (os_elements (os_pruning_cleanup s removed)) e = Some d" for e d
      using that os_wfD(2) [OF assms] by (auto simp: os_elements_cleanup split: option.splits if_splits)
  qed (use assms in \<open>auto simp: vv at os_wfD os_at_le\<close>)
  show "\<not> os_need_pruning_from (os_pruning_cleanup s removed) removed"
    by (simp add: os_need_pruning_from_def vv_need_pruning_from_def vv)
qed

end
