(* ===== verification/Counters.thy ===== *)
theory Counters
  imports Replicated_Data
begin

text \<open>
  \<open>GCounter\<close> and \<open>PNCounter\<close> of \<open>kairo-distributed-data/src/gcounter.rs\<close> and \<open>pncounter.rs\<close>.
  Components are 128-bit words with the checked additions of the source; the pending delta is part
  of the value, as in the source. The lemmas show that both are join semilattices (the
  interpretations \<open>gc\<close> and \<open>pn\<close> of the contract), what the public value is, that increments and
  pruning change it by exactly the right amount, and that shipping the delta is as good as
  shipping the state.
\<close>

section \<open>\<open>GCounter\<close>\<close>

datatype gcounter = GCounter (gc_state: "(replica_id, u128) fmap") (gc_delta: "gcounter option")

definition gc_new :: gcounter where
  "gc_new = GCounter fmempty None"

definition gc_from_state :: "(replica_id \<times> u128) list \<Rightarrow> gcounter" where
  "gc_from_state st = GCounter (bt_collect (filter (\<lambda>(_, value). value > 0) st)) None"

definition gc_replica_value :: "gcounter \<Rightarrow> replica_id \<Rightarrow> u128" where
  "gc_replica_value c replica = unwrap_or (fmlookup (gc_state c) replica) 0"

definition gc_value :: "gcounter \<Rightarrow> (crdt_error, u128) result" where
  "gc_value c = ok_or (try_fold checked_add 0 (bt_values (gc_state c))) CounterOverflow"

definition gc_increment :: "gcounter \<Rightarrow> replica_id \<Rightarrow> u128 \<Rightarrow> (crdt_error, gcounter) result" where
  "gc_increment c replica amount =
     (if amount = 0 then Ok c
      else bind_result (ok_or (checked_add (gc_replica_value c replica) amount) CounterOverflow)
        (\<lambda>next_value.
           let state = fmupd replica next_value (gc_state c);
               delta_state = (case gc_delta c of None \<Rightarrow> fmempty | Some d \<Rightarrow> gc_state d);
               delta_state = fmupd replica next_value delta_state
           in Ok (GCounter state (Some (GCounter delta_state None)))))"

definition gc_need_pruning_from :: "gcounter \<Rightarrow> replica_id \<Rightarrow> bool" where
  "gc_need_pruning_from c removed \<longleftrightarrow> fmlookup (gc_state c) removed \<noteq> None"

definition gc_prune :: "gcounter \<Rightarrow> replica_id \<Rightarrow> replica_id \<Rightarrow> (crdt_error, gcounter) result" where
  "gc_prune c removed collapse_into =
     (case fmlookup (gc_state c) removed of
        None \<Rightarrow> Ok c
      | Some removed_value \<Rightarrow>
          bind_result
            (ok_or (checked_add (gc_replica_value c collapse_into) removed_value) CounterOverflow)
            (\<lambda>next_value.
               Ok (GCounter (fmupd collapse_into next_value (fmdrop removed (gc_state c))) None)))"

definition gc_pruning_cleanup :: "gcounter \<Rightarrow> replica_id \<Rightarrow> gcounter" where
  "gc_pruning_cleanup c removed = GCounter (fmdrop removed (gc_state c)) None"

definition gc_merge :: "gcounter \<Rightarrow> gcounter \<Rightarrow> gcounter" where
  "gc_merge a b = GCounter (merge_max (gc_state a) (gc_state b)) None"

definition gc_merge_delta :: "gcounter \<Rightarrow> gcounter \<Rightarrow> gcounter" where
  "gc_merge_delta c d = gc_merge c d"

definition gc_reset_delta :: "gcounter \<Rightarrow> gcounter" where
  "gc_reset_delta c = GCounter (gc_state c) None"

definition gc_zero :: "gcounter \<Rightarrow> gcounter" where
  "gc_zero d = gc_new"

definition gc_modified_by :: "gcounter \<Rightarrow> replica_id list" where
  "gc_modified_by c = bt_keys (gc_state c)"

text \<open>A run of local increments, stopped by the first overflow.\<close>

fun gc_run :: "gcounter \<Rightarrow> (replica_id \<times> u128) list \<Rightarrow> (crdt_error, gcounter) result" where
  "gc_run c [] = Ok c"
| "gc_run c ((r, n) # ops) = bind_result (gc_increment c r n) (\<lambda>c'. gc_run c' ops)"

section \<open>\<open>PNCounter\<close>\<close>

record pncounter =
  increments :: gcounter
  decrements :: gcounter

definition pn_new :: pncounter where
  "pn_new = \<lparr>increments = gc_new, decrements = gc_new\<rparr>"

definition pn_from_counters :: "gcounter \<Rightarrow> gcounter \<Rightarrow> pncounter" where
  "pn_from_counters i d = \<lparr>increments = i, decrements = d\<rparr>"

text \<open>\<open>u128::try_into::<i128>\<close>: the value when it is below \<open>2 ^ 127\<close>.\<close>

definition to_i128 :: "u128 \<Rightarrow> (crdt_error, int) result" where
  "to_i128 v = (if unat v < 2 ^ 127 then Ok (uint v) else Err CounterValueOutOfRange)"

definition pn_value :: "pncounter \<Rightarrow> (crdt_error, int) result" where
  "pn_value c =
     bind_result (bind_result (gc_value (increments c)) to_i128) (\<lambda>i.
     bind_result (bind_result (gc_value (decrements c)) to_i128) (\<lambda>d.
     Ok (i - d)))"

definition pn_increment :: "pncounter \<Rightarrow> replica_id \<Rightarrow> u128 \<Rightarrow> (crdt_error, pncounter) result" where
  "pn_increment c replica amount =
     bind_result (gc_increment (increments c) replica amount)
       (\<lambda>i. Ok \<lparr>increments = i, decrements = decrements c\<rparr>)"

definition pn_decrement :: "pncounter \<Rightarrow> replica_id \<Rightarrow> u128 \<Rightarrow> (crdt_error, pncounter) result" where
  "pn_decrement c replica amount =
     bind_result (gc_increment (decrements c) replica amount)
       (\<lambda>d. Ok \<lparr>increments = increments c, decrements = d\<rparr>)"

text \<open>The signed amount is an \<open>i128\<close>; \<open>as u128\<close> and \<open>unsigned_abs\<close> give its magnitude.\<close>

definition pn_change :: "pncounter \<Rightarrow> replica_id \<Rightarrow> int \<Rightarrow> (crdt_error, pncounter) result" where
  "pn_change c replica amount =
     (if amount \<ge> 0 then pn_increment c replica (word_of_int amount)
      else pn_decrement c replica (word_of_int (- amount)))"

definition pn_need_pruning_from :: "pncounter \<Rightarrow> replica_id \<Rightarrow> bool" where
  "pn_need_pruning_from c removed \<longleftrightarrow>
     gc_need_pruning_from (increments c) removed \<or> gc_need_pruning_from (decrements c) removed"

definition pn_prune :: "pncounter \<Rightarrow> replica_id \<Rightarrow> replica_id \<Rightarrow> (crdt_error, pncounter) result" where
  "pn_prune c removed collapse_into =
     bind_result (gc_prune (increments c) removed collapse_into) (\<lambda>i.
     bind_result (gc_prune (decrements c) removed collapse_into) (\<lambda>d.
     Ok \<lparr>increments = i, decrements = d\<rparr>))"

definition pn_pruning_cleanup :: "pncounter \<Rightarrow> replica_id \<Rightarrow> pncounter" where
  "pn_pruning_cleanup c removed =
     \<lparr>increments = gc_pruning_cleanup (increments c) removed,
      decrements = gc_pruning_cleanup (decrements c) removed\<rparr>"

definition pn_merge :: "pncounter \<Rightarrow> pncounter \<Rightarrow> pncounter" where
  "pn_merge a b =
     \<lparr>increments = gc_merge (increments a) (increments b),
      decrements = gc_merge (decrements a) (decrements b)\<rparr>"

definition pn_delta :: "pncounter \<Rightarrow> pncounter option" where
  "pn_delta c =
     Some \<lparr>increments = unwrap_or (gc_delta (increments c)) gc_new,
           decrements = unwrap_or (gc_delta (decrements c)) gc_new\<rparr>"

definition pn_merge_delta :: "pncounter \<Rightarrow> pncounter \<Rightarrow> pncounter" where
  "pn_merge_delta c d = pn_merge c d"

definition pn_reset_delta :: "pncounter \<Rightarrow> pncounter" where
  "pn_reset_delta c =
     \<lparr>increments = gc_reset_delta (increments c), decrements = gc_reset_delta (decrements c)\<rparr>"

definition pn_zero :: "pncounter \<Rightarrow> pncounter" where
  "pn_zero d = pn_new"

definition pn_modified_by :: "pncounter \<Rightarrow> replica_id list" where
  "pn_modified_by c =
     sorted_list_of_set (set (gc_modified_by (increments c)) \<union> set (gc_modified_by (decrements c)))"

section \<open>Invariants\<close>

text \<open>No component is zero, and a pending delta is itself such a counter without a delta.\<close>

definition gc_pos :: "gcounter \<Rightarrow> bool" where
  "gc_pos c \<longleftrightarrow> fmpred (\<lambda>_ v. 0 < v) (gc_state c)"

definition gc_wf :: "gcounter \<Rightarrow> bool" where
  "gc_wf c \<longleftrightarrow> gc_pos c \<and> (case gc_delta c of None \<Rightarrow> True | Some d \<Rightarrow> gc_pos d \<and> gc_delta d = None)"

definition pn_wf :: "pncounter \<Rightarrow> bool" where
  "pn_wf c \<longleftrightarrow> gc_wf (increments c) \<and> gc_wf (decrements c)"

text \<open>The mathematical total that the checked sum computes.\<close>

definition gc_total :: "gcounter \<Rightarrow> nat" where
  "gc_total c = (\<Sum>r \<in> fmdom' (gc_state c). unat (gc_replica_value c r))"

section \<open>Lemmas on \<open>GCounter\<close>\<close>

lemmas gc_defs = gc_new_def gc_from_state_def gc_merge_def gc_merge_delta_def gc_reset_delta_def
  gc_pruning_cleanup_def gc_zero_def

lemma gc_posD: "gc_pos c \<Longrightarrow> fmlookup (gc_state c) r = Some v \<Longrightarrow> 0 < v"
  by (auto simp: gc_pos_def)

lemma gc_state_ext:
  assumes "gc_pos a" "gc_pos b" "\<And>r. gc_replica_value a r = gc_replica_value b r"
  shows "gc_state a = gc_state b"
proof (rule fmap_ext)
  fix r
  show "fmlookup (gc_state a) r = fmlookup (gc_state b) r"
    using assms(3) [of r] gc_posD [OF assms(1), of r] gc_posD [OF assms(2), of r]
    by (auto simp: gc_replica_value_def word_gt_0 split: option.splits)
qed

lemma gc_replica_value_upd:
  "gc_replica_value (GCounter (fmupd r v m) d) q = (if q = r then v else gc_replica_value (GCounter m None) q)"
  "gc_replica_value (GCounter (gc_state c) d) q = gc_replica_value c q"
  by (simp_all add: gc_replica_value_def)

lemma gc_replica_value_merge [simp]:
  "gc_replica_value (gc_merge a b) r = max (gc_replica_value a r) (gc_replica_value b r)"
  by (auto simp: gc_replica_value_def gc_merge_def fmlookup_merge_max max_def split: option.splits)

lemma gc_pos_merge: "gc_pos a \<Longrightarrow> gc_pos b \<Longrightarrow> gc_pos (gc_merge a b)"
  by (auto simp: gc_pos_def gc_merge_def fmlookup_merge_max fmpred_iff split: option.splits if_splits)

lemma gc_merge_eqI:
  assumes "gc_pos a" "gc_pos b" "gc_delta a = gc_delta b"
    "\<And>r. gc_replica_value a r = gc_replica_value b r"
  shows "a = b"
  using gc_state_ext [OF assms(1,2,4)] assms(3) by (cases a; cases b) simp

lemma gc_delta_merge [simp]: "gc_delta (gc_merge a b) = None" "gc_delta (gc_reset_delta a) = None"
  by (simp_all add: gc_defs)

lemma gc_replica_value_reset [simp]: "gc_replica_value (gc_reset_delta a) r = gc_replica_value a r"
  by (simp add: gc_defs gc_replica_value_def)

lemma gc_pos_reset [simp]: "gc_pos (gc_reset_delta a) = gc_pos a"
  by (simp add: gc_pos_def gc_defs)

lemma gc_wf_pos: "gc_wf c \<Longrightarrow> gc_pos c"
  by (simp add: gc_wf_def)

lemma gc_wf_no_delta: "gc_delta c = None \<Longrightarrow> gc_wf c = gc_pos c"
  by (simp add: gc_wf_def)

interpretation gc: delta_state gc_wf gc_merge gc_reset_delta gc_delta
proof
  fix a b c :: gcounter
  show "gc_wf a \<Longrightarrow> gc_wf b \<Longrightarrow> gc_wf (gc_merge a b)"
    by (simp add: gc_wf_no_delta gc_wf_pos gc_pos_merge)
  show "gc_wf a \<Longrightarrow> gc_wf (gc_reset_delta a)"
    by (simp add: gc_wf_no_delta gc_wf_pos)
  show "gc_wf a \<Longrightarrow> gc_wf b \<Longrightarrow> gc_merge a b = gc_merge b a"
    by (intro gc_merge_eqI) (simp_all add: gc_wf_pos gc_pos_merge max.commute)
  show "gc_wf a \<Longrightarrow> gc_wf b \<Longrightarrow> gc_wf c \<Longrightarrow>
      gc_merge (gc_merge a b) c = gc_merge a (gc_merge b c)"
    by (intro gc_merge_eqI) (simp_all add: gc_wf_pos gc_pos_merge max.assoc)
  show "gc_wf a \<Longrightarrow> gc_merge a a = gc_reset_delta a"
    by (intro gc_merge_eqI) (simp_all add: gc_wf_pos gc_pos_merge)
  show "gc_wf a \<Longrightarrow> gc_wf b \<Longrightarrow> gc_merge (gc_reset_delta a) b = gc_merge a b"
    by (simp add: gc_defs)
  show "gc_wf a \<Longrightarrow> gc_wf b \<Longrightarrow> gc_reset_delta (gc_merge a b) = gc_merge a b"
    by (simp add: gc_defs)
  show "gc_wf a \<Longrightarrow> gc_delta a = Some d \<Longrightarrow> gc_wf d" for d
    by (simp add: gc_wf_def)
  show "gc_wf a \<Longrightarrow> tracks gc_merge gc_reset_delta gc_delta a (gc_reset_delta a)"
    by (simp add: tracks_def gc_defs)
qed

lemma gc_value_total:
  "gc_value c = (if gc_total c < 2 ^ 128 then Ok (of_nat (gc_total c)) else Err CounterOverflow)"
proof -
  have tot: "sum_list (map unat (bt_values (gc_state c))) = gc_total c"
    by (auto simp: sum_list_bt_values gc_total_def gc_replica_value_def fmlookup_dom'_iff
        intro!: sum.cong)
  have "sum_list (bt_values (gc_state c)) = of_nat (gc_total c)"
    unfolding tot [symmetric] by (rule sum_list_word)
  with tot show ?thesis
    by (simp add: gc_value_def try_fold_checked_add)
qed

lemma gc_total_sum:
  "finite A \<Longrightarrow> fmdom' (gc_state c) \<subseteq> A \<Longrightarrow> gc_total c = (\<Sum>r \<in> A. unat (gc_replica_value c r))"
  unfolding gc_total_def
  by (rule sum.mono_neutral_left)
    (auto simp: gc_replica_value_def fmlookup_dom'_iff split: option.splits)

lemma gc_increment_Ok:
  assumes "gc_increment c r n = Ok c'"
  shows "unat (gc_replica_value c r) + unat n < 2 ^ 128 \<and>
    gc_replica_value c' = (gc_replica_value c)(r := gc_replica_value c r + n) \<and>
    fmdom' (gc_state c') \<subseteq> insert r (fmdom' (gc_state c))"
proof (cases "n = 0")
  case True
  with assms show ?thesis
    using unsigned_less [of "gc_replica_value c r", where ?'a = nat]
    by (auto simp: gc_increment_def)
next
  case False
  with assms show ?thesis
    by (auto simp: gc_increment_def checked_add_Some Let_def gc_replica_value_def)
qed

lemma gc_increment_Err:
  "gc_increment c r n = Err e \<longleftrightarrow>
     e = CounterOverflow \<and> 2 ^ 128 \<le> unat (gc_replica_value c r) + unat n \<and> n \<noteq> 0"
  by (auto simp: gc_increment_def Let_def ok_or_def bind_result_def checked_add_def)

lemma gc_wf_increment:
  assumes "gc_wf c" "gc_increment c r n = Ok c'"
  shows "gc_wf c'"
proof (cases "n = 0")
  case True
  with assms show ?thesis by (auto simp: gc_increment_def)
next
  case False
  have "0 < gc_replica_value c r + n"
    if "unat (gc_replica_value c r) + unat n < 2 ^ 128"
    using False that unat_gt_0 [of n] by (simp add: word_less_nat_alt unat_word_ariths)
  then show ?thesis
    using assms False
    by (auto simp: gc_increment_def checked_add_Some Let_def gc_wf_def gc_pos_def fmpred_iff
        split: option.splits if_splits)
qed

lemma gc_total_increment:
  assumes "gc_increment c r n = Ok c'"
  shows "gc_total c' = gc_total c + unat n"
proof -
  let ?A = "insert r (fmdom' (gc_state c))"
  have inc: "unat (gc_replica_value c r) + unat n < 2 ^ 128"
    "gc_replica_value c' = (gc_replica_value c)(r := gc_replica_value c r + n)"
    "fmdom' (gc_state c') \<subseteq> ?A"
    using gc_increment_Ok [OF assms] by auto
  have "gc_total c' = (\<Sum>q \<in> ?A. unat (gc_replica_value c' q))"
    using inc(3) by (simp add: gc_total_sum)
  also have "\<dots> = (\<Sum>q \<in> ?A. unat (gc_replica_value c q) + (if q = r then unat n else 0))"
    using inc(1,2) by (intro sum.cong) (auto simp: unat_word_ariths)
  also have "\<dots> = (\<Sum>q \<in> ?A. unat (gc_replica_value c q)) + (\<Sum>q \<in> ?A. if q = r then unat n else 0)"
    by (rule sum.distrib)
  also have "(\<Sum>q \<in> ?A. unat (gc_replica_value c q)) = gc_total c"
    by (rule gc_total_sum [symmetric]) auto
  also have "(\<Sum>q \<in> ?A. if q = r then unat n else 0) = unat n"
    by simp
  finally show ?thesis .
qed

lemma gc_tracks_increment:
  assumes wf: "gc_wf base" "gc_wf c" and "tracks gc_merge gc_reset_delta gc_delta base c"
    and inc: "gc_increment c r n = Ok c'"
  shows "tracks gc_merge gc_reset_delta gc_delta base c'"
proof (cases "n = 0")
  case True
  with assms show ?thesis by (simp add: gc_increment_def)
next
  case False
  define v where "v = gc_replica_value c r + n"
  define ds where "ds = (case gc_delta c of None \<Rightarrow> fmempty | Some d \<Rightarrow> gc_state d)"
  have c': "c' = GCounter (fmupd r v (gc_state c)) (Some (GCounter (fmupd r v ds) None))"
    and ov: "unat (gc_replica_value c r) + unat n < 2 ^ 128"
    using inc False by (auto simp: gc_increment_def checked_add_Some Let_def v_def ds_def)
  have val: "gc_replica_value c q = max (gc_replica_value base q) (unwrap_or (fmlookup ds q) 0)" for q
  proof (cases "gc_delta c")
    case None
    then show ?thesis
      using assms(3) by (simp add: tracks_def ds_def gc_reset_delta_def gc_replica_value_def)
  next
    case (Some d)
    then have "gc_merge base d = gc_reset_delta c"
      using assms(3) by (simp add: tracks_def)
    then have "gc_replica_value c q = gc_replica_value (gc_merge base d) q"
      by simp
    then have "gc_replica_value c q = max (gc_replica_value base q) (gc_replica_value d q)"
      by simp
    then show ?thesis
      using Some by (simp add: ds_def gc_replica_value_def [of d])
  qed
  have ge: "gc_replica_value c r \<le> v"
    using ov by (simp add: v_def word_le_nat_alt unat_word_ariths)
  have wf': "gc_wf c'" using wf(2) inc by (rule gc_wf_increment)
  have "gc_merge base (GCounter (fmupd r v ds) None) = gc_reset_delta c'"
  proof (rule gc_merge_eqI)
    show "gc_pos (gc_reset_delta c')" using wf' by (simp add: gc_wf_pos)
    show "gc_pos (gc_merge base (GCounter (fmupd r v ds) None))"
      using wf(1) wf' by (intro gc_pos_merge) (simp_all add: c' gc_wf_def)
    show "gc_replica_value (gc_merge base (GCounter (fmupd r v ds) None)) q
        = gc_replica_value (gc_reset_delta c') q" for q
      using ge val [of q] val [of r]
      by (auto simp: c' gc_replica_value_upd gc_replica_value_def [of "GCounter ds None"] max_def
          split: if_splits)
  qed simp
  then show ?thesis by (simp add: tracks_def c')
qed

lemma gc_run_tracks:
  assumes "gc_wf base" "gc_wf c" "tracks gc_merge gc_reset_delta gc_delta base c"
    and "gc_run c ops = Ok c'"
  shows "gc_wf c' \<and> tracks gc_merge gc_reset_delta gc_delta base c'"
  using assms
proof (induction ops arbitrary: c)
  case (Cons op ops)
  obtain r n where "op = (r, n)" by fastforce
  with Cons show ?case by (auto intro: gc_wf_increment gc_tracks_increment)
qed auto

lemma gc_run_total:
  "gc_run c ops = Ok c' \<Longrightarrow> gc_total c' = gc_total c + sum_list (map (\<lambda>(_, n). unat n) ops)"
proof (induction ops arbitrary: c)
  case (Cons op ops)
  obtain r n where "op = (r, n)" by fastforce
  with Cons show ?case by (auto simp: gc_total_increment)
qed auto

lemma gc_total_mono:
  assumes "\<And>r. gc_replica_value a r \<le> gc_replica_value b r"
  shows "gc_total a \<le> gc_total b"
proof -
  let ?A = "fmdom' (gc_state a) \<union> fmdom' (gc_state b)"
  have "gc_total a = (\<Sum>q \<in> ?A. unat (gc_replica_value a q))"
    "gc_total b = (\<Sum>q \<in> ?A. unat (gc_replica_value b q))"
    by (simp_all add: gc_total_sum)
  then show ?thesis
    using assms by (auto intro!: sum_mono simp: word_le_nat_alt)
qed

lemma gc_total_prune:
  assumes "gc_prune c removed into = Ok c'" and ne: "removed \<noteq> into"
  shows "gc_total c' = gc_total c"
proof (cases "fmlookup (gc_state c) removed")
  case None
  with assms show ?thesis by (simp add: gc_prune_def)
next
  case (Some v)
  let ?A = "insert into (insert removed (fmdom' (gc_state c)))"
  let ?f = "\<lambda>c q. unat (gc_replica_value c q)"
  have ov: "unat (gc_replica_value c into) + unat v < 2 ^ 128"
    and c': "c' = GCounter (fmupd into (gc_replica_value c into + v) (fmdrop removed (gc_state c))) None"
    using assms Some by (auto simp: gc_prune_def checked_add_Some)
  have split: "(\<Sum>q \<in> ?A. g q) = g into + (g removed + (\<Sum>q \<in> ?A - {into, removed}. g q))"
    for g :: "replica_id \<Rightarrow> nat"
    using ne by (subst sum.remove [of _ into], simp, simp, subst sum.remove [of _ removed])
      (auto simp: insert_commute intro!: sum.cong)
  have into: "?f c' into = ?f c into + ?f c removed" and rem: "?f c' removed = 0"
    using ov ne Some by (auto simp: c' gc_replica_value_def unat_word_ariths)
  have rest: "(\<Sum>q \<in> ?A - {into, removed}. ?f c' q) = (\<Sum>q \<in> ?A - {into, removed}. ?f c q)"
    by (rule sum.cong) (auto simp: c' gc_replica_value_def)
  have "gc_total c' = (\<Sum>q \<in> ?A. ?f c' q)"
    by (rule gc_total_sum) (auto simp: c')
  also have "\<dots> = (\<Sum>q \<in> ?A. ?f c q)"
    by (simp only: split into rem rest)
  also have "\<dots> = gc_total c"
    by (rule gc_total_sum [symmetric]) auto
  finally show ?thesis .
qed

lemma gc_prune_removes:
  "gc_prune c removed into = Ok c' \<Longrightarrow> removed \<noteq> into \<Longrightarrow> \<not> gc_need_pruning_from c' removed"
  by (auto simp: gc_prune_def gc_need_pruning_from_def split: option.splits)

section \<open>Lemmas on \<open>PNCounter\<close>\<close>

lemmas pn_defs = pn_new_def pn_merge_def pn_reset_delta_def pn_merge_delta_def pn_wf_def

lemma gc_wf_new [simp]: "gc_wf gc_new"
  by (simp add: gc_wf_def gc_pos_def gc_new_def)

lemma gc_replica_value_new [simp]: "gc_replica_value gc_new r = 0"
  by (simp add: gc_replica_value_def gc_new_def)

lemma gc_merge_new: "gc_wf c \<Longrightarrow> gc_merge c gc_new = gc_reset_delta c"
  by (rule gc_merge_eqI)
    (simp_all add: gc_wf_pos gc_pos_merge gc_replica_value_new)

lemma gc_tracks_delta:
  assumes "gc_wf base"
  shows "tracks gc_merge gc_reset_delta gc_delta base c \<longleftrightarrow>
    gc_merge base (unwrap_or (gc_delta c) gc_new) = gc_reset_delta c"
  using assms by (auto simp: tracks_def gc_merge_new split: option.splits)

lemma pn_tracks:
  assumes "pn_wf base"
  shows "tracks pn_merge pn_reset_delta pn_delta base c \<longleftrightarrow>
    tracks gc_merge gc_reset_delta gc_delta (increments base) (increments c) \<and>
    tracks gc_merge gc_reset_delta gc_delta (decrements base) (decrements c)"
  using assms by (auto simp: pn_wf_def gc_tracks_delta)
    (auto simp: tracks_def pn_delta_def pn_defs)

interpretation pn: delta_state pn_wf pn_merge pn_reset_delta pn_delta
proof
  fix a b c :: pncounter
  show "pn_wf a \<Longrightarrow> pn_wf b \<Longrightarrow> pn_wf (pn_merge a b)"
    by (simp add: pn_defs gc.wf_merge)
  show "pn_wf a \<Longrightarrow> pn_wf (pn_reset_delta a)"
    by (simp add: pn_defs gc.wf_reset)
  show "pn_wf a \<Longrightarrow> pn_wf b \<Longrightarrow> pn_merge a b = pn_merge b a"
    by (simp add: pn_defs gc.merge_commute)
  show "pn_wf a \<Longrightarrow> pn_wf b \<Longrightarrow> pn_wf c \<Longrightarrow>
      pn_merge (pn_merge a b) c = pn_merge a (pn_merge b c)"
    by (simp add: pn_defs gc.merge_assoc)
  show "pn_wf a \<Longrightarrow> pn_merge a a = pn_reset_delta a"
    by (simp add: pn_defs gc.merge_self)
  show "pn_wf a \<Longrightarrow> pn_wf b \<Longrightarrow> pn_merge (pn_reset_delta a) b = pn_merge a b"
    by (simp add: pn_defs gc.merge_reset)
  show "pn_wf a \<Longrightarrow> pn_wf b \<Longrightarrow> pn_reset_delta (pn_merge a b) = pn_merge a b"
    by (simp add: pn_defs gc.reset_merge)
  show "pn_wf a \<Longrightarrow> pn_delta a = Some d \<Longrightarrow> pn_wf d" for d
    by (auto simp: pn_delta_def pn_wf_def dest: gc.wf_delta split: option.splits)
  show "pn_wf a \<Longrightarrow> tracks pn_merge pn_reset_delta pn_delta a (pn_reset_delta a)"
    by (simp add: pn_tracks) (simp add: pn_defs gc.tracks_reset)
qed

lemma gc_value_Ok: "gc_value c = Ok v \<longleftrightarrow> gc_total c < 2 ^ 128 \<and> v = of_nat (gc_total c)"
  by (auto simp: gc_value_total)

lemma pn_value_total:
  "pn_value c =
     (if 2 ^ 128 \<le> gc_total (increments c) then Err CounterOverflow
      else if 2 ^ 127 \<le> gc_total (increments c) then Err CounterValueOutOfRange
      else if 2 ^ 128 \<le> gc_total (decrements c) then Err CounterOverflow
      else if 2 ^ 127 \<le> gc_total (decrements c) then Err CounterValueOutOfRange
      else Ok (int (gc_total (increments c)) - int (gc_total (decrements c))))"
  by (auto simp: pn_value_def gc_value_total to_i128_def unat_of_nat uint_nat take_bit_nat_eq_self)

lemma pn_change_Ok:
  assumes "pn_change c r n = Ok c'" and "- (2 ^ 127) \<le> n" "n < 2 ^ 127"
  shows "gc_total (increments c') = gc_total (increments c) + nat n"
    and "gc_total (decrements c') = gc_total (decrements c) + nat (- n)"
proof -
  have mag: "unat (word_of_int k :: u128) = nat k" if "0 \<le> k" "k \<le> 2 ^ 127" for k :: int
  proof -
    have "uint (word_of_int k :: u128) = k"
      using that by (simp add: uint_word_of_int)
    then show ?thesis by (simp only: unat_eq_nat_uint)
  qed
  show "gc_total (increments c') = gc_total (increments c) + nat n"
    and "gc_total (decrements c') = gc_total (decrements c) + nat (- n)"
    using assms mag [of n] mag [of "- n"] by (auto simp: pn_change_def pn_increment_def pn_decrement_def
        dest!: gc_total_increment split: if_splits)
qed

section \<open>Properties\<close>

text \<open>Replicas of a grow-only counter that received the same set of states, in any order and with
  any repetitions, are equal.\<close>

lemma gcounter_convergence:
  assumes "gc_wf s" and "\<forall>x \<in> set xs. gc_wf x" and "set xs = set ys" and "xs \<noteq> []"
  shows "deliver gc_merge s xs = deliver gc_merge s ys"
  using assms by (rule gc.deliver_same_set)

lemma gcounter_convergence_witness:
  "let a = GCounter (fmupd (ReplicaId ''a'') 2 fmempty) None;
       b = GCounter (fmupd (ReplicaId ''b'') 3 fmempty) None
   in deliver gc_merge gc_new [a, b] = deliver gc_merge gc_new [b, a, b]"
  unfolding Let_def
  by (rule gcounter_convergence) (auto simp: gc_wf_def gc_pos_def fmpred_iff gc_new_def)

text \<open>After any run of increments the public value is the old total plus the sum of the amounts,
  and it is reported as an overflow exactly when that sum does not fit 128 bits.\<close>

lemma gcounter_run_value:
  assumes "gc_run c ops = Ok c'"
  shows "gc_value c' =
    (let n = gc_total c + sum_list (map (\<lambda>(_, n). unat n) ops)
     in if n < 2 ^ 128 then Ok (of_nat n) else Err CounterOverflow)"
  using gc_run_total [OF assms] by (simp add: gc_value_total Let_def)

lemma gcounter_run_value_witness:
  "\<exists>c'. gc_run gc_new [(ReplicaId ''a'', 2), (ReplicaId ''b'', 3)] = Ok c' \<and> gc_value c' = Ok 5"
proof -
  obtain c' where run: "gc_run gc_new [(ReplicaId ''a'', 2), (ReplicaId ''b'', 3)] = Ok c'"
    by (simp add: gc_increment_def gc_new_def checked_add_def gc_replica_value_def Let_def)
  have "gc_total gc_new = 0" by (simp add: gc_total_def gc_new_def)
  with gcounter_run_value [OF run] run show ?thesis by (auto simp: Let_def)
qed

text \<open>a replica at or above the state the increments started from gains exactly as much from the
  accumulated delta as from the full state.\<close>

lemma gcounter_delta_equivalent:
  assumes "gc_wf base" and "gc_run (gc_reset_delta base) ops = Ok s" and "gc_delta s = Some d"
    and "gc_wf t" and "gc_merge base t = gc_reset_delta t"
  shows "gc_merge_delta t d = gc_merge t s"
proof -
  have "gc_wf s \<and> tracks gc_merge gc_reset_delta gc_delta base s"
    using assms(1,2) gc.wf_reset gc.tracks_reset by (intro gc_run_tracks) auto
  then show ?thesis
    using assms gc.delta_suffices [of base s t d] by (simp add: gc_merge_delta_def gc.below_def)
qed

lemma gcounter_delta_equivalent_witness:
  "\<exists>s d. gc_run gc_new [(ReplicaId ''a'', 2)] = Ok s \<and> gc_delta s = Some d \<and>
     gc_merge_delta gc_new d = gc_merge gc_new s"
proof -
  obtain s d where run: "gc_run (gc_reset_delta gc_new) [(ReplicaId ''a'', 2)] = Ok s"
    and d: "gc_delta s = Some d"
    by (simp add: gc_increment_def gc_new_def gc_reset_delta_def checked_add_def
        gc_replica_value_def Let_def)
  have "gc_merge_delta gc_new d = gc_merge gc_new s"
    by (rule gcounter_delta_equivalent [OF _ run d]) (simp_all add: gc_merge_new)
  moreover have "gc_reset_delta gc_new = gc_new" by (simp add: gc_defs)
  ultimately show ?thesis using run d by auto
qed

text \<open>pruning a departed replica into a different survivor keeps the public value and leaves no
  component of the departed replica.\<close>

lemma gcounter_prune_preserves_value:
  assumes "gc_prune c removed into = Ok c'" and "removed \<noteq> into"
  shows "gc_value c' = gc_value c \<and> \<not> gc_need_pruning_from c' removed"
  using gc_total_prune [OF assms] gc_prune_removes [OF assms] by (simp add: gc_value_total)

lemma gcounter_prune_preserves_value_witness:
  "let c = GCounter (fmupd (ReplicaId ''a'') 2 (fmupd (ReplicaId ''b'') 3 fmempty)) None in
   \<exists>c'. gc_prune c (ReplicaId ''a'') (ReplicaId ''b'') = Ok c' \<and>
     gc_value c' = gc_value c \<and> \<not> gc_need_pruning_from c' (ReplicaId ''a'')"
  using gcounter_prune_preserves_value
    [of "GCounter (fmupd (ReplicaId ''a'') 2 (fmupd (ReplicaId ''b'') 3 fmempty)) None"
        "ReplicaId ''a''" "ReplicaId ''b''"]
  by (simp add: gc_prune_def checked_add_def gc_replica_value_def)

text \<open>a signed change moves the value of a positive/negative counter by exactly that amount
  while both sums stay in range, and a reported value always fits \<open>i128\<close>.\<close>

lemma pncounter_change_value:
  assumes "pn_change c r n = Ok c'" and "- (2 ^ 127) \<le> n" "n < 2 ^ 127" and "pn_value c' = Ok v"
  shows "pn_value c = Ok (v - n) \<and> - (2 ^ 127) < v \<and> v < 2 ^ 127"
  using pn_change_Ok [OF assms(1-3)] assms(4)
  by (auto simp: pn_value_total split: if_splits)

lemma pncounter_change_value_witness:
  "\<exists>c'. pn_change pn_new (ReplicaId ''a'') (- 3) = Ok c' \<and> pn_value c' = Ok (- 3) \<and>
     pn_value pn_new = Ok 0"
proof -
  have i: "gc_increment gc_new (ReplicaId ''a'') 3 =
      Ok (GCounter (fmupd (ReplicaId ''a'') 3 fmempty) (Some (GCounter (fmupd (ReplicaId ''a'') 3 fmempty) None)))"
    by (simp add: gc_increment_def gc_new_def checked_add_def gc_replica_value_def Let_def)
  define c' where "c' = \<lparr>increments = gc_new,
    decrements = GCounter (fmupd (ReplicaId ''a'') 3 fmempty) (Some (GCounter (fmupd (ReplicaId ''a'') 3 fmempty) None))\<rparr>"
  have ch: "pn_change pn_new (ReplicaId ''a'') (- 3) = Ok c'"
    using i by (simp add: pn_change_def pn_decrement_def pn_new_def c'_def)
  have v: "pn_value c' = Ok (- 3)"
    by (simp add: pn_value_total c'_def gc_total_def gc_new_def gc_replica_value_def)
  show ?thesis
    using pncounter_change_value [OF ch _ _ v] ch v by simp
qed

end
