(* ===== verification/OR_Map.thy ===== *)
theory OR_Map
  imports OR_Set Counters
begin

text \<open>
  \<open>ORMap\<close> of \<open>kairo-distributed-data/src/ormap.rs\<close>: an OR-set of keys and a value per key. The value
  type is generic in the source (\<open>V: DeltaReplicatedData\<close>); here its operations are the record
  \<open>value_ops\<close>, and the laws of its merge are those of the locale \<open>replicated_data\<close>. An \<open>expect\<close> that fails is the
  value None. The lemmas show that keys and values stay in step, that no \<open>expect\<close> fails, that
  the merge is commutative and idempotent when the merge of the values is, and that it is not
  associative.
\<close>

section \<open>Values and deltas\<close>

datatype ('k, 'v, 'd) ormap_delta =
    MPut "'k orset_delta" 'k 'v
  | MUpdate "'k orset_delta" "('k, 'd) fmap"
  | MRemove "'k orset_delta"
  | MGroup "('k, 'v, 'd) ormap_delta list"

datatype ('k, 'v, 'd) ormap =
  ORMap (om_keys: "'k orset") (om_values: "('k, 'v) fmap") (om_delta: "('k, 'v, 'd) ormap_delta option")

fun om_delta_merge ::
  "('k, 'v, 'd) ormap_delta \<Rightarrow> ('k, 'v, 'd) ormap_delta \<Rightarrow> ('k, 'v, 'd) ormap_delta" where
  "om_delta_merge (MGroup left) (MGroup right) = MGroup (left @ right)"
| "om_delta_merge (MGroup left) right = MGroup (left @ [right])"
| "om_delta_merge left (MGroup right) = MGroup (left # right)"
| "om_delta_merge left right = MGroup [left, right]"

definition om_merge_optional_delta ::
  "('k, 'v, 'd) ormap_delta option \<Rightarrow> ('k, 'v, 'd) ormap_delta \<Rightarrow> ('k, 'v, 'd) ormap_delta" where
  "om_merge_optional_delta existing new =
     (case existing of None \<Rightarrow> new | Some d \<Rightarrow> om_delta_merge d new)"

section \<open>Operations\<close>

definition om_new :: "('k, 'v, 'd) ormap" where
  "om_new = ORMap os_new fmempty None"

definition om_get :: "('k, 'v, 'd) ormap \<Rightarrow> 'k \<Rightarrow> 'v option" where
  "om_get m key = fmlookup (om_values m) key"

definition om_contains_key :: "('k, 'v, 'd) ormap \<Rightarrow> 'k \<Rightarrow> bool" where
  "om_contains_key m key \<longleftrightarrow> fmlookup (om_values m) key \<noteq> None"

definition om_from_wire_state :: "'k orset \<Rightarrow> ('k, 'v) fmap \<Rightarrow> ('k, 'v, 'd) ormap" where
  "om_from_wire_state keys values = ORMap keys values None"

definition om_put :: "('k, 'v, 'd) ormap \<Rightarrow> replica_id \<Rightarrow> 'k \<Rightarrow> 'v \<Rightarrow> ('k, 'v, 'd) ormap option" where
  "om_put m replica key value =
     (let keys = os_add (os_reset_delta (om_keys m)) replica key
      in case os_delta keys of
           None \<Rightarrow> None
         | Some key_delta \<Rightarrow>
             Some (ORMap keys (fmupd key value (om_values m))
               (Some (om_merge_optional_delta (om_delta m) (MPut key_delta key value)))))"

definition om_updated ::
  "('v, 'd, 'x) value_ops_scheme \<Rightarrow> ('k, 'v, 'd) ormap \<Rightarrow> replica_id \<Rightarrow> 'k \<Rightarrow> 'v \<Rightarrow> ('v \<Rightarrow> 'v)
     \<Rightarrow> ('k, 'v, 'd) ormap option" where
  "om_updated V m replica key initial modify =
     (let had_value = om_contains_key m key;
          old_value = unwrap_or (fmlookup (om_values m) key) initial;
          next_value = modify (vo_reset_delta V old_value);
          keys = os_add (os_reset_delta (om_keys m)) replica key
      in case os_delta keys of
           None \<Rightarrow> None
         | Some key_delta \<Rightarrow>
             let delta_op = (case (had_value, vo_delta V next_value) of
                   (True, Some value_delta) \<Rightarrow> MUpdate key_delta (fmupd key value_delta fmempty)
                 | _ \<Rightarrow> MPut key_delta key next_value)
             in Some (ORMap keys (fmupd key next_value (om_values m))
                  (Some (om_merge_optional_delta (om_delta m) delta_op))))"

definition om_remove :: "('k, 'v, 'd) ormap \<Rightarrow> replica_id \<Rightarrow> 'k \<Rightarrow> ('k, 'v, 'd) ormap option" where
  "om_remove m replica key =
     (if \<not> om_contains_key m key then Some m
      else let keys = os_remove (os_reset_delta (om_keys m)) replica key
        in case os_delta keys of
             None \<Rightarrow> None
           | Some key_delta \<Rightarrow>
               Some (ORMap keys (fmdrop key (om_values m))
                 (Some (om_merge_optional_delta (om_delta m) (MRemove key_delta)))))"

fun om_apply_delta ::
  "('v, 'd, 'x) value_ops_scheme \<Rightarrow> 'k::linorder orset \<times> ('k, 'v) fmap \<Rightarrow> ('k, 'v, 'd) ormap_delta
     \<Rightarrow> 'k orset \<times> ('k, 'v) fmap" where
  "om_apply_delta V (keys, values) (MPut key_delta key value) =
     (os_merge_delta keys key_delta, fmupd key value values)"
| "om_apply_delta V (keys, values) (MUpdate key_delta value_deltas) =
     (let keys = os_merge_delta keys key_delta
      in (keys, fold (\<lambda>(key, value_delta) values.
            if os_contains keys key
            then fmupd key (case fmlookup values key of
                   Some value \<Rightarrow> vo_merge_delta V value value_delta
                 | None \<Rightarrow> vo_merge_delta V (vo_zero V value_delta) value_delta) values
            else values) (bt_entries value_deltas) values))"
| "om_apply_delta V (keys, values) (MRemove key_delta) =
     (let values = (case key_delta of RemoveDelta remove \<Rightarrow> fmdrop (rm_element remove) values | _ \<Rightarrow> values)
      in (os_merge_delta keys key_delta, values))"
| "om_apply_delta V (keys, values) (MGroup ops) =
     fold (\<lambda>op kv. om_apply_delta V kv op) ops (keys, values)"

definition om_dry_merge_delta ::
  "('v, 'd, 'x) value_ops_scheme \<Rightarrow> ('k::linorder, 'v, 'd) ormap \<Rightarrow> ('k, 'v, 'd) ormap_delta \<Rightarrow> ('k, 'v, 'd) ormap" where
  "om_dry_merge_delta V m delta =
     (let (keys, values) = om_apply_delta V (om_keys m, om_values m) delta in ORMap keys values None)"

definition om_merge ::
  "('v, 'd, 'x) value_ops_scheme \<Rightarrow> ('k::linorder, 'v, 'd) ormap \<Rightarrow> ('k, 'v, 'd) ormap \<Rightarrow> ('k, 'v, 'd) ormap" where
  "om_merge V a b =
     (let keys = os_merge (om_keys a) (om_keys b);
          values = fold (\<lambda>key m.
            (case (fmlookup (om_values a) key, fmlookup (om_values b) key) of
               (Some left, Some right) \<Rightarrow> fmupd key (vo_merge V left right) m
             | (Some left, None) \<Rightarrow> fmupd key left m
             | (None, Some right) \<Rightarrow> fmupd key right m
             | (None, None) \<Rightarrow> m)) (os_element_list keys) fmempty
      in ORMap keys values None)"

definition om_merge_delta ::
  "('v, 'd, 'x) value_ops_scheme \<Rightarrow> ('k::linorder, 'v, 'd) ormap \<Rightarrow> ('k, 'v, 'd) ormap_delta \<Rightarrow> ('k, 'v, 'd) ormap" where
  "om_merge_delta V m delta = om_merge V m (om_dry_merge_delta V m delta)"

definition om_reset_delta :: "('k, 'v, 'd) ormap \<Rightarrow> ('k, 'v, 'd) ormap" where
  "om_reset_delta m = ORMap (os_reset_delta (om_keys m)) (om_values m) None"

definition om_zero :: "('k, 'v, 'd) ormap_delta \<Rightarrow> ('k, 'v, 'd) ormap" where
  "om_zero d = om_new"

definition om_modified_by ::
  "('v, 'd, 'x) value_ops_scheme \<Rightarrow> ('k::linorder, 'v, 'd) ormap \<Rightarrow> replica_id list" where
  "om_modified_by V m =
     sort (remdups (os_modified_by (om_keys m) @ concat (map (vo_modified_by V) (bt_values (om_values m)))))"

definition om_need_pruning_from ::
  "('v, 'd, 'x) value_ops_scheme \<Rightarrow> ('k::linorder, 'v, 'd) ormap \<Rightarrow> replica_id \<Rightarrow> bool" where
  "om_need_pruning_from V m removed \<longleftrightarrow>
     os_need_pruning_from (om_keys m) removed \<or>
     list_ex (\<lambda>value. vo_need_pruning_from V value removed) (bt_values (om_values m))"

definition om_prune ::
  "('v, 'd, 'x) value_ops_scheme \<Rightarrow> ('k::linorder, 'v, 'd) ormap \<Rightarrow> replica_id \<Rightarrow> replica_id
     \<Rightarrow> (crdt_error, ('k, 'v, 'd) ormap) result" where
  "om_prune V m removed collapse_into =
     bind_result (os_prune (om_keys m) removed collapse_into) (\<lambda>keys.
     bind_result (collect_results (\<lambda>(key, value).
        bind_result (if vo_need_pruning_from V value removed
                     then vo_prune V value removed collapse_into else Ok value)
          (\<lambda>value. Ok (key, value))) (bt_entries (om_values m))) (\<lambda>values.
     Ok (ORMap keys (bt_collect values) None)))"

definition om_pruning_cleanup ::
  "('v, 'd, 'x) value_ops_scheme \<Rightarrow> ('k::linorder, 'v, 'd) ormap \<Rightarrow> replica_id \<Rightarrow> ('k, 'v, 'd) ormap" where
  "om_pruning_cleanup V m removed =
     ORMap (os_pruning_cleanup (om_keys m) removed)
       (bt_collect (map (\<lambda>(key, value).
          (key, if vo_need_pruning_from V value removed then vo_pruning_cleanup V value removed else value))
        (bt_entries (om_values m)))) None"

section \<open>Keys and values stay in step\<close>

text \<open>The keys are a well-formed OR-set, every key has a value, and the values are well-formed.\<close>

definition om_wf :: "('v \<Rightarrow> bool) \<Rightarrow> ('k, 'v, 'd) ormap \<Rightarrow> bool" where
  "om_wf P m \<longleftrightarrow> os_wf (om_keys m) \<and> (\<forall>k. os_contains (om_keys m) k = om_contains_key m k) \<and>
     fmpred (\<lambda>_ v. P v) (om_values m)"

lemma om_wfD:
  assumes "om_wf P m"
  shows "os_wf (om_keys m)" "os_contains (om_keys m) k \<longleftrightarrow> fmlookup (om_values m) k \<noteq> None"
    "fmlookup (om_values m) k = Some v \<Longrightarrow> P v"
  using assms by (auto simp: om_wf_def om_contains_key_def fmpred_iff)

lemma os_contains_reset [simp]: "os_contains (os_reset_delta s) x = os_contains s x"
  by (simp add: os_contains_def)

lemma om_wf_new: "om_wf P om_new"
  by (simp add: om_wf_def om_new_def os_contains_def om_contains_key_def)

text \<open>\<open>put\<close> and \<open>updated\<close> never fail, \<open>remove\<close> does not fail on a well-formed map; all keep it well-formed.\<close>

lemma om_put_Some:
  "\<exists>m'. om_put m r k v = Some m' \<and> (om_wf P m \<longrightarrow> P v \<longrightarrow> om_wf P m') \<and>
     om_get m' k = Some v \<and> (\<forall>x. x \<noteq> k \<longrightarrow> om_get m' x = om_get m x)"
  by (auto simp: om_put_def os_delta_add Let_def om_wf_def om_contains_key_def om_get_def os_contains_add
      os_wf_add fmpred_iff)

lemma om_updated_Some:
  "\<exists>m'. om_updated V m r k i f = Some m' \<and>
     om_get m' k = Some (f (vo_reset_delta V (unwrap_or (om_get m k) i))) \<and>
     (\<forall>x. x \<noteq> k \<longrightarrow> om_get m' x = om_get m x) \<and>
     (om_wf P m \<longrightarrow> P (f (vo_reset_delta V (unwrap_or (om_get m k) i))) \<longrightarrow> om_wf P m')"
  by (auto simp: om_updated_def os_delta_add Let_def om_wf_def om_contains_key_def om_get_def os_contains_add
      os_wf_add fmpred_iff)

lemma om_remove_Some:
  assumes "om_wf P m"
  shows "\<exists>m'. om_remove m r k = Some m' \<and> om_wf P m' \<and> om_get m' k = None \<and>
    (\<forall>x. x \<noteq> k \<longrightarrow> om_get m' x = om_get m x)"
proof (cases "om_contains_key m k")
  case True
  then have "os_contains (om_keys m) k" using assms by (simp add: om_wf_def)
  then show ?thesis
    using assms True
    by (auto simp: om_remove_def os_delta_remove Let_def om_wf_def om_contains_key_def om_get_def
        os_contains_remove os_wf_remove fmpred_iff)
next
  case False
  then show ?thesis using assms by (simp add: om_remove_def om_contains_key_def om_get_def)
qed

section \<open>The merge\<close>

definition merge_values :: "('v \<Rightarrow> 'v \<Rightarrow> 'v) \<Rightarrow> 'v option \<Rightarrow> 'v option \<Rightarrow> 'v option" where
  "merge_values f x y = (case (x, y) of
      (Some left, Some right) \<Rightarrow> Some (f left right)
    | (Some left, None) \<Rightarrow> Some left
    | (None, y) \<Rightarrow> y)"

lemma om_keys_merge [simp]: "om_keys (om_merge V a b) = os_merge (om_keys a) (om_keys b)"
  by (simp add: om_merge_def Let_def)

lemma om_values_merge:
  "fmlookup (om_values (om_merge V a b)) k =
     (if os_contains (os_merge (om_keys a) (om_keys b)) k
      then merge_values (vo_merge V) (fmlookup (om_values a) k) (fmlookup (om_values b) k) else None)"
proof -
  let ?v = "\<lambda>k. merge_values (vo_merge V) (fmlookup (om_values a) k) (fmlookup (om_values b) k)"
  let ?ks = "os_element_list (os_merge (om_keys a) (om_keys b))"
  have "om_values (om_merge V a b) = fold (\<lambda>k m. case ?v k of None \<Rightarrow> m | Some v \<Rightarrow> fmupd k v m) ?ks fmempty"
    by (simp add: om_merge_def Let_def merge_values_def split: option.splits cong: fold_cong)
      (rule fold_cong; auto split: option.splits intro!: ext)
  moreover have "fmlookup (fold (\<lambda>k m. case ?v k of None \<Rightarrow> m | Some v \<Rightarrow> fmupd k v m) ks m) x =
     (if x \<in> set ks \<and> ?v x \<noteq> None then ?v x else fmlookup m x)" for ks m x
    by (induction ks arbitrary: m) (auto split: option.splits)
  ultimately show ?thesis
    by (auto simp: os_element_list_def os_contains_def fmlookup_dom'_iff)
qed

lemma os_contains_merge_sub:
  "os_wf a \<Longrightarrow> os_wf b \<Longrightarrow> os_contains (os_merge a b) k \<Longrightarrow> os_contains a k \<or> os_contains b k"
  by (auto simp: os_contains_merge os_contains_at)

lemma ormap_eqI:
  "om_keys a = om_keys b \<Longrightarrow> (\<And>k. fmlookup (om_values a) k = fmlookup (om_values b) k) \<Longrightarrow> om_delta a = om_delta b \<Longrightarrow> a = b"
  by (cases a; cases b) (auto intro: fmap_ext)

lemma om_delta_merge_None [simp]: "om_delta (om_merge V a b) = None"
  by (simp add: om_merge_def Let_def)

lemma om_wf_merge:
  assumes "replicated_data P (vo_merge V) (vo_reset_delta V)" "om_wf P a" "om_wf P b"
  shows "om_wf P (om_merge V a b)"
  unfolding om_wf_def
proof (intro conjI allI)
  note wf = om_wfD(1) [OF assms(2)] om_wfD(1) [OF assms(3)]
  show "os_wf (om_keys (om_merge V a b))" using wf by (simp add: os_wf_merge)
  show "os_contains (om_keys (om_merge V a b)) k = om_contains_key (om_merge V a b) k" for k
    using os_contains_merge_sub [OF wf, of k] om_wfD(2) [OF assms(2), of k] om_wfD(2) [OF assms(3), of k]
    by (auto simp: om_contains_key_def om_values_merge merge_values_def split: option.splits)
  show "fmpred (\<lambda>_ v. P v) (om_values (om_merge V a b))"
    using om_wfD(3) [OF assms(2)] om_wfD(3) [OF assms(3)] replicated_data.wf_merge [OF assms(1)]
    by (auto simp: fmpred_iff om_values_merge merge_values_def split: option.splits if_splits)
qed

text \<open>
  C24: The merge of two OR-maps whose values satisfy the merge contract keeps keys and values in step, is
  commutative, and merging a map with itself only clears deltas; a key is present exactly if the
  merged key set has it, and then its value is the merge of the values of both sides.
\<close>

theorem ormap_merge_laws:
  fixes a b :: "('k::linorder, 'v, 'd) ormap"
  assumes "replicated_data P (vo_merge V) (vo_reset_delta V)" and "om_wf P a" and "om_wf P b"
  shows "om_wf P (om_merge V a b) \<and> om_merge V a b = om_merge V b a \<and>
    om_keys (om_merge V a a) = os_reset_delta (om_keys a) \<and>
    om_get (om_merge V a a) k = map_option (vo_reset_delta V) (om_get a k) \<and>
    om_get (om_merge V a b) k =
      (if os_contains (os_merge (om_keys a) (om_keys b)) k
       then merge_values (vo_merge V) (om_get a k) (om_get b k) else None)"
proof (intro conjI)
  note wf = om_wfD(1) [OF assms(2)] om_wfD(1) [OF assms(3)]
  show "om_wf P (om_merge V a b)" using assms by (rule om_wf_merge)
  have comm: "merge_values (vo_merge V) (fmlookup (om_values a) k) (fmlookup (om_values b) k) =
      merge_values (vo_merge V) (fmlookup (om_values b) k) (fmlookup (om_values a) k)" for k
    using om_wfD(3) [OF assms(2), of k] om_wfD(3) [OF assms(3), of k]
    by (auto simp: merge_values_def replicated_data.merge_commute [OF assms(1)] split: option.splits)
  show "om_merge V a b = om_merge V b a"
    by (rule ormap_eqI) (simp_all add: om_values_merge os.merge_commute [OF wf] comm)
  show self: "om_keys (om_merge V a a) = os_reset_delta (om_keys a)"
    using wf by (simp add: os.merge_self)
  show "om_get (om_merge V a a) k = map_option (vo_reset_delta V) (om_get a k)"
    using wf om_wfD(2,3) [OF assms(2), of k]
    by (auto simp: om_get_def om_values_merge os.merge_self merge_values_def
        replicated_data.merge_self [OF assms(1)] split: option.splits)
  show "om_get (om_merge V a b) k =
      (if os_contains (os_merge (om_keys a) (om_keys b)) k
       then merge_values (vo_merge V) (om_get a k) (om_get b k) else None)"
    by (simp add: om_get_def om_values_merge)
qed

definition gcounter_ops :: "(gcounter, gcounter) value_ops" where
  "gcounter_ops = \<lparr> vo_merge = gc_merge, vo_delta = gc_delta, vo_merge_delta = gc_merge_delta,
     vo_reset_delta = gc_reset_delta, vo_zero = gc_zero, vo_modified_by = gc_modified_by,
     vo_need_pruning_from = gc_need_pruning_from, vo_prune = gc_prune, vo_pruning_cleanup = gc_pruning_cleanup \<rparr>"

theorem ormap_merge_laws_witness:
  "om_merge gcounter_ops (the (om_put om_new replica_a (1 :: int) gc_new)) (the (om_put om_new replica_b 1 gc_new)) =
   om_merge gcounter_ops (the (om_put om_new replica_b 1 gc_new)) (the (om_put om_new replica_a 1 gc_new))"
proof -
  have wf: "om_wf gc_wf (the (om_put om_new r 1 gc_new) :: (int, gcounter, gcounter) ormap)" for r
    using om_put_Some [of "om_new :: (int, gcounter, gcounter) ormap" r 1 gc_new gc_wf]
    by (auto simp: om_wf_new)
  have "replicated_data gc_wf (vo_merge gcounter_ops) (vo_reset_delta gcounter_ops)"
    unfolding gcounter_ops_def by (simp add: gc.replicated_data_axioms)
  from ormap_merge_laws [OF this wf wf, THEN conjunct2, THEN conjunct1] show ?thesis .
qed

text \<open>
  C25: The merge of OR-maps is not associative. Map A puts a value under a key, B removes the
  observed key, C concurrently puts another value. Merging A and B first forgets A's value;
  merging B and C first keeps the key alive, and A's removed value is merged back in.
\<close>

theorem ormap_merge_not_associative:
  fixes k :: "'k::linorder"
  assumes "a \<noteq> c" and "om_put om_new a k v1 = Some A" and "om_remove A b k = Some B" and "om_put om_new c k v3 = Some C"
  shows "om_get (om_merge V (om_merge V A B) C) k = Some v3 \<and>
         om_get (om_merge V A (om_merge V B C)) k = Some (vo_merge V v1 v3)"
proof -
  let ?A = "os_add os_new a k" and ?C = "os_add os_new c k" and ?B = "os_remove (os_reset_delta (os_add os_new a k)) b k"
  have new [simp]: "os_reset_delta os_new = os_new" by (simp add: os_reset_delta_def os_new_def)
  have kA: "om_keys A = ?A" "om_values A = fmupd k v1 fmempty" "om_keys C = ?C" "om_values C = fmupd k v3 fmempty"
    using assms(2,4) by (auto simp: om_put_def os_delta_add Let_def om_new_def)
  have kB: "om_keys B = ?B" "fmlookup (om_values B) k = None"
    using assms(3) kA by (auto simp: om_remove_def Let_def om_contains_key_def split: option.splits)
  have one: "saturating_add 0 1 = (1 :: u64)" by (simp add: saturating_add_def)
  have wf: "os_wf ?A" "os_wf ?B" "os_wf ?C" by (simp_all add: os_wf_remove)
  have at: "os_at ?A k q = (if q = a then 1 else 0)" "os_at ?C k q = (if q = c then 1 else 0)" "os_at ?B k q = 0" for q
    by (simp_all add: os_at_add os_at_remove one os_at_def [of os_new])
  have vv: "vv_version_at (os_vv ?A) q = (if q = a then 1 else 0)" "vv_version_at (os_vv ?C) q = (if q = c then 1 else 0)"
    "vv_version_at (os_vv ?B) q = (if q = a then 1 else 0)" for q
    by (simp_all add: one)
  have AB: "\<not> os_contains (os_merge ?A ?B) k" and BC: "os_contains (os_merge ?B ?C) k"
    using assms(1) by (auto simp: os_contains_merge wf at vv simp del: os_vv_add os_vv_remove os_reset_simps)
  have "os_at (os_merge ?B ?C) k c = 1"
    using assms(1) by (simp add: os_at_merge wf at vv del: os_vv_add os_vv_remove os_reset_simps)
  then have A_BC: "os_contains (os_merge ?A (os_merge ?B ?C)) k"
    using assms(1) by (auto simp: os_contains_merge [OF wf(1) os_wf_merge [OF wf(2,3)]] vv simp del: os_vv_add)
  have "vv_version_at (os_vv (os_merge ?A ?B)) c < os_at ?C k c"
    using assms(1) by (simp add: vv at del: os_vv_add os_vv_remove os_reset_simps)
  then have AB_C: "os_contains (os_merge (os_merge ?A ?B) ?C) k"
    by (subst os_contains_merge [OF os_wf_merge [OF wf(1,2)] wf(3)]) blast
  show ?thesis
    using AB BC A_BC AB_C by (simp add: om_get_def om_values_merge kA kB merge_values_def)
qed

theorem ormap_merge_not_associative_witness:
  "let A = the (om_put om_new replica_a (1 :: int) (gc_from_state [(replica_a, 1)]));
       B = the (om_remove A replica_b 1);
       C = the (om_put om_new replica_b 1 (gc_from_state [(replica_b, 1)]))
   in om_merge gcounter_ops (om_merge gcounter_ops A B) C \<noteq> om_merge gcounter_ops A (om_merge gcounter_ops B C)"
proof -
  let ?v = "\<lambda>r. gc_from_state [(r, 1)]"
  let ?new = "om_new :: (int, gcounter, gcounter) ormap"
  let ?A = "the (om_put ?new replica_a 1 (?v replica_a))" and ?C = "the (om_put ?new replica_b 1 (?v replica_b))"
  note put = om_put_Some [of ?new _ 1 _ "\<lambda>_. True"]
  have A: "om_put ?new replica_a 1 (?v replica_a) = Some ?A" "om_wf (\<lambda>_. True) ?A"
    and C: "om_put ?new replica_b 1 (?v replica_b) = Some ?C"
    using put [of replica_a "?v replica_a"] put [of replica_b "?v replica_b"] by (auto simp: om_wf_new)
  have B: "om_remove ?A replica_b 1 = Some (the (om_remove ?A replica_b 1))"
    using om_remove_Some [OF A(2), of replica_b 1] by fastforce
  have "gc_replica_value (?v replica_b) replica_a \<noteq> gc_replica_value (gc_merge (?v replica_a) (?v replica_b)) replica_a"
    by (simp add: gc_replica_value_def gc_from_state_def gc_merge_def fmlookup_merge_max)
  then have "?v replica_b \<noteq> gc_merge (?v replica_a) (?v replica_b)" by metis
  then have ne: "?v replica_b \<noteq> vo_merge gcounter_ops (?v replica_a) (?v replica_b)"
    by (simp add: gcounter_ops_def)
  show ?thesis
    using ormap_merge_not_associative [OF _ A(1) B C, of gcounter_ops] ne by (auto simp: Let_def)
qed

end
