(* ===== verification/Sets_Registers.thy ===== *)
theory Sets_Registers
  imports Replicated_Data
begin

text \<open>
  \<open>GSet\<close> and \<open>LWWRegister\<close> of \<open>kairo-distributed-data/src/gset.rs\<close> and \<open>lww_register.rs\<close>.
  The wall clock that the register's default clocks read is the argument \<open>now\<close>. The register is a
  semilattice on the states of one write history: \<open>w\<close> records which value each replica wrote at
  each timestamp, so that a replica and a timestamp determine the value.
\<close>

section \<open>\<open>GSet\<close>\<close>

datatype 'a gset = GSet (gs_elements: "'a fset") (gs_delta: "'a gset option")

definition gs_new :: "'a gset" where
  "gs_new = GSet {||} None"

definition gs_from_elements :: "'a list \<Rightarrow> 'a gset" where
  "gs_from_elements xs = GSet (fset_of_list xs) None"

definition gs_contains :: "'a gset \<Rightarrow> 'a \<Rightarrow> bool" where
  "gs_contains s x \<longleftrightarrow> x |\<in>| gs_elements s"

definition gs_add :: "'a gset \<Rightarrow> 'a \<Rightarrow> 'a gset" where
  "gs_add s x =
     (let elements = finsert x (gs_elements s);
          delta = (case gs_delta s of
                     Some d \<Rightarrow> Some (GSet (finsert x (gs_elements d)) None)
                   | None \<Rightarrow> Some (gs_from_elements [x]))
      in GSet elements delta)"

definition gs_merge :: "'a gset \<Rightarrow> 'a gset \<Rightarrow> 'a gset" where
  "gs_merge a b = GSet (gs_elements a |\<union>| gs_elements b) None"

definition gs_merge_delta :: "'a gset \<Rightarrow> 'a gset \<Rightarrow> 'a gset" where
  "gs_merge_delta s d = gs_merge s d"

definition gs_reset_delta :: "'a gset \<Rightarrow> 'a gset" where
  "gs_reset_delta s = GSet (gs_elements s) None"

definition gs_zero :: "'a gset \<Rightarrow> 'a gset" where
  "gs_zero d = gs_new"

definition gs_modified_by :: "'a gset \<Rightarrow> replica_id list" where
  "gs_modified_by s = []"

definition gs_need_pruning_from :: "'a gset \<Rightarrow> replica_id \<Rightarrow> bool" where
  "gs_need_pruning_from s removed = False"

definition gs_prune :: "'a gset \<Rightarrow> replica_id \<Rightarrow> replica_id \<Rightarrow> (crdt_error, 'a gset) result" where
  "gs_prune s removed collapse_into = Ok s"

definition gs_pruning_cleanup :: "'a gset \<Rightarrow> replica_id \<Rightarrow> 'a gset" where
  "gs_pruning_cleanup s removed = s"

section \<open>\<open>LWWRegister\<close>\<close>

text \<open>Timestamps are \<open>i64\<close>: integers between \<open>i64_min\<close> and \<open>i64_max\<close>.\<close>

definition i64_max :: int where "i64_max = 2 ^ 63 - 1"
definition i64_min :: int where "i64_min = - (2 ^ 63)"

definition i64_saturate :: "int \<Rightarrow> int" where
  "i64_saturate x = max i64_min (min i64_max x)"

datatype 'a lww_register =
  LWWRegister (lww_node: replica_id) (lww_value: 'a) (lww_timestamp: int)
    (lww_delta: "'a lww_register option")

definition lww_new :: "replica_id \<Rightarrow> 'a \<Rightarrow> int \<Rightarrow> 'a lww_register" where
  "lww_new node value timestamp = LWWRegister node value timestamp None"

definition lww_with_value :: "'a lww_register \<Rightarrow> replica_id \<Rightarrow> 'a \<Rightarrow> int \<Rightarrow> 'a lww_register" where
  "lww_with_value r node value timestamp =
     (let next = lww_new node value timestamp
      in LWWRegister (lww_node next) (lww_value next) (lww_timestamp next) (Some next))"

definition lww_with_value_by_clock ::
  "'a lww_register \<Rightarrow> replica_id \<Rightarrow> 'a \<Rightarrow> (int \<Rightarrow> 'a \<Rightarrow> int) \<Rightarrow> 'a lww_register" where
  "lww_with_value_by_clock r node value clock =
     (let timestamp = clock (lww_timestamp r) value in lww_with_value r node value timestamp)"

text \<open>
  \<open>now_millis\<close> is the wall clock in milliseconds since the epoch, zero before it;
  \<open>system_time_millis\<close> caps it at the greatest \<open>i64\<close>.
\<close>

definition system_time_millis :: "nat \<Rightarrow> int" where
  "system_time_millis now_millis = (if int now_millis \<le> i64_max then int now_millis else i64_max)"

definition default_lww_clock :: "nat \<Rightarrow> int \<Rightarrow> int" where
  "default_lww_clock now current = max (system_time_millis now) (i64_saturate (current + 1))"

definition reverse_lww_clock :: "nat \<Rightarrow> int \<Rightarrow> int" where
  "reverse_lww_clock now current =
     min (i64_saturate (- system_time_millis now)) (i64_saturate (current - 1))"

definition lww_with_default_clock :: "nat \<Rightarrow> replica_id \<Rightarrow> 'a \<Rightarrow> 'a lww_register" where
  "lww_with_default_clock now node value = lww_new node value (default_lww_clock now 0)"

definition lww_with_value_default_clock ::
  "nat \<Rightarrow> 'a lww_register \<Rightarrow> replica_id \<Rightarrow> 'a \<Rightarrow> 'a lww_register" where
  "lww_with_value_default_clock now r node value =
     lww_with_value_by_clock r node value (\<lambda>timestamp _. default_lww_clock now timestamp)"

definition lww_with_value_reverse_clock ::
  "nat \<Rightarrow> 'a lww_register \<Rightarrow> replica_id \<Rightarrow> 'a \<Rightarrow> 'a lww_register" where
  "lww_with_value_reverse_clock now r node value =
     lww_with_value_by_clock r node value (\<lambda>timestamp _. reverse_lww_clock now timestamp)"

definition lww_reset_delta :: "'a lww_register \<Rightarrow> 'a lww_register" where
  "lww_reset_delta r = LWWRegister (lww_node r) (lww_value r) (lww_timestamp r) None"

definition lww_merge :: "'a lww_register \<Rightarrow> 'a lww_register \<Rightarrow> 'a lww_register" where
  "lww_merge a b =
     (let winner =
        (if lww_timestamp a > lww_timestamp b then a
         else if lww_timestamp a < lww_timestamp b then b
         else if lww_node a \<le> lww_node b then a
         else b)
      in lww_reset_delta winner)"

definition lww_merge_delta :: "'a lww_register \<Rightarrow> 'a lww_register \<Rightarrow> 'a lww_register" where
  "lww_merge_delta r d = lww_merge r d"

definition lww_zero :: "'a lww_register \<Rightarrow> 'a lww_register" where
  "lww_zero d = lww_reset_delta d"

definition lww_modified_by :: "'a lww_register \<Rightarrow> replica_id list" where
  "lww_modified_by r = [lww_node r]"

definition lww_need_pruning_from :: "'a lww_register \<Rightarrow> replica_id \<Rightarrow> bool" where
  "lww_need_pruning_from r removed \<longleftrightarrow> lww_node r = removed"

definition lww_prune ::
  "'a lww_register \<Rightarrow> replica_id \<Rightarrow> replica_id \<Rightarrow> (crdt_error, 'a lww_register) result" where
  "lww_prune r removed collapse_into =
     (if lww_need_pruning_from r removed
      then Ok (LWWRegister collapse_into (lww_value r) (lww_timestamp r) None)
      else Ok (lww_reset_delta r))"

definition lww_pruning_cleanup :: "'a lww_register \<Rightarrow> replica_id \<Rightarrow> 'a lww_register" where
  "lww_pruning_cleanup r removed = lww_reset_delta r"

section \<open>Invariants\<close>

definition gs_wf :: "'a gset \<Rightarrow> bool" where
  "gs_wf s \<longleftrightarrow> (case gs_delta s of None \<Rightarrow> True | Some d \<Rightarrow> gs_delta d = None)"

text \<open>The register's write is the one its replica made at its timestamp.\<close>

definition lww_written :: "(replica_id \<times> int \<rightharpoonup> 'a) \<Rightarrow> 'a lww_register \<Rightarrow> bool" where
  "lww_written w r \<longleftrightarrow> w (lww_node r, lww_timestamp r) = Some (lww_value r)"

definition lww_wf :: "(replica_id \<times> int \<rightharpoonup> 'a) \<Rightarrow> 'a lww_register \<Rightarrow> bool" where
  "lww_wf w r \<longleftrightarrow> lww_written w r \<and>
     (case lww_delta r of None \<Rightarrow> True | Some d \<Rightarrow> lww_written w d \<and> lww_delta d = None)"

text \<open>\<open>lww_supersedes a b\<close>: the write of \<open>a\<close> wins over the write of \<open>b\<close>.\<close>

definition lww_supersedes :: "'a lww_register \<Rightarrow> 'a lww_register \<Rightarrow> bool" where
  "lww_supersedes a b \<longleftrightarrow>
     lww_timestamp b < lww_timestamp a \<or> lww_timestamp a = lww_timestamp b \<and> lww_node a \<le> lww_node b"

section \<open>Lemmas\<close>

lemmas gs_defs = gs_new_def gs_merge_def gs_merge_delta_def gs_reset_delta_def gs_add_def
  gs_from_elements_def gs_wf_def

interpretation gs: delta_state gs_wf gs_merge gs_reset_delta gs_delta
  by unfold_locales (auto simp: gs_defs tracks_def sup_commute sup_assoc split: option.splits)

lemma gs_wf_add: "gs_wf s \<Longrightarrow> gs_wf (gs_add s x)"
  by (simp add: gs_defs Let_def split: option.splits)

lemma gs_tracks_add:
  assumes "tracks gs_merge gs_reset_delta gs_delta base s"
  shows "tracks gs_merge gs_reset_delta gs_delta base (gs_add s x)"
  using assms by (auto simp: tracks_def gs_defs Let_def split: option.splits)

lemma gs_add_fold:
  assumes "gs_wf s" "tracks gs_merge gs_reset_delta gs_delta base s"
  shows "gs_wf (fold (\<lambda>x s. gs_add s x) xs s) \<and>
    tracks gs_merge gs_reset_delta gs_delta base (fold (\<lambda>x s. gs_add s x) xs s) \<and>
    gs_elements (fold (\<lambda>x s. gs_add s x) xs s) = fset_of_list xs |\<union>| gs_elements s"
  using assms
proof (induction xs arbitrary: s)
  case (Cons x xs)
  have "gs_elements (gs_add s x) = finsert x (gs_elements s)"
    by (simp add: gs_add_def Let_def)
  then show ?case
    using Cons.IH [OF gs_wf_add [OF Cons.prems(1)] gs_tracks_add [OF Cons.prems(2)]] by simp
qed simp

lemma lww_merge_cases:
  "lww_merge a b = (if lww_supersedes a b then lww_reset_delta a else lww_reset_delta b)"
  by (auto simp: lww_merge_def lww_supersedes_def Let_def)

lemma lww_supersedes_total: "lww_supersedes a b \<or> lww_supersedes b a"
  by (auto simp: lww_supersedes_def)

lemma lww_supersedes_trans: "lww_supersedes a b \<Longrightarrow> lww_supersedes b c \<Longrightarrow> lww_supersedes a c"
  by (auto simp: lww_supersedes_def)

lemma lww_supersedes_antisym:
  assumes "lww_wf w a" "lww_wf w b" "lww_supersedes a b" "lww_supersedes b a"
  shows "lww_reset_delta a = lww_reset_delta b"
proof -
  have "lww_timestamp a = lww_timestamp b" and "lww_node a = lww_node b"
    using assms(3,4) unfolding lww_supersedes_def by force+
  then show ?thesis
    using assms(1,2) by (simp add: lww_wf_def lww_written_def lww_reset_delta_def)
qed

lemma lww_supersedes_reset [simp]:
  "lww_supersedes (lww_reset_delta a) b = lww_supersedes a b"
  "lww_supersedes a (lww_reset_delta b) = lww_supersedes a b"
  by (simp_all add: lww_supersedes_def lww_reset_delta_def)

lemma lww_reset_simps [simp]:
  "lww_reset_delta (lww_reset_delta a) = lww_reset_delta a"
  "lww_wf w a \<Longrightarrow> lww_wf w (lww_reset_delta a)"
  "lww_delta (lww_reset_delta a) = None"
  by (simp_all add: lww_reset_delta_def lww_wf_def lww_written_def)

interpretation lww: delta_state "lww_wf w" lww_merge lww_reset_delta lww_delta for w
proof
  fix a b c :: "'a lww_register"
  show "lww_wf w a \<Longrightarrow> lww_wf w b \<Longrightarrow> lww_wf w (lww_merge a b)"
    by (simp add: lww_merge_cases)
  show "lww_wf w a \<Longrightarrow> lww_wf w (lww_reset_delta a)"
    by simp
  show "lww_wf w a \<Longrightarrow> lww_wf w b \<Longrightarrow> lww_merge a b = lww_merge b a"
    using lww_supersedes_antisym lww_supersedes_total by (fastforce simp: lww_merge_cases)
  show "lww_wf w a \<Longrightarrow> lww_wf w b \<Longrightarrow> lww_wf w c \<Longrightarrow>
      lww_merge (lww_merge a b) c = lww_merge a (lww_merge b c)"
    using lww_supersedes_trans lww_supersedes_total by (fastforce simp: lww_merge_cases)
  show "lww_wf w a \<Longrightarrow> lww_merge a a = lww_reset_delta a"
    by (simp add: lww_merge_cases)
  show "lww_wf w a \<Longrightarrow> lww_wf w b \<Longrightarrow> lww_merge (lww_reset_delta a) b = lww_merge a b"
    by (simp add: lww_merge_cases)
  show "lww_wf w a \<Longrightarrow> lww_wf w b \<Longrightarrow> lww_reset_delta (lww_merge a b) = lww_merge a b"
    by (simp add: lww_merge_cases)
  show "lww_wf w a \<Longrightarrow> lww_delta a = Some d \<Longrightarrow> lww_wf w d" for d
    by (simp add: lww_wf_def)
  show "lww_wf w a \<Longrightarrow> tracks lww_merge lww_reset_delta lww_delta a (lww_reset_delta a)"
    by (simp add: tracks_def)
qed

lemma default_lww_clock_greater:
  "i64_min \<le> ts \<Longrightarrow> ts < i64_max \<Longrightarrow> ts < default_lww_clock now ts \<and> default_lww_clock now ts \<le> i64_max"
  by (auto simp: default_lww_clock_def system_time_millis_def i64_saturate_def i64_max_def i64_min_def)

lemma reverse_lww_clock_less:
  "i64_min < ts \<Longrightarrow> ts \<le> i64_max \<Longrightarrow> reverse_lww_clock now ts < ts \<and> i64_min \<le> reverse_lww_clock now ts"
  by (auto simp: reverse_lww_clock_def system_time_millis_def i64_saturate_def i64_max_def i64_min_def)

section \<open>Properties\<close>

text \<open>shipping the accumulated delta of any run of adds to a replica that holds at least the starting
  elements has the effect of shipping the whole grow-only set, and the set then holds the added
  elements.\<close>

lemma gset_delta_equivalent:
  assumes "gs_wf base" and "gs_wf t" and "gs_elements base |\<subseteq>| gs_elements t"
    and "s = fold (\<lambda>x s. gs_add s x) xs (gs_reset_delta base)" and "gs_delta s = Some d"
  shows "gs_merge_delta t d = gs_merge t s \<and>
    gs_elements (gs_merge_delta t d) = gs_elements t |\<union>| fset_of_list xs"
proof -
  have s: "gs_wf s" "tracks gs_merge gs_reset_delta gs_delta base s"
    "gs_elements s = fset_of_list xs |\<union>| gs_elements base"
    using gs_add_fold [of "gs_reset_delta base" base xs] assms gs.tracks_reset gs.wf_reset
    by (auto simp: gs_reset_delta_def)
  have "gs.below base t"
    using assms(3) by (simp add: gs.below_def gs_defs sup_absorb2)
  then have "gs_merge t d = gs_merge t s"
    using s assms by (intro gs.delta_suffices) auto
  then show ?thesis
    using s assms(3) by (auto simp: gs_merge_delta_def gs_merge_def)
qed

lemma gset_delta_equivalent_witness:
  "\<exists>d. gs_delta (gs_add (gs_new :: nat gset) 7) = Some d \<and>
     gs_merge_delta gs_new d = gs_merge gs_new (gs_add gs_new 7)"
proof -
  have d: "gs_delta (gs_add (gs_new :: nat gset) 7) = Some (GSet {|7|} None)"
    by (simp add: gs_defs Let_def)
  then show ?thesis
    using gset_delta_equivalent [of gs_new gs_new "gs_add gs_new 7" "[7]" "GSet {|7|} None"]
    by (simp add: gs_defs)
qed

text \<open>
  Replicas of a last-writer-wins register that received the same writes of one history are equal. A write stamped by the
  default clock wins over the value it replaced, unless the clock has reached the largest timestamp, where it saturates.
\<close>

lemma lww_convergence:
  assumes "lww_wf w s" and "\<forall>x \<in> set xs. lww_wf w x" and "set xs = set ys" and "xs \<noteq> []"
  shows "deliver lww_merge s xs = deliver lww_merge s ys"
  using assms by (rule lww.deliver_same_set)

lemma lww_default_clock_wins:
  assumes "i64_min \<le> lww_timestamp s" and "lww_timestamp s < i64_max"
    and "s' = lww_with_value_default_clock now s node value"
  shows "lww_merge s s' = lww_reset_delta s' \<and> lww_merge s' s = lww_reset_delta s'"
proof -
  have "lww_timestamp s < lww_timestamp s'"
    using assms default_lww_clock_greater [of "lww_timestamp s" now]
    by (simp add: lww_with_value_default_clock_def lww_with_value_by_clock_def
        lww_with_value_def lww_new_def Let_def)
  then show ?thesis by (simp add: lww_merge_cases lww_supersedes_def)
qed

end
