(* ===== verification/Pruning.thy ===== *)
theory Pruning
  imports OR_Map Sets_Registers
begin

text \<open>
  Removed-replica pruning: \<open>pruning.rs\<close> and \<open>envelope.rs\<close> of \<open>kairo-distributed-data/src\<close>. A \<open>BTreeSet\<close>
  is an \<open>fset\<close> iterated by \<open>sorted_list_of_fset\<close>; a method with \<open>&mut self\<close> returns the new table with its
  result. The pruning table is shown to be a replicated datum. The contract of \<open>RemovedNodePruning\<close> is
  the locale \<open>removed_node_pruning\<close>, interpreted on the data types; it gives that data of a
  pruned replica does not come back through a pruning-aware merge.
\<close>

section \<open>Pruning states\<close>

record pruning_initialized =
  pi_owner :: replica_id
  pi_seen :: "replica_id fset"

record pruning_performed =
  pp_obsolete_at_millis :: u64

datatype pruning_state =
    Initialized pruning_initialized
  | Performed pruning_performed

definition pi_new :: "replica_id \<Rightarrow> pruning_initialized" where
  "pi_new owner = \<lparr>pi_owner = owner, pi_seen = {||}\<rparr>"

definition pi_add_seen :: "pruning_initialized \<Rightarrow> replica_id \<Rightarrow> pruning_initialized" where
  "pi_add_seen i node =
     (if node = pi_owner i \<or> node |\<in>| pi_seen i then i
      else \<lparr>pi_owner = pi_owner i, pi_seen = finsert node (pi_seen i)\<rparr>)"

definition pi_is_seen_by_all :: "pruning_initialized \<Rightarrow> replica_id list \<Rightarrow> bool" where
  "pi_is_seen_by_all i live_replicas =
     list_all (\<lambda>replica. replica = pi_owner i \<or> replica |\<in>| pi_seen i) live_replicas"

definition pi_merge :: "pruning_initialized \<Rightarrow> pruning_initialized \<Rightarrow> pruning_initialized" where
  "pi_merge a b =
     (if pi_owner a = pi_owner b then \<lparr>pi_owner = pi_owner a, pi_seen = pi_seen a |\<union>| pi_seen b\<rparr>
      else if pi_owner a < pi_owner b then a else b)"

definition pp_is_obsolete :: "pruning_performed \<Rightarrow> u64 \<Rightarrow> bool" where
  "pp_is_obsolete p now_millis \<longleftrightarrow> pp_obsolete_at_millis p \<le> now_millis"

definition ps_initialized :: "replica_id \<Rightarrow> pruning_state" where
  "ps_initialized owner = Initialized (pi_new owner)"

definition ps_performed :: "u64 \<Rightarrow> pruning_state" where
  "ps_performed obsolete_at_millis = Performed \<lparr>pp_obsolete_at_millis = obsolete_at_millis\<rparr>"

definition ps_add_seen :: "pruning_state \<Rightarrow> replica_id \<Rightarrow> pruning_state" where
  "ps_add_seen s node =
     (case s of Initialized initialized \<Rightarrow> Initialized (pi_add_seen initialized node) | Performed _ \<Rightarrow> s)"

fun ps_merge :: "pruning_state \<Rightarrow> pruning_state \<Rightarrow> pruning_state" where
  "ps_merge (Performed l) (Performed r) =
     (if pp_obsolete_at_millis l \<ge> pp_obsolete_at_millis r then Performed l else Performed r)"
| "ps_merge (Performed l) (Initialized _) = Performed l"
| "ps_merge (Initialized _) (Performed r) = Performed r"
| "ps_merge (Initialized l) (Initialized r) = Initialized (pi_merge l r)"

definition ps_is_obsolete :: "pruning_state \<Rightarrow> u64 \<Rightarrow> bool" where
  "ps_is_obsolete s now_millis =
     (case s of Performed performed \<Rightarrow> pp_is_obsolete performed now_millis | Initialized _ \<Rightarrow> False)"

section \<open>The pruning table\<close>

record pruning_table =
  pt_states :: "(replica_id, pruning_state) fmap"

definition pt_new :: pruning_table where
  "pt_new = \<lparr>pt_states = fmempty\<rparr>"

definition pt_is_empty :: "pruning_table \<Rightarrow> bool" where
  "pt_is_empty t = bt_is_empty (pt_states t)"

definition pt_get :: "pruning_table \<Rightarrow> replica_id \<Rightarrow> pruning_state option" where
  "pt_get t removed = fmlookup (pt_states t) removed"

definition pt_set_state :: "pruning_table \<Rightarrow> replica_id \<Rightarrow> pruning_state \<Rightarrow> pruning_table \<times> bool" where
  "pt_set_state t removed next =
     (let changed = fmlookup (pt_states t) removed \<noteq> Some next
      in (\<lparr>pt_states = fmupd removed next (pt_states t)\<rparr>, changed))"

definition pt_initialize :: "pruning_table \<Rightarrow> replica_id \<Rightarrow> replica_id \<Rightarrow> pruning_table \<times> bool" where
  "pt_initialize t removed owner = pt_set_state t removed (ps_initialized owner)"

definition pt_mark_seen :: "pruning_table \<Rightarrow> replica_id \<Rightarrow> replica_id \<Rightarrow> pruning_table \<times> bool" where
  "pt_mark_seen t removed seen_by =
     (case fmlookup (pt_states t) removed of
        None \<Rightarrow> (t, False)
      | Some current \<Rightarrow> pt_set_state t removed (ps_add_seen current seen_by))"

definition pt_mark_all_seen_by :: "pruning_table \<Rightarrow> replica_id \<Rightarrow> pruning_table \<times> bool" where
  "pt_mark_all_seen_by t seen_by =
     fold (\<lambda>removed (t, changed). let (t', c) = pt_mark_seen t removed seen_by in (t', changed \<or> c))
       (bt_keys (pt_states t)) (t, False)"

definition pt_ready_to_perform :: "pruning_table \<Rightarrow> replica_id \<Rightarrow> replica_id list \<Rightarrow> replica_id fset" where
  "pt_ready_to_perform t owner live_replicas =
     fset_of_list (List.map_filter (\<lambda>(removed, state).
       (case state of
          Initialized initialized \<Rightarrow>
            if pi_owner initialized = owner \<and> pi_is_seen_by_all initialized live_replicas then Some removed else None
        | Performed _ \<Rightarrow> None)) (bt_entries (pt_states t)))"

definition pt_mark_performed :: "pruning_table \<Rightarrow> replica_id \<Rightarrow> u64 \<Rightarrow> pruning_table \<times> bool" where
  "pt_mark_performed t removed obsolete_at_millis = pt_set_state t removed (ps_performed obsolete_at_millis)"

definition pt_remove_obsolete_performed :: "pruning_table \<Rightarrow> u64 \<Rightarrow> pruning_table \<times> replica_id fset" where
  "pt_remove_obsolete_performed t now_millis =
     (let obsolete = fset_of_list (List.map_filter
            (\<lambda>(removed, state). if ps_is_obsolete state now_millis then Some removed else None)
            (bt_entries (pt_states t)))
      in (\<lparr>pt_states = fold fmdrop (sorted_list_of_fset obsolete) (pt_states t)\<rparr>, obsolete))"

definition pt_merge :: "pruning_table \<Rightarrow> pruning_table \<Rightarrow> pruning_table" where
  "pt_merge a b =
     \<lparr>pt_states = fold (\<lambda>(removed, this_state) states. fmupd removed
         (case fmlookup states removed of
            Some that_state \<Rightarrow> ps_merge this_state that_state
          | None \<Rightarrow> this_state) states) (bt_entries (pt_states a)) (pt_states b)\<rparr>"

definition pt_merge_without_obsolete :: "pruning_table \<Rightarrow> pruning_table \<Rightarrow> u64 \<Rightarrow> pruning_table" where
  "pt_merge_without_obsolete a b now_millis = fst (pt_remove_obsolete_performed (pt_merge a b) now_millis)"

section \<open>Replicas awaiting pruning\<close>

record removed_node_tracker =
  rt_removed_nodes :: "(replica_id, u64) fmap"

definition rt_new :: removed_node_tracker where
  "rt_new = \<lparr>rt_removed_nodes = fmempty\<rparr>"

definition rt_contains :: "removed_node_tracker \<Rightarrow> replica_id \<Rightarrow> bool" where
  "rt_contains t node \<longleftrightarrow> fmlookup (rt_removed_nodes t) node \<noteq> None"

definition rt_record_removed :: "removed_node_tracker \<Rightarrow> replica_id \<Rightarrow> u64 \<Rightarrow> removed_node_tracker \<times> bool" where
  "rt_record_removed t node all_reachable_time_nanos =
     (case fmlookup (rt_removed_nodes t) node of
        None \<Rightarrow> (\<lparr>rt_removed_nodes = fmupd node all_reachable_time_nanos (rt_removed_nodes t)\<rparr>, True)
      | Some _ \<Rightarrow> (t, False))"

definition rt_forget_removed :: "removed_node_tracker \<Rightarrow> replica_id \<Rightarrow> removed_node_tracker \<times> bool" where
  "rt_forget_removed t node =
     (\<lparr>rt_removed_nodes = fmdrop node (rt_removed_nodes t)\<rparr>, fmlookup (rt_removed_nodes t) node \<noteq> None)"

definition rt_record_unknown_modified_nodes ::
  "removed_node_tracker \<Rightarrow> replica_id list \<Rightarrow> replica_id fset \<Rightarrow> replica_id \<Rightarrow> u64
     \<Rightarrow> removed_node_tracker \<times> replica_id fset" where
  "rt_record_unknown_modified_nodes t modified_by known_nodes self_node all_reachable_time_nanos =
     fold (\<lambda>node (t, recorded).
       if node \<noteq> self_node \<and> node |\<notin>| known_nodes
       then let (t', new) = rt_record_removed t node all_reachable_time_nanos
            in (t', if new then finsert node recorded else recorded)
       else (t, recorded)) modified_by (t, {||})"

definition rt_ready_to_initialize :: "removed_node_tracker \<Rightarrow> u64 \<Rightarrow> u64 \<Rightarrow> replica_id fset" where
  "rt_ready_to_initialize t all_reachable_time_nanos max_pruning_dissemination_nanos =
     fset_of_list (List.map_filter (\<lambda>(node, first_seen_at).
       let elapsed = saturating_sub all_reachable_time_nanos first_seen_at
       in if elapsed > max_pruning_dissemination_nanos then Some node else None) (bt_entries (rt_removed_nodes t)))"

section \<open>Data envelopes\<close>

record 'v data_envelope =
  de_data :: 'v
  de_pruning :: pruning_table

definition de_new :: "'v \<Rightarrow> 'v data_envelope" where
  "de_new data = \<lparr>de_data = data, de_pruning = pt_new\<rparr>"

definition de_merge :: "('v, 'd, 'x) value_ops_scheme \<Rightarrow> 'v data_envelope \<Rightarrow> 'v data_envelope \<Rightarrow> 'v data_envelope" where
  "de_merge V a b = \<lparr>de_data = vo_merge V (de_data a) (de_data b), de_pruning = pt_merge (de_pruning a) (de_pruning b)\<rparr>"

definition de_merge_data :: "('v, 'd, 'x) value_ops_scheme \<Rightarrow> 'v data_envelope \<Rightarrow> 'v \<Rightarrow> 'v data_envelope" where
  "de_merge_data V e other = \<lparr>de_data = vo_merge V (de_data e) other, de_pruning = de_pruning e\<rparr>"

definition de_merge_delta :: "('v, 'd, 'x) value_ops_scheme \<Rightarrow> 'v data_envelope \<Rightarrow> 'd \<Rightarrow> 'v data_envelope" where
  "de_merge_delta V e delta = \<lparr>de_data = vo_merge_delta V (de_data e) delta, de_pruning = de_pruning e\<rparr>"

definition de_init_removed_node_pruning :: "'v data_envelope \<Rightarrow> replica_id \<Rightarrow> replica_id \<Rightarrow> 'v data_envelope" where
  "de_init_removed_node_pruning e removed owner =
     \<lparr>de_data = de_data e, de_pruning = fst (pt_initialize (de_pruning e) removed owner)\<rparr>"

definition de_prune_removed_node ::
  "('v, 'd, 'x) value_ops_scheme \<Rightarrow> 'v data_envelope \<Rightarrow> replica_id \<Rightarrow> pruning_performed
     \<Rightarrow> (crdt_error, 'v data_envelope) result" where
  "de_prune_removed_node V e removed performed =
     (case pt_get (de_pruning e) removed of
        Some (Initialized initialized) \<Rightarrow>
          bind_result (vo_prune V (de_data e) removed (pi_owner initialized)) (\<lambda>data.
            Ok \<lparr>de_data = data,
                de_pruning = fst (pt_mark_performed (de_pruning e) removed (pp_obsolete_at_millis performed))\<rparr>)
      | _ \<Rightarrow> Ok e)"

definition de_pruning_cleanup :: "('v, 'd, 'x) value_ops_scheme \<Rightarrow> 'v data_envelope \<Rightarrow> replica_id \<Rightarrow> 'v data_envelope" where
  "de_pruning_cleanup V e removed = \<lparr>de_data = vo_pruning_cleanup V (de_data e) removed, de_pruning = de_pruning e\<rparr>"

definition de_add_pruning_seen :: "'v data_envelope \<Rightarrow> replica_id \<Rightarrow> 'v data_envelope" where
  "de_add_pruning_seen e seen_by =
     \<lparr>de_data = de_data e, de_pruning = fst (pt_mark_all_seen_by (de_pruning e) seen_by)\<rparr>"

definition de_remove_obsolete_pruning_performed :: "'v data_envelope \<Rightarrow> u64 \<Rightarrow> 'v data_envelope \<times> replica_id fset" where
  "de_remove_obsolete_pruning_performed e now_millis =
     (let (pruning, removed) = pt_remove_obsolete_performed (de_pruning e) now_millis
      in (\<lparr>de_data = de_data e, de_pruning = pruning\<rparr>, removed))"

definition cleanup_performed :: "('v, 'd, 'x) value_ops_scheme \<Rightarrow> 'v \<Rightarrow> pruning_table \<Rightarrow> 'v" where
  "cleanup_performed V data pruning =
     fold (\<lambda>(removed, _) current.
         if vo_need_pruning_from V current removed then vo_pruning_cleanup V current removed else current)
       (filter (\<lambda>(_, state). case state of Performed _ \<Rightarrow> True | Initialized _ \<Rightarrow> False)
         (bt_entries (pt_states pruning))) data"

definition de_merge_pruned ::
  "('v, 'd, 'x) value_ops_scheme \<Rightarrow> 'v data_envelope \<Rightarrow> 'v data_envelope \<Rightarrow> u64 \<Rightarrow> 'v data_envelope" where
  "de_merge_pruned V a b now_millis =
     (let pruning = pt_merge_without_obsolete (de_pruning a) (de_pruning b) now_millis;
          data = vo_merge V (cleanup_performed V (de_data a) pruning) (cleanup_performed V (de_data b) pruning)
      in \<lparr>de_data = data, de_pruning = pruning\<rparr>)"

definition de_merge_delta_pruned ::
  "('v, 'd, 'x) value_ops_scheme \<Rightarrow> 'v data_envelope \<Rightarrow> 'd \<Rightarrow> pruning_table \<Rightarrow> u64 \<Rightarrow> 'v data_envelope" where
  "de_merge_delta_pruned V e delta pruning now_millis =
     (let pruning = pt_merge_without_obsolete (de_pruning e) pruning now_millis;
          data = cleanup_performed V (vo_merge_delta V (de_data e) delta) pruning
      in \<lparr>de_data = data, de_pruning = pruning\<rparr>)"

section \<open>The pruning table is a replicated datum\<close>

lemma ps_merge_commute: "ps_merge a b = ps_merge b a"
  by (cases a; cases b) (auto simp: pi_merge_def intro: pruning_performed.equality)

lemma ps_merge_assoc: "ps_merge (ps_merge a b) c = ps_merge a (ps_merge b c)"
  by (cases a; cases b; cases c) (auto simp: pi_merge_def)

lemma ps_merge_self [simp]: "ps_merge a a = a"
  by (cases a) (auto simp: pi_merge_def)

definition ps_combine :: "pruning_state option \<Rightarrow> pruning_state option \<Rightarrow> pruning_state option" where
  "ps_combine x y = combine_options ps_merge x y"

lemma pt_get_merge: "pt_get (pt_merge a b) r = ps_combine (pt_get a r) (pt_get b r)"
  by (auto simp: pt_get_def pt_merge_def ps_combine_def fold_merge_lookup split: option.splits)

lemma pt_eqI: "(\<And>r. pt_get a r = pt_get b r) \<Longrightarrow> a = b" for a b :: pruning_table
  by (rule pruning_table.equality) (auto simp: pt_get_def intro: fmap_ext)

interpretation pt: replicated_data "\<lambda>_. True" pt_merge "\<lambda>t. t"
proof
  fix a b c :: pruning_table
  show "pt_merge a b = pt_merge b a"
    by (intro pt_eqI) (simp add: pt_get_merge ps_combine_def combine_options_commute ps_merge_commute)
  show "pt_merge (pt_merge a b) c = pt_merge a (pt_merge b c)"
    by (intro pt_eqI) (simp add: pt_get_merge ps_combine_def combine_options_assoc ps_merge_assoc)
  show "pt_merge a a = a"
    by (intro pt_eqI) (auto simp: pt_get_merge ps_combine_def combine_options_def split: option.split)
qed simp_all

section \<open>Operations of the table, by lookup\<close>

lemma pt_get_new [simp]: "pt_get pt_new r = None"
  by (simp add: pt_get_def pt_new_def)

lemma pt_get_set_state [simp]:
  "pt_get (fst (pt_set_state t q s)) r = (if r = q then Some s else pt_get t r)"
  by (simp add: pt_set_state_def pt_get_def Let_def)

lemma pt_get_initialize [simp]:
  "pt_get (fst (pt_initialize t q owner)) r = (if r = q then Some (ps_initialized owner) else pt_get t r)"
  by (simp add: pt_initialize_def)

lemma pt_get_mark_performed [simp]:
  "pt_get (fst (pt_mark_performed t q at)) r = (if r = q then Some (ps_performed at) else pt_get t r)"
  by (simp add: pt_mark_performed_def)

lemma pt_get_mark_seen [simp]:
  "pt_get (fst (pt_mark_seen t q n)) r = (if r = q then map_option (\<lambda>s. ps_add_seen s n) (pt_get t r) else pt_get t r)"
  by (auto simp: pt_mark_seen_def pt_get_def pt_set_state_def Let_def split: option.split)

lemma mark_seen_fold:
  "distinct ks \<Longrightarrow>
   pt_get (fst (fold (\<lambda>q (t, changed). let (t', c) = pt_mark_seen t q n in (t', changed \<or> c)) ks (t, ch))) r =
     (if r \<in> set ks then map_option (\<lambda>s. ps_add_seen s n) (pt_get t r) else pt_get t r)"
proof (induction ks arbitrary: t ch)
  case (Cons k ks)
  then show ?case
    using pt_get_mark_seen [of t k n] by (cases "pt_mark_seen t k n") auto
qed simp

lemma pt_get_mark_all_seen_by [simp]:
  "pt_get (fst (pt_mark_all_seen_by t n)) r = map_option (\<lambda>s. ps_add_seen s n) (pt_get t r)"
  unfolding pt_mark_all_seen_by_def mark_seen_fold [OF distinct_bt_keys]
  by (auto simp: pt_get_def fmlookup_dom'_iff)

lemma obsolete_iff:
  "r |\<in>| snd (pt_remove_obsolete_performed t now) \<longleftrightarrow> (\<exists>s. pt_get t r = Some s \<and> ps_is_obsolete s now)"
  by (auto simp: pt_remove_obsolete_performed_def Let_def pt_get_def fset_of_list_elem mem_map_filter_entries
      split: if_splits)

lemma pt_get_remove_obsolete [simp]:
  "pt_get (fst (pt_remove_obsolete_performed t now)) r =
     (case pt_get t r of Some s \<Rightarrow> if ps_is_obsolete s now then None else Some s | None \<Rightarrow> None)"
proof -
  have "pt_get (fst (pt_remove_obsolete_performed t now)) r =
      (if r |\<in>| snd (pt_remove_obsolete_performed t now) then None else pt_get t r)"
    by (simp add: pt_remove_obsolete_performed_def Let_def pt_get_def fold_fmdrop_lookup)
  then show ?thesis
    unfolding obsolete_iff by (auto split: option.split)
qed

lemma ready_to_perform_iff:
  "r |\<in>| pt_ready_to_perform t owner live \<longleftrightarrow>
     (\<exists>i. pt_get t r = Some (Initialized i) \<and> pi_owner i = owner \<and> (\<forall>q \<in> set live. q = owner \<or> q |\<in>| pi_seen i))"
proof -
  have "(case s of Initialized i \<Rightarrow> if P i then Some k else None | Performed _ \<Rightarrow> None) = Some r \<longleftrightarrow>
      (\<exists>i. s = Initialized i \<and> P i \<and> k = r)" for s k P
    by (cases s) auto
  then show ?thesis
    by (auto simp: pt_ready_to_perform_def pt_get_def fset_of_list_elem mem_map_filter_entries pi_is_seen_by_all_def list_all_iff)
qed

lemma pt_get_merge_without_obsolete:
  "pt_get (pt_merge_without_obsolete a b now) r =
     (case ps_combine (pt_get a r) (pt_get b r) of
        Some s \<Rightarrow> if ps_is_obsolete s now then None else Some s
      | None \<Rightarrow> None)"
  by (simp add: pt_merge_without_obsolete_def pt_get_merge)

text \<open>A performed marker that is not obsolete is still performed after a merge with any table.\<close>

lemma performed_survives_merge:
  assumes "pt_get a r = Some (Performed p)" and "now < pp_obsolete_at_millis p"
  shows "\<exists>p'. pt_get (pt_merge_without_obsolete a b now) r = Some (Performed p') \<and>
    pp_obsolete_at_millis p \<le> pp_obsolete_at_millis p'"
  using assms
  by (cases "pt_get b r"; cases "the (pt_get b r)")
    (auto simp: pt_get_merge_without_obsolete ps_combine_def ps_is_obsolete_def pp_is_obsolete_def)

section \<open>The contract of \<open>RemovedNodePruning\<close>\<close>

abbreviation is_performed :: "pruning_table \<Rightarrow> replica_id \<Rightarrow> bool" where
  "is_performed t r \<equiv> \<exists>p. pt_get t r = Some (Performed p)"

locale removed_node_pruning =
  fixes V :: "('v, 'd) value_ops"
  assumes need_merge:
      "vo_need_pruning_from V (vo_merge V a b) r \<Longrightarrow> vo_need_pruning_from V a r \<or> vo_need_pruning_from V b r"
    and need_cleanup:
      "vo_need_pruning_from V (vo_pruning_cleanup V a r) q \<longleftrightarrow> q \<noteq> r \<and> vo_need_pruning_from V a q"
begin

lemma need_cleanup_fold:
  "vo_need_pruning_from V (fold (\<lambda>(removed, _) current.
       if vo_need_pruning_from V current removed then vo_pruning_cleanup V current removed else current) xs a) q \<longleftrightarrow>
     vo_need_pruning_from V a q \<and> q \<notin> fst ` set xs"
  by (induction xs arbitrary: a) (auto simp: need_cleanup split: if_splits)

lemma need_cleanup_performed:
  "vo_need_pruning_from V (cleanup_performed V a t) q \<longleftrightarrow> vo_need_pruning_from V a q \<and> \<not> is_performed t q"
  unfolding cleanup_performed_def need_cleanup_fold pt_get_def
  by (force split: pruning_state.splits)

text \<open>No contribution of a replica whose pruning was performed survives a pruning-aware merge.\<close>

lemma merge_pruned_clean:
  "is_performed (de_pruning (de_merge_pruned V a b now)) q \<Longrightarrow>
     \<not> vo_need_pruning_from V (de_data (de_merge_pruned V a b now)) q"
  using need_merge need_cleanup_performed by (fastforce simp: de_merge_pruned_def Let_def)

lemma merge_delta_pruned_clean:
  "is_performed (de_pruning (de_merge_delta_pruned V e d t now)) q \<Longrightarrow>
     \<not> vo_need_pruning_from V (de_data (de_merge_delta_pruned V e d t now)) q"
  using need_cleanup_performed by (fastforce simp: de_merge_delta_pruned_def Let_def)

lemma stays_pruned:
  assumes "pt_get (de_pruning a) q = Some (Performed p)" and "now < pp_obsolete_at_millis p"
  shows "\<not> vo_need_pruning_from V (de_data (de_merge_pruned V a b now)) q"
    and "\<not> vo_need_pruning_from V (de_data (de_merge_delta_pruned V a d t now)) q"
proof -
  have "is_performed (de_pruning (de_merge_pruned V a b now)) q"
    "is_performed (de_pruning (de_merge_delta_pruned V a d t now)) q"
    using performed_survives_merge [OF assms] by (fastforce simp: de_merge_pruned_def de_merge_delta_pruned_def Let_def)+
  then show "\<not> vo_need_pruning_from V (de_data (de_merge_pruned V a b now)) q"
    and "\<not> vo_need_pruning_from V (de_data (de_merge_delta_pruned V a d t now)) q"
    using merge_pruned_clean merge_delta_pruned_clean by blast+
qed

end

definition pncounter_ops :: "(pncounter, pncounter) value_ops" where
  "pncounter_ops = \<lparr> vo_merge = pn_merge, vo_delta = pn_delta, vo_merge_delta = pn_merge_delta,
     vo_reset_delta = pn_reset_delta, vo_zero = pn_zero, vo_modified_by = pn_modified_by,
     vo_need_pruning_from = pn_need_pruning_from, vo_prune = pn_prune, vo_pruning_cleanup = pn_pruning_cleanup \<rparr>"

definition orset_ops :: "('a::linorder orset, 'a orset_delta) value_ops" where
  "orset_ops = \<lparr> vo_merge = os_merge, vo_delta = os_delta, vo_merge_delta = os_merge_delta,
     vo_reset_delta = os_reset_delta, vo_zero = os_zero, vo_modified_by = os_modified_by,
     vo_need_pruning_from = os_need_pruning_from, vo_prune = os_prune, vo_pruning_cleanup = os_pruning_cleanup \<rparr>"

lemma gc_need_merge: "gc_need_pruning_from (gc_merge a b) r \<Longrightarrow> gc_need_pruning_from a r \<or> gc_need_pruning_from b r"
  by (auto simp: gc_need_pruning_from_def gc_merge_def fmlookup_merge_max split: option.splits if_splits)

lemma gc_need_cleanup: "gc_need_pruning_from (gc_pruning_cleanup a r) q \<longleftrightarrow> q \<noteq> r \<and> gc_need_pruning_from a q"
  by (auto simp: gc_need_pruning_from_def gc_pruning_cleanup_def)


interpretation pnp: removed_node_pruning pncounter_ops
  by unfold_locales (auto simp: pncounter_ops_def pn_need_pruning_from_def pn_merge_def pn_pruning_cleanup_def gc_need_cleanup
      dest: gc_need_merge)


section \<open>Counters under pruning\<close>

lemma gcounter_ops_simps [simp]:
  "vo_merge gcounter_ops = gc_merge" "vo_reset_delta gcounter_ops = gc_reset_delta"
  "vo_delta gcounter_ops = gc_delta" "vo_merge_delta gcounter_ops = gc_merge_delta" "vo_zero gcounter_ops = gc_zero"
  "vo_need_pruning_from gcounter_ops = gc_need_pruning_from" "vo_prune gcounter_ops = gc_prune"
  "vo_pruning_cleanup gcounter_ops = gc_pruning_cleanup" "vo_modified_by gcounter_ops = gc_modified_by"
  by (simp_all add: gcounter_ops_def)

lemma orset_ops_simps [simp]:
  "vo_merge orset_ops = os_merge" "vo_reset_delta orset_ops = os_reset_delta"
  "vo_delta orset_ops = os_delta" "vo_merge_delta orset_ops = os_merge_delta"
  "vo_need_pruning_from orset_ops = os_need_pruning_from" "vo_prune orset_ops = os_prune"
  by (simp_all add: orset_ops_def)

lemma gc_value_cleanup_fold:
  "gc_replica_value (fold (\<lambda>(removed, _) current.
       if gc_need_pruning_from current removed then gc_pruning_cleanup current removed else current) xs c) q =
     (if q \<in> fst ` set xs then 0 else gc_replica_value c q)"
proof (induction xs arbitrary: c)
  case (Cons x xs)
  have "gc_replica_value (gc_pruning_cleanup c r) q = (if q = r then 0 else gc_replica_value c q)" for r
    by (simp add: gc_replica_value_def gc_pruning_cleanup_def)
  moreover have "\<not> gc_need_pruning_from c q \<Longrightarrow> gc_replica_value c q = 0"
    by (simp add: gc_replica_value_def gc_need_pruning_from_def)
  ultimately show ?case using Cons.IH by (cases x) auto
qed simp

lemma gc_value_cleanup_performed:
  "gc_replica_value (cleanup_performed gcounter_ops c t) q = (if is_performed t q then 0 else gc_replica_value c q)"
  unfolding cleanup_performed_def gcounter_ops_simps gc_value_cleanup_fold pt_get_def
  by (force split: pruning_state.splits)

lemma gc_total_cong: "(\<And>r. gc_replica_value a r = gc_replica_value b r) \<Longrightarrow> gc_total a = gc_total b"
  by (simp add: gc_total_mono order_antisym)

lemma gc_prune_value:
  assumes "gc_prune c removed into = Ok c'" and "removed \<noteq> into"
  shows "gc_replica_value c' removed = 0" and "q \<noteq> removed \<Longrightarrow> gc_replica_value c q \<le> gc_replica_value c' q"
    and "q \<noteq> removed \<Longrightarrow> q \<noteq> into \<Longrightarrow> gc_replica_value c' q = gc_replica_value c q"
  using assms
  by (auto simp: gc_prune_def gc_replica_value_def checked_add_def ok_or_def bind_result_def word_le_nat_alt unat_word_ariths
      split: option.splits if_splits)

lemma performed_after_merge:
  "is_performed (pt_merge_without_obsolete a b now) q \<Longrightarrow> is_performed a q \<or> is_performed b q"
  by (cases "pt_get a q"; cases "the (pt_get a q)"; cases "pt_get b q"; cases "the (pt_get b q)")
    (auto simp: pt_get_merge_without_obsolete ps_combine_def split: if_splits)

section \<open>Properties\<close>


text \<open>
  C21: Pruning keeps the value of a grow-only counter. The owner transfers the count of the removed replica to itself; then
  merging a state of the counter from before, which still has that count under the removed replica, neither
  loses it nor counts it twice, as long as the marker is not obsolete. Other replicas may have been pruned earlier: a
  replica with a performed marker on either side has to be gone from the data of the pruned state, and the old state
  may still count it as long as the marker of the pruned state is not obsolete; for all other replicas the old state
  counts at most what the pruned state counts. The owner has no performed marker on either side.
\<close>

theorem pruning_keeps_counter_value:
  assumes "de_prune_removed_node gcounter_ops e removed \<lparr>pp_obsolete_at_millis = at\<rparr> = Ok e'"
    and "pt_get (de_pruning e) removed = Some (Initialized i)" and "pi_owner i \<noteq> removed"
    and "\<not> is_performed (de_pruning e) (pi_owner i)" and "\<not> is_performed (de_pruning old) (pi_owner i)"
    and "\<forall>q. q \<noteq> removed \<and> (is_performed (de_pruning e) q \<or> is_performed (de_pruning old) q) \<longrightarrow> gc_replica_value (de_data e) q = 0"
    and "\<forall>q. gc_replica_value (de_data old) q \<le> gc_replica_value (de_data e) q \<or>
      (\<exists>p. pt_get (de_pruning e) q = Some (Performed p) \<and> now < pp_obsolete_at_millis p)"
    and "now < at"
  shows "gc_value (de_data (de_merge_pruned gcounter_ops e' old now)) = gc_value (de_data e)"
proof -
  from assms(1,2) obtain c' where c': "gc_prune (de_data e) removed (pi_owner i) = Ok c'"
    and e': "e' = \<lparr>de_data = c', de_pruning = fst (pt_mark_performed (de_pruning e) removed at)\<rparr>"
    by (auto simp: de_prune_removed_node_def bind_result_def split: sum.splits)
  let ?t = "pt_merge_without_obsolete (de_pruning e') (de_pruning old) now"
  note pruned = gc_prune_value [OF c' assms(3) [symmetric]]
  have removed: "is_performed ?t removed"
    using performed_survives_merge [of "de_pruning e'" removed "\<lparr>pp_obsolete_at_millis = at\<rparr>" now "de_pruning old"] assms(8)
    by (auto simp: e' ps_performed_def)
  have gone: "gc_replica_value c' q = 0" if "is_performed ?t q" for q
  proof (cases "q = removed")
    case False
    with performed_after_merge [OF that] have "is_performed (de_pruning e) q \<or> is_performed (de_pruning old) q"
      by (auto simp: e')
    with False assms(4-6) have "gc_replica_value (de_data e) q = 0" "q \<noteq> pi_owner i" by blast+
    with False pruned(3) show ?thesis by simp
  qed (simp add: pruned(1))
  have kept: "gc_replica_value (de_data old) q \<le> gc_replica_value c' q" if "\<not> is_performed ?t q" for q
  proof -
    have q: "q \<noteq> removed" using that removed by blast
    have "\<not> (\<exists>p. pt_get (de_pruning e) q = Some (Performed p) \<and> now < pp_obsolete_at_millis p)"
      using performed_survives_merge [of "de_pruning e'" q _ now "de_pruning old"] that q by (auto simp: e')
    with assms(7) pruned(2) [OF q] show ?thesis using order_trans by blast
  qed
  have "gc_replica_value (de_data (de_merge_pruned gcounter_ops e' old now)) q = gc_replica_value c' q" for q
    using gone [of q] kept [of q]
    by (auto simp: e' de_merge_pruned_def Let_def gc_value_cleanup_performed max_def)
  then have "gc_total (de_data (de_merge_pruned gcounter_ops e' old now)) = gc_total c'" by (rule gc_total_cong)
  also have "\<dots> = gc_total (de_data e)" using gc_total_prune [OF c'] assms(3) by auto
  finally show ?thesis by (simp add: gc_value_total)
qed


text \<open>The replica \<open>p\<close> was pruned before, and the old state still counts it.\<close>

theorem pruning_keeps_counter_value_witness:
  "let gone = ReplicaId ''gone''; b = ReplicaId ''b''; p = ReplicaId ''p'';
       marked = fst (pt_mark_performed pt_new p 9);
       e = \<lparr>de_data = GCounter (fmupd b 3 (fmupd gone 4 fmempty)) None, de_pruning = fst (pt_initialize marked gone b)\<rparr>;
       e' = \<lparr>de_data = GCounter (fmupd b 7 fmempty) None, de_pruning = fst (pt_mark_performed (de_pruning e) gone 9)\<rparr>;
       old = de_new (GCounter (fmupd p 3 (fmupd gone 4 fmempty)) None)
   in de_prune_removed_node gcounter_ops e gone \<lparr>pp_obsolete_at_millis = 9\<rparr> = Ok e' \<and>
      gc_value (de_data (de_merge_pruned gcounter_ops e' old 5)) = gc_value (de_data e)"
proof -
  let ?gone = "ReplicaId ''gone''" and ?b = "ReplicaId ''b''" and ?p = "ReplicaId ''p''"
  let ?e = "\<lparr>de_data = GCounter (fmupd ?b 3 (fmupd ?gone 4 fmempty)) None,
    de_pruning = fst (pt_initialize (fst (pt_mark_performed pt_new ?p 9)) ?gone ?b)\<rparr>"
  let ?e' = "\<lparr>de_data = GCounter (fmupd ?b 7 fmempty) None, de_pruning = fst (pt_mark_performed (de_pruning ?e) ?gone 9)\<rparr>"
  let ?old = "de_new (GCounter (fmupd ?p 3 (fmupd ?gone 4 fmempty)) None)"
  have i: "pt_get (de_pruning ?e) ?gone = Some (Initialized (pi_new ?b))"
    by (simp add: ps_initialized_def)
  have prune: "de_prune_removed_node gcounter_ops ?e ?gone \<lparr>pp_obsolete_at_millis = 9\<rparr> = Ok ?e'"
    by (simp add: de_prune_removed_node_def ps_initialized_def pi_new_def gc_prune_def gc_replica_value_def checked_add_def
        fmdrop_fmupd)
  have "gc_value (de_data (de_merge_pruned gcounter_ops ?e' ?old 5)) = gc_value (de_data ?e)"
    by (rule pruning_keeps_counter_value [OF prune i])
      (auto simp: pi_new_def ps_initialized_def ps_performed_def de_new_def gc_replica_value_def)
  with prune show ?thesis by (simp add: Let_def)
qed

end
