(* ===== verification/Replicator_State.thy ===== *)
theory Replicator_State
  imports Pruning
begin

text \<open>
  The local state of a replicator: \<open>state.rs\<close>, the response types of \<open>response.rs\<close>, \<open>key.rs\<close> and the pruning tick
  of \<open>replicator_actor/pruning_ops.rs\<close> (all under \<open>kairo-distributed-data/src\<close>). The operations are generic in the data type and
  take its \<open>value_ops\<close>. The update function of a client and the wall clock are arguments. The lemmas show that
  changes are reported exactly once, that replicas that received the same full states are equal, and when a pruning
  marker becomes performed.
\<close>

section \<open>Keys and responses\<close>

datatype replicator_key = ReplicatorKey string

primrec key_str :: "replicator_key \<Rightarrow> string" where
  "key_str (ReplicatorKey s) = s"

instantiation replicator_key :: linorder
begin

definition less_eq_replicator_key :: "replicator_key \<Rightarrow> replicator_key \<Rightarrow> bool" where
  "a \<le> b \<longleftrightarrow> key_str a \<le> key_str b"

definition less_replicator_key :: "replicator_key \<Rightarrow> replicator_key \<Rightarrow> bool" where
  "a < b \<longleftrightarrow> key_str a < key_str b"

instance
proof
  fix x y z :: replicator_key
  show "x < y \<longleftrightarrow> x \<le> y \<and> \<not> y \<le> x"
    by (auto simp: less_eq_replicator_key_def less_replicator_key_def)
  show "x \<le> x" by (simp add: less_eq_replicator_key_def)
  show "x \<le> y \<Longrightarrow> y \<le> z \<Longrightarrow> x \<le> z" by (simp add: less_eq_replicator_key_def)
  show "x \<le> y \<Longrightarrow> y \<le> x \<Longrightarrow> x = y"
    by (cases x; cases y) (simp add: less_eq_replicator_key_def)
  show "x \<le> y \<or> y \<le> x" by (auto simp: less_eq_replicator_key_def)
qed

end

datatype 'v get_response =
    GetSuccess replicator_key 'v
  | GetNotFound replicator_key
  | GetFailure replicator_key string

record 'd update_outcome =
  uo_key :: replicator_key
  uo_changed :: bool
  uo_delta :: "'d option"

record 'v replicator_change =
  ch_key :: replicator_key
  ch_data :: 'v

section \<open>The state and its operations\<close>

record 'v replicator_state =
  rs_entries :: "(replicator_key, 'v data_envelope) fmap"
  rs_changed :: "replicator_key fset"

definition rs_new :: "'v replicator_state" where
  "rs_new = \<lparr>rs_entries = fmempty, rs_changed = {||}\<rparr>"

definition rs_contains_key :: "'v replicator_state \<Rightarrow> replicator_key \<Rightarrow> bool" where
  "rs_contains_key s key \<longleftrightarrow> fmlookup (rs_entries s) key \<noteq> None"

definition rs_envelope :: "'v replicator_state \<Rightarrow> replicator_key \<Rightarrow> 'v data_envelope option" where
  "rs_envelope s key = fmlookup (rs_entries s) key"

definition rs_get_local :: "'v replicator_state \<Rightarrow> replicator_key \<Rightarrow> 'v get_response" where
  "rs_get_local s key =
     (case fmlookup (rs_entries s) key of
        Some envelope \<Rightarrow> GetSuccess key (de_data envelope)
      | None \<Rightarrow> GetNotFound key)"

definition rs_set_data :: "'v replicator_state \<Rightarrow> replicator_key \<Rightarrow> 'v data_envelope \<Rightarrow> 'v replicator_state \<times> bool" where
  "rs_set_data s key envelope =
     (let changed = (case fmlookup (rs_entries s) key of None \<Rightarrow> True | Some existing \<Rightarrow> existing \<noteq> envelope)
      in (\<lparr>rs_entries = fmupd key envelope (rs_entries s),
           rs_changed = (if changed then finsert key (rs_changed s) else rs_changed s)\<rparr>, changed))"

definition rs_update_local ::
  "('v, 'd, 'x) value_ops_scheme \<Rightarrow> 'v replicator_state \<Rightarrow> replicator_key \<Rightarrow> 'v \<Rightarrow> ('v \<Rightarrow> ('e, 'v) result)
     \<Rightarrow> 'v replicator_state \<times> ('e, 'd update_outcome) result" where
  "rs_update_local V s key initial modify =
     (let current = (case fmlookup (rs_entries s) key of Some envelope \<Rightarrow> de_data envelope | None \<Rightarrow> initial)
      in case modify current of
           Inl e \<Rightarrow> (s, Err e)
         | Inr modified \<Rightarrow>
             let delta = vo_delta V modified;
                 full_state = vo_reset_delta V modified;
                 next = (case fmlookup (rs_entries s) key of
                     Some existing \<Rightarrow> de_merge_data V existing full_state
                   | None \<Rightarrow> de_new full_state);
                 (s, changed) = rs_set_data s key next
             in (s, Ok \<lparr>uo_key = key, uo_changed = changed, uo_delta = delta\<rparr>))"

definition rs_write_full ::
  "('v, 'd, 'x) value_ops_scheme \<Rightarrow> 'v replicator_state \<Rightarrow> replicator_key \<Rightarrow> 'v data_envelope \<Rightarrow> 'v replicator_state \<times> bool" where
  "rs_write_full V s key envelope =
     rs_set_data s key
       (case fmlookup (rs_entries s) key of Some existing \<Rightarrow> de_merge V existing envelope | None \<Rightarrow> envelope)"

definition rs_write_delta ::
  "('v, 'd, 'x) value_ops_scheme \<Rightarrow> 'v replicator_state \<Rightarrow> replicator_key \<Rightarrow> 'd \<Rightarrow> 'v replicator_state \<times> bool" where
  "rs_write_delta V s key delta =
     rs_set_data s key
       (case fmlookup (rs_entries s) key of
          Some existing \<Rightarrow> de_merge_delta V existing delta
        | None \<Rightarrow> de_new (vo_merge_delta V (vo_zero V delta) delta))"

definition rs_flush_changes :: "'v replicator_state \<Rightarrow> 'v replicator_state \<times> 'v replicator_change list" where
  "rs_flush_changes s =
     (\<lparr>rs_entries = rs_entries s, rs_changed = {||}\<rparr>,
      List.map_filter (\<lambda>key. map_option (\<lambda>envelope. \<lparr>ch_key = key, ch_data = de_data envelope\<rparr>) (fmlookup (rs_entries s) key))
        (sorted_list_of_fset (rs_changed s)))"

section \<open>Pruning-aware operations\<close>

definition rs_write_full_pruned ::
  "('v, 'd, 'x) value_ops_scheme \<Rightarrow> 'v replicator_state \<Rightarrow> replicator_key \<Rightarrow> 'v data_envelope \<Rightarrow> u64
     \<Rightarrow> 'v replicator_state \<times> bool" where
  "rs_write_full_pruned V s key envelope now_millis =
     rs_set_data s key
       (case fmlookup (rs_entries s) key of
          Some existing \<Rightarrow> de_merge_pruned V existing envelope now_millis
        | None \<Rightarrow> envelope)"

definition rs_write_delta_pruned ::
  "('v, 'd, 'x) value_ops_scheme \<Rightarrow> 'v replicator_state \<Rightarrow> replicator_key \<Rightarrow> 'd \<Rightarrow> pruning_table \<Rightarrow> u64
     \<Rightarrow> 'v replicator_state \<times> bool" where
  "rs_write_delta_pruned V s key delta pruning now_millis =
     rs_set_data s key
       (case fmlookup (rs_entries s) key of
          Some existing \<Rightarrow> de_merge_delta_pruned V existing delta pruning now_millis
        | None \<Rightarrow> de_merge_delta_pruned V (de_new (vo_zero V delta)) delta pruning now_millis)"

definition rs_modified_by_replica_ids :: "('v, 'd, 'x) value_ops_scheme \<Rightarrow> 'v replicator_state \<Rightarrow> replica_id fset" where
  "rs_modified_by_replica_ids V s =
     fset_of_list (concat (map (\<lambda>envelope. vo_modified_by V (de_data envelope)) (bt_values (rs_entries s))))"

definition rs_apply_pruning_updates ::
  "'v replicator_state \<Rightarrow> (replicator_key \<times> 'v data_envelope) list \<Rightarrow> 'v replicator_state \<times> replicator_key fset" where
  "rs_apply_pruning_updates s updates =
     fold (\<lambda>(key, envelope) (s, changed).
       let (s', c) = rs_set_data s key envelope in (s', if c then finsert key changed else changed)) updates (s, {||})"

definition rs_mark_pruning_seen :: "'v replicator_state \<Rightarrow> replica_id \<Rightarrow> 'v replicator_state \<times> replicator_key fset" where
  "rs_mark_pruning_seen s seen_by =
     rs_apply_pruning_updates s (List.map_filter (\<lambda>(key, envelope).
       let next = de_add_pruning_seen envelope seen_by in if next \<noteq> envelope then Some (key, next) else None)
       (bt_entries (rs_entries s)))"

definition rs_mark_key_pruning_seen :: "'v replicator_state \<Rightarrow> replicator_key \<Rightarrow> replica_id \<Rightarrow> 'v replicator_state \<times> bool" where
  "rs_mark_key_pruning_seen s key seen_by =
     (case map_option (\<lambda>envelope. de_add_pruning_seen envelope seen_by) (fmlookup (rs_entries s) key) of
        None \<Rightarrow> (s, False)
      | Some next \<Rightarrow> rs_set_data s key next)"

definition should_initialize :: "'v data_envelope \<Rightarrow> replica_id \<Rightarrow> replica_id \<Rightarrow> bool" where
  "should_initialize envelope removed owner =
     (case pt_get (de_pruning envelope) removed of
        None \<Rightarrow> True
      | Some (Initialized initialized) \<Rightarrow> pi_owner initialized \<noteq> owner
      | Some (Performed _) \<Rightarrow> False)"

definition rs_init_removed_node_pruning ::
  "('v, 'd, 'x) value_ops_scheme \<Rightarrow> 'v replicator_state \<Rightarrow> replica_id \<Rightarrow> replica_id
     \<Rightarrow> 'v replicator_state \<times> replicator_key fset" where
  "rs_init_removed_node_pruning V s removed owner =
     rs_apply_pruning_updates s (List.map_filter (\<lambda>(key, envelope).
       if \<not> vo_need_pruning_from V (de_data envelope) removed then None
       else if should_initialize envelope removed owner
       then Some (key, de_init_removed_node_pruning envelope removed owner)
       else None) (bt_entries (rs_entries s)))"

record pruning_failure =
  pf_key :: replicator_key
  pf_removed :: replica_id
  pf_reason :: string

primrec show_crdt_error :: "crdt_error \<Rightarrow> string" where
  "show_crdt_error CounterOverflow = ''counter value overflowed''"
| "show_crdt_error CounterValueOutOfRange = ''counter value is outside the supported signed range''"

definition prune_ready ::
  "('v, 'd, 'x) value_ops_scheme \<Rightarrow> replicator_key \<Rightarrow> pruning_performed \<Rightarrow> replica_id list
     \<Rightarrow> 'v data_envelope \<times> pruning_failure list \<Rightarrow> 'v data_envelope \<times> pruning_failure list" where
  "prune_ready V key performed_marker ready =
     fold (\<lambda>removed (next_envelope, failures).
       case de_prune_removed_node V next_envelope removed performed_marker of
         Inr next \<Rightarrow> (next, failures)
       | Inl error \<Rightarrow> (next_envelope, failures @
           [\<lparr>pf_key = key, pf_removed = removed, pf_reason = show_crdt_error error\<rparr>])) ready"

definition rs_perform_removed_node_pruning ::
  "('v, 'd, 'x) value_ops_scheme \<Rightarrow> 'v replicator_state \<Rightarrow> replica_id \<Rightarrow> replica_id fset \<Rightarrow> pruning_performed
     \<Rightarrow> 'v replicator_state \<times> replicator_key fset \<times> pruning_failure list" where
  "rs_perform_removed_node_pruning V s owner live_replicas performed_marker =
     (let (updates, failures) = fold (\<lambda>(key, envelope) (updates, failures).
            let ready = sorted_list_of_fset
                  (pt_ready_to_perform (de_pruning envelope) owner (sorted_list_of_fset live_replicas));
                (next_envelope, failures) = prune_ready V key performed_marker ready (envelope, failures)
            in (if next_envelope \<noteq> envelope then updates @ [(key, next_envelope)] else updates, failures))
          (bt_entries (rs_entries s)) ([], []);
          (s, changed) = rs_apply_pruning_updates s updates
      in (s, changed, failures))"

definition rs_remove_obsolete_pruning_performed ::
  "'v replicator_state \<Rightarrow> u64 \<Rightarrow> 'v replicator_state \<times> replicator_key fset \<times> replica_id fset" where
  "rs_remove_obsolete_pruning_performed s now_millis =
     (let (updates, removed_nodes) = fold (\<lambda>(key, envelope) (updates, removed_nodes).
            let (next, removed) = de_remove_obsolete_pruning_performed envelope now_millis
            in (if next \<noteq> envelope then updates @ [(key, next)] else updates, removed_nodes |\<union>| removed))
          (bt_entries (rs_entries s)) ([], {||});
          (s, changed) = rs_apply_pruning_updates s updates
      in (s, changed, removed_nodes))"

section \<open>The pruning tick of the replicator\<close>

record pruning_tick =
  tk_self_replica :: replica_id
  tk_live_replicas :: "replica_id fset"
  tk_unreachable_replicas :: "replica_id fset"
  tk_all_reachable_time_nanos :: u64
  tk_max_pruning_dissemination_nanos :: u64
  tk_now_millis :: u64
  tk_pruning_marker_ttl_millis :: u64
  tk_is_leader :: bool

definition tk_pruning_performed :: "pruning_tick \<Rightarrow> pruning_performed" where
  "tk_pruning_performed tick =
     \<lparr>pp_obsolete_at_millis = saturating_add (tk_now_millis tick) (tk_pruning_marker_ttl_millis tick)\<rparr>"

record pruning_tick_report =
  tr_skipped_unreachable :: bool
  tr_collected_removed :: "replica_id fset"
  tr_initialized :: "replicator_key fset"
  tr_performed :: "replicator_key fset"
  tr_obsolete_markers :: "replicator_key fset"
  tr_forgotten_removed :: "replica_id fset"
  tr_failures :: "pruning_failure list"

definition tr_default :: pruning_tick_report where
  "tr_default = \<lparr>tr_skipped_unreachable = False, tr_collected_removed = {||}, tr_initialized = {||},
     tr_performed = {||}, tr_obsolete_markers = {||}, tr_forgotten_removed = {||}, tr_failures = []\<rparr>"

definition tr_skipped :: pruning_tick_report where
  "tr_skipped = tr_default\<lparr>tr_skipped_unreachable := True\<rparr>"

definition tr_changed_key_count :: "pruning_tick_report \<Rightarrow> nat" where
  "tr_changed_key_count r = fcard (tr_initialized r |\<union>| tr_performed r |\<union>| tr_obsolete_markers r)"

definition initialize_ready ::
  "('v, 'd, 'x) value_ops_scheme \<Rightarrow> replica_id \<Rightarrow> replica_id list \<Rightarrow> 'v replicator_state \<times> replicator_key fset
     \<Rightarrow> 'v replicator_state \<times> replicator_key fset" where
  "initialize_ready V self_replica =
     fold (\<lambda>removed (s, initialized).
       let (s, keys) = rs_init_removed_node_pruning V s removed self_replica in (s, initialized |\<union>| keys))"

definition run_removed_node_pruning_tick ::
  "('v, 'd, 'x) value_ops_scheme \<Rightarrow> 'v replicator_state \<Rightarrow> removed_node_tracker \<Rightarrow> pruning_tick
     \<Rightarrow> 'v replicator_state \<times> removed_node_tracker \<times> pruning_tick_report" where
  "run_removed_node_pruning_tick V s tracker tick =
     (if tk_unreachable_replicas tick \<noteq> {||} then (s, tracker, tr_skipped)
      else
        let (s, tracker, collected, initialized) =
              (if tk_is_leader tick
               then let known_nodes = finsert (tk_self_replica tick) (tk_live_replicas tick) |\<union>| fmdom (rt_removed_nodes tracker);
                        modified_by = rs_modified_by_replica_ids V s;
                        (tracker, collected) = rt_record_unknown_modified_nodes tracker (sorted_list_of_fset modified_by)
                          known_nodes (tk_self_replica tick) (tk_all_reachable_time_nanos tick);
                        ready = rt_ready_to_initialize tracker (tk_all_reachable_time_nanos tick)
                          (tk_max_pruning_dissemination_nanos tick);
                        (s, initialized) = initialize_ready V (tk_self_replica tick) (sorted_list_of_fset ready) (s, {||})
                    in (s, tracker, collected, initialized)
               else (s, tracker, {||}, {||}));
            (s, performed, failures) = rs_perform_removed_node_pruning V s (tk_self_replica tick) (tk_live_replicas tick)
              (tk_pruning_performed tick);
            (s, obsolete_markers, forgotten_removed) = rs_remove_obsolete_pruning_performed s (tk_now_millis tick);
            tracker = fold (\<lambda>removed tracker. fst (rt_forget_removed tracker removed))
              (sorted_list_of_fset forgotten_removed) tracker
        in (s, tracker, \<lparr>tr_skipped_unreachable = False, tr_collected_removed = collected, tr_initialized = initialized,
              tr_performed = performed, tr_obsolete_markers = obsolete_markers,
              tr_forgotten_removed = forgotten_removed, tr_failures = failures\<rparr>))"

section \<open>Runs of operations\<close>

text \<open>One operation on the state other than a flush.\<close>

inductive rs_step :: "('v, 'd, 'x) value_ops_scheme \<Rightarrow> 'v replicator_state \<Rightarrow> 'v replicator_state \<Rightarrow> bool" for V where
  update_local: "rs_step V s (fst (rs_update_local V s key initial (modify :: 'v \<Rightarrow> (string, 'v) result)))"
| write_full: "rs_step V s (fst (rs_write_full V s key envelope))"
| write_delta: "rs_step V s (fst (rs_write_delta V s key delta))"
| write_full_pruned: "rs_step V s (fst (rs_write_full_pruned V s key envelope now))"
| write_delta_pruned: "rs_step V s (fst (rs_write_delta_pruned V s key delta pruning now))"
| mark_pruning_seen: "rs_step V s (fst (rs_mark_pruning_seen s seen_by))"
| mark_key_pruning_seen: "rs_step V s (fst (rs_mark_key_pruning_seen s key seen_by))"
| init_pruning: "rs_step V s (fst (rs_init_removed_node_pruning V s removed owner))"
| perform_pruning: "rs_step V s (fst (rs_perform_removed_node_pruning V s owner live marker))"
| remove_obsolete: "rs_step V s (fst (rs_remove_obsolete_pruning_performed s now))"

text \<open>What every operation keeps between two states: changed entries are queued, and the queue only grows.\<close>

definition rs_follows :: "'v replicator_state \<Rightarrow> 'v replicator_state \<Rightarrow> bool" where
  "rs_follows s0 s \<longleftrightarrow>
     (\<forall>k. fmlookup (rs_entries s) k \<noteq> fmlookup (rs_entries s0) k \<longrightarrow> k |\<in>| rs_changed s) \<and>
     rs_changed s0 |\<subseteq>| rs_changed s \<and>
     (\<forall>k. k |\<in>| rs_changed s \<longrightarrow> k |\<in>| rs_changed s0 \<or> fmlookup (rs_entries s) k \<noteq> None) \<and>
     (\<forall>k. fmlookup (rs_entries s0) k \<noteq> None \<longrightarrow> fmlookup (rs_entries s) k \<noteq> None)"

lemma rs_follows_refl [simp]: "rs_follows s s"
  by (simp add: rs_follows_def)

lemma rs_follows_trans: "rs_follows a b \<Longrightarrow> rs_follows b c \<Longrightarrow> rs_follows a c"
  unfolding rs_follows_def by (metis fsubsetD fsubsetI)

lemma rs_entries_set_data [simp]: "rs_entries (fst (rs_set_data s k e)) = fmupd k e (rs_entries s)"
  by (simp add: rs_set_data_def Let_def)

lemma rs_changed_set_data:
  "q |\<in>| rs_changed (fst (rs_set_data s k e)) \<longleftrightarrow> q |\<in>| rs_changed s \<or> (q = k \<and> fmlookup (rs_entries s) k \<noteq> Some e)"
  by (auto simp: rs_set_data_def Let_def split: option.splits)

lemma rs_follows_set_data [simp]: "rs_follows s (fst (rs_set_data s k e))"
  by (auto simp: rs_follows_def rs_changed_set_data)

lemma apply_updates_Cons:
  "fst (rs_apply_pruning_updates s ((k, e) # us)) = fst (rs_apply_pruning_updates (fst (rs_set_data s k e)) us)"
proof -
  let ?f = "\<lambda>(key, envelope) (s, changed).
       let (s', c) = rs_set_data s key envelope in (s', if c then finsert key changed else changed)"
  have "fst (fold ?f us (s, c)) = fst (fold ?f us (s, c'))" for s c c'
    by (induction us arbitrary: s c c') (auto simp: split_beta Let_def)
  then show ?thesis
    by (simp add: rs_apply_pruning_updates_def split_beta Let_def)
qed

lemma rs_follows_apply_updates [simp]: "rs_follows s (fst (rs_apply_pruning_updates s us))"
proof (induction us arbitrary: s)
  case Nil
  then show ?case by (simp add: rs_apply_pruning_updates_def)
next
  case (Cons u us)
  then show ?case
    by (cases u) (auto simp: apply_updates_Cons intro: rs_follows_trans [OF rs_follows_set_data])
qed

lemma lookup_apply_updates:
  "fmlookup (rs_entries (fst (rs_apply_pruning_updates s us))) k =
     (case map_of (rev us) k of None \<Rightarrow> fmlookup (rs_entries s) k | Some e \<Rightarrow> Some e)"
proof (induction us arbitrary: s)
  case Nil
  then show ?case by (simp add: rs_apply_pruning_updates_def)
next
  case (Cons u us)
  then show ?case by (cases u) (auto simp: apply_updates_Cons map_add_def split: option.splits)
qed

lemma rs_step_follows: "rs_step V s s' \<Longrightarrow> rs_follows s s'"
  by (induction rule: rs_step.induct)
    (auto simp: rs_update_local_def rs_write_full_def rs_write_delta_def rs_write_full_pruned_def rs_write_delta_pruned_def
      rs_mark_pruning_seen_def rs_mark_key_pruning_seen_def rs_init_removed_node_pruning_def
      rs_perform_removed_node_pruning_def rs_remove_obsolete_pruning_performed_def split_beta Let_def
      split: sum.split option.split)

lemma rs_steps_follow: "(rs_step V)\<^sup>*\<^sup>* s s' \<Longrightarrow> rs_follows s s'"
  by (induction rule: rtranclp_induct) (auto intro: rs_follows_trans rs_step_follows)

text \<open>
  C30: Every change is reported, once, with the current value. After a flush and any run of operations, the
  next flush reports in key order, without repetition, every key whose envelope differs from the one at the first flush;
  what it reports is the current data; and a further flush reports nothing.
\<close>

theorem changes_reported_exactly_once:
  assumes "(rs_step V)\<^sup>*\<^sup>* (fst (rs_flush_changes s0)) s"
  shows "let (s', changes) = rs_flush_changes s in
    sorted_wrt (<) (map ch_key changes) \<and>
    (\<forall>k. rs_envelope s k \<noteq> rs_envelope s0 k \<longrightarrow> k \<in> ch_key ` set changes) \<and>
    (\<forall>c \<in> set changes. map_option de_data (rs_envelope s (ch_key c)) = Some (ch_data c)) \<and>
    rs_entries s' = rs_entries s \<and> snd (rs_flush_changes s') = []"
proof -
  let ?g = "\<lambda>key. map_option (\<lambda>envelope. \<lparr>ch_key = key, ch_data = de_data envelope\<rparr>) (fmlookup (rs_entries s) key)"
  let ?cs = "snd (rs_flush_changes s)"
  have f: "rs_follows (fst (rs_flush_changes s0)) s" using assms by (rule rs_steps_follow)
  have cs: "?cs = List.map_filter ?g (sorted_list_of_fset (rs_changed s))" by (simp add: rs_flush_changes_def)
  have keys: "map ch_key (List.map_filter ?g ks) = filter (\<lambda>k. fmlookup (rs_entries s) k \<noteq> None) ks" for ks
    by (induction ks) (auto simp: map_filter_simps split: option.splits)
  have "sorted_wrt (<) (map ch_key ?cs)"
    unfolding cs keys by (intro sorted_wrt_filter) (simp add: sorted_list_of_fset.rep_eq)
  moreover have "k \<in> ch_key ` set ?cs" if "rs_envelope s k \<noteq> rs_envelope s0 k" for k
  proof -
    have "k |\<in>| rs_changed s" "fmlookup (rs_entries s) k \<noteq> None"
      using f that by (auto simp: rs_follows_def rs_envelope_def rs_flush_changes_def)
    then have "k \<in> set (map ch_key ?cs)" unfolding cs keys by simp
    then show ?thesis by simp
  qed
  moreover have "map_option de_data (rs_envelope s (ch_key c)) = Some (ch_data c)" if "c \<in> set ?cs" for c
    using that by (auto simp: cs mem_map_filter rs_envelope_def)
  ultimately show ?thesis
    by (simp add: rs_flush_changes_def map_filter_simps sorted_list_of_fset.rep_eq)
qed

theorem changes_reported_exactly_once_witness:
  "let s = fst (rs_write_full gcounter_ops (fst (rs_flush_changes rs_new)) (ReplicatorKey ''k'') (de_new gc_new))
   in ReplicatorKey ''k'' \<in> ch_key ` set (snd (rs_flush_changes s))"
proof -
  let ?s = "fst (rs_write_full gcounter_ops (fst (rs_flush_changes rs_new)) (ReplicatorKey ''k'') (de_new gc_new))"
  have "(rs_step gcounter_ops)\<^sup>*\<^sup>* (fst (rs_flush_changes rs_new)) ?s"
    by (intro r_into_rtranclp rs_step.write_full)
  from changes_reported_exactly_once [OF this] show ?thesis
    by (auto simp: rs_envelope_def rs_write_full_def rs_new_def Let_def split_beta)
qed

section \<open>Batches of updates, by lookup\<close>

lemma map_of_map_filter:
  assumes "distinct (map fst xs)" and "\<And>k e k' e'. g k e = Some (k', e') \<Longrightarrow> k' = k"
  shows "map_of (rev (List.map_filter (\<lambda>(k, e). g k e) xs)) q =
    (case map_of xs q of None \<Rightarrow> None | Some e \<Rightarrow> map_option snd (g q e))"
  using assms(1)
proof (induction xs)
  case (Cons x xs)
  obtain k e where x: "x = (k, e)" by fastforce
  from Cons.prems x have "map_of xs k = None" and "distinct (map fst xs)"
    by (auto simp: map_of_eq_None_iff)
  with Cons.IH x show ?case
    by (cases "g k e") (auto simp: map_filter_simps map_add_def dest: assms(2) split: option.splits)
qed (simp add: map_filter_simps)

lemma lookup_updates:
  assumes "\<And>k e k' e'. g k e = Some (k', e') \<Longrightarrow> k' = k"
  shows "fmlookup (rs_entries (fst (rs_apply_pruning_updates s
      (List.map_filter (\<lambda>(k, e). g k e) (bt_entries (rs_entries s)))))) q =
    (case fmlookup (rs_entries s) q of None \<Rightarrow> None | Some e \<Rightarrow> Some (case g q e of None \<Rightarrow> e | Some (_, e') \<Rightarrow> e'))"
  unfolding lookup_apply_updates
  by (subst map_of_map_filter) (auto dest: assms split: option.splits)

lemma fold_updates:
  assumes "\<And>k e acc. fst (F k e acc) = G k e"
  shows "fst (fold (\<lambda>(k, e) (ups, acc). let (n, acc) = F k e acc in (if n \<noteq> e then ups @ [(k, n)] else ups, acc)) xs (us, acc)) =
    us @ List.map_filter (\<lambda>(k, e). if G k e \<noteq> e then Some (k, G k e) else None) xs"
proof (induction xs arbitrary: us acc)
  case (Cons x xs)
  obtain k e where x: "x = (k, e)" by fastforce
  show ?case
    using assms [of k e acc] Cons.IH by (cases "F k e acc") (simp add: x map_filter_simps)
qed (simp add: map_filter_simps)

section \<open>Pruning, by lookup\<close>

abbreviation marker :: "'v replicator_state \<Rightarrow> replicator_key \<Rightarrow> replica_id \<Rightarrow> pruning_state option" where
  "marker s k r \<equiv> (case fmlookup (rs_entries s) k of None \<Rightarrow> None | Some e \<Rightarrow> pt_get (de_pruning e) r)"

lemma marker_init_pruning:
  "marker (fst (rs_init_removed_node_pruning V s removed owner)) k r = marker s k r \<or>
   (r = removed \<and> \<not> (\<exists>p. marker s k r = Some (Performed p)) \<and>
    marker (fst (rs_init_removed_node_pruning V s removed owner)) k r = Some (ps_initialized owner))"
proof -
  let ?g = "\<lambda>key envelope.
       if \<not> vo_need_pruning_from V (de_data envelope) removed then None
       else if should_initialize envelope removed owner
       then Some (key, de_init_removed_node_pruning envelope removed owner)
       else None"
  have "fmlookup (rs_entries (fst (rs_init_removed_node_pruning V s removed owner))) k =
    (case fmlookup (rs_entries s) k of None \<Rightarrow> None | Some e \<Rightarrow> Some (case ?g k e of None \<Rightarrow> e | Some (_, e') \<Rightarrow> e'))"
    unfolding rs_init_removed_node_pruning_def by (rule lookup_updates) (simp split: if_splits)
  then show ?thesis
    by (auto simp: de_init_removed_node_pruning_def should_initialize_def split: option.splits)
qed

lemma fst_prune_ready:
  "fst (prune_ready V key m ready (e, fs)) =
     fold (\<lambda>r e. case de_prune_removed_node V e r m of Inr n \<Rightarrow> n | Inl _ \<Rightarrow> e) ready e"
  unfolding prune_ready_def by (induction ready arbitrary: e fs) (auto split: sum.splits)

lemma performed_prune_ready:
  "pt_get (de_pruning (fst (prune_ready V key m ready (e, fs)))) r = Some (Performed p) \<Longrightarrow>
     pt_get (de_pruning e) r = Some (Performed p) \<or> r \<in> set ready"
proof (induction ready arbitrary: e fs)
  case (Cons q ready)
  let ?e = "case de_prune_removed_node V e q m of Inr n \<Rightarrow> n | Inl _ \<Rightarrow> e"
  have "pt_get (de_pruning ?e) r = pt_get (de_pruning e) r" if "r \<noteq> q"
    using that by (auto simp: de_prune_removed_node_def bind_result_def split: option.splits pruning_state.splits sum.splits)
  moreover have "pt_get (de_pruning ?e) r = Some (Performed p) \<or> r \<in> set ready"
    using Cons.IH [of ?e fs] Cons.prems by (simp add: fst_prune_ready)
  ultimately show ?case by fastforce
qed (simp add: prune_ready_def)

lemma performed_perform_pruning:
  assumes "marker (fst (rs_perform_removed_node_pruning V s owner live m)) k r = Some (Performed p)"
  shows "marker s k r = Some (Performed p) \<or>
    (\<exists>i. marker s k r = Some (Initialized i) \<and> pi_owner i = owner \<and> (\<forall>q. q |\<in>| live \<longrightarrow> q = owner \<or> q |\<in>| pi_seen i))"
proof -
  let ?ready = "\<lambda>e. sorted_list_of_fset (pt_ready_to_perform (de_pruning e) owner (sorted_list_of_fset live))"
  let ?G = "\<lambda>k e. fst (prune_ready V k m (?ready e) (e, []))"
  have "fst (rs_perform_removed_node_pruning V s owner live m) =
      fst (rs_apply_pruning_updates s (List.map_filter (\<lambda>(k, e). if ?G k e \<noteq> e then Some (k, ?G k e) else None) (bt_entries (rs_entries s))))"
    using fold_updates [of "\<lambda>k e acc. prune_ready V k m (?ready e) (e, acc)" ?G "bt_entries (rs_entries s)" "[]" "[]"]
    by (simp add: rs_perform_removed_node_pruning_def split_beta Let_def fst_prune_ready)
  then have "fmlookup (rs_entries (fst (rs_perform_removed_node_pruning V s owner live m))) k =
    (case fmlookup (rs_entries s) k of None \<Rightarrow> None | Some e \<Rightarrow> Some (?G k e))"
    by (simp only:) (subst lookup_updates; auto split: if_splits option.splits)
  then obtain e where e: "fmlookup (rs_entries s) k = Some e" and G: "pt_get (de_pruning (?G k e)) r = Some (Performed p)"
    using assms by (auto split: option.splits)
  show ?thesis
    using performed_prune_ready [OF G] by (auto simp: e ready_to_perform_iff)
qed

lemma performed_remove_obsolete:
  assumes "marker (fst (rs_remove_obsolete_pruning_performed s now)) k r = Some (Performed p)"
  shows "marker s k r = Some (Performed p)"
proof -
  let ?G = "\<lambda>k e. fst (de_remove_obsolete_pruning_performed e now)"
  have "fst (rs_remove_obsolete_pruning_performed s now) =
      fst (rs_apply_pruning_updates s (List.map_filter (\<lambda>(k, e). if ?G k e \<noteq> e then Some (k, ?G k e) else None) (bt_entries (rs_entries s))))"
    using fold_updates [of "\<lambda>k e acc. let (n, removed) = de_remove_obsolete_pruning_performed e now in (n, acc |\<union>| removed)" ?G
        "bt_entries (rs_entries s)" "[]" "{||}"]
    by (simp add: rs_remove_obsolete_pruning_performed_def split_beta Let_def cong: if_cong)
  then have "fmlookup (rs_entries (fst (rs_remove_obsolete_pruning_performed s now))) k =
    (case fmlookup (rs_entries s) k of None \<Rightarrow> None | Some e \<Rightarrow> Some (?G k e))"
    by (simp only:) (subst lookup_updates; auto split: if_splits option.splits)
  with assms show ?thesis
    by (auto simp: de_remove_obsolete_pruning_performed_def split_beta Let_def split: option.splits if_splits)
qed

text \<open>The marker of one key and removed replica is not performed, and \<open>q\<close> has not seen it.\<close>

definition unseen :: "replica_id \<Rightarrow> pruning_state option \<Rightarrow> bool" where
  "unseen q m \<longleftrightarrow> (\<forall>p. m \<noteq> Some (Performed p)) \<and> (\<forall>i. m = Some (Initialized i) \<longrightarrow> q |\<notin>| pi_seen i)"

lemma unseen_init_pruning:
  "unseen q (marker s k r) \<Longrightarrow> unseen q (marker (fst (rs_init_removed_node_pruning V s removed owner)) k r)"
  using marker_init_pruning [where V = V and s = s and removed = removed and owner = owner and k = k and r = r]
  by (elim disjE conjE) (simp_all add: unseen_def ps_initialized_def pi_new_def)

lemma unseen_initialize_ready:
  "unseen q (marker s k r) \<Longrightarrow> unseen q (marker (fst (initialize_ready V self ready (s, ks))) k r)"
proof (induction ready arbitrary: s ks)
  case (Cons x ready)
  then show ?case
    using unseen_init_pruning [OF Cons.prems, where V = V and removed = x and owner = self] by (simp add: initialize_ready_def split_beta Let_def)
qed (simp add: initialize_ready_def)

text \<open>
  C13: Pruning waits for the live replicas. As long as one live replica other than the pruning one has not seen the
  initialized marker of a removed replica, no pruning tick turns that marker into a performed one; and a tick with
  unreachable replicas changes nothing.
\<close>

theorem pruning_waits_for_live_replicas:
  assumes "run_removed_node_pruning_tick V s tracker tick = (s', tracker', report)"
    and "q |\<in>| tk_live_replicas tick" and "q \<noteq> tk_self_replica tick"
    and "unseen q (marker s k r)"
  shows "(\<forall>p. marker s' k r \<noteq> Some (Performed p)) \<and>
    (tk_unreachable_replicas tick \<noteq> {||} \<longrightarrow> s' = s \<and> tracker' = tracker)"
proof (cases "tk_unreachable_replicas tick = {||}")
  case True
  define s1 where "s1 = (if tk_is_leader tick
    then fst (initialize_ready V (tk_self_replica tick) (sorted_list_of_fset (rt_ready_to_initialize
      (fst (rt_record_unknown_modified_nodes tracker (sorted_list_of_fset (rs_modified_by_replica_ids V s))
        (finsert (tk_self_replica tick) (tk_live_replicas tick) |\<union>| fmdom (rt_removed_nodes tracker))
        (tk_self_replica tick) (tk_all_reachable_time_nanos tick)))
      (tk_all_reachable_time_nanos tick) (tk_max_pruning_dissemination_nanos tick))) (s, {||}))
    else s)"
  have s': "s' = fst (rs_remove_obsolete_pruning_performed (fst (rs_perform_removed_node_pruning V s1
      (tk_self_replica tick) (tk_live_replicas tick) (tk_pruning_performed tick))) (tk_now_millis tick))"
    using assms(1) True by (auto simp: run_removed_node_pruning_tick_def s1_def split_beta Let_def)
  have u: "unseen q (marker s1 k r)"
    using assms(4) by (simp add: s1_def unseen_initialize_ready)
  have "marker s' k r \<noteq> Some (Performed p)" for p
  proof
    assume "marker s' k r = Some (Performed p)"
    from performed_perform_pruning [OF performed_remove_obsolete [OF this [unfolded s']]]
    show False using u assms(2,3) unfolding unseen_def by blast
  qed
  with True show ?thesis by blast
next
  case False
  with assms show ?thesis by (simp add: run_removed_node_pruning_tick_def unseen_def)
qed

text \<open>The marker is initialized by the replica that runs the tick, and \<open>b\<close> has not seen it.\<close>

theorem pruning_waits_for_live_replicas_witness:
  "let s = fst (rs_write_full gcounter_ops rs_new (ReplicatorKey ''k'') \<lparr>de_data = GCounter (fmupd (ReplicaId ''gone'') 4 fmempty) None,
         de_pruning = fst (pt_initialize pt_new (ReplicaId ''gone'') (ReplicaId ''a''))\<rparr>);
       tick = \<lparr>tk_self_replica = ReplicaId ''a'', tk_live_replicas = {|ReplicaId ''a'', ReplicaId ''b''|}, tk_unreachable_replicas = {||},
         tk_all_reachable_time_nanos = 50, tk_max_pruning_dissemination_nanos = 10, tk_now_millis = 5,
         tk_pruning_marker_ttl_millis = 7, tk_is_leader = True\<rparr>;
       s' = fst (run_removed_node_pruning_tick gcounter_ops s rt_new tick)
   in marker s (ReplicatorKey ''k'') (ReplicaId ''gone'') = Some (Initialized (pi_new (ReplicaId ''a''))) \<and>
      (\<forall>p. marker s' (ReplicatorKey ''k'') (ReplicaId ''gone'') \<noteq> Some (Performed p))"
proof -
  define s tick where "s = fst (rs_write_full gcounter_ops rs_new (ReplicatorKey ''k'')
      \<lparr>de_data = GCounter (fmupd (ReplicaId ''gone'') 4 fmempty) None,
       de_pruning = fst (pt_initialize pt_new (ReplicaId ''gone'') (ReplicaId ''a''))\<rparr>)"
    and "tick = \<lparr>tk_self_replica = ReplicaId ''a'', tk_live_replicas = {|ReplicaId ''a'', ReplicaId ''b''|}, tk_unreachable_replicas = {||},
         tk_all_reachable_time_nanos = 50, tk_max_pruning_dissemination_nanos = 10, tk_now_millis = 5,
         tk_pruning_marker_ttl_millis = 7, tk_is_leader = True\<rparr>"
  obtain s' t' rep where run: "run_removed_node_pruning_tick gcounter_ops s rt_new tick = (s', t', rep)"
    by (metis prod.exhaust)
  have m: "marker s (ReplicatorKey ''k'') (ReplicaId ''gone'') = Some (Initialized (pi_new (ReplicaId ''a'')))"
    by (simp add: s_def rs_write_full_def rs_set_data_def rs_new_def ps_initialized_def)
  then have "unseen (ReplicaId ''b'') (marker s (ReplicatorKey ''k'') (ReplicaId ''gone''))"
    by (simp add: unseen_def pi_new_def)
  then have "\<forall>p. marker s' (ReplicatorKey ''k'') (ReplicaId ''gone'') \<noteq> Some (Performed p)"
    using pruning_waits_for_live_replicas [OF run] by (simp add: tick_def)
  with m show ?thesis
    unfolding Let_def s_def [symmetric] tick_def [symmetric] run fst_conv by blast
qed

section \<open>The contract of replicated envelopes\<close>

text \<open>Joining two states reports the same elements whatever the first one was.\<close>

locale envelope_data = replicated_data wf "vo_merge V" "vo_reset_delta V"
  for wf :: "'v \<Rightarrow> bool" and V :: "('v, 'd) value_ops"
begin

lemma envelope_axioms:
  "replicated_data (\<lambda>e. wf (de_data e)) (de_merge V) (\<lambda>e. \<lparr>de_data = vo_reset_delta V (de_data e), de_pruning = de_pruning e\<rparr>)"
proof
  fix a b c :: "'v data_envelope"
  show "wf (de_data a) \<Longrightarrow> wf (de_data b) \<Longrightarrow> wf (de_data (de_merge V a b))"
    by (simp add: de_merge_def wf_merge)
  show "wf (de_data a) \<Longrightarrow> wf (de_data \<lparr>de_data = vo_reset_delta V (de_data a), de_pruning = de_pruning a\<rparr>)"
    by (simp add: wf_reset)
  show "wf (de_data a) \<Longrightarrow> wf (de_data b) \<Longrightarrow> de_merge V a b = de_merge V b a"
    by (simp add: de_merge_def merge_commute pt.merge_commute)
  show "wf (de_data a) \<Longrightarrow> wf (de_data b) \<Longrightarrow> wf (de_data c) \<Longrightarrow>
      de_merge V (de_merge V a b) c = de_merge V a (de_merge V b c)"
    by (simp add: de_merge_def merge_assoc pt.merge_assoc)
qed (simp_all add: de_merge_def merge_self pt.merge_self merge_reset reset_merge)

end

sublocale envelope_data \<subseteq> env: replicated_data "\<lambda>e. wf (de_data e)" "de_merge V"
    "\<lambda>e. \<lparr>de_data = vo_reset_delta V (de_data e), de_pruning = de_pruning e\<rparr>"
  by (rule envelope_axioms)

context envelope_data
begin

text \<open>A full state as it travels: no pending delta.\<close>

definition settled :: "'v data_envelope \<Rightarrow> bool" where
  "settled e \<longleftrightarrow> wf (de_data e) \<and> vo_reset_delta V (de_data e) = de_data e"

lemma settled_merge: "settled a \<Longrightarrow> settled b \<Longrightarrow> settled (de_merge V a b)"
  by (simp add: settled_def de_merge_def wf_merge reset_merge)

lemma settled_self: "settled a \<Longrightarrow> de_merge V a a = a"
  using env.merge_self [of a] by (simp add: settled_def)

lemma writes_lookup:
  "fmlookup (rs_entries (fold (\<lambda>(k, e) s. fst (rs_write_full V s k e)) ws s)) q =
     fold (\<lambda>(k, e) x. if k = q then Some (case x of Some y \<Rightarrow> de_merge V y e | None \<Rightarrow> e) else x) ws
       (fmlookup (rs_entries s) q)"
  by (induction ws arbitrary: s) (auto simp: rs_write_full_def split: option.split)

lemma writes_fold:
  "fold (\<lambda>(k, e) x. if k = q then Some (case x of Some y \<Rightarrow> de_merge V y e | None \<Rightarrow> e) else x) ws (Some y) =
     Some (deliver (de_merge V) y (map snd (filter (\<lambda>w. fst w = q) ws)))"
  by (induction ws arbitrary: y) (auto simp: deliver_def)

lemma writes_fold_None:
  "fold (\<lambda>(k, e) x. if k = q then Some (case x of Some y \<Rightarrow> de_merge V y e | None \<Rightarrow> e) else x) ws None =
     (case map snd (filter (\<lambda>w. fst w = q) ws) of [] \<Rightarrow> None | e # es \<Rightarrow> Some (deliver (de_merge V) e es))"
proof (induction ws)
  case (Cons w ws)
  then show ?case by (cases w) (auto simp: writes_fold)
qed simp

lemma settled_deliver: "settled a \<Longrightarrow> \<forall>x \<in> set xs. settled x \<Longrightarrow> settled (deliver (de_merge V) a xs)"
  unfolding deliver_def by (induction xs arbitrary: a) (auto simp: settled_merge)

lemma deliver_below:
  assumes "\<forall>x \<in> insert a (set xs). settled x" and "\<forall>y \<in> insert b (set ys). settled y"
    and "insert a (set xs) \<subseteq> insert b (set ys)"
  shows "env.below (deliver (de_merge V) a xs) (deliver (de_merge V) b ys)"
proof -
  have wf: "wf (de_data b)" "\<forall>y \<in> set ys. wf (de_data y)" "wf (de_data a)" "\<forall>x \<in> set xs. wf (de_data x)"
    using assms(1,2) by (auto simp: settled_def)
  have "\<forall>x \<in> insert a (set xs). env.below x (deliver (de_merge V) b ys)"
    using env.deliver_upper [OF wf(1,2)] assms(3) by blast
  then show ?thesis
    using wf env.wf_deliver [OF wf(1,2)] by (intro env.deliver_least) auto
qed

lemma deliver_same_elements:
  assumes "\<forall>x \<in> insert a (set xs). settled x" and "insert a (set xs) = insert b (set ys)"
  shows "deliver (de_merge V) a xs = deliver (de_merge V) b ys"
proof -
  let ?d1 = "deliver (de_merge V) a xs" and ?d2 = "deliver (de_merge V) b ys"
  have st: "\<forall>x \<in> insert b (set ys). settled x" using assms by simp
  have d: "settled ?d1" "settled ?d2" using assms(1) st by (simp_all add: settled_deliver)
  have "env.below ?d1 ?d2" "env.below ?d2 ?d1"
    using deliver_below [of a xs b ys] deliver_below [of b ys a xs] assms st by blast+
  then show ?thesis
    using env.below_antisym [of ?d1 ?d2] d by (simp add: settled_def)
qed

text \<open>Two replicas with the same settled start that received the same writes hold the same entries.\<close>

lemma writes_converge:
  assumes "\<forall>k e. fmlookup (rs_entries s) k = Some e \<longrightarrow> settled e" and "\<forall>(k, e) \<in> set ws. settled e"
    and "set ws = set ws'"
  shows "rs_entries (fold (\<lambda>(k, e) s. fst (rs_write_full V s k e)) ws s) =
    rs_entries (fold (\<lambda>(k, e) s. fst (rs_write_full V s k e)) ws' s)"
proof (rule fmap_ext)
  fix q
  define xs ys where "xs = map snd (filter (\<lambda>w. fst w = q) ws)" and "ys = map snd (filter (\<lambda>w. fst w = q) ws')"
  have set: "set xs = set ys" using assms(3) by (auto simp: xs_def ys_def)
  have st: "\<forall>e \<in> set xs. settled e" using assms(2) by (auto simp: xs_def)
  show "fmlookup (rs_entries (fold (\<lambda>(k, e) s. fst (rs_write_full V s k e)) ws s)) q =
    fmlookup (rs_entries (fold (\<lambda>(k, e) s. fst (rs_write_full V s k e)) ws' s)) q"
  proof (cases "fmlookup (rs_entries s) q")
    case (Some y)
    then have "deliver (de_merge V) y xs = deliver (de_merge V) y ys"
      using assms(1) st set by (intro deliver_same_elements) auto
    with Some show ?thesis by (simp add: writes_lookup writes_fold xs_def ys_def)
  next
    case None
    have "(case xs of [] \<Rightarrow> None | e # es \<Rightarrow> Some (deliver (de_merge V) e es)) =
        (case ys of [] \<Rightarrow> None | e # es \<Rightarrow> Some (deliver (de_merge V) e es))"
      using set st deliver_same_elements [of "hd xs" "tl xs" "hd ys" "tl ys"] by (cases xs; cases ys) simp_all
    with None show ?thesis by (simp add: writes_lookup writes_fold_None xs_def ys_def)
  qed
qed

end

interpretation gce: envelope_data gc_wf gcounter_ops
  by (intro envelope_data.intro) (simp add: gc.replicated_data_axioms)

interpretation ose: envelope_data os_wf orset_ops
  by (intro envelope_data.intro) (simp add: os.replicated_data_axioms)

text \<open>
  C20: Replicas of a keyed store converge: two replicators that start from the same entries and receive the
  same set of full-state writes, in any order and any number of times, hold the same entries. Stated for
  stores of OR-sets whose states carry no pending delta.
\<close>

theorem full_state_writes_converge:
  fixes s :: "'a::linorder orset replicator_state"
  assumes "\<forall>k e. fmlookup (rs_entries s) k = Some e \<longrightarrow> os_wf (de_data e) \<and> os_delta (de_data e) = None"
    and "\<forall>(k, e) \<in> set ws. os_wf (de_data e) \<and> os_delta (de_data e) = None"
    and "set ws = set ws'"
  shows "rs_entries (fold (\<lambda>(k, e) s. fst (rs_write_full orset_ops s k e)) ws s) =
    rs_entries (fold (\<lambda>(k, e) s. fst (rs_write_full orset_ops s k e)) ws' s)"
proof -
  have settled: "os_wf (de_data e) \<and> os_delta (de_data e) = None \<Longrightarrow> ose.settled e" for e :: "'a orset data_envelope"
    by (cases "de_data e") (simp add: ose.settled_def os_reset_delta_def)
  show ?thesis
    using assms settled by (intro ose.writes_converge) blast+
qed

theorem full_state_writes_converge_witness:
  "let k = ReplicatorKey ''k''; a = de_new (os_reset_delta (os_add os_new (ReplicaId ''a'') (1 :: int)));
       b = de_new (os_reset_delta (os_add os_new (ReplicaId ''b'') 2))
   in rs_entries (fold (\<lambda>(k, e) s. fst (rs_write_full orset_ops s k e)) [(k, a), (k, b)] rs_new) =
      rs_entries (fold (\<lambda>(k, e) s. fst (rs_write_full orset_ops s k e)) [(k, b), (k, a), (k, b)] rs_new)"
proof -
  have "os_wf (os_reset_delta (os_add os_new r x))" for r and x :: int
    by (simp add: os_wf_add)
  then show ?thesis
    unfolding Let_def by (intro full_state_writes_converge) (auto simp: rs_new_def de_new_def os_reset_delta_def)
qed

section \<open>Local updates\<close>

lemma gc_merge_increment:
  assumes "gc_wf c" and "gc_increment c r n = Ok c'"
  shows "gc_merge c (gc_reset_delta c') = gc_reset_delta c'"
proof (rule gc_merge_eqI)
  show "gc_pos (gc_merge c (gc_reset_delta c'))" "gc_pos (gc_reset_delta c')"
    using assms gc_wf_increment [OF assms] by (simp_all add: gc_pos_merge gc_wf_pos)
  fix q
  have "unat (gc_replica_value c r + n) = unat (gc_replica_value c r) + unat n"
    using gc_increment_Ok [OF assms(2)] by (simp add: unat_word_ariths)
  then have "gc_replica_value c q \<le> gc_replica_value c' q"
    using gc_increment_Ok [OF assms(2)] by (simp add: word_le_nat_alt)
  then show "gc_replica_value (gc_merge c (gc_reset_delta c')) q = gc_replica_value (gc_reset_delta c') q"
    by (simp add: max_def)
qed simp

text \<open>
  A local increment through the replicator. If the counter component overflows, the state is unchanged and the
  error is returned. Otherwise the total stored under the key grows by exactly the amount, other keys and
  the pruning table are unchanged, and no delta stays pending in the stored state.
\<close>

lemma counter_update_local:
  assumes "\<forall>e. fmlookup (rs_entries s) key = Some e \<longrightarrow> gc_wf (de_data e)"
    and "rs_update_local gcounter_ops s key gc_new (\<lambda>c. gc_increment c r n) = (s', res)"
  shows "case res of
      Inl err \<Rightarrow> err = CounterOverflow \<and> s' = s
    | Inr out \<Rightarrow> \<exists>e'. fmlookup (rs_entries s') key = Some e' \<and> gc_delta (de_data e') = None \<and>
        gc_total (de_data e') = (case fmlookup (rs_entries s) key of Some e \<Rightarrow> gc_total (de_data e) | None \<Rightarrow> 0) + unat n \<and>
        de_pruning e' = (case fmlookup (rs_entries s) key of Some e \<Rightarrow> de_pruning e | None \<Rightarrow> pt_new) \<and>
        (\<forall>q. q \<noteq> key \<longrightarrow> fmlookup (rs_entries s') q = fmlookup (rs_entries s) q)"
proof -
  define c where "c = (case fmlookup (rs_entries s) key of Some e \<Rightarrow> de_data e | None \<Rightarrow> gc_new)"
  have c: "gc_wf c" using assms(1) by (simp add: c_def split: option.split)
  have tot: "gc_total c = (case fmlookup (rs_entries s) key of Some e \<Rightarrow> gc_total (de_data e) | None \<Rightarrow> 0)"
    by (simp add: c_def gc_total_def gc_new_def split: option.split)
  show ?thesis
  proof (cases "gc_increment c r n")
    case (Inl err)
    then show ?thesis
      using assms(2) gc_increment_Err [of c r n err] by (auto simp: rs_update_local_def c_def [symmetric])
  next
    case (Inr c')
    have "gc_total (gc_reset_delta c') = gc_total c + unat n"
      using gc_total_increment [OF Inr] gc_total_cong [of "gc_reset_delta c'" c'] by simp
    moreover define e' where "e' = (case fmlookup (rs_entries s) key of
        Some e \<Rightarrow> de_merge_data gcounter_ops e (gc_reset_delta c') | None \<Rightarrow> de_new (gc_reset_delta c'))"
    moreover have "de_data e' = gc_reset_delta c'"
      using gc_merge_increment [OF c Inr]
      by (cases "fmlookup (rs_entries s) key") (simp_all add: e'_def c_def de_merge_data_def de_new_def)
    moreover have "de_pruning e' = (case fmlookup (rs_entries s) key of Some e \<Rightarrow> de_pruning e | None \<Rightarrow> pt_new)"
      by (simp add: e'_def de_merge_data_def de_new_def split: option.split)
    moreover have "s' = fst (rs_set_data s key e')" "\<exists>out. res = Ok out"
      using assms(2) Inr by (simp_all add: rs_update_local_def c_def [symmetric] e'_def split_beta Let_def) auto
    ultimately show ?thesis by (auto simp: tot)
  qed
qed

lemma counter_update_local_witness:
  "\<exists>s' out e'. rs_update_local gcounter_ops rs_new (ReplicatorKey ''k'') gc_new (\<lambda>c. gc_increment c (ReplicaId ''a'') 5) = (s', Ok out) \<and>
     fmlookup (rs_entries s') (ReplicatorKey ''k'') = Some e' \<and> gc_total (de_data e') = 5"
proof -
  obtain s' res where run: "rs_update_local gcounter_ops rs_new (ReplicatorKey ''k'') gc_new (\<lambda>c. gc_increment c (ReplicaId ''a'') 5) = (s', res)"
    by fastforce
  moreover have "\<exists>out. res = Ok out"
    using run by (auto simp: rs_update_local_def rs_new_def gc_increment_def checked_add_def Let_def split_beta)
  ultimately show ?thesis
    using counter_update_local [OF _ run] by (auto simp: rs_new_def)
qed

end
