(* ===== verification/Delta_Log.thy ===== *)
theory Delta_Log
  imports Replicator_State "HOL-Library.Code_Target_Nat"
begin

text \<open>
  The sender side of delta propagation: \<open>delta.rs\<close> and the tick of \<open>delta_loop.rs\<close> of \<open>kairo-distributed-data/src\<close>.
  Versions and counters are 64-bit words, sizes (\<open>usize\<close>) are naturals; the merge of deltas and
  the publication of a batch are arguments. The lemmas show that the selection of peers is bounded and fair, that the cache of
  merged ranges is transparent, which ranges are sent, and that cleanup drops only what all peers were sent.
\<close>

section \<open>Propagations and the log\<close>

record 'd delta_propagation_entry =
  pe_delta :: 'd
  pe_from_version :: u64
  pe_to_version :: u64
  pe_pruning :: pruning_table

definition pe_new :: "'d \<Rightarrow> u64 \<Rightarrow> u64 \<Rightarrow> 'd delta_propagation_entry" where
  "pe_new delta from_version to_version =
     \<lparr>pe_delta = delta, pe_from_version = from_version, pe_to_version = to_version, pe_pruning = pt_new\<rparr>"

record 'd delta_propagation =
  dp_entries :: "(replicator_key, 'd delta_propagation_entry) fmap"

definition dp_attach_pruning :: "(replicator_key \<Rightarrow> pruning_table) \<Rightarrow> 'd delta_propagation \<Rightarrow> 'd delta_propagation" where
  "dp_attach_pruning pruning_for_key p =
     \<lparr>dp_entries = fmmap_keys (\<lambda>key entry. entry\<lparr>pe_pruning := pruning_for_key key\<rparr>) (dp_entries p)\<rparr>"

type_synonym sent_versions = "(replicator_key, (replica_id, u64) fmap) fmap"
type_synonym 'd version_entries = "(u64, 'd option) fmap"

record 'd delta_log =
  dl_nodes :: "replica_id list"
  dl_versions :: "(replicator_key, u64) fmap"
  dl_entries :: "(replicator_key, 'd version_entries) fmap"
  dl_sent_to_node :: sent_versions
  dl_round_robin :: u64
  dl_propagation_count :: u64
  dl_divisor :: nat
  dl_max_delta_versions :: nat

definition sorted_unique_nodes :: "replica_id list \<Rightarrow> replica_id list" where
  "sorted_unique_nodes nodes = sorted_list_of_fset (fset_of_list nodes)"

definition dl_new :: "replica_id list \<Rightarrow> 'd delta_log" where
  "dl_new nodes = \<lparr>dl_nodes = sorted_unique_nodes nodes, dl_versions = fmempty, dl_entries = fmempty,
     dl_sent_to_node = fmempty, dl_round_robin = 0, dl_propagation_count = 0, dl_divisor = 5,
     dl_max_delta_versions = 2 ^ 64 - 1\<rparr>"

definition dl_with_gossip_interval_divisor :: "'d delta_log \<Rightarrow> nat \<Rightarrow> 'd delta_log" where
  "dl_with_gossip_interval_divisor l divisor = l\<lparr>dl_divisor := max divisor 1\<rparr>"

definition dl_with_max_delta_versions :: "'d delta_log \<Rightarrow> nat \<Rightarrow> 'd delta_log" where
  "dl_with_max_delta_versions l n = l\<lparr>dl_max_delta_versions := max n 1\<rparr>"

definition dl_set_nodes :: "'d delta_log \<Rightarrow> replica_id list \<Rightarrow> 'd delta_log" where
  "dl_set_nodes l nodes =
     (let nodes = sorted_unique_nodes nodes
      in l\<lparr>dl_sent_to_node := fmmap (fmfilter (\<lambda>node. node \<in> set nodes)) (dl_sent_to_node l), dl_nodes := nodes\<rparr>)"

definition dl_current_version :: "'d delta_log \<Rightarrow> replicator_key \<Rightarrow> u64" where
  "dl_current_version l key = unwrap_or (fmlookup (dl_versions l) key) 0"

definition dl_has_delta_entries :: "'d delta_log \<Rightarrow> replicator_key \<Rightarrow> bool" where
  "dl_has_delta_entries l key =
     (case fmlookup (dl_entries l) key of Some entries \<Rightarrow> \<not> bt_is_empty entries | None \<Rightarrow> False)"

definition dl_record_delta :: "'d delta_log \<Rightarrow> replicator_key \<Rightarrow> 'd option \<Rightarrow> 'd delta_log \<times> u64" where
  "dl_record_delta l key delta =
     (let version = dl_current_version l key + 1
      in (l\<lparr>dl_versions := fmupd key version (dl_versions l),
            dl_entries := fmupd key (fmupd version delta (unwrap_or (fmlookup (dl_entries l) key) fmempty)) (dl_entries l)\<rparr>,
          version))"

definition dl_delete_key :: "'d delta_log \<Rightarrow> replicator_key \<Rightarrow> 'd delta_log" where
  "dl_delete_key l key = l\<lparr>dl_versions := fmdrop key (dl_versions l), dl_entries := fmdrop key (dl_entries l),
     dl_sent_to_node := fmdrop key (dl_sent_to_node l)\<rparr>"

definition dl_cleanup_removed_node :: "'d delta_log \<Rightarrow> replica_id \<Rightarrow> 'd delta_log" where
  "dl_cleanup_removed_node l node = l\<lparr>dl_sent_to_node := fmmap (fmdrop node) (dl_sent_to_node l)\<rparr>"

section \<open>Selecting peers\<close>

definition node_slice_size :: "nat \<Rightarrow> nat \<Rightarrow> nat" where
  "node_slice_size all_nodes_size divisor =
     (let divisor = max divisor 1;
          target = all_nodes_size div divisor + 1
      in min (max target 2) (min all_nodes_size 10))"

definition dl_selected_nodes :: "'d delta_log \<Rightarrow> 'd delta_log \<times> replica_id list" where
  "dl_selected_nodes l =
     (let n = length (dl_nodes l);
          slice_size = node_slice_size n (dl_divisor l)
      in if n \<le> slice_size then (l, dl_nodes l)
         else let start = unat (dl_round_robin l mod of_nat n)
              in (l\<lparr>dl_round_robin := dl_round_robin l + of_nat slice_size\<rparr>,
                  map (\<lambda>offset. dl_nodes l ! ((start + offset) mod n)) [0..<slice_size]))"

section \<open>Collecting ranges\<close>

definition entries_after :: "'d version_entries \<Rightarrow> u64 \<Rightarrow> 'd version_entries" where
  "entries_after entries version = fmfilter (\<lambda>v. version + 1 \<le> v) entries"

definition merge_delta_group :: "('d \<Rightarrow> 'd \<Rightarrow> 'd) \<Rightarrow> 'd version_entries \<Rightarrow> nat \<Rightarrow> 'd option" where
  "merge_delta_group merge entries max_delta_versions =
     (if length (bt_keys entries) \<ge> max_delta_versions then None
      else case bt_values entries of
             Some first # values \<Rightarrow> try_fold (\<lambda>acc next. map_option (\<lambda>delta. merge acc delta) next) first values
           | _ \<Rightarrow> None)"

type_synonym 'd range_cache = "(replicator_key \<times> u64 \<times> u64, 'd option) fmap"

definition sent_at :: "sent_versions \<Rightarrow> replicator_key \<Rightarrow> replica_id \<Rightarrow> u64" where
  "sent_at sent key node = unwrap_or (Option.bind (fmlookup sent key) (\<lambda>m. fmlookup m node)) 0"

definition collect_key ::
  "('d \<Rightarrow> 'd \<Rightarrow> 'd) \<Rightarrow> nat \<Rightarrow> replica_id \<Rightarrow> replicator_key \<times> 'd version_entries
     \<Rightarrow> sent_versions \<times> 'd range_cache \<times> (replicator_key, 'd delta_propagation_entry) fmap
     \<Rightarrow> sent_versions \<times> 'd range_cache \<times> (replicator_key, 'd delta_propagation_entry) fmap" where
  "collect_key merge max_delta_versions node = (\<lambda>(key, entries) (sent, cache, entries_for_node).
     let unsent = entries_after entries (sent_at sent key node)
     in if bt_is_empty unsent then (sent, cache, entries_for_node)
        else
          let from_version = hd (bt_keys unsent);
              to_version = last (bt_keys unsent);
              cache_key = (key, from_version, to_version);
              (merged_delta, cache) = (case fmlookup cache cache_key of
                  Some delta \<Rightarrow> (delta, cache)
                | None \<Rightarrow> let delta = merge_delta_group merge unsent max_delta_versions
                          in (delta, fmupd cache_key delta cache));
              sent = fmupd key (fmupd node to_version (unwrap_or (fmlookup sent key) fmempty)) sent;
              entries_for_node = (case merged_delta of
                  Some delta \<Rightarrow> fmupd key (pe_new delta from_version to_version) entries_for_node
                | None \<Rightarrow> entries_for_node)
          in (sent, cache, entries_for_node))"

definition collect_node ::
  "('d \<Rightarrow> 'd \<Rightarrow> 'd) \<Rightarrow> nat \<Rightarrow> (replicator_key, 'd version_entries) fmap \<Rightarrow> replica_id
     \<Rightarrow> sent_versions \<times> 'd range_cache \<times> (replica_id, 'd delta_propagation) fmap
     \<Rightarrow> sent_versions \<times> 'd range_cache \<times> (replica_id, 'd delta_propagation) fmap" where
  "collect_node merge max_delta_versions entries node = (\<lambda>(sent, cache, propagations).
     let (sent, cache, entries_for_node) =
           fold (collect_key merge max_delta_versions node) (bt_entries entries) (sent, cache, fmempty)
     in (sent, cache,
         if bt_is_empty entries_for_node then propagations
         else fmupd node \<lparr>dp_entries = entries_for_node\<rparr> propagations))"

definition dl_collect_propagations ::
  "('d \<Rightarrow> 'd \<Rightarrow> 'd) \<Rightarrow> 'd delta_log \<Rightarrow> 'd delta_log \<times> (replica_id, 'd delta_propagation) fmap" where
  "dl_collect_propagations merge l =
     (let l = l\<lparr>dl_propagation_count := dl_propagation_count l + 1\<rparr>
      in if dl_nodes l = [] then (l, fmempty)
         else
           let (l, selected) = dl_selected_nodes l;
               (sent, _, propagations) =
                 fold (collect_node merge (dl_max_delta_versions l) (dl_entries l)) selected
                   (dl_sent_to_node l, fmempty, fmempty)
           in (l\<lparr>dl_sent_to_node := sent\<rparr>, propagations))"

section \<open>Cleanup and the tick\<close>

definition smallest_version_propagated_to_all :: "replicator_key \<Rightarrow> replica_id list \<Rightarrow> sent_versions \<Rightarrow> u64" where
  "smallest_version_propagated_to_all key nodes sent =
     (case fmlookup sent key of
        None \<Rightarrow> 0
      | Some sent_for_key \<Rightarrow>
          if bt_is_empty sent_for_key \<or> list_ex (\<lambda>node. fmlookup sent_for_key node = None) nodes then 0
          else unwrap_or (min_by_key (\<lambda>v. v) (bt_values sent_for_key)) 0)"

definition dl_cleanup_delta_entries :: "'d delta_log \<Rightarrow> 'd delta_log" where
  "dl_cleanup_delta_entries l =
     (if dl_nodes l = [] then l\<lparr>dl_entries := fmempty\<rparr>
      else l\<lparr>dl_entries := fmmap_keys (\<lambda>key entries.
          entries_after entries (smallest_version_propagated_to_all key (dl_nodes l) (dl_sent_to_node l))) (dl_entries l)\<rparr>)"

text \<open>\<open>run_tick_with_pruning\<close>: what is handed to the sink, and whether entries were cleaned.\<close>

definition dl_run_tick ::
  "('d \<Rightarrow> 'd \<Rightarrow> 'd) \<Rightarrow> u64 \<Rightarrow> (replicator_key \<Rightarrow> pruning_table) \<Rightarrow> 'd delta_log
     \<Rightarrow> 'd delta_log \<times> (replica_id, 'd delta_propagation) fmap \<times> bool" where
  "dl_run_tick merge cleanup_every_ticks pruning_for_key l =
     (let (l, propagations) = dl_collect_propagations merge l;
          published = fmmap (dp_attach_pruning pruning_for_key) propagations;
          cleaned = (dl_propagation_count l mod cleanup_every_ticks = 0)
      in (if cleaned then dl_cleanup_delta_entries l else l, published, cleaned))"

section \<open>Peer selection: bounds and fairness\<close>

lemma node_slice_size_bounds:
  "0 < n \<Longrightarrow> min n 2 \<le> node_slice_size n d \<and> node_slice_size n d \<le> min n 10"
  by (auto simp: node_slice_size_def Let_def)

lemma length_selected: "length (snd (dl_selected_nodes l)) = node_slice_size (length (dl_nodes l)) (dl_divisor l)"
  by (auto simp: dl_selected_nodes_def Let_def node_slice_size_def)

lemma dl_selected_nodes_fields:
  "dl_nodes (fst (dl_selected_nodes l)) = dl_nodes l" "dl_divisor (fst (dl_selected_nodes l)) = dl_divisor l"
  "dl_entries (fst (dl_selected_nodes l)) = dl_entries l" "dl_versions (fst (dl_selected_nodes l)) = dl_versions l"
  "dl_sent_to_node (fst (dl_selected_nodes l)) = dl_sent_to_node l"
  "dl_max_delta_versions (fst (dl_selected_nodes l)) = dl_max_delta_versions l"
  "dl_propagation_count (fst (dl_selected_nodes l)) = dl_propagation_count l"
  by (simp_all add: dl_selected_nodes_def Let_def)

lemma mod_interval_inj:
  fixes n :: nat
  assumes "i < n" "j < n" "(a + i) mod n = (a + j) mod n"
  shows "i = j"
proof (cases i j rule: linorder_cases)
  case less
  then have "n dvd j - i" using assms(3) mod_eq_dvd_iff_nat [of "a + i" "a + j" n] by simp
  then show ?thesis using less assms by (auto dest: dvd_imp_le)
next
  case greater
  then have "n dvd i - j" using assms(3) mod_eq_dvd_iff_nat [of "a + j" "a + i" n] by simp
  then show ?thesis using greater assms by (auto dest: dvd_imp_le)
qed

lemma distinct_selected:
  assumes "distinct (dl_nodes l)"
  shows "distinct (snd (dl_selected_nodes l))"
proof (cases "length (dl_nodes l) \<le> node_slice_size (length (dl_nodes l)) (dl_divisor l)")
  case False
  let ?n = "length (dl_nodes l)"
  have "inj_on (\<lambda>offset. dl_nodes l ! ((a + offset) mod ?n)) {0..<node_slice_size ?n (dl_divisor l)}" for a
  proof (rule inj_onI)
    fix i j
    assume ij: "i \<in> {0..<node_slice_size ?n (dl_divisor l)}" "j \<in> {0..<node_slice_size ?n (dl_divisor l)}"
      and eq: "dl_nodes l ! ((a + i) mod ?n) = dl_nodes l ! ((a + j) mod ?n)"
    have lt: "i < ?n" "j < ?n" using ij False by auto
    then have "(a + i) mod ?n < ?n" "(a + j) mod ?n < ?n" by (auto intro: mod_less_divisor)
    then have "(a + i) mod ?n = (a + j) mod ?n"
      using eq nth_eq_iff_index_eq [OF assms] by blast
    then show "i = j" by (rule mod_interval_inj [OF lt])
  qed
  with False show ?thesis by (simp add: dl_selected_nodes_def Let_def distinct_map)
qed (use assms in \<open>simp add: dl_selected_nodes_def Let_def\<close>)

lemma set_selected: "set (snd (dl_selected_nodes l)) \<subseteq> set (dl_nodes l)"
proof (cases "dl_nodes l = []")
  case True
  then show ?thesis by (simp add: dl_selected_nodes_def Let_def)
next
  case False
  then show ?thesis by (auto simp: dl_selected_nodes_def Let_def)
qed

text \<open>The nodes selected by consecutive ticks.\<close>

primrec selections :: "nat \<Rightarrow> 'd delta_log \<Rightarrow> replica_id list list" where
  "selections 0 l = []"
| "selections (Suc k) l = snd (dl_selected_nodes l) # selections k (fst (dl_selected_nodes l))"

lemma nth_selections:
  assumes "node_slice_size (length (dl_nodes l)) (dl_divisor l) = w" and "w < length (dl_nodes l)"
    and "unat (dl_round_robin l) + k * w < 2 ^ 64" and "length (dl_nodes l) < 2 ^ 64" and "j < k" and "i < w"
  shows "dl_nodes l ! ((unat (dl_round_robin l) + j * w + i) mod length (dl_nodes l)) \<in> set (selections k l ! j)"
  using assms
proof (induction k arbitrary: l j)
  case (Suc k)
  let ?n = "length (dl_nodes l)" and ?l = "fst (dl_selected_nodes l)"
  have n: "unat (of_nat ?n :: u64) = ?n" "unat (of_nat w :: u64) = w"
    using Suc.prems by (simp_all add: unat_of_nat)
  have rr: "unat (dl_round_robin ?l) = unat (dl_round_robin l) + w"
    using Suc.prems n by (simp add: dl_selected_nodes_def Let_def unat_word_ariths)
  show ?case
  proof (cases j)
    case 0
    have "snd (dl_selected_nodes l) = map (\<lambda>offset. dl_nodes l ! ((unat (dl_round_robin l mod of_nat ?n) + offset) mod ?n)) [0..<w]"
      using Suc.prems by (simp add: dl_selected_nodes_def Let_def)
    moreover have "(unat (dl_round_robin l mod of_nat ?n) + i) mod ?n = (unat (dl_round_robin l) + i) mod ?n"
      using n by (simp add: unat_mod mod_add_left_eq)
    ultimately show ?thesis using 0 Suc.prems by force
  next
    case (Suc j')
    have "dl_nodes ?l ! ((unat (dl_round_robin ?l) + j' * w + i) mod length (dl_nodes ?l)) \<in> set (selections k ?l ! j')"
      using Suc.prems rr Suc by (intro Suc.IH) (simp_all add: dl_selected_nodes_fields)
    then show ?thesis by (simp add: Suc dl_selected_nodes_fields rr add.assoc)
  qed
qed simp

text \<open>
  Peer selection is bounded: each tick selects distinct target replicas, at least two (or all when there are
  fewer) and at most ten.
\<close>

lemma selection_bounds:
  assumes "distinct (dl_nodes l)" and "dl_nodes l \<noteq> []"
  shows "let selected = snd (dl_selected_nodes l) in
    distinct selected \<and> set selected \<subseteq> set (dl_nodes l) \<and>
    min 2 (length (dl_nodes l)) \<le> length selected \<and> length selected \<le> min 10 (length (dl_nodes l))"
  using distinct_selected [OF assms(1)] set_selected [of l] assms(2)
    node_slice_size_bounds [of "length (dl_nodes l)" "dl_divisor l"]
  by (simp add: Let_def length_selected min.commute)

abbreviation log_abc :: "gcounter delta_log" where
  "log_abc \<equiv> (dl_new [])\<lparr>dl_nodes := [ReplicaId ''a'', ReplicaId ''b'', ReplicaId ''c'']\<rparr>"

lemma selection_bounds_witness:
  "distinct (snd (dl_selected_nodes log_abc)) \<and> length (snd (dl_selected_nodes log_abc)) \<in> {2..3}"
  using selection_bounds [of log_abc] by (simp add: Let_def)

text \<open>
  C23: Peer selection is fair: as long as the 64-bit round-robin counter does not wrap, every target replica is
  selected within as many ticks as slices are needed to cover all of them.
\<close>

theorem selection_fair:
  assumes "node \<in> set (dl_nodes l)"
    and "ticks = (length (dl_nodes l) - 1) div node_slice_size (length (dl_nodes l)) (dl_divisor l) + 1"
    and "unat (dl_round_robin l) + ticks * node_slice_size (length (dl_nodes l)) (dl_divisor l) < 2 ^ 64"
    and "length (dl_nodes l) < 2 ^ 64"
  shows "\<exists>j < ticks. node \<in> set (selections ticks l ! j)"
proof -
  let ?n = "length (dl_nodes l)" and ?c = "unat (dl_round_robin l)"
  define w where "w = node_slice_size ?n (dl_divisor l)"
  obtain i where i: "i < ?n" "dl_nodes l ! i = node" using assms(1) by (auto simp: in_set_conv_nth)
  have n0: "0 < ?n" using i by linarith
  then have w: "0 < w" using node_slice_size_bounds [of ?n "dl_divisor l"] unfolding w_def by linarith
  show ?thesis
  proof (cases "?n \<le> w")
    case True
    then have "snd (dl_selected_nodes l) = dl_nodes l" by (simp add: dl_selected_nodes_def Let_def w_def)
    then show ?thesis using assms(1,2) by (intro exI [of _ 0]) simp
  next
    case False
    define t where "t = (i + (?n - ?c mod ?n)) mod ?n"
    have t: "t < ?n" unfolding t_def by (rule mod_less_divisor [OF n0])
    have "(?c + t) mod ?n = i"
    proof -
      have "(?c + t) mod ?n = (?c mod ?n + (i + (?n - ?c mod ?n))) mod ?n" by (simp add: t_def mod_simps)
      also have "?c mod ?n + (i + (?n - ?c mod ?n)) = i + ?n" using mod_less_divisor [OF n0, of ?c] by linarith
      finally show ?thesis using i by simp
    qed
    moreover have "t div w \<le> (?n - 1) div w" using t by (intro div_le_mono) simp
    then have "t div w < ticks" unfolding assms(2) w_def by simp
    moreover have "dl_nodes l ! ((?c + t div w * w + t mod w) mod ?n) \<in> set (selections ticks l ! (t div w))"
      using False w assms(3,4) calculation(2) by (intro nth_selections) (simp_all add: w_def)
    ultimately show ?thesis using i by (intro exI [of _ "t div w"]) (simp add: add.assoc)
  qed
qed

theorem selection_fair_witness:
  "\<exists>j < 2. ReplicaId ''c'' \<in> set (selections 2 log_abc ! j)"
proof (rule selection_fair)
  have w: "node_slice_size (length (dl_nodes log_abc)) (dl_divisor log_abc) = 2"
    by (simp add: node_slice_size_def dl_new_def)
  show "2 = (length (dl_nodes log_abc) - 1) div node_slice_size (length (dl_nodes log_abc)) (dl_divisor log_abc) + 1"
    unfolding w by simp
  show "unat (dl_round_robin log_abc) + 2 * node_slice_size (length (dl_nodes log_abc)) (dl_divisor log_abc) < 2 ^ 64"
    unfolding w by (simp add: dl_new_def)
qed simp_all

section \<open>Ranges of versions\<close>

lemma fmlookup_entries_after [simp]:
  "fmlookup (entries_after es v) x = (if v + 1 \<le> x then fmlookup es x else None)"
  by (simp add: entries_after_def)

lemma hd_bt_keys:
  assumes "m \<noteq> fmempty"
  shows "fmlookup m (hd (bt_keys m)) \<noteq> None" and "fmlookup m x \<noteq> None \<Longrightarrow> hd (bt_keys m) \<le> x"
proof -
  obtain k ks where ks: "bt_keys m = k # ks" using assms by (cases "bt_keys m") auto
  have mem: "x \<in> set (bt_keys m) \<longleftrightarrow> fmlookup m x \<noteq> None" for x by (auto simp: fmlookup_dom'_iff)
  have "sorted (k # ks)" using sorted_bt_keys [of m] ks by simp
  then show "fmlookup m (hd (bt_keys m)) \<noteq> None" "fmlookup m x \<noteq> None \<Longrightarrow> hd (bt_keys m) \<le> x"
    using mem [of k] mem [of x] unfolding ks by auto
qed

lemma last_bt_keys:
  assumes "m \<noteq> fmempty"
  shows "fmlookup m (last (bt_keys m)) \<noteq> None" and "fmlookup m x \<noteq> None \<Longrightarrow> x \<le> last (bt_keys m)"
proof -
  obtain ks k where ks: "bt_keys m = ks @ [k]" using assms by (cases "bt_keys m" rule: rev_cases) auto
  have mem: "x \<in> set (bt_keys m) \<longleftrightarrow> fmlookup m x \<noteq> None" for x by (auto simp: fmlookup_dom'_iff)
  have "sorted (ks @ [k])" using sorted_bt_keys [of m] ks by simp
  then show "fmlookup m (last (bt_keys m)) \<noteq> None" "fmlookup m x \<noteq> None \<Longrightarrow> x \<le> last (bt_keys m)"
    using mem [of k] mem [of x] unfolding ks by (auto simp: sorted_append)
qed

text \<open>The range to send to a peer that was sent everything up to \<open>v\<close>, computed afresh.\<close>

definition range_of :: "('d \<Rightarrow> 'd \<Rightarrow> 'd) \<Rightarrow> nat \<Rightarrow> 'd version_entries \<Rightarrow> u64 \<Rightarrow> (u64 \<times> u64 \<times> 'd option) option" where
  "range_of merge max_delta_versions es v =
     (let u = entries_after es v
      in if u = fmempty then None
         else Some (hd (bt_keys u), last (bt_keys u), merge_delta_group merge u max_delta_versions))"

definition cache_ok :: "('d \<Rightarrow> 'd \<Rightarrow> 'd) \<Rightarrow> nat \<Rightarrow> (replicator_key, 'd version_entries) fmap \<Rightarrow> 'd range_cache \<Rightarrow> bool" where
  "cache_ok merge n E c \<longleftrightarrow> (\<forall>k f t d. fmlookup c (k, f, t) = Some d \<longrightarrow>
     (\<exists>es. fmlookup E k = Some es \<and> d = merge_delta_group merge (fmfilter (\<lambda>x. f \<le> x) es) n))"

lemma entries_after_from:
  assumes "entries_after es v \<noteq> fmempty"
  shows "entries_after es v = fmfilter (\<lambda>x. hd (bt_keys (entries_after es v)) \<le> x) es"
proof (rule fmap_ext)
  fix x
  let ?h = "hd (bt_keys (entries_after es v))"
  have "v + 1 \<le> ?h" using hd_bt_keys(1) [OF assms] by (auto split: if_splits)
  moreover have "v + 1 \<le> x \<Longrightarrow> fmlookup es x \<noteq> None \<Longrightarrow> ?h \<le> x"
    using hd_bt_keys(2) [OF assms, of x] by simp
  ultimately show "fmlookup (entries_after es v) x = fmlookup (fmfilter (\<lambda>x. ?h \<le> x) es) x"
    by (cases "fmlookup es x") (auto dest: order_trans)
qed

definition collect_key_plain ::
  "('d \<Rightarrow> 'd \<Rightarrow> 'd) \<Rightarrow> nat \<Rightarrow> replica_id \<Rightarrow> replicator_key \<times> 'd version_entries
     \<Rightarrow> sent_versions \<times> (replicator_key, 'd delta_propagation_entry) fmap
     \<Rightarrow> sent_versions \<times> (replicator_key, 'd delta_propagation_entry) fmap" where
  "collect_key_plain merge n node = (\<lambda>(k, es) (sent, out).
     case range_of merge n es (sent_at sent k node) of
       None \<Rightarrow> (sent, out)
     | Some (f, t, d) \<Rightarrow> (fmupd k (fmupd node t (unwrap_or (fmlookup sent k) fmempty)) sent,
         case d of Some delta \<Rightarrow> fmupd k (pe_new delta f t) out | None \<Rightarrow> out))"

lemma collect_key_cached:
  assumes "cache_ok merge n E c" and "fmlookup E k = Some es"
  shows "\<exists>c'. cache_ok merge n E c' \<and> collect_key merge n node (k, es) (sent, c, out) =
    (let (sent', out') = collect_key_plain merge n node (k, es) (sent, out) in (sent', c', out'))"
proof (cases "entries_after es (sent_at sent k node) = fmempty")
  case True
  with assms show ?thesis by (auto simp: collect_key_def collect_key_plain_def range_of_def)
next
  case False
  let ?u = "entries_after es (sent_at sent k node)"
  let ?ck = "(k, hd (bt_keys ?u), last (bt_keys ?u))" and ?d = "merge_delta_group merge ?u n"
  have u: "?u = fmfilter (\<lambda>x. hd (bt_keys ?u) \<le> x) es" using entries_after_from [OF False] .
  show ?thesis
  proof (cases "fmlookup c ?ck")
    case None
    have "cache_ok merge n E (fmupd ?ck ?d c)"
      using assms u unfolding cache_ok_def by auto
    with None False show ?thesis
      by (auto simp: collect_key_def collect_key_plain_def range_of_def Let_def)
  next
    case (Some d)
    then have "d = merge_delta_group merge (fmfilter (\<lambda>x. hd (bt_keys ?u) \<le> x) es) n"
      using assms unfolding cache_ok_def by fastforce
    then have "d = ?d" by (simp only: u [symmetric])
    with Some False assms show ?thesis
      by (auto simp: collect_key_def collect_key_plain_def range_of_def Let_def)
  qed
qed

lemma collect_keys_cached:
  assumes "cache_ok merge n E c" and "\<forall>(k, es) \<in> set xs. fmlookup E k = Some es"
  shows "\<exists>c'. cache_ok merge n E c' \<and> fold (collect_key merge n node) xs (sent, c, out) =
    (let (sent', out') = fold (collect_key_plain merge n node) xs (sent, out) in (sent', c', out'))"
  using assms
proof (induction xs arbitrary: c sent out)
  case (Cons x xs)
  obtain k es where x: "x = (k, es)" by fastforce
  obtain sent1 out1 where p: "collect_key_plain merge n node (k, es) (sent, out) = (sent1, out1)" by fastforce
  have "fmlookup E k = Some es" "\<forall>(k, es) \<in> set xs. fmlookup E k = Some es" using Cons.prems x by auto
  from collect_key_cached [OF Cons.prems(1) this(1), of node sent out] p obtain c1 where
    c1: "cache_ok merge n E c1" "collect_key merge n node (k, es) (sent, c, out) = (sent1, c1, out1)" by auto
  show ?case
    using Cons.IH [OF c1(1), of sent1 out1] Cons.prems x c1(2) p by auto
qed auto

lemma sent_at_fmupd:
  "sent_at (fmupd k (fmupd node t (unwrap_or (fmlookup sent k) fmempty)) sent) q n' =
     (if q = k \<and> n' = node then t else sent_at sent q n')"
  by (auto simp: sent_at_def split: option.split)

lemma collect_keys_plain:
  assumes "distinct (map fst xs)"
  shows "sent_at (fst (fold (collect_key_plain merge n node) xs (sent, out))) k n' =
      (if n' = node then
         case Option.bind (map_of xs k) (\<lambda>es. range_of merge n es (sent_at sent k node)) of
           Some (f, t, d) \<Rightarrow> t | None \<Rightarrow> sent_at sent k n'
       else sent_at sent k n')" (is "?A xs sent out")
    and "fmlookup (snd (fold (collect_key_plain merge n node) xs (sent, out))) k =
      (case Option.bind (map_of xs k) (\<lambda>es. range_of merge n es (sent_at sent k node)) of
         Some (f, t, Some d) \<Rightarrow> Some (pe_new d f t) | _ \<Rightarrow> fmlookup out k)" (is "?B xs sent out")
proof -
  have "?A xs sent out \<and> ?B xs sent out"
    using assms
  proof (induction xs arbitrary: sent out)
    case (Cons x xs)
    obtain q es where x: "x = (q, es)" by fastforce
    have q: "map_of xs q = None" and d: "distinct (map fst xs)"
      using Cons.prems x by (auto simp: map_of_eq_None_iff)
    show ?case
    proof (cases "range_of merge n es (sent_at sent q node)")
      case None
      then have "collect_key_plain merge n node x (sent, out) = (sent, out)"
        by (simp add: collect_key_plain_def x)
      then show ?thesis using Cons.IH [OF d, of sent out] None q by (auto simp: x)
    next
      case (Some r)
      obtain f t dd where r: "r = (f, t, dd)" by (cases r) auto
      define sent1 where "sent1 = fmupd q (fmupd node t (unwrap_or (fmlookup sent q) fmempty)) sent"
      define out1 where "out1 = (case dd of Some delta \<Rightarrow> fmupd q (pe_new delta f t) out | None \<Rightarrow> out)"
      have "collect_key_plain merge n node x (sent, out) = (sent1, out1)"
        by (simp add: collect_key_plain_def x Some r sent1_def out1_def)
      moreover have "sent_at sent1 k' m = (if k' = q \<and> m = node then t else sent_at sent k' m)" for k' m
        unfolding sent1_def by (rule sent_at_fmupd)
      moreover have "fmlookup out1 k = (if k = q then (case dd of Some delta \<Rightarrow> Some (pe_new delta f t) | None \<Rightarrow> fmlookup out k) else fmlookup out k)"
        by (simp add: out1_def split: option.split)
      ultimately show ?thesis
        using Cons.IH [OF d, of sent1 out1] Some r q by (cases "k = q") (simp_all add: x split: option.split)
    qed
  qed simp
  then show "?A xs sent out" "?B xs sent out" by blast+
qed

text \<open>The range of one key that a peer lacks, given what was sent.\<close>

definition unsent_range ::
  "('d \<Rightarrow> 'd \<Rightarrow> 'd) \<Rightarrow> nat \<Rightarrow> (replicator_key, 'd version_entries) fmap \<Rightarrow> sent_versions \<Rightarrow> replicator_key \<Rightarrow> replica_id
     \<Rightarrow> (u64 \<times> u64 \<times> 'd option) option" where
  "unsent_range merge n E sent k node =
     Option.bind (fmlookup E k) (\<lambda>es. range_of merge n es (sent_at sent k node))"

definition propagated :: "(replica_id, 'd delta_propagation) fmap \<Rightarrow> replica_id \<Rightarrow> replicator_key \<Rightarrow> 'd delta_propagation_entry option" where
  "propagated ps node k = Option.bind (fmlookup ps node) (\<lambda>p. fmlookup (dp_entries p) k)"

lemma unsent_range_cong:
  "sent_at sent k node = sent_at sent' k node \<Longrightarrow> unsent_range merge n E sent k node = unsent_range merge n E sent' k node"
  by (simp add: unsent_range_def)

lemma collect_node_step:
  assumes "cache_ok merge n E c" and "fmlookup ps node = None"
  shows "\<exists>sent' c' ps'. cache_ok merge n E c' \<and> collect_node merge n E node (sent, c, ps) = (sent', c', ps') \<and>
    (\<forall>k m. sent_at sent' k m = (if m = node then
       case unsent_range merge n E sent k node of Some (f, t, d) \<Rightarrow> t | None \<Rightarrow> sent_at sent k m else sent_at sent k m)) \<and>
    (\<forall>k m. propagated ps' m k = (if m = node then
       case unsent_range merge n E sent k node of Some (f, t, Some d) \<Rightarrow> Some (pe_new d f t) | _ \<Rightarrow> None else propagated ps m k)) \<and>
    (\<forall>m. m \<noteq> node \<longrightarrow> fmlookup ps' m = fmlookup ps m)"
proof -
  obtain sent' out where p: "fold (collect_key_plain merge n node) (bt_entries E) (sent, fmempty) = (sent', out)" by fastforce
  have "\<forall>(k, es) \<in> set (bt_entries E). fmlookup E k = Some es" by auto
  from collect_keys_cached [OF assms(1) this, of node sent fmempty] p obtain c' where
    c': "cache_ok merge n E c'" "fold (collect_key merge n node) (bt_entries E) (sent, c, fmempty) = (sent', c', out)"
    by auto
  have "distinct (map fst (bt_entries E))" by simp
  from collect_keys_plain [OF this, of merge n node sent fmempty] p have plain:
    "sent_at sent' k m = (if m = node then case unsent_range merge n E sent k node of Some (f, t, d) \<Rightarrow> t
       | None \<Rightarrow> sent_at sent k m else sent_at sent k m)"
    "fmlookup out k = (case unsent_range merge n E sent k node of Some (f, t, Some d) \<Rightarrow> Some (pe_new d f t) | _ \<Rightarrow> None)" for k m
    by (simp_all add: unsent_range_def split: option.split)
  let ?ps' = "if bt_is_empty out then ps else fmupd node \<lparr>dp_entries = out\<rparr> ps"
  have "propagated ?ps' m k = (if m = node then fmlookup out k else propagated ps m k)" for m k
    using assms(2) by (auto simp: propagated_def)
  with c' plain show ?thesis
    by (intro exI [of _ sent'] exI [of _ c'] exI [of _ ?ps']) (simp add: collect_node_def)
qed

lemma collect_nodes:
  assumes "cache_ok merge n E c" and "distinct nodes" and "\<forall>m \<in> set nodes. fmlookup ps m = None"
    and "fold (collect_node merge n E) nodes (sent, c, ps) = (sent', c', ps')"
  shows "(\<forall>k m. sent_at sent' k m = (if m \<in> set nodes then
      case unsent_range merge n E sent k m of Some (f, t, d) \<Rightarrow> t | None \<Rightarrow> sent_at sent k m else sent_at sent k m)) \<and>
    (\<forall>k m. propagated ps' m k = (if m \<in> set nodes then
      case unsent_range merge n E sent k m of Some (f, t, Some d) \<Rightarrow> Some (pe_new d f t) | _ \<Rightarrow> None else propagated ps m k))"
  using assms
proof (induction nodes arbitrary: sent c ps)
  case (Cons node nodes)
  obtain sent1 c1 ps1 where s1: "cache_ok merge n E c1" "collect_node merge n E node (sent, c, ps) = (sent1, c1, ps1)"
    "\<And>k m. sent_at sent1 k m = (if m = node then
       case unsent_range merge n E sent k node of Some (f, t, d) \<Rightarrow> t | None \<Rightarrow> sent_at sent k m else sent_at sent k m)"
    "\<And>k m. propagated ps1 m k = (if m = node then
       case unsent_range merge n E sent k node of Some (f, t, Some d) \<Rightarrow> Some (pe_new d f t) | _ \<Rightarrow> None else propagated ps m k)"
    "\<And>m. m \<noteq> node \<Longrightarrow> fmlookup ps1 m = fmlookup ps m"
    using collect_node_step [of merge n E c ps node sent] Cons.prems(1,3) by auto
  have n: "node \<notin> set nodes" "distinct nodes" using Cons.prems(2) by simp_all
  have ur: "m \<in> set nodes \<Longrightarrow> unsent_range merge n E sent1 k m = unsent_range merge n E sent k m" for k m
    by (rule unsent_range_cong) (use n(1) in \<open>auto simp: s1(3)\<close>)
  have "\<forall>m \<in> set nodes. fmlookup ps1 m = None"
  proof
    fix m
    assume "m \<in> set nodes"
    then show "fmlookup ps1 m = None" using Cons.prems(3) n(1) s1(5) [of m] by auto
  qed
  then have IH: "\<And>k m. sent_at sent' k m = (if m \<in> set nodes then
      case unsent_range merge n E sent1 k m of Some (f, t, d) \<Rightarrow> t | None \<Rightarrow> sent_at sent1 k m else sent_at sent1 k m)"
    "\<And>k m. propagated ps' m k = (if m \<in> set nodes then
      case unsent_range merge n E sent1 k m of Some (f, t, Some d) \<Rightarrow> Some (pe_new d f t) | _ \<Rightarrow> None else propagated ps1 m k)"
    using Cons.IH [OF s1(1) n(2), of ps1 sent1] Cons.prems(4) s1(2) by simp_all
  have "m \<in> set nodes \<Longrightarrow> m \<noteq> node" for m using n(1) by auto
  then show ?case
    using n(1) by (auto simp: IH s1(3,4) ur split: option.split)
qed simp

lemma collect_propagations_spec:
  assumes "distinct (dl_nodes l)" and "dl_collect_propagations merge l = (l', ps)"
  shows "let chosen = (if dl_nodes l = [] then [] else snd (dl_selected_nodes l));
      r = unsent_range merge (dl_max_delta_versions l) (dl_entries l) (dl_sent_to_node l) k node
    in sent_at (dl_sent_to_node l') k node =
         (if node \<in> set chosen then case r of Some (f, t, d) \<Rightarrow> t | None \<Rightarrow> sent_at (dl_sent_to_node l) k node
          else sent_at (dl_sent_to_node l) k node) \<and>
       propagated ps node k =
         (if node \<in> set chosen then case r of Some (f, t, Some d) \<Rightarrow> Some (pe_new d f t) | _ \<Rightarrow> None else None) \<and>
       dl_entries l' = dl_entries l \<and> dl_versions l' = dl_versions l \<and>
       dl_propagation_count l' = dl_propagation_count l + 1"
proof (cases "dl_nodes l = []")
  case True
  with assms show ?thesis by (auto simp: dl_collect_propagations_def Let_def propagated_def)
next
  case False
  let ?l = "l\<lparr>dl_propagation_count := dl_propagation_count l + 1\<rparr>"
  obtain sent' c' where f: "fold (collect_node merge (dl_max_delta_versions l) (dl_entries l)) (snd (dl_selected_nodes ?l))
      (dl_sent_to_node l, fmempty, fmempty) = (sent', c', ps)"
    and l': "l' = (fst (dl_selected_nodes ?l))\<lparr>dl_sent_to_node := sent'\<rparr>"
    using assms(2) False
    by (auto simp: dl_collect_propagations_def Let_def split_beta dl_selected_nodes_fields prod_eq_iff)
  have sel: "snd (dl_selected_nodes ?l) = snd (dl_selected_nodes l)" by (simp add: dl_selected_nodes_def Let_def)
  have "cache_ok merge (dl_max_delta_versions l) (dl_entries l) fmempty" by (simp add: cache_ok_def)
  from collect_nodes [OF this _ _ f] distinct_selected [OF assms(1)] False show ?thesis
    by (simp add: sel l' dl_selected_nodes_fields propagated_def)
qed

text \<open>
  The range a peer lacks, written down directly: the retained versions above the last one it was sent, in ascending order,
  and their deltas merged from left to right. There is no delta when one of them is a placeholder or when there are
  as many as the limit.
\<close>

definition reference_range ::
  "('d \<Rightarrow> 'd \<Rightarrow> 'd) \<Rightarrow> nat \<Rightarrow> 'd version_entries \<Rightarrow> u64 \<Rightarrow> (u64 \<times> u64 \<times> 'd option) option" where
  "reference_range merge limit es sent =
     (let versions = filter (\<lambda>v. sent < v) (bt_keys es);
          deltas = map (\<lambda>v. the (fmlookup es v)) versions
      in if versions = [] then None
         else Some (hd versions, last versions,
           if None \<in> set deltas \<or> limit \<le> length versions then None
           else Some (foldl merge (the (hd deltas)) (map the (tl deltas)))))"

lemma word_Suc_le_iff: "a \<noteq> - 1 \<Longrightarrow> a + 1 \<le> b \<longleftrightarrow> a < b" for a b :: u64
  by (metis inc_le word_Suc_greater order_less_le_trans)

lemma bt_keys_fmfilter: "bt_keys (fmfilter P m) = filter P (bt_keys m)"
  by (rule sorted_distinct_set_unique) (auto simp: sorted_wrt_filter fmdom'_filter)

lemma bt_keys_entries_after: "v \<noteq> - 1 \<Longrightarrow> bt_keys (entries_after es v) = filter (\<lambda>x. v < x) (bt_keys es)"
  by (simp add: entries_after_def bt_keys_fmfilter word_Suc_le_iff)

lemma try_fold_map_option:
  "try_fold (\<lambda>acc next. map_option (\<lambda>delta. merge acc delta) next) acc ds =
     (if None \<in> set ds then None else Some (foldl merge acc (map the ds)))"
  by (induction ds arbitrary: acc) (auto split: option.split)

lemma merge_values:
  "(case ds of Some first # values \<Rightarrow> try_fold (\<lambda>acc next. map_option (\<lambda>delta. merge acc delta) next) first values | _ \<Rightarrow> None) =
     (if ds = [] \<or> None \<in> set ds then None else Some (foldl merge (the (hd ds)) (map the (tl ds))))"
  by (cases ds) (auto simp: try_fold_map_option split: option.split)

lemma range_of_reference:
  assumes "v \<noteq> - 1"
  shows "range_of merge n es v = reference_range merge n es v"
proof -
  let ?u = "entries_after es v"
  have keys: "bt_keys ?u = filter (\<lambda>x. v < x) (bt_keys es)" by (rule bt_keys_entries_after [OF assms])
  have "bt_values ?u = map (\<lambda>x. the (fmlookup es x)) (filter (\<lambda>x. v < x) (bt_keys es))"
    unfolding bt_values_conv keys by (rule map_cong) (simp_all add: word_Suc_le_iff [OF assms])
  moreover have "?u = fmempty \<longleftrightarrow> filter (\<lambda>x. v < x) (bt_keys es) = []" using keys by (metis bt_keys_eq_Nil)
  ultimately show ?thesis
    by (simp add: range_of_def reference_range_def merge_delta_group_def merge_values keys Let_def)
qed

text \<open>
  C31: A tick hands out exactly the missing ranges. For every selected peer and every key, the tick records as sent the last
  retained version of the key, if there is one the peer was not sent, and hands out all versions the peer was
  not sent, from the first to the last, merged in ascending order; when one of them is a placeholder, or when there are at least
  \<open>max_delta_versions\<close> of them, nothing is handed out although the range is recorded as sent. Peers that are not selected get nothing
  and their progress is unchanged, and so are the retained entries and the versions. The cache of merged ranges that
  the peers of a tick share is thus transparent. The version last sent has to be below the largest 64-bit number.
\<close>

theorem collection_matches_reference:
  assumes "distinct (dl_nodes l)" and "dl_collect_propagations merge l = (l', ps)"
    and "sent_at (dl_sent_to_node l) k node \<noteq> - 1"
  shows "let chosen = (if dl_nodes l = [] then [] else snd (dl_selected_nodes l));
      r = reference_range merge (dl_max_delta_versions l) (unwrap_or (fmlookup (dl_entries l) k) fmempty)
        (sent_at (dl_sent_to_node l) k node)
    in sent_at (dl_sent_to_node l') k node =
         (if node \<in> set chosen then case r of Some (f, t, d) \<Rightarrow> t | None \<Rightarrow> sent_at (dl_sent_to_node l) k node
          else sent_at (dl_sent_to_node l) k node) \<and>
       propagated ps node k =
         (if node \<in> set chosen then case r of Some (f, t, Some d) \<Rightarrow> Some (pe_new d f t) | _ \<Rightarrow> None else None) \<and>
       dl_entries l' = dl_entries l \<and> dl_versions l' = dl_versions l \<and>
       dl_propagation_count l' = dl_propagation_count l + 1"
proof -
  have "unsent_range merge (dl_max_delta_versions l) (dl_entries l) (dl_sent_to_node l) k node =
      reference_range merge (dl_max_delta_versions l) (unwrap_or (fmlookup (dl_entries l) k) fmempty)
        (sent_at (dl_sent_to_node l) k node)"
    by (cases "fmlookup (dl_entries l) k")
      (simp_all add: unsent_range_def range_of_reference [OF assms(3)] reference_range_def)
  with collect_propagations_spec [OF assms(1,2), of k node] show ?thesis by simp
qed

theorem collection_matches_reference_witness:
  "let l = fst (dl_record_delta (fst (dl_record_delta log_abc (ReplicatorKey ''k'') (Some gc_new))) (ReplicatorKey ''k'') (Some gc_new));
       (l', ps) = dl_collect_propagations gc_merge l
   in propagated ps (ReplicaId ''a'') (ReplicatorKey ''k'') = Some (pe_new gc_new 1 2) \<and>
      sent_at (dl_sent_to_node l') (ReplicatorKey ''k'') (ReplicaId ''a'') = 2"
proof -
  let ?k = "ReplicatorKey ''k''" and ?a = "ReplicaId ''a''"
  let ?l = "fst (dl_record_delta (fst (dl_record_delta log_abc ?k (Some gc_new))) ?k (Some gc_new))"
  obtain l' ps where c: "dl_collect_propagations gc_merge ?l = (l', ps)" by fastforce
  have "distinct (dl_nodes ?l)" "sent_at (dl_sent_to_node ?l) ?k ?a \<noteq> - 1"
    by (simp_all add: dl_record_delta_def dl_new_def Let_def sent_at_def)
  note spec = collection_matches_reference [OF this(1) c this(2)]
  have "?a \<in> set (snd (dl_selected_nodes ?l))" "dl_nodes ?l \<noteq> []" by code_simp+
  moreover have "reference_range gc_merge (dl_max_delta_versions ?l) (unwrap_or (fmlookup (dl_entries ?l) ?k) fmempty)
      (sent_at (dl_sent_to_node ?l) ?k ?a) = Some (1, 2, Some gc_new)" by code_simp
  ultimately show ?thesis using spec c by (simp add: Let_def)
qed

end
