(* ===== verification/Codec_Registry.thy ===== *)
theory Codec_Registry
  imports Remote_Envelope
begin

text \<open>
  \<open>MessageCodec\<close>, \<open>TypedCodec\<close> and \<open>Registry\<close> of \<open>kairo-serialization\<close>. A dynamic value
  (\<open>dyn Any\<close>) is an element of a type \<open>'m\<close>, into which each message type embeds with an injection
  and from which it is recovered with a partial projection, the downcast. \<open>TypeId\<close> and \<open>type_name\<close>
  are both the name of the type. A codec that panics is outside the model, because every codec
  here is a total function; \<open>catch_unwind\<close> is then the identity.

  The lemmas show that registration keeps the outbound and the inbound table consistent and never
  disturbs a codec registered earlier, so that what a registry serializes it deserializes to the
  same value.
\<close>

section \<open>Codecs\<close>

record remote_message_type =
  mt_name :: string
  mt_manifest :: string
  mt_version :: u16

record 'a message_codec =
  mc_serializer_id :: u32
  mc_encode :: "'a \<Rightarrow> bytes ser_result"
  mc_decode :: "bytes \<Rightarrow> u16 \<Rightarrow> 'a ser_result"

record 'm dyn_codec =
  dc_serializer_id :: u32
  dc_manifest :: string
  dc_type_id :: string
  dc_encode :: "'m \<Rightarrow> bytes ser_result"
  dc_decode :: "bytes \<Rightarrow> u16 \<Rightarrow> 'm ser_result"

definition typed_encode_dyn ::
  "remote_message_type \<Rightarrow> ('m \<Rightarrow> 'a option) \<Rightarrow> 'a message_codec \<Rightarrow> 'm \<Rightarrow> bytes ser_result" where
  "typed_encode_dyn M prj c value =
     (case prj value of None \<Rightarrow> Err (TypeMismatch (mt_name M)) | Some message \<Rightarrow> mc_encode c message)"

definition typed_decode_dyn ::
  "('a \<Rightarrow> 'm) \<Rightarrow> 'a message_codec \<Rightarrow> bytes \<Rightarrow> u16 \<Rightarrow> 'm ser_result" where
  "typed_decode_dyn emb c payload version =
     bind_result (mc_decode c payload version) (\<lambda>message. Ok (emb message))"

definition typed_codec ::
  "remote_message_type \<Rightarrow> ('m \<Rightarrow> 'a option) \<Rightarrow> ('a \<Rightarrow> 'm) \<Rightarrow> 'a message_codec \<Rightarrow> 'm dyn_codec" where
  "typed_codec M prj emb c =
     \<lparr>dc_serializer_id = mc_serializer_id c, dc_manifest = mt_manifest M, dc_type_id = mt_name M,
      dc_encode = typed_encode_dyn M prj c, dc_decode = typed_decode_dyn emb c\<rparr>"

section \<open>The registry\<close>

record 'm registry =
  rg_by_type :: "(string, 'm dyn_codec) fmap"
  rg_by_wire :: "(u32 \<times> manifest, 'm dyn_codec) fmap"
  rg_serializer_ids :: "u32 fset"
  rg_manifests :: "manifest fset"

definition registry_new :: "'m registry" where
  "registry_new = \<lparr>rg_by_type = fmempty, rg_by_wire = fmempty, rg_serializer_ids = {||}, rg_manifests = {||}\<rparr>"

definition register ::
  "remote_message_type \<Rightarrow> ('m \<Rightarrow> 'a option) \<Rightarrow> ('a \<Rightarrow> 'm) \<Rightarrow> 'a message_codec \<Rightarrow> 'm registry \<Rightarrow> 'm registry ser_result" where
  "register M prj emb c reg =
     bind_result (manifest_try_new (mt_manifest M)) (\<lambda>manifest.
       let serializer_id = mc_serializer_id c; type_id = mt_name M
       in if serializer_id |\<in>| rg_serializer_ids reg then Err (DuplicateSerializerId serializer_id)
          else if fmlookup (rg_by_type reg) type_id \<noteq> None then Err (DuplicateTypeCodec (mt_name M))
          else if manifest |\<in>| rg_manifests reg then Err (DuplicateManifest (manifest_str manifest))
          else let codec = typed_codec M prj emb c
               in Ok \<lparr>rg_by_type = fmupd type_id codec (rg_by_type reg),
                      rg_by_wire = fmupd (serializer_id, manifest) codec (rg_by_wire reg),
                      rg_serializer_ids = finsert serializer_id (rg_serializer_ids reg),
                      rg_manifests = finsert manifest (rg_manifests reg)\<rparr>)"

definition closure_codec ::
  "u32 \<Rightarrow> ('a \<Rightarrow> bytes ser_result) \<Rightarrow> (bytes \<Rightarrow> u16 \<Rightarrow> 'a ser_result) \<Rightarrow> 'a message_codec" where
  "closure_codec serializer_id encode decode =
     \<lparr>mc_serializer_id = serializer_id, mc_encode = encode, mc_decode = decode\<rparr>"

definition register_with ::
  "remote_message_type \<Rightarrow> ('m \<Rightarrow> 'a option) \<Rightarrow> ('a \<Rightarrow> 'm) \<Rightarrow> u32 \<Rightarrow> ('a \<Rightarrow> bytes ser_result) \<Rightarrow>
     (bytes \<Rightarrow> u16 \<Rightarrow> 'a ser_result) \<Rightarrow> 'm registry \<Rightarrow> 'm registry ser_result" where
  "register_with M prj emb serializer_id encode decode reg =
     register M prj emb (closure_codec serializer_id encode decode) reg"

definition codec_for_type :: "remote_message_type \<Rightarrow> 'm registry \<Rightarrow> 'm dyn_codec ser_result" where
  "codec_for_type M reg = ok_or (fmlookup (rg_by_type reg) (mt_name M)) (MissingTypeCodec (mt_name M))"

definition codec_for_wire :: "u32 \<Rightarrow> manifest \<Rightarrow> 'm registry \<Rightarrow> 'm dyn_codec ser_result" where
  "codec_for_wire serializer_id manifest reg =
     ok_or (fmlookup (rg_by_wire reg) (serializer_id, manifest)) (MissingWireCodec serializer_id (manifest_str manifest))"

definition serialize :: "remote_message_type \<Rightarrow> ('a \<Rightarrow> 'm) \<Rightarrow> 'm registry \<Rightarrow> 'a \<Rightarrow> serialized_message ser_result" where
  "serialize M emb reg message =
     bind_result (codec_for_type M reg) (\<lambda>codec.
     bind_result (manifest_try_new (mt_manifest M)) (\<lambda>manifest.
     bind_result (dc_encode codec (emb message)) (\<lambda>payload.
       Ok \<lparr>sm_serializer_id = dc_serializer_id codec, sm_manifest = manifest, sm_version = mt_version M,
           sm_payload = payload\<rparr>)))"

definition deserialize_dyn :: "'m registry \<Rightarrow> serialized_message \<Rightarrow> 'm ser_result" where
  "deserialize_dyn reg message =
     bind_result (codec_for_wire (sm_serializer_id message) (sm_manifest message) reg) (\<lambda>codec.
       dc_decode codec (sm_payload message) (sm_version message))"

definition deserialize ::
  "remote_message_type \<Rightarrow> ('m \<Rightarrow> 'a option) \<Rightarrow> 'm registry \<Rightarrow> serialized_message \<Rightarrow> 'a ser_result" where
  "deserialize M prj reg message =
     bind_result (manifest_try_new (mt_manifest M)) (\<lambda>expected_manifest.
       if sm_manifest message \<noteq> expected_manifest
       then Err (UnexpectedManifest (mt_manifest M) (manifest_str (sm_manifest message)))
       else bind_result (deserialize_dyn reg message) (\<lambda>v. ok_or (prj v) (TypeMismatch (mt_name M))))"

section \<open>Consistency of the two tables\<close>

definition registry_inv :: "'m registry \<Rightarrow> bool" where
  "registry_inv reg \<longleftrightarrow>
     (\<forall>t c. fmlookup (rg_by_type reg) t = Some c \<longrightarrow>
        dc_type_id c = t \<and> fmlookup (rg_by_wire reg) (dc_serializer_id c, Manifest (dc_manifest c)) = Some c) \<and>
     (\<forall>i m c. fmlookup (rg_by_wire reg) (i, m) = Some c \<longrightarrow>
        dc_serializer_id c = i \<and> m = Manifest (dc_manifest c) \<and> i |\<in>| rg_serializer_ids reg \<and>
        m |\<in>| rg_manifests reg \<and> fmlookup (rg_by_type reg) (dc_type_id c) = Some c)"

lemma registry_inv_new [simp]: "registry_inv registry_new"
  by (simp add: registry_inv_def registry_new_def)

lemma typed_codec_simps [simp]:
  "dc_serializer_id (typed_codec M prj emb c) = mc_serializer_id c"
  "dc_manifest (typed_codec M prj emb c) = mt_manifest M"
  "dc_type_id (typed_codec M prj emb c) = mt_name M"
  "dc_encode (typed_codec M prj emb c) = typed_encode_dyn M prj c"
  "dc_decode (typed_codec M prj emb c) = typed_decode_dyn emb c"
  by (simp_all add: typed_codec_def)

lemma register_Ok:
  "register M prj emb c reg = Ok reg' \<longleftrightarrow>
     trim (mt_manifest M) \<noteq> [] \<and> mc_serializer_id c |\<notin>| rg_serializer_ids reg \<and>
     fmlookup (rg_by_type reg) (mt_name M) = None \<and> Manifest (mt_manifest M) |\<notin>| rg_manifests reg \<and>
     reg' = \<lparr>rg_by_type = fmupd (mt_name M) (typed_codec M prj emb c) (rg_by_type reg),
        rg_by_wire = fmupd (mc_serializer_id c, Manifest (mt_manifest M)) (typed_codec M prj emb c) (rg_by_wire reg),
        rg_serializer_ids = finsert (mc_serializer_id c) (rg_serializer_ids reg),
        rg_manifests = finsert (Manifest (mt_manifest M)) (rg_manifests reg)\<rparr>"
  by (auto simp: register_def manifest_try_new_def Let_def)

lemma register_inv:
  assumes "registry_inv reg" "register M prj emb c reg = Ok reg'"
  shows "registry_inv reg'"
  using assms unfolding register_Ok registry_inv_def
  by (auto split: if_splits) (metis option.distinct(1))+

lemma register_keeps:
  assumes "register M prj emb c reg = Ok reg'" "fmlookup (rg_by_type reg) t = Some d"
  shows "fmlookup (rg_by_type reg') t = Some d"
  using assms unfolding register_Ok by auto

lemma register_adds:
  assumes "register M prj emb c reg = Ok reg'"
  shows "fmlookup (rg_by_type reg') (mt_name M) = Some (typed_codec M prj emb c)"
  using assms unfolding register_Ok by auto

lemma registry_roundtrip:
  assumes "registry_inv reg" "fmlookup (rg_by_type reg) (mt_name M) = Some (typed_codec M prj emb c)"
    and "prj (emb m) = Some m" "trim (mt_manifest M) \<noteq> []"
    and "mc_encode c m = Ok b" "mc_decode c b (mt_version M) = Ok m"
  shows "bind_result (serialize M emb reg m) (deserialize M prj reg) = Ok m"
proof -
  have "fmlookup (rg_by_wire reg) (mc_serializer_id c, Manifest (mt_manifest M)) = Some (typed_codec M prj emb c)"
    using assms(1,2) unfolding registry_inv_def by (metis typed_codec_simps(1,2))
  with assms show ?thesis
    by (simp add: serialize_def deserialize_def deserialize_dyn_def codec_for_type_def codec_for_wire_def
        manifest_try_new_def typed_encode_dyn_def typed_decode_dyn_def)
qed

section \<open>Registries built by registration\<close>

text \<open>
  A registration at any message type is one at the type of all messages, with the codec's downcast and upcast
  moved into the codec. So one step relation covers the registrations at every type.
\<close>

definition erased :: "remote_message_type \<Rightarrow> ('m \<Rightarrow> 'a option) \<Rightarrow> ('a \<Rightarrow> 'm) \<Rightarrow> 'a message_codec \<Rightarrow> 'm message_codec" where
  "erased M prj emb c =
     \<lparr>mc_serializer_id = mc_serializer_id c, mc_encode = typed_encode_dyn M prj c, mc_decode = typed_decode_dyn emb c\<rparr>"

lemma register_erased: "register M prj emb c reg = register M Some (\<lambda>m. m) (erased M prj emb c) reg"
proof -
  have "typed_codec M prj emb c = typed_codec M Some (\<lambda>m. m) (erased M prj emb c)"
    by (auto simp: typed_codec_def erased_def typed_encode_dyn_def typed_decode_dyn_def fun_eq_iff bind_result_def
        split: sum.splits)
  moreover have "mc_serializer_id (erased M prj emb c) = mc_serializer_id c" by (simp add: erased_def)
  ultimately show ?thesis by (simp only: register_def)
qed

inductive registers :: "'m registry \<Rightarrow> 'm registry \<Rightarrow> bool" where
  no_more: "registers reg reg"
| one_more: "registers reg reg' \<Longrightarrow> register M Some (\<lambda>m. m) c reg' = Ok reg'' \<Longrightarrow> registers reg reg''"

lemma registers_register: "register M prj emb c reg = Ok reg' \<Longrightarrow> registers reg reg'"
  by (metis register_erased registers.intros)

definition unique_manifests :: "'m registry \<Rightarrow> bool" where
  "unique_manifests reg \<longleftrightarrow>
     (\<forall>i j m c d. fmlookup (rg_by_wire reg) (i, m) = Some c \<longrightarrow> fmlookup (rg_by_wire reg) (j, m) = Some d \<longrightarrow> i = j)"

lemma register_unique_manifests:
  assumes "registry_inv reg" "unique_manifests reg" "register M prj emb c reg = Ok reg'"
  shows "unique_manifests reg'"
  unfolding unique_manifests_def
proof (intro allI impI)
  fix i j m x y
  assume l: "fmlookup (rg_by_wire reg') (i, m) = Some x" "fmlookup (rg_by_wire reg') (j, m) = Some y"
  have old: "Manifest (mt_manifest M) |\<notin>| rg_manifests reg" using assms(3) by (simp add: register_Ok)
  have "k = mc_serializer_id c \<or> fmlookup (rg_by_wire reg) (k, m) = Some z \<and> m |\<in>| rg_manifests reg"
    if "fmlookup (rg_by_wire reg') (k, m) = Some z" for k z
    using that assms(1,3) unfolding register_Ok registry_inv_def by (auto split: if_splits)
  from this [OF l(1)] this [OF l(2)] show "i = j"
    using l old assms(2,3) unfolding register_Ok unique_manifests_def by (auto split: if_splits)
qed

lemma registers_inv:
  assumes "registers reg reg'" "registry_inv reg \<and> unique_manifests reg"
  shows "registry_inv reg' \<and> unique_manifests reg' \<and>
    (\<forall>t d. fmlookup (rg_by_type reg) t = Some d \<longrightarrow> fmlookup (rg_by_type reg') t = Some d)"
  using assms
proof (induction rule: registers.induct)
  case (one_more reg reg' M c reg'')
  then show ?case using register_inv register_unique_manifests register_keeps by metis
qed simp

lemma registers_codec:
  fixes reg :: "'a registry"
  assumes "registers registry_new reg" "register M prj emb c reg = Ok reg'" "registers reg' reg''"
  shows "registry_inv reg''" "unique_manifests reg''" "trim (mt_manifest M) \<noteq> []"
    "fmlookup (rg_by_type reg'') (mt_name M) = Some (typed_codec M prj emb c)"
    "fmlookup (rg_by_wire reg'') (mc_serializer_id c, Manifest (mt_manifest M)) = Some (typed_codec M prj emb c)"
proof -
  have "unique_manifests (registry_new :: 'a registry)" by (simp add: unique_manifests_def registry_new_def)
  then have inv: "registry_inv reg \<and> unique_manifests reg" using registers_inv [OF assms(1)] by simp
  then have inv': "registry_inv reg' \<and> unique_manifests reg'"
    using assms(2) register_inv register_unique_manifests by blast
  from registers_inv [OF assms(3) inv'] register_adds [OF assms(2)]
  show *: "registry_inv reg''" "unique_manifests reg''"
    "fmlookup (rg_by_type reg'') (mt_name M) = Some (typed_codec M prj emb c)" by auto
  from *(1,3) show "fmlookup (rg_by_wire reg'') (mc_serializer_id c, Manifest (mt_manifest M)) = Some (typed_codec M prj emb c)"
    unfolding registry_inv_def by (metis typed_codec_simps(1,2))
  show "trim (mt_manifest M) \<noteq> []" using assms(2) by (simp add: register_Ok)
qed

text \<open>
  C19: The type-erased registry is type safe. Whatever other codecs are registered before and after the codec of a message
  type, serializing at that type encodes with exactly this codec under its serializer id, manifest and version, and
  deserializing at that type answers with an error for another manifest or serializer id and otherwise with what this
  codec decodes: the downcast never fails and no other type's codec runs.
\<close>

theorem registry_type_safe:
  assumes "registers registry_new reg" "register M prj emb c reg = Ok reg'" "registers reg' reg''"
    and "prj \<circ> emb = Some"
  shows "deserialize M prj reg'' s =
      (if sm_manifest s \<noteq> Manifest (mt_manifest M)
       then Err (UnexpectedManifest (mt_manifest M) (manifest_str (sm_manifest s)))
       else if sm_serializer_id s \<noteq> mc_serializer_id c then Err (MissingWireCodec (sm_serializer_id s) (mt_manifest M))
       else mc_decode c (sm_payload s) (sm_version s)) \<and>
    serialize M emb reg'' m = bind_result (mc_encode c m) (\<lambda>payload.
      Ok \<lparr>sm_serializer_id = mc_serializer_id c, sm_manifest = Manifest (mt_manifest M), sm_version = mt_version M,
          sm_payload = payload\<rparr>)"
proof -
  note r = registers_codec [OF assms(1-3)]
  have prj: "prj (emb x) = Some x" for x using assms(4) by (simp add: fun_eq_iff)
  have none: "fmlookup (rg_by_wire reg'') (i, Manifest (mt_manifest M)) = None" if "i \<noteq> mc_serializer_id c" for i
    using that r(2,5) unfolding unique_manifests_def by (cases "fmlookup (rg_by_wire reg'') (i, Manifest (mt_manifest M))") auto
  show ?thesis
    using r(3-5) none [of "sm_serializer_id s"] prj
    by (auto simp: deserialize_def deserialize_dyn_def codec_for_wire_def serialize_def codec_for_type_def manifest_try_new_def
        typed_encode_dyn_def typed_decode_dyn_def bind_result_def split: sum.splits)
qed

text \<open>A codec of another type is registered first.\<close>

theorem registry_type_safe_witness:
  "\<exists>pong reg. register \<lparr>mt_name = ''Pong'', mt_manifest = ''pong'', mt_version = 1\<rparr> Some (\<lambda>m. m) (closure_codec 8 Ok (\<lambda>b _. Ok []))
      registry_new = Ok pong \<and>
    register \<lparr>mt_name = ''Ping'', mt_manifest = ''ping'', mt_version = 1\<rparr> Some (\<lambda>m. m) (closure_codec 7 Ok (\<lambda>b _. Ok b))
      pong = Ok reg \<and>
    deserialize \<lparr>mt_name = ''Ping'', mt_manifest = ''ping'', mt_version = 1\<rparr> Some reg
      \<lparr>sm_serializer_id = 7, sm_manifest = Manifest ''ping'', sm_version = 1, sm_payload = [5]\<rparr> = Ok [5]"
proof -
  let ?M = "\<lparr>mt_name = ''Ping'', mt_manifest = ''ping'', mt_version = 1\<rparr>"
  let ?N = "\<lparr>mt_name = ''Pong'', mt_manifest = ''pong'', mt_version = 1\<rparr>"
  let ?c = "closure_codec 7 Ok (\<lambda>b _. Ok b) :: bytes message_codec"
  let ?d = "closure_codec 8 Ok (\<lambda>b _. Ok []) :: bytes message_codec"
  have t: "trim ''ping'' \<noteq> []" "trim ''pong'' \<noteq> []" by code_simp+
  then obtain pong where pong: "register ?N Some (\<lambda>m. m) ?d registry_new = Ok pong"
    using register_Ok [of ?N Some "\<lambda>m. m" ?d registry_new] by (simp add: registry_new_def)
  then obtain reg where reg: "register ?M Some (\<lambda>m. m) ?c pong = Ok reg"
    using register_Ok [of ?M Some "\<lambda>m. m" ?c pong] register_Ok [of ?N Some "\<lambda>m. m" ?d registry_new pong] t(1)
    by (auto simp: registry_new_def closure_codec_def)
  have "Some \<circ> (\<lambda>m :: bytes. m) = Some" by (simp add: fun_eq_iff)
  from registry_type_safe [OF registers_register [OF pong] reg no_more this] pong reg show ?thesis
    by (auto simp: closure_codec_def)
qed

end
