(* ===== verification/Ddata_Protocol.thy ===== *)
theory Ddata_Protocol
  imports Codec_Registry Pruning
begin

text \<open>
  The wire protocol of distributed data: the records of \<open>protocol.rs\<close> and the codecs of
  \<open>codec/\<close> in \<open>kairo-distributed-data/src\<close>. Four of the decoders hand a count of the payload to
  \<open>Vec::with_capacity\<close> before they read an element. Which counts are served is up to the allocator, the
  first argument of the decoders (\<open>vec_with_capacity\<close> of \<open>Wire_Format\<close>).

  Each codec is a \<open>wire_field\<close> built with the combinators of \<open>Wire_Format\<close>; the fourteen codecs are then
  registered the way \<open>register_ddata_protocol_codecs\<close> does, and the protocol as a whole is shown to
  be read exactly as it is written.
\<close>

section \<open>Records\<close>

record replicator_get =
  rget_key :: string
  rget_request_id :: u64

record replicator_update =
  rupd_key :: string
  rupd_request_id :: u64

record replicator_subscribe =
  rsub_key :: string
  rsub_subscriber :: actor_ref_wire_data

record replicator_changed =
  rchg_key :: string

datatype wire_pruning_state =
    is_WInitialized: WInitialized (wi_owner: replica_id) (wi_seen: "replica_id list")
  | WPerformed (wp_obsolete_at_millis: u64)

record replicator_pruning_entry =
  rpe_removed :: replica_id
  rpe_state :: wire_pruning_state

record replicator_data_envelope =
  rde_crdt_manifest :: string
  rde_crdt_version :: u16
  rde_payload :: bytes
  rde_pruning :: "replicator_pruning_entry list"

record replicator_write =
  rwr_key :: string
  rwr_from :: "replica_id option"
  rwr_envelope :: replicator_data_envelope

record replicator_read =
  rrd_key :: string
  rrd_from :: "replica_id option"

record replicator_read_result =
  rrr_envelope :: "replicator_data_envelope option"

record replicator_gossip_digest =
  rgd_key :: string
  rgd_digest :: u64
  rgd_used_timestamp_millis :: u64

record replicator_gossip_status =
  rgs_entries :: "replicator_gossip_digest list"
  rgs_chunk :: u32
  rgs_total_chunks :: u32
  rgs_to_system_uid :: "u64 option"
  rgs_from_system_uid :: "u64 option"

record replicator_gossip_entry =
  rge_key :: string
  rge_envelope :: replicator_data_envelope
  rge_used_timestamp_millis :: u64

record replicator_gossip =
  rgo_entries :: "replicator_gossip_entry list"
  rgo_send_back :: bool
  rgo_to_system_uid :: "u64 option"
  rgo_from_system_uid :: "u64 option"

record replicator_delta =
  rdl_key :: string
  rdl_crdt_manifest :: string
  rdl_crdt_version :: u16
  rdl_payload :: bytes
  rdl_pruning :: "replicator_pruning_entry list"
  rdl_from_version :: u64
  rdl_to_version :: u64

record replicator_delta_propagation =
  rdp_from :: replica_id
  rdp_reply :: bool
  rdp_deltas :: "replicator_delta list"

datatype ddata_message =
    MGet replicator_get
  | MUpdate replicator_update
  | MSubscribe replicator_subscribe
  | MChanged replicator_changed
  | MDeltaPropagation replicator_delta_propagation
  | MDeltaAck
  | MDeltaNack
  | MWrite replicator_write
  | MWriteAck
  | MWriteNack
  | MRead replicator_read
  | MReadResult replicator_read_result
  | MGossipStatus replicator_gossip_status
  | MGossip replicator_gossip

section \<open>Manifests and versions\<close>

definition get_type :: remote_message_type where
  "get_type = \<lparr>mt_name = ''ReplicatorGet'', mt_manifest = ''kairo.ddata.replicator-get'', mt_version = 1\<rparr>"

definition update_type :: remote_message_type where
  "update_type = \<lparr>mt_name = ''ReplicatorUpdate'', mt_manifest = ''kairo.ddata.replicator-update'', mt_version = 1\<rparr>"

definition subscribe_type :: remote_message_type where
  "subscribe_type =
     \<lparr>mt_name = ''ReplicatorSubscribe'', mt_manifest = ''kairo.ddata.replicator-subscribe'', mt_version = 1\<rparr>"

definition changed_type :: remote_message_type where
  "changed_type = \<lparr>mt_name = ''ReplicatorChanged'', mt_manifest = ''kairo.ddata.replicator-changed'', mt_version = 1\<rparr>"

definition write_type :: remote_message_type where
  "write_type = \<lparr>mt_name = ''ReplicatorWrite'', mt_manifest = ''kairo.ddata.write'', mt_version = 2\<rparr>"

definition write_ack_type :: remote_message_type where
  "write_ack_type = \<lparr>mt_name = ''ReplicatorWriteAck'', mt_manifest = ''kairo.ddata.write-ack'', mt_version = 1\<rparr>"

definition write_nack_type :: remote_message_type where
  "write_nack_type = \<lparr>mt_name = ''ReplicatorWriteNack'', mt_manifest = ''kairo.ddata.write-nack'', mt_version = 1\<rparr>"

definition read_type :: remote_message_type where
  "read_type = \<lparr>mt_name = ''ReplicatorRead'', mt_manifest = ''kairo.ddata.read'', mt_version = 1\<rparr>"

definition read_result_type :: remote_message_type where
  "read_result_type = \<lparr>mt_name = ''ReplicatorReadResult'', mt_manifest = ''kairo.ddata.read-result'', mt_version = 2\<rparr>"

definition gossip_status_type :: remote_message_type where
  "gossip_status_type =
     \<lparr>mt_name = ''ReplicatorGossipStatus'', mt_manifest = ''kairo.ddata.gossip-status'', mt_version = 1\<rparr>"

definition gossip_type :: remote_message_type where
  "gossip_type = \<lparr>mt_name = ''ReplicatorGossip'', mt_manifest = ''kairo.ddata.gossip'', mt_version = 1\<rparr>"

definition delta_propagation_type :: remote_message_type where
  "delta_propagation_type =
     \<lparr>mt_name = ''ReplicatorDeltaPropagation'', mt_manifest = ''kairo.ddata.delta-propagation'', mt_version = 2\<rparr>"

definition delta_ack_type :: remote_message_type where
  "delta_ack_type = \<lparr>mt_name = ''ReplicatorDeltaAck'', mt_manifest = ''kairo.ddata.delta-ack'', mt_version = 1\<rparr>"

definition delta_nack_type :: remote_message_type where
  "delta_nack_type = \<lparr>mt_name = ''ReplicatorDeltaNack'', mt_manifest = ''kairo.ddata.delta-nack'', mt_version = 1\<rparr>"

section \<open>Shared helpers\<close>

definition ensure_version_range :: "string \<Rightarrow> u16 \<Rightarrow> u16 \<Rightarrow> u16 \<Rightarrow> unit ser_result" where
  "ensure_version_range manifest version min_version max_version =
     (if min_version \<le> version \<and> version \<le> max_version then Ok ()
      else Err (Message (''unsupported '' @ manifest @ '' version '' @ show_nat (unat version))))"

definition ensure_version :: "remote_message_type \<Rightarrow> u16 \<Rightarrow> unit ser_result" where
  "ensure_version M version = ensure_version_range (mt_manifest M) version (mt_version M) (mt_version M)"

definition len_to_u64 :: "nat \<Rightarrow> u64 ser_result" where
  "len_to_u64 len = checked_len ''replicator delta count exceeds u64'' len"

definition u64_to_len :: "u64 \<Rightarrow> nat ser_result" where
  "u64_to_len len = checked_count ''replicator delta count exceeds usize'' len"

definition validate_manifest_string :: "string \<Rightarrow> unit ser_result" where
  "validate_manifest_string manifest = bind_result (manifest_try_new manifest) (\<lambda>_. Ok ())"

definition read_manifest_string :: "string read" where
  "read_manifest_string r = bind_result (read_string r) (\<lambda>(manifest, r).
     bind_result (validate_manifest_string manifest) (\<lambda>_. Ok (manifest, r)))"

definition write_pruning_entry :: "replicator_pruning_entry \<Rightarrow> wire_writer \<Rightarrow> wire_writer ser_result" where
  "write_pruning_entry entry w =
     bind_result (write_string (replica_str (rpe_removed entry)) w) (\<lambda>w.
       (case rpe_state entry of
          WInitialized owner seen \<Rightarrow>
            bind_result (write_string (replica_str owner) (write_u8 1 w)) (\<lambda>w.
            bind_result (len_to_u64 (length seen)) (\<lambda>n.
              write_each (\<lambda>seen_by. write_string (replica_str seen_by)) seen (write_u64 n w)))
        | WPerformed obsolete_at_millis \<Rightarrow> Ok (write_u64 obsolete_at_millis (write_u8 2 w))))"

definition read_replica :: "replica_id read" where
  "read_replica r = bind_result (read_string r) (\<lambda>(s, r). Ok (ReplicaId s, r))"

definition read_pruning_entry :: "allocator \<Rightarrow> replicator_pruning_entry read" where
  "read_pruning_entry alloc r =
     bind_result (read_replica r) (\<lambda>(removed, r).
     bind_result
       (bind_result (read_u8 r) (\<lambda>(tag, r).
          if tag = 1 then
            bind_result (read_replica r) (\<lambda>(owner, r).
            bind_result (read_u64 r) (\<lambda>(n, r).
            bind_result (u64_to_len n) (\<lambda>seen_count.
            bind_result (vec_with_capacity alloc ''ReplicaId'' seen_count) (\<lambda>_.
            bind_result (read_each read_replica seen_count r) (\<lambda>(seen, r).
              Ok (WInitialized owner seen, r))))))
          else if tag = 2 then
            bind_result (read_u64 r) (\<lambda>(obsolete_at_millis, r). Ok (WPerformed obsolete_at_millis, r))
          else Err (Message (''unknown ddata pruning state tag '' @ show_nat (unat tag)))))
       (\<lambda>(state, r). Ok (\<lparr>rpe_removed = removed, rpe_state = state\<rparr>, r)))"

definition write_delta :: "replicator_delta \<Rightarrow> wire_writer \<Rightarrow> wire_writer ser_result" where
  "write_delta delta w =
     bind_result (write_string (rdl_key delta) w) (\<lambda>w.
     bind_result (validate_manifest_string (rdl_crdt_manifest delta)) (\<lambda>_.
     bind_result (write_string (rdl_crdt_manifest delta) w) (\<lambda>w.
     let w = write_u16 (rdl_crdt_version delta) w;
         w = write_u64 (rdl_from_version delta) w;
         w = write_u64 (rdl_to_version delta) w
     in bind_result (write_bytes (rdl_payload delta) w) (\<lambda>w.
        bind_result (len_to_u64 (length (rdl_pruning delta))) (\<lambda>n.
          write_each write_pruning_entry (rdl_pruning delta) (write_u64 n w))))))"

definition read_pruning_entries :: "allocator \<Rightarrow> u16 \<Rightarrow> replicator_pruning_entry list read" where
  "read_pruning_entries alloc version r =
     (if version \<ge> 2 then
        bind_result (read_u64 r) (\<lambda>(n, r).
        bind_result (u64_to_len n) (\<lambda>count. read_each (read_pruning_entry alloc) count r))
      else Ok ([], r))"

definition read_delta :: "allocator \<Rightarrow> u16 \<Rightarrow> replicator_delta read" where
  "read_delta alloc version r =
     bind_result (read_string r) (\<lambda>(key, r).
     bind_result (read_manifest_string r) (\<lambda>(crdt_manifest, r).
     bind_result (read_u16 r) (\<lambda>(crdt_version, r).
     bind_result (read_u64 r) (\<lambda>(from_version, r).
     bind_result (read_u64 r) (\<lambda>(to_version, r).
     bind_result (read_bytes r) (\<lambda>(payload, r).
     bind_result (read_pruning_entries alloc version r) (\<lambda>(pruning, r).
       Ok (\<lparr>rdl_key = key, rdl_crdt_manifest = crdt_manifest, rdl_crdt_version = crdt_version,
            rdl_payload = payload, rdl_pruning = pruning, rdl_from_version = from_version,
            rdl_to_version = to_version\<rparr>, r))))))))"

definition write_data_envelope :: "replicator_data_envelope \<Rightarrow> wire_writer \<Rightarrow> wire_writer ser_result" where
  "write_data_envelope envelope w =
     bind_result (validate_manifest_string (rde_crdt_manifest envelope)) (\<lambda>_.
     bind_result (write_string (rde_crdt_manifest envelope) w) (\<lambda>w.
     bind_result (write_bytes (rde_payload envelope) (write_u16 (rde_crdt_version envelope) w)) (\<lambda>w.
     bind_result (len_to_u64 (length (rde_pruning envelope))) (\<lambda>n.
       write_each write_pruning_entry (rde_pruning envelope) (write_u64 n w)))))"

definition read_data_envelope :: "allocator \<Rightarrow> u16 \<Rightarrow> replicator_data_envelope read" where
  "read_data_envelope alloc version r =
     bind_result (read_manifest_string r) (\<lambda>(crdt_manifest, r).
     bind_result (read_u16 r) (\<lambda>(crdt_version, r).
     bind_result (read_bytes r) (\<lambda>(payload, r).
     bind_result (read_pruning_entries alloc version r) (\<lambda>(pruning, r).
       Ok (\<lparr>rde_crdt_manifest = crdt_manifest, rde_crdt_version = crdt_version, rde_payload = payload,
            rde_pruning = pruning\<rparr>, r)))))"

definition ensure_empty_payload :: "bytes \<Rightarrow> string \<Rightarrow> unit ser_result" where
  "ensure_empty_payload payload manifest =
     (if payload = [] then Ok () else Err (Message (manifest @ '' payload must be empty'')))"

section \<open>Client codecs\<close>

definition get_encode :: "replicator_get \<Rightarrow> bytes ser_result" where
  "get_encode message = bind_result (write_string (rget_key message) []) (\<lambda>w.
     Ok (write_u64 (rget_request_id message) w))"

definition get_decode :: "bytes \<Rightarrow> u16 \<Rightarrow> replicator_get ser_result" where
  "get_decode payload version =
     bind_result (ensure_version get_type version) (\<lambda>_.
     bind_result (read_string (reader_new payload)) (\<lambda>(key, r).
     bind_result (read_u64 r) (\<lambda>(request_id, r).
     bind_result (ensure_finished r) (\<lambda>_. Ok \<lparr>rget_key = key, rget_request_id = request_id\<rparr>))))"

definition update_encode :: "replicator_update \<Rightarrow> bytes ser_result" where
  "update_encode message = bind_result (write_string (rupd_key message) []) (\<lambda>w.
     Ok (write_u64 (rupd_request_id message) w))"

definition update_decode :: "bytes \<Rightarrow> u16 \<Rightarrow> replicator_update ser_result" where
  "update_decode payload version =
     bind_result (ensure_version update_type version) (\<lambda>_.
     bind_result (read_string (reader_new payload)) (\<lambda>(key, r).
     bind_result (read_u64 r) (\<lambda>(request_id, r).
     bind_result (ensure_finished r) (\<lambda>_. Ok \<lparr>rupd_key = key, rupd_request_id = request_id\<rparr>))))"

definition subscribe_encode :: "replicator_subscribe \<Rightarrow> bytes ser_result" where
  "subscribe_encode message = bind_result (write_string (rsub_key message) []) (\<lambda>w.
     write_string (ar_path (rsub_subscriber message)) w)"

definition subscribe_decode :: "bytes \<Rightarrow> u16 \<Rightarrow> replicator_subscribe ser_result" where
  "subscribe_decode payload version =
     bind_result (ensure_version subscribe_type version) (\<lambda>_.
     bind_result (read_string (reader_new payload)) (\<lambda>(key, r).
     bind_result (read_string r) (\<lambda>(path, r).
     bind_result (actor_ref_new path) (\<lambda>subscriber.
     bind_result (ensure_finished r) (\<lambda>_. Ok \<lparr>rsub_key = key, rsub_subscriber = subscriber\<rparr>)))))"

definition changed_encode :: "replicator_changed \<Rightarrow> bytes ser_result" where
  "changed_encode message = write_string (rchg_key message) []"

definition changed_decode :: "bytes \<Rightarrow> u16 \<Rightarrow> replicator_changed ser_result" where
  "changed_decode payload version =
     bind_result (ensure_version changed_type version) (\<lambda>_.
     bind_result (read_string (reader_new payload)) (\<lambda>(key, r).
     bind_result (ensure_finished r) (\<lambda>_. Ok \<lparr>rchg_key = key\<rparr>)))"

section \<open>Delta codecs\<close>

definition delta_propagation_encode :: "replicator_delta_propagation \<Rightarrow> bytes ser_result" where
  "delta_propagation_encode message =
     bind_result (write_string (replica_str (rdp_from message)) []) (\<lambda>w.
     bind_result (len_to_u64 (length (rdp_deltas message))) (\<lambda>n.
       write_each write_delta (rdp_deltas message) (write_u64 n (write_bool (rdp_reply message) w))))"

definition delta_propagation_decode :: "allocator \<Rightarrow> bytes \<Rightarrow> u16 \<Rightarrow> replicator_delta_propagation ser_result" where
  "delta_propagation_decode alloc payload version =
     bind_result (ensure_version_range (mt_manifest delta_propagation_type) version 1 (mt_version delta_propagation_type)) (\<lambda>_.
     bind_result (read_replica (reader_new payload)) (\<lambda>(from, r).
     bind_result (read_bool r) (\<lambda>(reply, r).
     bind_result (read_u64 r) (\<lambda>(n, r).
     bind_result (u64_to_len n) (\<lambda>len.
     bind_result (vec_with_capacity alloc ''ReplicatorDelta'' len) (\<lambda>_.
     bind_result (read_each (read_delta alloc version) len r) (\<lambda>(deltas, r).
     bind_result (ensure_finished r) (\<lambda>_.
       Ok \<lparr>rdp_from = from, rdp_reply = reply, rdp_deltas = deltas\<rparr>))))))))"

definition empty_encode :: "unit \<Rightarrow> bytes ser_result" where
  "empty_encode message = Ok []"

definition empty_decode :: "remote_message_type \<Rightarrow> bytes \<Rightarrow> u16 \<Rightarrow> unit ser_result" where
  "empty_decode M payload version =
     bind_result (ensure_version M version) (\<lambda>_.
     bind_result (ensure_empty_payload payload (mt_manifest M)) (\<lambda>_. Ok ()))"

section \<open>Direct read and write codecs\<close>

definition write_encode :: "replicator_write \<Rightarrow> bytes ser_result" where
  "write_encode message =
     bind_result (write_string (rwr_key message) []) (\<lambda>w.
     bind_result (write_optional_string (map_option replica_str (rwr_from message)) w) (\<lambda>w.
       write_data_envelope (rwr_envelope message) w))"

definition read_optional_replica :: "replica_id option read" where
  "read_optional_replica r = bind_result (read_optional_string r) (\<lambda>(s, r). Ok (map_option ReplicaId s, r))"

definition write_decode :: "allocator \<Rightarrow> bytes \<Rightarrow> u16 \<Rightarrow> replicator_write ser_result" where
  "write_decode alloc payload version =
     bind_result (ensure_version_range (mt_manifest write_type) version 1 (mt_version write_type)) (\<lambda>_.
     bind_result (read_string (reader_new payload)) (\<lambda>(key, r).
     bind_result (read_optional_replica r) (\<lambda>(from, r).
     bind_result (read_data_envelope alloc version r) (\<lambda>(envelope, r).
     bind_result (ensure_finished r) (\<lambda>_.
       Ok \<lparr>rwr_key = key, rwr_from = from, rwr_envelope = envelope\<rparr>)))))"

definition read_encode :: "replicator_read \<Rightarrow> bytes ser_result" where
  "read_encode message =
     bind_result (write_string (rrd_key message) []) (\<lambda>w.
       write_optional_string (map_option replica_str (rrd_from message)) w)"

definition read_decode :: "bytes \<Rightarrow> u16 \<Rightarrow> replicator_read ser_result" where
  "read_decode payload version =
     bind_result (ensure_version read_type version) (\<lambda>_.
     bind_result (read_string (reader_new payload)) (\<lambda>(key, r).
     bind_result (read_optional_replica r) (\<lambda>(from, r).
     bind_result (ensure_finished r) (\<lambda>_. Ok \<lparr>rrd_key = key, rrd_from = from\<rparr>))))"

definition read_result_encode :: "replicator_read_result \<Rightarrow> bytes ser_result" where
  "read_result_encode message =
     (case rrr_envelope message of
        Some envelope \<Rightarrow> write_data_envelope envelope (write_bool True [])
      | None \<Rightarrow> Ok (write_bool False []))"

definition read_result_decode :: "allocator \<Rightarrow> bytes \<Rightarrow> u16 \<Rightarrow> replicator_read_result ser_result" where
  "read_result_decode alloc payload version =
     bind_result (ensure_version_range (mt_manifest read_result_type) version 1 (mt_version read_result_type)) (\<lambda>_.
     bind_result (read_bool (reader_new payload)) (\<lambda>(present, r).
     bind_result
       (if present then bind_result (read_data_envelope alloc version r) (\<lambda>(e, r). Ok (Some e, r)) else Ok (None, r))
       (\<lambda>(envelope, r).
     bind_result (ensure_finished r) (\<lambda>_. Ok \<lparr>rrr_envelope = envelope\<rparr>))))"

section \<open>Gossip codecs\<close>

definition write_digest :: "replicator_gossip_digest \<Rightarrow> wire_writer \<Rightarrow> wire_writer ser_result" where
  "write_digest entry w = bind_result (write_string (rgd_key entry) w) (\<lambda>w.
     Ok (write_u64 (rgd_used_timestamp_millis entry) (write_u64 (rgd_digest entry) w)))"

definition read_digest :: "replicator_gossip_digest read" where
  "read_digest r =
     bind_result (read_string r) (\<lambda>(key, r).
     bind_result (read_u64 r) (\<lambda>(digest, r).
     bind_result (read_u64 r) (\<lambda>(used_timestamp_millis, r).
       Ok (\<lparr>rgd_key = key, rgd_digest = digest, rgd_used_timestamp_millis = used_timestamp_millis\<rparr>, r))))"

definition gossip_status_encode :: "replicator_gossip_status \<Rightarrow> bytes ser_result" where
  "gossip_status_encode message =
     (let w = write_u32 (rgs_chunk message) [];
          w = write_u32 (rgs_total_chunks message) w;
          w = write_optional_u64 (rgs_to_system_uid message) w;
          w = write_optional_u64 (rgs_from_system_uid message) w
      in bind_result (len_to_u64 (length (rgs_entries message))) (\<lambda>n.
           write_each write_digest (rgs_entries message) (write_u64 n w)))"

definition gossip_status_decode :: "allocator \<Rightarrow> bytes \<Rightarrow> u16 \<Rightarrow> replicator_gossip_status ser_result" where
  "gossip_status_decode alloc payload version =
     bind_result (ensure_version gossip_status_type version) (\<lambda>_.
     bind_result (read_u32 (reader_new payload)) (\<lambda>(chunk, r).
     bind_result (read_u32 r) (\<lambda>(total_chunks, r).
     bind_result (read_optional_u64 r) (\<lambda>(to_system_uid, r).
     bind_result (read_optional_u64 r) (\<lambda>(from_system_uid, r).
     bind_result (read_u64 r) (\<lambda>(n, r).
     bind_result (u64_to_len n) (\<lambda>entry_count.
     bind_result (vec_with_capacity alloc ''ReplicatorGossipDigest'' entry_count) (\<lambda>_.
     bind_result (read_each read_digest entry_count r) (\<lambda>(entries, r).
     bind_result (ensure_finished r) (\<lambda>_.
       Ok \<lparr>rgs_entries = entries, rgs_chunk = chunk, rgs_total_chunks = total_chunks,
           rgs_to_system_uid = to_system_uid, rgs_from_system_uid = from_system_uid\<rparr>))))))))))"

definition write_gossip_entry :: "replicator_gossip_entry \<Rightarrow> wire_writer \<Rightarrow> wire_writer ser_result" where
  "write_gossip_entry entry w = bind_result (write_string (rge_key entry) w) (\<lambda>w.
     write_data_envelope (rge_envelope entry) (write_u64 (rge_used_timestamp_millis entry) w))"

definition read_gossip_entry :: "allocator \<Rightarrow> replicator_gossip_entry read" where
  "read_gossip_entry alloc r =
     bind_result (read_string r) (\<lambda>(key, r).
     bind_result (read_u64 r) (\<lambda>(used_timestamp_millis, r).
     bind_result (read_data_envelope alloc 2 r) (\<lambda>(envelope, r).
       Ok (\<lparr>rge_key = key, rge_envelope = envelope, rge_used_timestamp_millis = used_timestamp_millis\<rparr>, r))))"

definition gossip_encode :: "replicator_gossip \<Rightarrow> bytes ser_result" where
  "gossip_encode message =
     (let w = write_bool (rgo_send_back message) [];
          w = write_optional_u64 (rgo_to_system_uid message) w;
          w = write_optional_u64 (rgo_from_system_uid message) w
      in bind_result (len_to_u64 (length (rgo_entries message))) (\<lambda>n.
           write_each write_gossip_entry (rgo_entries message) (write_u64 n w)))"

definition gossip_decode :: "allocator \<Rightarrow> bytes \<Rightarrow> u16 \<Rightarrow> replicator_gossip ser_result" where
  "gossip_decode alloc payload version =
     bind_result (ensure_version gossip_type version) (\<lambda>_.
     bind_result (read_bool (reader_new payload)) (\<lambda>(send_back, r).
     bind_result (read_optional_u64 r) (\<lambda>(to_system_uid, r).
     bind_result (read_optional_u64 r) (\<lambda>(from_system_uid, r).
     bind_result (read_u64 r) (\<lambda>(n, r).
     bind_result (u64_to_len n) (\<lambda>entry_count.
     bind_result (vec_with_capacity alloc ''ReplicatorGossipEntry'' entry_count) (\<lambda>_.
     bind_result (read_each (read_gossip_entry alloc) entry_count r) (\<lambda>(entries, r).
     bind_result (ensure_finished r) (\<lambda>_.
       Ok \<lparr>rgo_entries = entries, rgo_send_back = send_back,
           rgo_to_system_uid = to_system_uid, rgo_from_system_uid = from_system_uid\<rparr>)))))))))"

section \<open>Registration\<close>

definition get_codec :: "replicator_get message_codec" where
  "get_codec = \<lparr>mc_serializer_id = 3000, mc_encode = get_encode, mc_decode = get_decode\<rparr>"

definition update_codec :: "replicator_update message_codec" where
  "update_codec = \<lparr>mc_serializer_id = 3001, mc_encode = update_encode, mc_decode = update_decode\<rparr>"

definition subscribe_codec :: "replicator_subscribe message_codec" where
  "subscribe_codec = \<lparr>mc_serializer_id = 3002, mc_encode = subscribe_encode, mc_decode = subscribe_decode\<rparr>"

definition changed_codec :: "replicator_changed message_codec" where
  "changed_codec = \<lparr>mc_serializer_id = 3003, mc_encode = changed_encode, mc_decode = changed_decode\<rparr>"

definition delta_propagation_codec :: "allocator \<Rightarrow> replicator_delta_propagation message_codec" where
  "delta_propagation_codec alloc = \<lparr>mc_serializer_id = 3004, mc_encode = delta_propagation_encode, mc_decode = delta_propagation_decode alloc\<rparr>"

definition delta_ack_codec :: "unit message_codec" where
  "delta_ack_codec = \<lparr>mc_serializer_id = 3005, mc_encode = empty_encode, mc_decode = empty_decode delta_ack_type\<rparr>"

definition delta_nack_codec :: "unit message_codec" where
  "delta_nack_codec = \<lparr>mc_serializer_id = 3006, mc_encode = empty_encode, mc_decode = empty_decode delta_nack_type\<rparr>"

definition write_codec :: "allocator \<Rightarrow> replicator_write message_codec" where
  "write_codec alloc = \<lparr>mc_serializer_id = 3007, mc_encode = write_encode, mc_decode = write_decode alloc\<rparr>"

definition write_ack_codec :: "unit message_codec" where
  "write_ack_codec = \<lparr>mc_serializer_id = 3008, mc_encode = empty_encode, mc_decode = empty_decode write_ack_type\<rparr>"

definition write_nack_codec :: "unit message_codec" where
  "write_nack_codec = \<lparr>mc_serializer_id = 3009, mc_encode = empty_encode, mc_decode = empty_decode write_nack_type\<rparr>"

definition read_codec :: "replicator_read message_codec" where
  "read_codec = \<lparr>mc_serializer_id = 3010, mc_encode = read_encode, mc_decode = read_decode\<rparr>"

definition read_result_codec :: "allocator \<Rightarrow> replicator_read_result message_codec" where
  "read_result_codec alloc = \<lparr>mc_serializer_id = 3011, mc_encode = read_result_encode, mc_decode = read_result_decode alloc\<rparr>"

definition gossip_status_codec :: "allocator \<Rightarrow> replicator_gossip_status message_codec" where
  "gossip_status_codec alloc = \<lparr>mc_serializer_id = 3012, mc_encode = gossip_status_encode, mc_decode = gossip_status_decode alloc\<rparr>"

definition gossip_codec :: "allocator \<Rightarrow> replicator_gossip message_codec" where
  "gossip_codec alloc = \<lparr>mc_serializer_id = 3013, mc_encode = gossip_encode, mc_decode = gossip_decode alloc\<rparr>"

text \<open>The downcast to a message type.\<close>

definition as_get :: "ddata_message \<Rightarrow> replicator_get option" where
  "as_get v = (case v of MGet m \<Rightarrow> Some m | _ \<Rightarrow> None)"

definition as_update :: "ddata_message \<Rightarrow> replicator_update option" where
  "as_update v = (case v of MUpdate m \<Rightarrow> Some m | _ \<Rightarrow> None)"

definition as_subscribe :: "ddata_message \<Rightarrow> replicator_subscribe option" where
  "as_subscribe v = (case v of MSubscribe m \<Rightarrow> Some m | _ \<Rightarrow> None)"

definition as_changed :: "ddata_message \<Rightarrow> replicator_changed option" where
  "as_changed v = (case v of MChanged m \<Rightarrow> Some m | _ \<Rightarrow> None)"

definition as_delta_propagation :: "ddata_message \<Rightarrow> replicator_delta_propagation option" where
  "as_delta_propagation v = (case v of MDeltaPropagation m \<Rightarrow> Some m | _ \<Rightarrow> None)"

definition as_delta_ack :: "ddata_message \<Rightarrow> unit option" where
  "as_delta_ack v = (case v of MDeltaAck \<Rightarrow> Some () | _ \<Rightarrow> None)"

definition as_delta_nack :: "ddata_message \<Rightarrow> unit option" where
  "as_delta_nack v = (case v of MDeltaNack \<Rightarrow> Some () | _ \<Rightarrow> None)"

definition as_write :: "ddata_message \<Rightarrow> replicator_write option" where
  "as_write v = (case v of MWrite m \<Rightarrow> Some m | _ \<Rightarrow> None)"

definition as_write_ack :: "ddata_message \<Rightarrow> unit option" where
  "as_write_ack v = (case v of MWriteAck \<Rightarrow> Some () | _ \<Rightarrow> None)"

definition as_write_nack :: "ddata_message \<Rightarrow> unit option" where
  "as_write_nack v = (case v of MWriteNack \<Rightarrow> Some () | _ \<Rightarrow> None)"

definition as_read :: "ddata_message \<Rightarrow> replicator_read option" where
  "as_read v = (case v of MRead m \<Rightarrow> Some m | _ \<Rightarrow> None)"

definition as_read_result :: "ddata_message \<Rightarrow> replicator_read_result option" where
  "as_read_result v = (case v of MReadResult m \<Rightarrow> Some m | _ \<Rightarrow> None)"

definition as_gossip_status :: "ddata_message \<Rightarrow> replicator_gossip_status option" where
  "as_gossip_status v = (case v of MGossipStatus m \<Rightarrow> Some m | _ \<Rightarrow> None)"

definition as_gossip :: "ddata_message \<Rightarrow> replicator_gossip option" where
  "as_gossip v = (case v of MGossip m \<Rightarrow> Some m | _ \<Rightarrow> None)"

definition register_ddata_protocol_codecs :: "allocator \<Rightarrow> ddata_message registry \<Rightarrow> ddata_message registry ser_result" where
  "register_ddata_protocol_codecs alloc registry =
     bind_result (register get_type as_get MGet get_codec registry) (\<lambda>registry.
     bind_result (register update_type as_update MUpdate update_codec registry) (\<lambda>registry.
     bind_result (register subscribe_type as_subscribe MSubscribe subscribe_codec registry) (\<lambda>registry.
     bind_result (register changed_type as_changed MChanged changed_codec registry) (\<lambda>registry.
     bind_result (register delta_propagation_type as_delta_propagation MDeltaPropagation (delta_propagation_codec alloc) registry) (\<lambda>registry.
     bind_result (register delta_ack_type as_delta_ack (\<lambda>_. MDeltaAck) delta_ack_codec registry) (\<lambda>registry.
     bind_result (register delta_nack_type as_delta_nack (\<lambda>_. MDeltaNack) delta_nack_codec registry) (\<lambda>registry.
     bind_result (register write_type as_write MWrite (write_codec alloc) registry) (\<lambda>registry.
     bind_result (register write_ack_type as_write_ack (\<lambda>_. MWriteAck) write_ack_codec registry) (\<lambda>registry.
     bind_result (register write_nack_type as_write_nack (\<lambda>_. MWriteNack) write_nack_codec registry) (\<lambda>registry.
     bind_result (register read_type as_read MRead read_codec registry) (\<lambda>registry.
     bind_result (register read_result_type as_read_result MReadResult (read_result_codec alloc) registry) (\<lambda>registry.
     bind_result (register gossip_status_type as_gossip_status MGossipStatus (gossip_status_codec alloc) registry) (\<lambda>registry.
       register gossip_type as_gossip MGossip (gossip_codec alloc) registry)))))))))))))"

text \<open>\<open>Registry::serialize\<close> at the type of the message.\<close>

fun serialize_ddata :: "ddata_message registry \<Rightarrow> ddata_message \<Rightarrow> serialized_message ser_result" where
  "serialize_ddata reg (MGet m) = serialize get_type MGet reg m"
| "serialize_ddata reg (MUpdate m) = serialize update_type MUpdate reg m"
| "serialize_ddata reg (MSubscribe m) = serialize subscribe_type MSubscribe reg m"
| "serialize_ddata reg (MChanged m) = serialize changed_type MChanged reg m"
| "serialize_ddata reg (MDeltaPropagation m) = serialize delta_propagation_type MDeltaPropagation reg m"
| "serialize_ddata reg MDeltaAck = serialize delta_ack_type (\<lambda>_. MDeltaAck) reg ()"
| "serialize_ddata reg MDeltaNack = serialize delta_nack_type (\<lambda>_. MDeltaNack) reg ()"
| "serialize_ddata reg (MWrite m) = serialize write_type MWrite reg m"
| "serialize_ddata reg MWriteAck = serialize write_ack_type (\<lambda>_. MWriteAck) reg ()"
| "serialize_ddata reg MWriteNack = serialize write_nack_type (\<lambda>_. MWriteNack) reg ()"
| "serialize_ddata reg (MRead m) = serialize read_type MRead reg m"
| "serialize_ddata reg (MReadResult m) = serialize read_result_type MReadResult reg m"
| "serialize_ddata reg (MGossipStatus m) = serialize gossip_status_type MGossipStatus reg m"
| "serialize_ddata reg (MGossip m) = serialize gossip_type MGossip reg m"

section \<open>Fields of the protocol\<close>

definition wf_replica :: "replica_id \<Rightarrow> bool" where
  "wf_replica r \<longleftrightarrow> utf8_string (replica_str r)"

fun wf_wire_pruning_state :: "allocator \<Rightarrow> wire_pruning_state \<Rightarrow> bool" where
  "wf_wire_pruning_state alloc (WInitialized owner seen) \<longleftrightarrow>
     wf_replica owner \<and> alloc ''ReplicaId'' (length seen) \<and> list_all wf_replica seen"
| "wf_wire_pruning_state alloc (WPerformed _) \<longleftrightarrow> True"

definition wf_pruning_entry :: "allocator \<Rightarrow> replicator_pruning_entry \<Rightarrow> bool" where
  "wf_pruning_entry alloc entry \<longleftrightarrow> wf_replica (rpe_removed entry) \<and> wf_wire_pruning_state alloc (rpe_state entry)"

definition wf_manifest_string :: "string \<Rightarrow> bool" where
  "wf_manifest_string s \<longleftrightarrow> utf8_string s \<and> trim s \<noteq> []"

definition wf_data_envelope :: "allocator \<Rightarrow> replicator_data_envelope \<Rightarrow> bool" where
  "wf_data_envelope alloc e \<longleftrightarrow> wf_manifest_string (rde_crdt_manifest e) \<and> list_all (wf_pruning_entry alloc) (rde_pruning e)"

definition wf_delta :: "allocator \<Rightarrow> replicator_delta \<Rightarrow> bool" where
  "wf_delta alloc d \<longleftrightarrow> utf8_string (rdl_key d) \<and> wf_manifest_string (rdl_crdt_manifest d)
     \<and> list_all (wf_pruning_entry alloc) (rdl_pruning d)"

lemmas dd_counted = wire_counted [where ?e1.0 = "''replicator delta count exceeds u64''"
    and ?e2.0 = "''replicator delta count exceeds usize''", folded len_to_u64_def u64_to_len_def]

lemmas dd_reserved = wire_reserved [where ?e1.0 = "''replicator delta count exceeds u64''"
    and ?e2.0 = "''replicator delta count exceeds usize''", folded len_to_u64_def u64_to_len_def]

lemma replica_str_inverse [simp]: "ReplicaId (replica_str r) = r"
  by (cases r) simp

interpretation replicaf: wire_field wf_replica "\<lambda>r. write_string (replica_str r)" read_replica
  unfolding wf_replica_def [abs_def] read_replica_def [abs_def]
  by (rule wire_iso [OF stringf.wire_field_axioms]) simp_all

interpretation optreplicaf: wire_field "pred_option wf_replica"
  "\<lambda>r. write_optional_string (map_option replica_str r)" read_optional_replica
proof -
  have "pred_option wf_replica = (\<lambda>r. pred_option utf8_string (map_option replica_str r))"
    by (rule ext, rename_tac r, case_tac r) (simp_all add: wf_replica_def)
  moreover have "map_option ReplicaId (map_option replica_str r) = r"
    "map_option replica_str (map_option ReplicaId s) = s" for r s
    by (simp_all add: option.map_comp comp_def option.map_ident)
  ultimately show "wire_field (pred_option wf_replica)
      (\<lambda>r. write_optional_string (map_option replica_str r)) read_optional_replica"
    unfolding read_optional_replica_def [abs_def]
    using wire_iso [OF optstringf.wire_field_axioms, where f = "map_option replica_str" and h = "map_option ReplicaId"]
    by simp
qed

interpretation manifestf: wire_field wf_manifest_string
  "\<lambda>s w. bind_result (validate_manifest_string s) (\<lambda>_. write_string s w)" read_manifest_string
proof -
  have "wf_manifest_string = (\<lambda>s. utf8_string s \<and> validate_manifest_string s = Ok ())"
    by (rule ext) (simp add: wf_manifest_string_def validate_manifest_string_def manifest_try_new_def)
  then show "wire_field wf_manifest_string
      (\<lambda>s w. bind_result (validate_manifest_string s) (\<lambda>_. write_string s w)) read_manifest_string"
    unfolding read_manifest_string_def [abs_def]
    using wire_guard [OF stringf.wire_field_axioms, of validate_manifest_string] by simp
qed

lemma wire_initialized:
  "wire_field (\<lambda>s. wf_wire_pruning_state alloc s \<and> is_WInitialized s)
     (\<lambda>s w. bind_result (write_string (replica_str (wi_owner s)) w) (\<lambda>w.
        bind_result (len_to_u64 (length (wi_seen s))) (\<lambda>n.
          write_each (\<lambda>seen_by. write_string (replica_str seen_by)) (wi_seen s) (write_u64 n w))))
     (\<lambda>r. bind_result (read_replica r) (\<lambda>(owner, r). bind_result (read_u64 r) (\<lambda>(n, r).
        bind_result (u64_to_len n) (\<lambda>seen_count. bind_result (vec_with_capacity alloc ''ReplicaId'' seen_count) (\<lambda>_.
        bind_result (read_each read_replica seen_count r) (\<lambda>(seen, r). Ok (WInitialized owner seen, r)))))))"
proof -
  have "(\<lambda>s. wf_wire_pruning_state alloc s \<and> is_WInitialized s) =
      (\<lambda>s. (case (wi_owner s, wi_seen s) of (a, b) \<Rightarrow>
        wf_replica a \<and> alloc ''ReplicaId'' (length b) \<and> list_all wf_replica b) \<and> is_WInitialized s)"
    by (rule ext, rename_tac s, case_tac s) simp_all
  moreover have "(case a of (o', s) \<Rightarrow> Ok (WInitialized o' s)) = (Ok x :: _ ser_result) \<longleftrightarrow>
      a = (wi_owner x, wi_seen x) \<and> is_WInitialized x" for a x
    by (cases a; cases x) auto
  ultimately show ?thesis
    using wire_partial [OF wire_seq [OF replicaf.wire_field_axioms dd_reserved [OF replicaf.wire_field_axioms, where alloc = alloc and element = "''ReplicaId''"]],
        where f = "\<lambda>s. (wi_owner s, wi_seen s)" and h = "\<lambda>(o', s). Ok (WInitialized o' s)" and V = is_WInitialized]
    by (simp add: wire_simps split_def len_to_u64_def u64_to_len_def)
qed

lemma wire_performed:
  "wire_field (\<lambda>s. wf_wire_pruning_state alloc s \<and> \<not> is_WInitialized s)
     (\<lambda>s w. Ok (write_u64 (wp_obsolete_at_millis s) w))
     (\<lambda>r. bind_result (read_u64 r) (\<lambda>(at, r). Ok (WPerformed at, r)))"
proof -
  have "(\<lambda>s. wf_wire_pruning_state alloc s \<and> \<not> is_WInitialized s) = (\<lambda>s. True \<and> \<not> is_WInitialized s)"
    by (rule ext, rename_tac s, case_tac s) simp_all
  moreover have "Ok (WPerformed a) = (Ok x :: _ ser_result) \<longleftrightarrow>
      a = wp_obsolete_at_millis x \<and> \<not> is_WInitialized x" for a x
    by (cases x) auto
  ultimately show ?thesis
    using wire_partial [OF u64f.wire_field_axioms, where f = wp_obsolete_at_millis and h = "\<lambda>a. Ok (WPerformed a)"
        and V = "\<lambda>s. \<not> is_WInitialized s"]
    by simp
qed

lemma wire_pruning_state:
  "wire_field (wf_wire_pruning_state alloc)
     (\<lambda>s w. case s of
          WInitialized owner seen \<Rightarrow>
            bind_result (write_string (replica_str owner) (write_u8 1 w)) (\<lambda>w.
            bind_result (len_to_u64 (length seen)) (\<lambda>n.
              write_each (\<lambda>seen_by. write_string (replica_str seen_by)) seen (write_u64 n w)))
        | WPerformed obsolete_at_millis \<Rightarrow> Ok (write_u64 obsolete_at_millis (write_u8 2 w)))
     (\<lambda>r. bind_result (read_u8 r) (\<lambda>(tag, r).
          if tag = 1 then
            bind_result (read_replica r) (\<lambda>(owner, r). bind_result (read_u64 r) (\<lambda>(n, r).
            bind_result (u64_to_len n) (\<lambda>seen_count. bind_result (vec_with_capacity alloc ''ReplicaId'' seen_count) (\<lambda>_.
            bind_result (read_each read_replica seen_count r) (\<lambda>(seen, r). Ok (WInitialized owner seen, r))))))
          else if tag = 2 then bind_result (read_u64 r) (\<lambda>(at, r). Ok (WPerformed at, r))
          else Err (Message (''unknown ddata pruning state tag '' @ show_nat (unat tag)))))"
    (is "wire_field _ ?p (\<lambda>r. bind_result _ (\<lambda>(tag, r). if _ then ?g1 r else if _ then ?g2 r else _))")
proof -
  define tag :: "wire_pruning_state \<Rightarrow> u8" where "tag s = (if is_WInitialized s then 1 else 2)" for s
  define p where "p t s w = (if t = 1
      then bind_result (write_string (replica_str (wi_owner s)) w) (\<lambda>w.
        bind_result (len_to_u64 (length (wi_seen s))) (\<lambda>n.
          write_each (\<lambda>seen_by. write_string (replica_str seen_by)) (wi_seen s) (write_u64 n w)))
      else Ok (write_u64 (wp_obsolete_at_millis s) w))" for t :: u8 and s w
  define g where "g t r = (if t = 1 then ?g1 r else ?g2 r)" for t :: u8 and r
  have "tag s = 1 \<longleftrightarrow> is_WInitialized s" "tag s = 2 \<longleftrightarrow> \<not> is_WInitialized s" for s
    by (simp_all add: tag_def)
  then have "wire_field (\<lambda>s. wf_wire_pruning_state alloc s \<and> tag s = t) (p t) (g t)" if "t \<in> {1, 2}" for t
    using that wire_initialized [of alloc] wire_performed [of alloc] by (auto simp: p_def [abs_def] g_def [abs_def])
  then have "wire_field (wf_wire_pruning_state alloc) (\<lambda>s w. p (tag s) s (write_u8 (tag s) w))
      (\<lambda>r. bind_result (read_u8 r) (\<lambda>(t, r). if t \<in> {1, 2} then g t r
         else Err (Message (''unknown ddata pruning state tag '' @ show_nat (unat t)))))"
    by (rule wire_choice) (auto simp: tag_def)
  moreover have "(\<lambda>s w. p (tag s) s (write_u8 (tag s) w)) = ?p"
    by (auto simp: fun_eq_iff p_def tag_def split: wire_pruning_state.splits)
  moreover have "(\<lambda>(t, r). if t \<in> {1, 2} then g t r
         else Err (Message (''unknown ddata pruning state tag '' @ show_nat (unat t)))) =
      (\<lambda>(t, r). if t = 1 then ?g1 r else if t = 2 then ?g2 r
         else Err (Message (''unknown ddata pruning state tag '' @ show_nat (unat t))))"
    by (auto simp: fun_eq_iff g_def)
  ultimately show ?thesis by simp
qed

interpretation pruningf: wire_field "wf_pruning_entry alloc" write_pruning_entry "read_pruning_entry alloc" for alloc
  using wire_iso [OF wire_seq [OF replicaf.wire_field_axioms wire_pruning_state [of alloc]],
      where f = "\<lambda>e. (rpe_removed e, rpe_state e)" and h = "\<lambda>(a, s). \<lparr>rpe_removed = a, rpe_state = s\<rparr>"]
  by (simp add: wf_pruning_entry_def [abs_def] write_pruning_entry_def [abs_def] read_pruning_entry_def [abs_def]
      wire_simps split_def len_to_u64_def u64_to_len_def)

lemmas wire_pruning_entries = dd_counted [OF pruningf.wire_field_axioms [of alloc]] for alloc

interpretation envelopef: wire_field "wf_data_envelope alloc" write_data_envelope "read_data_envelope alloc 2" for alloc
  using wire_iso [OF wire_seq [OF manifestf.wire_field_axioms wire_seq [OF u16f.wire_field_axioms
        wire_seq [OF bytesf.wire_field_axioms wire_pruning_entries [of alloc]]]],
      where f = "\<lambda>e. (rde_crdt_manifest e, rde_crdt_version e, rde_payload e, rde_pruning e)"
        and h = "\<lambda>(m, v, b, p). \<lparr>rde_crdt_manifest = m, rde_crdt_version = v, rde_payload = b, rde_pruning = p\<rparr>"]
  by (simp add: wf_data_envelope_def [abs_def] write_data_envelope_def [abs_def] read_data_envelope_def [abs_def]
      read_pruning_entries_def wire_simps split_def len_to_u64_def u64_to_len_def)

interpretation deltaf: wire_field "wf_delta alloc" write_delta "read_delta alloc 2" for alloc
  using wire_iso [OF wire_seq [OF stringf.wire_field_axioms wire_seq [OF manifestf.wire_field_axioms
        wire_seq [OF u16f.wire_field_axioms wire_seq [OF u64f.wire_field_axioms wire_seq [OF u64f.wire_field_axioms
        wire_seq [OF bytesf.wire_field_axioms wire_pruning_entries [of alloc]]]]]]],
      where f = "\<lambda>d. (rdl_key d, rdl_crdt_manifest d, rdl_crdt_version d, rdl_from_version d, rdl_to_version d,
          rdl_payload d, rdl_pruning d)"
        and h = "\<lambda>(k, m, v, f, t, b, p). \<lparr>rdl_key = k, rdl_crdt_manifest = m, rdl_crdt_version = v,
          rdl_payload = b, rdl_pruning = p, rdl_from_version = f, rdl_to_version = t\<rparr>"]
  by (simp add: wf_delta_def [abs_def] write_delta_def [abs_def] read_delta_def [abs_def]
      read_pruning_entries_def wire_simps split_def len_to_u64_def u64_to_len_def)

definition wf_gossip_entry :: "allocator \<Rightarrow> replicator_gossip_entry \<Rightarrow> bool" where
  "wf_gossip_entry alloc e \<longleftrightarrow> utf8_string (rge_key e) \<and> wf_data_envelope alloc (rge_envelope e)"

interpretation digestf: wire_field "\<lambda>d. utf8_string (rgd_key d)" write_digest read_digest
  using wire_iso [OF wire_seq [OF stringf.wire_field_axioms wire_seq [OF u64f.wire_field_axioms u64f.wire_field_axioms]],
      where f = "\<lambda>d. (rgd_key d, rgd_digest d, rgd_used_timestamp_millis d)"
        and h = "\<lambda>(k, d, t). \<lparr>rgd_key = k, rgd_digest = d, rgd_used_timestamp_millis = t\<rparr>"]
  by (simp add: write_digest_def [abs_def] read_digest_def [abs_def] wire_simps split_def len_to_u64_def u64_to_len_def)

interpretation gossipentryf: wire_field "wf_gossip_entry alloc" write_gossip_entry "read_gossip_entry alloc" for alloc
  using wire_iso [OF wire_seq [OF stringf.wire_field_axioms wire_seq [OF u64f.wire_field_axioms envelopef.wire_field_axioms [of alloc]]],
      where f = "\<lambda>e. (rge_key e, rge_used_timestamp_millis e, rge_envelope e)"
        and h = "\<lambda>(k, t, v). \<lparr>rge_key = k, rge_envelope = v, rge_used_timestamp_millis = t\<rparr>"]
  by (simp add: wf_gossip_entry_def [abs_def] write_gossip_entry_def [abs_def] read_gossip_entry_def [abs_def]
      wire_simps split_def len_to_u64_def u64_to_len_def)

section \<open>The whole protocol\<close>

text \<open>
  Well-formed messages: strings hold UTF-8, which every \<open>String\<close> does, CRDT manifests are not blank
  and actor references are the parsed form of their paths. The allocator has to serve the vectors
  the message is read into.
\<close>

fun wf_ddata_message :: "allocator \<Rightarrow> ddata_message \<Rightarrow> bool" where
  "wf_ddata_message alloc (MGet m) \<longleftrightarrow> utf8_string (rget_key m)"
| "wf_ddata_message alloc (MUpdate m) \<longleftrightarrow> utf8_string (rupd_key m)"
| "wf_ddata_message alloc (MSubscribe m) \<longleftrightarrow> utf8_string (rsub_key m) \<and> wf_actor_ref (rsub_subscriber m)"
| "wf_ddata_message alloc (MChanged m) \<longleftrightarrow> utf8_string (rchg_key m)"
| "wf_ddata_message alloc (MDeltaPropagation m) \<longleftrightarrow> 
     wf_replica (rdp_from m) \<and> alloc ''ReplicatorDelta'' (length (rdp_deltas m)) \<and> list_all (wf_delta alloc) (rdp_deltas m)"
| "wf_ddata_message alloc (MWrite m) \<longleftrightarrow> utf8_string (rwr_key m) \<and> pred_option wf_replica (rwr_from m) \<and> wf_data_envelope alloc (rwr_envelope m)"
| "wf_ddata_message alloc (MRead m) \<longleftrightarrow> utf8_string (rrd_key m) \<and> pred_option wf_replica (rrd_from m)"
| "wf_ddata_message alloc (MReadResult m) \<longleftrightarrow> pred_option (wf_data_envelope alloc) (rrr_envelope m)"
| "wf_ddata_message alloc (MGossipStatus m) \<longleftrightarrow>
     alloc ''ReplicatorGossipDigest'' (length (rgs_entries m)) \<and> list_all (\<lambda>d. utf8_string (rgd_key d)) (rgs_entries m)"
| "wf_ddata_message alloc (MGossip m) \<longleftrightarrow>
     alloc ''ReplicatorGossipEntry'' (length (rgo_entries m)) \<and> list_all (wf_gossip_entry alloc) (rgo_entries m)"
| "wf_ddata_message alloc _ \<longleftrightarrow> True"

text \<open>The codec and the type of a message, for the statements below.\<close>

fun ddata_type :: "ddata_message \<Rightarrow> remote_message_type" where
  "ddata_type (MGet m) = get_type"
| "ddata_type (MUpdate m) = update_type"
| "ddata_type (MSubscribe m) = subscribe_type"
| "ddata_type (MChanged m) = changed_type"
| "ddata_type (MDeltaPropagation m) = delta_propagation_type"
| "ddata_type MDeltaAck = delta_ack_type"
| "ddata_type MDeltaNack = delta_nack_type"
| "ddata_type (MWrite m) = write_type"
| "ddata_type MWriteAck = write_ack_type"
| "ddata_type MWriteNack = write_nack_type"
| "ddata_type (MRead m) = read_type"
| "ddata_type (MReadResult m) = read_result_type"
| "ddata_type (MGossipStatus m) = gossip_status_type"
| "ddata_type (MGossip m) = gossip_type"

fun ddata_codec :: "allocator \<Rightarrow> ddata_message \<Rightarrow> ddata_message dyn_codec" where
  "ddata_codec alloc (MGet m) = typed_codec get_type as_get MGet get_codec"
| "ddata_codec alloc (MUpdate m) = typed_codec update_type as_update MUpdate update_codec"
| "ddata_codec alloc (MSubscribe m) = typed_codec subscribe_type as_subscribe MSubscribe subscribe_codec"
| "ddata_codec alloc (MChanged m) = typed_codec changed_type as_changed MChanged changed_codec"
| "ddata_codec alloc (MDeltaPropagation m) = typed_codec delta_propagation_type as_delta_propagation MDeltaPropagation (delta_propagation_codec alloc)"
| "ddata_codec alloc MDeltaAck = typed_codec delta_ack_type as_delta_ack (\<lambda>_. MDeltaAck) delta_ack_codec"
| "ddata_codec alloc MDeltaNack = typed_codec delta_nack_type as_delta_nack (\<lambda>_. MDeltaNack) delta_nack_codec"
| "ddata_codec alloc (MWrite m) = typed_codec write_type as_write MWrite (write_codec alloc)"
| "ddata_codec alloc MWriteAck = typed_codec write_ack_type as_write_ack (\<lambda>_. MWriteAck) write_ack_codec"
| "ddata_codec alloc MWriteNack = typed_codec write_nack_type as_write_nack (\<lambda>_. MWriteNack) write_nack_codec"
| "ddata_codec alloc (MRead m) = typed_codec read_type as_read MRead read_codec"
| "ddata_codec alloc (MReadResult m) = typed_codec read_result_type as_read_result MReadResult (read_result_codec alloc)"
| "ddata_codec alloc (MGossipStatus m) = typed_codec gossip_status_type as_gossip_status MGossipStatus (gossip_status_codec alloc)"
| "ddata_codec alloc (MGossip m) = typed_codec gossip_type as_gossip MGossip (gossip_codec alloc)"

definition ddata_codecs :: "allocator \<Rightarrow> ddata_message dyn_codec list" where
  "ddata_codecs alloc =
     [typed_codec get_type as_get MGet get_codec,
      typed_codec update_type as_update MUpdate update_codec,
      typed_codec subscribe_type as_subscribe MSubscribe subscribe_codec,
      typed_codec changed_type as_changed MChanged changed_codec,
      typed_codec delta_propagation_type as_delta_propagation MDeltaPropagation (delta_propagation_codec alloc),
      typed_codec delta_ack_type as_delta_ack (\<lambda>_. MDeltaAck) delta_ack_codec,
      typed_codec delta_nack_type as_delta_nack (\<lambda>_. MDeltaNack) delta_nack_codec,
      typed_codec write_type as_write MWrite (write_codec alloc),
      typed_codec write_ack_type as_write_ack (\<lambda>_. MWriteAck) write_ack_codec,
      typed_codec write_nack_type as_write_nack (\<lambda>_. MWriteNack) write_nack_codec,
      typed_codec read_type as_read MRead read_codec,
      typed_codec read_result_type as_read_result MReadResult (read_result_codec alloc),
      typed_codec gossip_status_type as_gossip_status MGossipStatus (gossip_status_codec alloc),
      typed_codec gossip_type as_gossip MGossip (gossip_codec alloc)]"

lemmas ddata_type_defs = get_type_def update_type_def subscribe_type_def changed_type_def delta_propagation_type_def delta_ack_type_def delta_nack_type_def write_type_def write_ack_type_def write_nack_type_def read_type_def read_result_type_def gossip_status_type_def gossip_type_def

lemmas ddata_codec_defs = get_codec_def update_codec_def subscribe_codec_def changed_codec_def delta_propagation_codec_def delta_ack_codec_def delta_nack_codec_def write_codec_def write_ack_codec_def write_nack_codec_def read_codec_def read_result_codec_def gossip_status_codec_def gossip_codec_def

lemmas ddata_downcast_defs = as_get_def as_update_def as_subscribe_def as_changed_def as_delta_propagation_def as_delta_ack_def as_delta_nack_def as_write_def as_write_ack_def as_write_nack_def as_read_def as_read_result_def as_gossip_status_def as_gossip_def

lemma get_decode_iff:
  "length b < 2 ^ 64 \<Longrightarrow> get_decode b 1 = Ok m \<longleftrightarrow> wf_ddata_message alloc (MGet m) \<and> get_encode m = Ok b"
  using wire_field.decode_iff [OF wire_iso [OF wire_seq [OF stringf.wire_field_axioms u64f.wire_field_axioms],
      where f = "\<lambda>m. (rget_key m, rget_request_id m)" and h = "\<lambda>(k, i). \<lparr>rget_key = k, rget_request_id = i\<rparr>"], where b = b and m = m]
  by (simp add: get_decode_def get_encode_def ensure_version_def ensure_version_range_def get_type_def
      wire_simps split_def len_to_u64_def u64_to_len_def)

lemma update_decode_iff:
  "length b < 2 ^ 64 \<Longrightarrow> update_decode b 1 = Ok m \<longleftrightarrow> wf_ddata_message alloc (MUpdate m) \<and> update_encode m = Ok b"
  using wire_field.decode_iff [OF wire_iso [OF wire_seq [OF stringf.wire_field_axioms u64f.wire_field_axioms],
      where f = "\<lambda>m. (rupd_key m, rupd_request_id m)" and h = "\<lambda>(k, i). \<lparr>rupd_key = k, rupd_request_id = i\<rparr>"], where b = b and m = m]
  by (simp add: update_decode_def update_encode_def ensure_version_def ensure_version_range_def update_type_def
      wire_simps split_def len_to_u64_def u64_to_len_def)

lemma subscribe_decode_iff:
  "length b < 2 ^ 64 \<Longrightarrow> subscribe_decode b 1 = Ok m \<longleftrightarrow> wf_ddata_message alloc (MSubscribe m) \<and> subscribe_encode m = Ok b"
  using wire_field.decode_iff [OF wire_iso [OF wire_seq [OF stringf.wire_field_axioms wire_actor_ref],
      where f = "\<lambda>m. (rsub_key m, rsub_subscriber m)" and h = "\<lambda>(k, a). \<lparr>rsub_key = k, rsub_subscriber = a\<rparr>"], where b = b and m = m]
  by (simp add: subscribe_decode_def subscribe_encode_def ensure_version_def ensure_version_range_def subscribe_type_def
      wire_simps split_def len_to_u64_def u64_to_len_def)

lemma changed_decode_iff:
  "length b < 2 ^ 64 \<Longrightarrow> changed_decode b 1 = Ok m \<longleftrightarrow> wf_ddata_message alloc (MChanged m) \<and> changed_encode m = Ok b"
  using wire_field.decode_iff [OF wire_iso [OF stringf.wire_field_axioms,
      where f = "rchg_key" and h = "\<lambda>k. \<lparr>rchg_key = k\<rparr>"], where b = b and m = m]
  by (simp add: changed_decode_def changed_encode_def ensure_version_def ensure_version_range_def changed_type_def
      wire_simps split_def len_to_u64_def u64_to_len_def)

lemma delta_propagation_decode_iff:
  "length b < 2 ^ 64 \<Longrightarrow> delta_propagation_decode alloc b 2 = Ok m \<longleftrightarrow> wf_ddata_message alloc (MDeltaPropagation m) \<and> delta_propagation_encode m = Ok b"
  using wire_field.decode_iff [OF wire_iso [OF wire_seq [OF replicaf.wire_field_axioms wire_seq [OF boolf.wire_field_axioms dd_reserved [OF deltaf.wire_field_axioms [of alloc], where alloc = alloc and element = "''ReplicatorDelta''"]]],
      where f = "\<lambda>m. (rdp_from m, rdp_reply m, rdp_deltas m)" and h = "\<lambda>(f, r, d). \<lparr>rdp_from = f, rdp_reply = r, rdp_deltas = d\<rparr>"], where b = b and m = m]
  by (simp add: delta_propagation_decode_def delta_propagation_encode_def ensure_version_def ensure_version_range_def delta_propagation_type_def
      wire_simps split_def len_to_u64_def u64_to_len_def)

lemma write_decode_iff:
  "length b < 2 ^ 64 \<Longrightarrow> write_decode alloc b 2 = Ok m \<longleftrightarrow> wf_ddata_message alloc (MWrite m) \<and> write_encode m = Ok b"
  using wire_field.decode_iff [OF wire_iso [OF wire_seq [OF stringf.wire_field_axioms wire_seq [OF optreplicaf.wire_field_axioms envelopef.wire_field_axioms [of alloc]]],
      where f = "\<lambda>m. (rwr_key m, rwr_from m, rwr_envelope m)" and h = "\<lambda>(k, f, e). \<lparr>rwr_key = k, rwr_from = f, rwr_envelope = e\<rparr>"], where b = b and m = m]
  by (simp add: write_decode_def write_encode_def ensure_version_def ensure_version_range_def write_type_def
      wire_simps split_def len_to_u64_def u64_to_len_def)

lemma read_decode_iff:
  "length b < 2 ^ 64 \<Longrightarrow> read_decode b 1 = Ok m \<longleftrightarrow> wf_ddata_message alloc (MRead m) \<and> read_encode m = Ok b"
  using wire_field.decode_iff [OF wire_iso [OF wire_seq [OF stringf.wire_field_axioms optreplicaf.wire_field_axioms],
      where f = "\<lambda>m. (rrd_key m, rrd_from m)" and h = "\<lambda>(k, f). \<lparr>rrd_key = k, rrd_from = f\<rparr>"], where b = b and m = m]
  by (simp add: read_decode_def read_encode_def ensure_version_def ensure_version_range_def read_type_def
      wire_simps split_def len_to_u64_def u64_to_len_def)

lemma wire_optional_envelope:
  "wire_field (pred_option (wf_data_envelope alloc))
     (\<lambda>x w. case x of Some e \<Rightarrow> write_data_envelope e (write_bool True w) | None \<Rightarrow> Ok (write_bool False w))
     (\<lambda>r. bind_result (read_bool r) (\<lambda>(present, r).
        if present then bind_result (read_data_envelope alloc 2 r) (\<lambda>(e, r). Ok (Some e, r)) else Ok (None, r)))"
proof -
  have "(\<lambda>r. bind_result (read_bool r) (\<lambda>(present, r).
        if present then bind_result (read_data_envelope alloc 2 r) (\<lambda>(e, r). Ok (Some e, r)) else Ok (None, r))) =
      (\<lambda>r. bind_result (read_u8 r) (\<lambda>(b, r). if b = 0 then Ok (None, r)
        else if b = 1 then bind_result (read_data_envelope alloc 2 r) (\<lambda>(a, r). Ok (Some a, r))
        else Err (Message (''invalid bool marker '' @ show_nat (unat b)))))"
    by (auto simp: fun_eq_iff read_bool_def bind_result_def split: sum.split)
  then show ?thesis
    using wire_optional [OF envelopef.wire_field_axioms [of alloc],
        where e = "\<lambda>b. Message (''invalid bool marker '' @ show_nat (unat b))"]
    by (simp add: write_bool_def write_u8_def cong: option.case_cong)
qed

lemma read_result_decode_iff:
  "length b < 2 ^ 64 \<Longrightarrow> read_result_decode alloc b 2 = Ok m \<longleftrightarrow> wf_ddata_message alloc (MReadResult m) \<and> read_result_encode m = Ok b"
  using wire_field.decode_iff [OF wire_iso [OF wire_optional_envelope [of alloc],
      where f = "rrr_envelope" and h = "\<lambda>e. \<lparr>rrr_envelope = e\<rparr>"], where b = b and m = m]
  by (simp add: read_result_decode_def read_result_encode_def ensure_version_def ensure_version_range_def read_result_type_def
      wire_simps split_def len_to_u64_def u64_to_len_def cong: if_cong option.case_cong)

lemma gossip_status_decode_iff:
  "length b < 2 ^ 64 \<Longrightarrow> gossip_status_decode alloc b 1 = Ok m \<longleftrightarrow> wf_ddata_message alloc (MGossipStatus m) \<and> gossip_status_encode m = Ok b"
  using wire_field.decode_iff [OF wire_iso [OF wire_seq [OF u32f.wire_field_axioms wire_seq [OF u32f.wire_field_axioms wire_seq [OF optu64f.wire_field_axioms wire_seq [OF optu64f.wire_field_axioms dd_reserved [OF digestf.wire_field_axioms, where alloc = alloc and element = "''ReplicatorGossipDigest''"]]]]],
      where f = "\<lambda>m. (rgs_chunk m, rgs_total_chunks m, rgs_to_system_uid m, rgs_from_system_uid m, rgs_entries m)" and h = "\<lambda>(c, n, t, f, e). \<lparr>rgs_entries = e, rgs_chunk = c, rgs_total_chunks = n, rgs_to_system_uid = t, rgs_from_system_uid = f\<rparr>"], where b = b and m = m]
  by (simp add: gossip_status_decode_def gossip_status_encode_def ensure_version_def ensure_version_range_def gossip_status_type_def
      wire_simps split_def len_to_u64_def u64_to_len_def)

lemma gossip_decode_iff:
  "length b < 2 ^ 64 \<Longrightarrow> gossip_decode alloc b 1 = Ok m \<longleftrightarrow> wf_ddata_message alloc (MGossip m) \<and> gossip_encode m = Ok b"
  using wire_field.decode_iff [OF wire_iso [OF wire_seq [OF boolf.wire_field_axioms wire_seq [OF optu64f.wire_field_axioms wire_seq [OF optu64f.wire_field_axioms dd_reserved [OF gossipentryf.wire_field_axioms [of alloc], where alloc = alloc and element = "''ReplicatorGossipEntry''"]]]],
      where f = "\<lambda>m. (rgo_send_back m, rgo_to_system_uid m, rgo_from_system_uid m, rgo_entries m)" and h = "\<lambda>(s, t, f, e). \<lparr>rgo_entries = e, rgo_send_back = s, rgo_to_system_uid = t, rgo_from_system_uid = f\<rparr>"], where b = b and m = m]
  by (simp add: gossip_decode_def gossip_encode_def ensure_version_def ensure_version_range_def gossip_type_def
      wire_simps split_def len_to_u64_def u64_to_len_def)

lemma empty_decode_iff: "empty_decode M b (mt_version M) = Ok () \<longleftrightarrow> b = []"
  by (simp add: empty_decode_def ensure_version_def ensure_version_range_def ensure_empty_payload_def)

lemmas ddata_decode_iffs = get_decode_iff update_decode_iff subscribe_decode_iff changed_decode_iff
  delta_propagation_decode_iff write_decode_iff read_decode_iff read_result_decode_iff
  gossip_status_decode_iff gossip_decode_iff

lemma ddata_codec_of_decoded:
  assumes "c \<in> set (ddata_codecs alloc)" "dc_decode c b v = Ok m"
  shows "c = ddata_codec alloc m"
  using assms by (auto simp: ddata_codecs_def typed_decode_dyn_def)

lemma ddata_versions [simp]:
  "mt_version get_type = 1" "mt_version update_type = 1" "mt_version subscribe_type = 1"
  "mt_version changed_type = 1" "mt_version delta_propagation_type = 2" "mt_version write_type = 2"
  "mt_version read_type = 1" "mt_version read_result_type = 2" "mt_version gossip_status_type = 1"
  "mt_version gossip_type = 1"
  by (simp_all add: ddata_type_defs)

lemma ddata_codec_bijective:
  assumes "length b < 2 ^ 64"
  shows "dc_decode (ddata_codec alloc m) b (mt_version (ddata_type m)) = Ok m \<longleftrightarrow>
     wf_ddata_message alloc m \<and> dc_encode (ddata_codec alloc m) m = Ok b"
  using ddata_decode_iffs [OF assms] empty_decode_iff [of _ b]
  by (cases m)
    (auto simp: typed_decode_dyn_def typed_encode_dyn_def ddata_codec_defs ddata_downcast_defs empty_encode_def)

lemma ddata_codec_simps [simp]:
  "dc_type_id (ddata_codec alloc m) = mt_name (ddata_type m)" "dc_manifest (ddata_codec alloc m) = mt_manifest (ddata_type m)"
  by (cases m; simp)+

lemma ddata_codec_in [simp]: "ddata_codec alloc m \<in> set (ddata_codecs alloc)"
  by (cases m) (simp_all add: ddata_codecs_def)

lemma serialize_ddata_conv:
  "serialize_ddata reg m =
     bind_result (codec_for_type (ddata_type m) reg) (\<lambda>codec.
     bind_result (manifest_try_new (mt_manifest (ddata_type m))) (\<lambda>manifest.
     bind_result (dc_encode codec m) (\<lambda>payload.
       Ok \<lparr>sm_serializer_id = dc_serializer_id codec, sm_manifest = manifest,
           sm_version = mt_version (ddata_type m), sm_payload = payload\<rparr>)))"
  by (cases m) (simp_all add: serialize_def)

lemma ddata_manifests: "trim (mt_manifest (ddata_type m)) \<noteq> []"
proof -
  have "list_all (\<lambda>M. trim (mt_manifest M) \<noteq> []) [get_type, update_type, subscribe_type, changed_type,
      delta_propagation_type, delta_ack_type, delta_nack_type, write_type, write_ack_type, write_nack_type,
      read_type, read_result_type, gossip_status_type, gossip_type]"
    by code_simp
  then show ?thesis by (cases m) simp_all
qed

lemma ran_register:
  assumes "register M prj emb c reg = Ok reg'"
  shows "ran (fmlookup (rg_by_type reg')) = insert (typed_codec M prj emb c) (ran (fmlookup (rg_by_type reg)))"
proof -
  from assms have "fmlookup (rg_by_type reg) (mt_name M) = None"
    "fmlookup (rg_by_type reg') = (fmlookup (rg_by_type reg)) (mt_name M \<mapsto> typed_codec M prj emb c)"
    unfolding register_Ok by auto
  then show ?thesis by simp
qed

lemma ddata_registered:
  assumes "register_ddata_protocol_codecs alloc registry_new = Ok reg"
  shows "registry_inv reg" "ran (fmlookup (rg_by_type reg)) = set (ddata_codecs alloc)"
proof -
  show "registry_inv reg"
    using assms register_inv registry_inv_new
    unfolding register_ddata_protocol_codecs_def bind_result_eq_Ok by metis
  have "ran (fmlookup (rg_by_type registry_new)) = {}" by (simp add: registry_new_def ran_def)
  with assms show "ran (fmlookup (rg_by_type reg)) = set (ddata_codecs alloc)"
    unfolding register_ddata_protocol_codecs_def by (auto simp: ran_register ddata_codecs_def)
qed

lemma ddata_registration_succeeds: "\<exists>reg. register_ddata_protocol_codecs alloc registry_new = Ok reg"
proof -
  note m = ddata_manifests [of "MGet _"] ddata_manifests [of "ddata_message.MUpdate _"] ddata_manifests [of "MSubscribe _"]
    ddata_manifests [of "MChanged _"] ddata_manifests [of "MDeltaPropagation _"] ddata_manifests [of MDeltaAck]
    ddata_manifests [of MDeltaNack] ddata_manifests [of "MWrite _"] ddata_manifests [of MWriteAck]
    ddata_manifests [of MWriteNack] ddata_manifests [of "MRead _"] ddata_manifests [of "MReadResult _"]
    ddata_manifests [of "MGossipStatus _"] ddata_manifests [of "MGossip _"]
  then show ?thesis
    by (simp add: register_ddata_protocol_codecs_def register_Ok registry_new_def ddata_type_defs ddata_codec_defs)
qed

lemma ddata_codec_registered:
  assumes "register_ddata_protocol_codecs alloc registry_new = Ok reg"
  shows "fmlookup (rg_by_type reg) (mt_name (ddata_type m)) = Some (ddata_codec alloc m)"
    "fmlookup (rg_by_wire reg) (dc_serializer_id (ddata_codec alloc m), Manifest (mt_manifest (ddata_type m))) = Some (ddata_codec alloc m)"
proof -
  note reg = ddata_registered [OF assms]
  from reg(2) obtain t where "fmlookup (rg_by_type reg) t = Some (ddata_codec alloc m)"
    using ddata_codec_in [of alloc m] unfolding ran_def by fastforce
  then show "fmlookup (rg_by_type reg) (mt_name (ddata_type m)) = Some (ddata_codec alloc m)"
    "fmlookup (rg_by_wire reg) (dc_serializer_id (ddata_codec alloc m), Manifest (mt_manifest (ddata_type m))) = Some (ddata_codec alloc m)"
    using reg(1) unfolding registry_inv_def by (metis ddata_codec_simps)+
qed

lemma deserialize_dyn_ddata:
  assumes "register_ddata_protocol_codecs alloc registry_new = Ok reg"
  shows "deserialize_dyn reg s = Ok m \<longleftrightarrow>
     sm_serializer_id s = dc_serializer_id (ddata_codec alloc m) \<and> sm_manifest s = Manifest (mt_manifest (ddata_type m)) \<and>
     dc_decode (ddata_codec alloc m) (sm_payload s) (sm_version s) = Ok m"
    (is "?l \<longleftrightarrow> ?r")
proof
  assume ?l
  then obtain c where c: "fmlookup (rg_by_wire reg) (sm_serializer_id s, sm_manifest s) = Some c"
    "dc_decode c (sm_payload s) (sm_version s) = Ok m"
    by (auto simp: deserialize_dyn_def codec_for_wire_def)
  with ddata_registered(1) [OF assms] have i: "dc_serializer_id c = sm_serializer_id s"
    "sm_manifest s = Manifest (dc_manifest c)" "fmlookup (rg_by_type reg) (dc_type_id c) = Some c"
    unfolding registry_inv_def by blast+
  from i(3) have "c \<in> set (ddata_codecs alloc)"
    unfolding ddata_registered(2) [OF assms, symmetric] by (rule ranI)
  from ddata_codec_of_decoded [OF this c(2)] i c show ?r by simp
next
  assume ?r
  with ddata_codec_registered(2) [OF assms, of m] show ?l
    by (simp add: deserialize_dyn_def codec_for_wire_def)
qed

text \<open>
  C32: The distributed-data protocol is read exactly as it is written. In the registry that
  \<open>register_ddata_protocol_codecs\<close> builds, a serialized message of the current version of a message
  type deserializes to a message exactly when that message is well formed and serializes to
  those very bytes, serializer id and manifest. This holds for all fourteen message types at
  once, so no two messages share a wire form and no codec accepts another codec's payload. It holds for
  every allocator: well-formedness includes that the allocator serves the vectors the message is read into, which
  all do when it serves every request.
\<close>

theorem ddata_protocol_bijective:
  assumes "register_ddata_protocol_codecs alloc registry_new = Ok reg"
    and "length (sm_payload s) < 2 ^ 64" "sm_version s = mt_version (ddata_type m)"
  shows "deserialize_dyn reg s = Ok m \<longleftrightarrow> wf_ddata_message alloc m \<and> serialize_ddata reg m = Ok s"
proof -
  have "serialize_ddata reg m = Ok s \<longleftrightarrow>
      sm_serializer_id s = dc_serializer_id (ddata_codec alloc m) \<and> sm_manifest s = Manifest (mt_manifest (ddata_type m)) \<and>
      dc_encode (ddata_codec alloc m) m = Ok (sm_payload s)"
    using ddata_codec_registered(1) [OF assms(1), of m] ddata_manifests [of m] assms(3)
    by (cases s) (auto simp: serialize_ddata_conv codec_for_type_def manifest_try_new_def)
  with ddata_codec_bijective [OF assms(2), of alloc m] assms(3) show ?thesis
    unfolding deserialize_dyn_ddata [OF assms(1)] by auto
qed

definition sample_read :: replicator_read where
  "sample_read = \<lparr>rrd_key = ''k'', rrd_from = Some (ReplicaId ''n'')\<rparr>"

definition sample_serialized_read :: serialized_message where
  "sample_serialized_read = \<lparr>sm_serializer_id = 3010, sm_manifest = Manifest ''kairo.ddata.read'', sm_version = 1,
     sm_payload = [0, 0, 0, 1, 107, 1, 0, 0, 0, 1, 110]\<rparr>"

theorem ddata_protocol_bijective_witness:
  "\<exists>reg. register_ddata_protocol_codecs (\<lambda>_ n. n \<le> 1000) registry_new = Ok reg \<and>
     deserialize_dyn reg sample_serialized_read = Ok (MRead sample_read)"
proof -
  obtain reg where reg: "register_ddata_protocol_codecs (\<lambda>_ n. n \<le> 1000) registry_new = Ok reg"
    using ddata_registration_succeeds by blast
  have "wf_ddata_message (\<lambda>_ n. n \<le> 1000) (MRead sample_read)"
  proof -
    have "utf8_string ''k''" "utf8_string ''n''" by code_simp+
    then show ?thesis by (simp add: sample_read_def wf_replica_def)
  qed
  moreover have "serialize_ddata reg (MRead sample_read) = Ok sample_serialized_read"
  proof -
    have "read_encode sample_read = Ok (sm_payload sample_serialized_read)" by code_simp
    then show ?thesis
      using ddata_codec_registered(1) [OF reg, of "MRead sample_read"] ddata_manifests [of "MRead sample_read"]
      by (simp add: serialize_def codec_for_type_def manifest_try_new_def typed_encode_dyn_def as_read_def read_codec_def
          sample_serialized_read_def read_type_def)
  qed
  moreover have "length (sm_payload sample_serialized_read) < 2 ^ 64"
    "sm_version sample_serialized_read = mt_version (ddata_type (MRead sample_read))"
    by (simp_all add: sample_serialized_read_def)
  ultimately show ?thesis using reg ddata_protocol_bijective by blast
qed

end
