(* ===== verification/Crdt_Codec.thy ===== *)
theory Crdt_Codec
  imports Ddata_Protocol
begin

text \<open>
  The payload codecs of \<open>crdt_codec.rs\<close> in \<open>kairo-distributed-data/src\<close> for the built-in replicated
  data types, at the element types they are written for.

  A decoder rebuilds a map or a set from a list, so it accepts entries in any order; the codecs
  are therefore \<open>wire_written\<close>: what they write is read back, without the pending delta, which no
  codec writes. A decoder that hands its count to \<open>Vec::with_capacity\<close> takes the allocator as its first argument, and
  the validity of a value includes that the allocator serves the vectors it is read into. The maps that are filled entry
  by entry reserve nothing. The readers of the two recursive delta types recurse on the payload. Their fuel is the
  number of unread bytes, and a group is entered after nine bytes, its tag and its count, have been read, so it never runs out.
\<close>

section \<open>Codec interface\<close>

record serialized_crdt =
  sc_manifest :: string
  sc_version :: u16
  sc_payload :: bytes

record 'd crdt_codec =
  cc_manifest :: string
  cc_version :: u16
  cc_encode_payload :: "'d \<Rightarrow> bytes ser_result"
  cc_decode_payload :: "bytes \<Rightarrow> u16 \<Rightarrow> 'd ser_result"

definition cc_serialize :: "'d crdt_codec \<Rightarrow> 'd \<Rightarrow> serialized_crdt ser_result" where
  "cc_serialize c data = bind_result (cc_encode_payload c data) (\<lambda>payload.
     Ok \<lparr>sc_manifest = cc_manifest c, sc_version = cc_version c, sc_payload = payload\<rparr>)"

definition cc_deserialize :: "'d crdt_codec \<Rightarrow> serialized_crdt \<Rightarrow> 'd ser_result" where
  "cc_deserialize c data =
     (if sc_manifest data \<noteq> cc_manifest c
      then Err (Message (''expected CRDT manifest '' @ cc_manifest c @ '', got '' @ sc_manifest data))
      else cc_decode_payload c (sc_payload data) (sc_version data))"

definition crdt_ensure_version :: "string \<Rightarrow> u16 \<Rightarrow> unit ser_result" where
  "crdt_ensure_version manifest version =
     (if version = 1 then Ok ()
      else Err (Message (''unsupported '' @ manifest @ '' version '' @ show_nat (unat version))))"

definition crdt_len_to_u64 :: "nat \<Rightarrow> u64 ser_result" where
  "crdt_len_to_u64 len = checked_len ''CRDT collection length exceeds u64'' len"

definition crdt_u64_to_len :: "u64 \<Rightarrow> nat ser_result" where
  "crdt_u64_to_len len = checked_count ''CRDT collection length exceeds usize'' len"

section \<open>Grow-only sets\<close>

definition gset_encode_payload :: "string gset \<Rightarrow> bytes ser_result" where
  "gset_encode_payload data =
     (let elements = sorted_list_of_fset (gs_elements data)
      in bind_result (crdt_len_to_u64 (length elements)) (\<lambda>n. write_each write_string elements (write_u64 n [])))"

definition gset_decode_payload :: "allocator \<Rightarrow> bytes \<Rightarrow> u16 \<Rightarrow> string gset ser_result" where
  "gset_decode_payload alloc payload version =
     bind_result (crdt_ensure_version ''kairo.ddata.gset-string'' version) (\<lambda>_.
     bind_result (read_u64 (reader_new payload)) (\<lambda>(len, r).
     bind_result (crdt_u64_to_len len) (\<lambda>len.
     bind_result (vec_with_capacity alloc ''String'' len) (\<lambda>_.
     bind_result (read_each read_string len r) (\<lambda>(elements, r).
     bind_result (ensure_finished r) (\<lambda>_. Ok (gs_from_elements elements)))))))"

definition gset_delta_decode_payload :: "allocator \<Rightarrow> bytes \<Rightarrow> u16 \<Rightarrow> string gset ser_result" where
  "gset_delta_decode_payload alloc payload version =
     bind_result (crdt_ensure_version ''kairo.ddata.gset-string-delta'' version) (\<lambda>_. gset_decode_payload alloc payload 1)"

definition gset_string_codec :: "allocator \<Rightarrow> string gset crdt_codec" where
  "gset_string_codec alloc = \<lparr>cc_manifest = ''kairo.ddata.gset-string'', cc_version = 1,
     cc_encode_payload = gset_encode_payload, cc_decode_payload = gset_decode_payload alloc\<rparr>"

definition gset_string_delta_codec :: "allocator \<Rightarrow> string gset crdt_codec" where
  "gset_string_delta_codec alloc = \<lparr>cc_manifest = ''kairo.ddata.gset-string-delta'', cc_version = 1,
     cc_encode_payload = gset_encode_payload, cc_decode_payload = gset_delta_decode_payload alloc\<rparr>"

section \<open>Counters\<close>

definition gcounter_encode_payload :: "gcounter \<Rightarrow> bytes ser_result" where
  "gcounter_encode_payload data =
     (let entries = bt_entries (gc_state data)
      in bind_result (crdt_len_to_u64 (length entries)) (\<lambda>n.
           write_each (\<lambda>(replica, value) w.
             bind_result (write_string (replica_str replica) w) (\<lambda>w. Ok (write_u128 value w))) entries (write_u64 n [])))"

definition gcounter_decode_payload :: "allocator \<Rightarrow> bytes \<Rightarrow> u16 \<Rightarrow> gcounter ser_result" where
  "gcounter_decode_payload alloc payload version =
     bind_result (crdt_ensure_version ''kairo.ddata.gcounter'' version) (\<lambda>_.
     bind_result (read_u64 (reader_new payload)) (\<lambda>(len, r).
     bind_result (crdt_u64_to_len len) (\<lambda>len.
     bind_result (vec_with_capacity alloc ''(ReplicaId, u128)'' len) (\<lambda>_.
     bind_result (read_each (\<lambda>r. bind_result (read_replica r) (\<lambda>(replica, r).
         bind_result (read_u128 r) (\<lambda>(value, r). Ok ((replica, value), r)))) len r) (\<lambda>(state, r).
     bind_result (ensure_finished r) (\<lambda>_. Ok (gc_from_state state)))))))"

definition gcounter_codec :: "allocator \<Rightarrow> gcounter crdt_codec" where
  "gcounter_codec alloc = \<lparr>cc_manifest = ''kairo.ddata.gcounter'', cc_version = 1,
     cc_encode_payload = gcounter_encode_payload, cc_decode_payload = gcounter_decode_payload alloc\<rparr>"

definition pncounter_encode_payload :: "pncounter \<Rightarrow> bytes ser_result" where
  "pncounter_encode_payload data =
     bind_result (gcounter_encode_payload (increments data)) (\<lambda>incs.
     bind_result (gcounter_encode_payload (decrements data)) (\<lambda>decs.
     bind_result (crdt_len_to_u64 (length incs)) (\<lambda>n.
     bind_result (crdt_len_to_u64 (length decs)) (\<lambda>m.
       Ok ((write_u64 m (write_u64 n []) @ incs) @ decs)))))"

definition pncounter_decode_payload :: "allocator \<Rightarrow> bytes \<Rightarrow> u16 \<Rightarrow> pncounter ser_result" where
  "pncounter_decode_payload alloc payload version =
     bind_result (crdt_ensure_version ''kairo.ddata.pncounter'' version) (\<lambda>_.
     bind_result (read_u64 (reader_new payload)) (\<lambda>(n, r).
     bind_result (crdt_u64_to_len n) (\<lambda>increments_len.
     bind_result (read_u64 r) (\<lambda>(m, r).
     bind_result (crdt_u64_to_len m) (\<lambda>decrements_len.
     bind_result (read_exact increments_len r) (\<lambda>(incs, r).
     bind_result (read_exact decrements_len r) (\<lambda>(decs, r).
     bind_result (ensure_finished r) (\<lambda>_.
     bind_result (gcounter_decode_payload alloc incs 1) (\<lambda>i.
     bind_result (gcounter_decode_payload alloc decs 1) (\<lambda>d. Ok (pn_from_counters i d)))))))))))"

definition pncounter_codec :: "allocator \<Rightarrow> pncounter crdt_codec" where
  "pncounter_codec alloc = \<lparr>cc_manifest = ''kairo.ddata.pncounter'', cc_version = 1,
     cc_encode_payload = pncounter_encode_payload, cc_decode_payload = pncounter_decode_payload alloc\<rparr>"

section \<open>Last-writer-wins registers\<close>

definition timestamp_to_wire :: "int \<Rightarrow> u64" where
  "timestamp_to_wire timestamp = word_of_int timestamp"

definition timestamp_from_wire :: "u64 \<Rightarrow> int" where
  "timestamp_from_wire timestamp = sint timestamp"

definition lww_encode_payload :: "string lww_register \<Rightarrow> bytes ser_result" where
  "lww_encode_payload data =
     bind_result (write_string (replica_str (lww_node data)) []) (\<lambda>w.
       write_string (lww_value data) (write_u64 (timestamp_to_wire (lww_timestamp data)) w))"

definition lww_decode_payload :: "bytes \<Rightarrow> u16 \<Rightarrow> string lww_register ser_result" where
  "lww_decode_payload payload version =
     bind_result (crdt_ensure_version ''kairo.ddata.lww-register-string'' version) (\<lambda>_.
     bind_result (read_replica (reader_new payload)) (\<lambda>(node, r).
     bind_result (read_u64 r) (\<lambda>(t, r).
     bind_result (read_string r) (\<lambda>(value, r).
     bind_result (ensure_finished r) (\<lambda>_. Ok (lww_new node value (timestamp_from_wire t)))))))"

definition lww_register_string_codec :: "string lww_register crdt_codec" where
  "lww_register_string_codec = \<lparr>cc_manifest = ''kairo.ddata.lww-register-string'', cc_version = 1,
     cc_encode_payload = lww_encode_payload, cc_decode_payload = lww_decode_payload\<rparr>"

section \<open>Observed-remove sets\<close>

definition write_version_vector :: "version_vector \<Rightarrow> wire_writer \<Rightarrow> wire_writer ser_result" where
  "write_version_vector vv w =
     (let entries = bt_entries vv
      in bind_result (crdt_len_to_u64 (length entries)) (\<lambda>n.
           write_each (\<lambda>(replica, version) w.
             bind_result (write_string (replica_str replica) w) (\<lambda>w. Ok (write_u64 version w))) entries (write_u64 n w)))"

definition read_version_vector :: "version_vector read" where
  "read_version_vector r =
     bind_result (read_u64 r) (\<lambda>(len, r).
     bind_result (read_each (\<lambda>r. bind_result (read_replica r) (\<lambda>(replica, r).
         bind_result (read_u64 r) (\<lambda>(version, r). Ok ((replica, version), r)))) (unat len) r) (\<lambda>(entries, r).
       Ok (bt_collect entries, r)))"

definition orset_encode_payload :: "string orset \<Rightarrow> bytes ser_result" where
  "orset_encode_payload data =
     bind_result (write_version_vector (os_vv data) []) (\<lambda>w.
     let entries = bt_entries (os_elements data)
     in bind_result (crdt_len_to_u64 (length entries)) (\<lambda>n.
          write_each (\<lambda>(element, dots) w.
            bind_result (write_string element w) (write_version_vector dots)) entries (write_u64 n w)))"

definition orset_decode_payload :: "allocator \<Rightarrow> bytes \<Rightarrow> u16 \<Rightarrow> string orset ser_result" where
  "orset_decode_payload alloc payload version =
     bind_result (crdt_ensure_version ''kairo.ddata.orset-string'' version) (\<lambda>_.
     bind_result (read_version_vector (reader_new payload)) (\<lambda>(version_vector, r).
     bind_result (read_u64 r) (\<lambda>(len, r).
     bind_result (crdt_u64_to_len len) (\<lambda>len.
     bind_result (vec_with_capacity alloc ''(String, BTreeMap<ReplicaId, u64>)'' len) (\<lambda>_.
     bind_result (read_each (\<lambda>r. bind_result (read_string r) (\<lambda>(element, r).
         bind_result (read_version_vector r) (\<lambda>(dots, r). Ok ((element, dots), r)))) len r) (\<lambda>(elements, r).
     bind_result (ensure_finished r) (\<lambda>_. Ok (os_from_wire_state elements version_vector))))))))"

definition orset_string_codec :: "allocator \<Rightarrow> string orset crdt_codec" where
  "orset_string_codec alloc = \<lparr>cc_manifest = ''kairo.ddata.orset-string'', cc_version = 1,
     cc_encode_payload = orset_encode_payload, cc_decode_payload = orset_decode_payload alloc\<rparr>"

lemma write_each_cong [fundef_cong]:
  "xs = ys \<Longrightarrow> w = v \<Longrightarrow> (\<And>x u. x \<in> set ys \<Longrightarrow> p x u = q x u) \<Longrightarrow> write_each p xs w = write_each q ys v"
proof (induction xs arbitrary: ys w v)
  case (Cons x xs)
  then show ?case by (cases "q x v") auto
qed simp

fun write_orset_delta :: "string orset_delta \<Rightarrow> wire_writer \<Rightarrow> wire_writer ser_result" where
  "write_orset_delta (AddDelta add) w =
     bind_result (orset_encode_payload add) (\<lambda>payload. write_bytes payload (write_u8 1 w))"
| "write_orset_delta (RemoveDelta remove) w =
     bind_result (write_string (rm_element remove) (write_u8 2 w)) (\<lambda>w.
     bind_result (write_version_vector (rm_seen remove) w) (write_version_vector (rm_dot remove)))"
| "write_orset_delta (GroupDelta ops) w =
     bind_result (crdt_len_to_u64 (length ops)) (\<lambda>n. write_each write_orset_delta ops (write_u64 n (write_u8 3 w)))"

text \<open>Readers with fuel: \<open>None\<close> when it runs out.\<close>

type_synonym 'a fuel_read = "wire_reader \<Rightarrow> ('a \<times> wire_reader) ser_result option"

primrec fuel_read_each :: "'a fuel_read \<Rightarrow> nat \<Rightarrow> 'a list fuel_read" where
  "fuel_read_each g 0 r = Some (Ok ([], r))"
| "fuel_read_each g (Suc n) r =
     (case g r of
        None \<Rightarrow> None
      | Some (Inl e) \<Rightarrow> Some (Err e)
      | Some (Inr (x, r)) \<Rightarrow>
          map_option (\<lambda>res. bind_result res (\<lambda>(xs, r). Ok (x # xs, r))) (fuel_read_each g n r))"

primrec read_orset_delta_fuel :: "allocator \<Rightarrow> nat \<Rightarrow> string orset_delta fuel_read" where
  "read_orset_delta_fuel alloc 0 r = None"
| "read_orset_delta_fuel alloc (Suc fuel) r =
     (case read_u8 r of
        Inl e \<Rightarrow> Some (Err e)
      | Inr (tag, r) \<Rightarrow>
          if tag = 1 then
            Some (bind_result (read_bytes r) (\<lambda>(payload, r).
                  bind_result (orset_decode_payload alloc payload 1) (\<lambda>add. Ok (AddDelta add, r))))
          else if tag = 2 then
            Some (bind_result (read_string r) (\<lambda>(element, r).
                  bind_result (read_version_vector r) (\<lambda>(seen, r).
                  bind_result (read_version_vector r) (\<lambda>(remove_dot, r).
                    Ok (RemoveDelta (ORSetRemoveDelta element seen remove_dot), r)))))
          else if tag = 3 then
            (case bind_result (read_u64 r) (\<lambda>(len, r). bind_result (crdt_u64_to_len len) (\<lambda>len.
                  bind_result (vec_with_capacity alloc ''ORSetDelta<String>'' len) (\<lambda>_. Ok (len, r)))) of
               Inl e \<Rightarrow> Some (Err e)
             | Inr (len, r) \<Rightarrow>
                 map_option (\<lambda>res. bind_result res (\<lambda>(ops, r). Ok (GroupDelta ops, r)))
                   (fuel_read_each (read_orset_delta_fuel alloc fuel) len r))
          else Some (Err (Message (''unknown ORSet delta operation tag '' @ show_nat (unat tag)))))"

definition read_orset_delta :: "allocator \<Rightarrow> string orset_delta read" where
  "read_orset_delta alloc r = the (read_orset_delta_fuel alloc (Suc (remaining_len r)) r)"

definition orset_delta_encode_payload :: "string orset_delta \<Rightarrow> bytes ser_result" where
  "orset_delta_encode_payload data = write_orset_delta data []"

definition orset_delta_decode_payload :: "allocator \<Rightarrow> bytes \<Rightarrow> u16 \<Rightarrow> string orset_delta ser_result" where
  "orset_delta_decode_payload alloc payload version =
     bind_result (crdt_ensure_version ''kairo.ddata.orset-string-delta'' version) (\<lambda>_.
     bind_result (read_orset_delta alloc (reader_new payload)) (\<lambda>(delta, r).
     bind_result (ensure_finished r) (\<lambda>_. Ok delta)))"

definition orset_string_delta_codec :: "allocator \<Rightarrow> string orset_delta crdt_codec" where
  "orset_string_delta_codec alloc = \<lparr>cc_manifest = ''kairo.ddata.orset-string-delta'', cc_version = 1,
     cc_encode_payload = orset_delta_encode_payload, cc_decode_payload = orset_delta_decode_payload alloc\<rparr>"

section \<open>Observed-remove maps of grow-only sets\<close>

type_synonym string_ormap = "(string, string gset, string gset) ormap"
type_synonym string_ormap_delta = "(string, string gset, string gset) ormap_delta"

definition ormap_encode_payload :: "string_ormap \<Rightarrow> bytes ser_result" where
  "ormap_encode_payload data =
     bind_result (orset_encode_payload (om_keys data)) (\<lambda>keys.
     bind_result (write_bytes keys []) (\<lambda>w.
     let entries = bt_entries (om_values data)
     in bind_result (crdt_len_to_u64 (length entries)) (\<lambda>n.
          write_each (\<lambda>(key, value) w.
            bind_result (write_string key w) (\<lambda>w.
            bind_result (gset_encode_payload value) (\<lambda>payload. write_bytes payload w))) entries (write_u64 n w))))"

definition read_gset_entry :: "(bytes \<Rightarrow> u16 \<Rightarrow> string gset ser_result) \<Rightarrow> (string \<times> string gset) read" where
  "read_gset_entry decode r =
     bind_result (read_string r) (\<lambda>(key, r).
     bind_result (read_bytes r) (\<lambda>(payload, r).
     bind_result (decode payload 1) (\<lambda>value. Ok ((key, value), r))))"

definition ormap_decode_payload :: "allocator \<Rightarrow> bytes \<Rightarrow> u16 \<Rightarrow> string_ormap ser_result" where
  "ormap_decode_payload alloc payload version =
     bind_result (crdt_ensure_version ''kairo.ddata.ormap-string-gset'' version) (\<lambda>_.
     bind_result (read_bytes (reader_new payload)) (\<lambda>(payload, r).
     bind_result (orset_decode_payload alloc payload 1) (\<lambda>keys.
     bind_result (read_u64 r) (\<lambda>(len, r).
     bind_result (read_each (read_gset_entry (gset_decode_payload alloc)) (unat len) r) (\<lambda>(values, r).
     bind_result (ensure_finished r) (\<lambda>_. Ok (om_from_wire_state keys (bt_collect values))))))))"

definition ormap_string_gset_codec :: "allocator \<Rightarrow> string_ormap crdt_codec" where
  "ormap_string_gset_codec alloc = \<lparr>cc_manifest = ''kairo.ddata.ormap-string-gset'', cc_version = 1,
     cc_encode_payload = ormap_encode_payload, cc_decode_payload = ormap_decode_payload alloc\<rparr>"

fun write_ormap_delta :: "string_ormap_delta \<Rightarrow> wire_writer \<Rightarrow> wire_writer ser_result" where
  "write_ormap_delta (MPut keys key value) w =
     bind_result (orset_delta_encode_payload keys) (\<lambda>payload.
     bind_result (write_bytes payload (write_u8 1 w)) (\<lambda>w.
     bind_result (write_string key w) (\<lambda>w.
     bind_result (gset_encode_payload value) (\<lambda>payload. write_bytes payload w))))"
| "write_ormap_delta (OR_Map.MUpdate keys values) w =
     bind_result (orset_delta_encode_payload keys) (\<lambda>payload.
     bind_result (write_bytes payload (write_u8 2 w)) (\<lambda>w.
     let entries = bt_entries values
     in bind_result (crdt_len_to_u64 (length entries)) (\<lambda>n.
          write_each (\<lambda>(key, value) w.
            bind_result (write_string key w) (\<lambda>w.
            bind_result (gset_encode_payload value) (\<lambda>payload. write_bytes payload w))) entries (write_u64 n w))))"
| "write_ormap_delta (MRemove keys) w =
     bind_result (orset_delta_encode_payload keys) (\<lambda>payload. write_bytes payload (write_u8 3 w))"
| "write_ormap_delta (MGroup ops) w =
     bind_result (crdt_len_to_u64 (length ops)) (\<lambda>n. write_each write_ormap_delta ops (write_u64 n (write_u8 4 w)))"

definition read_delta_keys :: "allocator \<Rightarrow> string orset_delta read" where
  "read_delta_keys alloc r =
     bind_result (read_bytes r) (\<lambda>(payload, r).
     bind_result (orset_delta_decode_payload alloc payload 1) (\<lambda>keys. Ok (keys, r)))"

primrec read_ormap_delta_fuel :: "allocator \<Rightarrow> nat \<Rightarrow> string_ormap_delta fuel_read" where
  "read_ormap_delta_fuel alloc 0 r = None"
| "read_ormap_delta_fuel alloc (Suc fuel) r =
     (case read_u8 r of
        Inl e \<Rightarrow> Some (Err e)
      | Inr (tag, r) \<Rightarrow>
          if tag = 1 then
            Some (bind_result (read_delta_keys alloc r) (\<lambda>(keys, r).
                  bind_result (read_gset_entry (gset_decode_payload alloc) r) (\<lambda>((key, value), r).
                    Ok (MPut keys key value, r))))
          else if tag = 2 then
            Some (bind_result (read_delta_keys alloc r) (\<lambda>(keys, r).
                  bind_result (read_u64 r) (\<lambda>(len, r).
                  bind_result (read_each (read_gset_entry (gset_delta_decode_payload alloc)) (unat len) r) (\<lambda>(values, r).
                    Ok (OR_Map.MUpdate keys (bt_collect values), r)))))
          else if tag = 3 then
            Some (bind_result (read_delta_keys alloc r) (\<lambda>(keys, r). Ok (MRemove keys, r)))
          else if tag = 4 then
            (case bind_result (read_u64 r) (\<lambda>(len, r). bind_result (crdt_u64_to_len len) (\<lambda>len.
                  bind_result (vec_with_capacity alloc ''ORMapDelta<String, GSet<String>>'' len) (\<lambda>_. Ok (len, r)))) of
               Inl e \<Rightarrow> Some (Err e)
             | Inr (len, r) \<Rightarrow>
                 map_option (\<lambda>res. bind_result res (\<lambda>(ops, r). Ok (MGroup ops, r)))
                   (fuel_read_each (read_ormap_delta_fuel alloc fuel) len r))
          else Some (Err (Message (''unknown ORMap delta operation tag '' @ show_nat (unat tag)))))"

definition read_ormap_delta :: "allocator \<Rightarrow> string_ormap_delta read" where
  "read_ormap_delta alloc r = the (read_ormap_delta_fuel alloc (Suc (remaining_len r)) r)"

definition ormap_delta_encode_payload :: "string_ormap_delta \<Rightarrow> bytes ser_result" where
  "ormap_delta_encode_payload data = write_ormap_delta data []"

definition ormap_delta_decode_payload :: "allocator \<Rightarrow> bytes \<Rightarrow> u16 \<Rightarrow> string_ormap_delta ser_result" where
  "ormap_delta_decode_payload alloc payload version =
     bind_result (crdt_ensure_version ''kairo.ddata.ormap-string-gset-delta'' version) (\<lambda>_.
     bind_result (read_ormap_delta alloc (reader_new payload)) (\<lambda>(delta, r).
     bind_result (ensure_finished r) (\<lambda>_. Ok delta)))"

definition ormap_string_gset_delta_codec :: "allocator \<Rightarrow> string_ormap_delta crdt_codec" where
  "ormap_string_gset_delta_codec alloc = \<lparr>cc_manifest = ''kairo.ddata.ormap-string-gset-delta'', cc_version = 1,
     cc_encode_payload = ormap_delta_encode_payload, cc_decode_payload = ormap_delta_decode_payload alloc\<rparr>"

section \<open>The recursive readers return\<close>

text \<open>A reader that never gives bytes back.\<close>

definition forward :: "'a read \<Rightarrow> bool" where
  "forward g \<longleftrightarrow> (\<forall>r x r'. g r = Ok (x, r') \<longrightarrow> remaining_len r' \<le> remaining_len r)"

definition fuel_forward :: "nat \<Rightarrow> 'a fuel_read \<Rightarrow> bool" where
  "fuel_forward k g \<longleftrightarrow> (\<forall>r. remaining_len r < k \<longrightarrow>
     (\<exists>res. g r = Some res \<and> (\<forall>x r'. res = Ok (x, r') \<longrightarrow> remaining_len r' \<le> remaining_len r)))"

named_theorems forward_intros \<open>readers that never give bytes back\<close>

lemma forward_exact [forward_intros]: "forward (read_exact n)"
  by (auto simp: forward_def read_exact_def remaining_len_def Let_def split: if_splits)

lemma forward_return [forward_intros]: "forward (\<lambda>r. Ok (x, r))" "forward (\<lambda>r. Err e)"
  by (auto simp: forward_def)

lemma forward_bind [forward_intros]:
  assumes "forward g" "\<And>a. forward (k a)"
  shows "forward (\<lambda>r. bind_result (g r) (\<lambda>(a, r). k a r))"
  using assms unfolding forward_def by (fastforce dest: order_trans)

lemma forward_check [forward_intros]:
  assumes "\<And>a. forward (k a)"
  shows "forward (\<lambda>r. bind_result c (\<lambda>a. k a r))"
  using assms by (cases c) (simp_all add: forward_def)

lemma forward_if [forward_intros]: "forward f \<Longrightarrow> forward g \<Longrightarrow> forward (\<lambda>r. if b then f r else g r)"
  by (cases b) simp_all

lemma forward_each [forward_intros]: "forward g \<Longrightarrow> forward (read_each g n)"
proof (induction n)
  case 0
  then show ?case using forward_return(1) by (simp add: forward_def)
next
  case (Suc n)
  then have "forward (\<lambda>r. bind_result (g r) (\<lambda>(x, r). bind_result (read_each g n r) (\<lambda>(xs, r). Ok (x # xs, r))))"
    by (intro forward_intros)
  then show ?case by (simp add: forward_def)
qed

lemma forward_primitives [forward_intros]:
  "forward read_u32" "forward read_u64" "forward read_bytes" "forward read_string" "forward read_replica"
  "forward read_version_vector" "forward (read_delta_keys alloc)" "forward (read_gset_entry decode)"
  unfolding read_u32_def [abs_def] read_u64_def [abs_def] read_bytes_def [abs_def] read_string_def [abs_def]
    read_replica_def [abs_def] read_version_vector_def [abs_def] read_delta_keys_def [abs_def]
    read_gset_entry_def [abs_def]
  by (intro forward_intros)+

lemma fuel_forward_each:
  assumes "fuel_forward k g"
  shows "fuel_forward k (fuel_read_each g n)"
proof (induction n)
  case 0
  show ?case by (simp add: fuel_forward_def)
next
  case (Suc n)
  show ?case
    unfolding fuel_forward_def
  proof (intro allI impI)
    fix r assume r: "remaining_len r < k"
    with assms obtain res where g: "g r = Some res" "\<And>x r'. res = Ok (x, r') \<Longrightarrow> remaining_len r' \<le> remaining_len r"
      unfolding fuel_forward_def by blast
    show "\<exists>res. fuel_read_each g (Suc n) r = Some res \<and> (\<forall>x r'. res = Ok (x, r') \<longrightarrow> remaining_len r' \<le> remaining_len r)"
    proof (cases res)
      case (Inr p)
      obtain x r1 where p: "p = (x, r1)" by fastforce
      with g Inr have le: "remaining_len r1 \<le> remaining_len r" by simp
      with Suc r obtain res' where "fuel_read_each g n r1 = Some res'"
        "\<And>x r'. res' = Ok (x, r') \<Longrightarrow> remaining_len r' \<le> remaining_len r1"
        unfolding fuel_forward_def using order.strict_trans1 by blast
      with g Inr p le show ?thesis by (fastforce dest: order_trans)
    qed (use g in simp)
  qed
qed

lemma read_u8_consumes: "read_u8 r = Ok (t, r') \<Longrightarrow> remaining_len r' < remaining_len r"
  by (auto simp: read_u8_def read_exact_def remaining_len_def Let_def split: if_splits)

lemma read_u64_consumes: "read_u64 r = Ok (n, r') \<Longrightarrow> remaining_len r' + 8 \<le> remaining_len r"
  by (auto simp: read_u64_def read_exact_def remaining_len_def Let_def split: if_splits)

lemma forwardD: "forward g \<Longrightarrow> g r = Ok (x, r') \<Longrightarrow> remaining_len r' \<le> remaining_len r"
  by (simp add: forward_def)

text \<open>
  The shape the two recursive readers share: after a tag, either a plain reader or a counted
  group of recursive reads.
\<close>

lemma fuel_forward_tagged:
  assumes "\<And>r. g r = (case read_u8 r of
        Inl e \<Rightarrow> Some (Err e)
      | Inr (t, r) \<Rightarrow>
          if t = gtag
          then (case bind_result (read_u64 r) (\<lambda>(len, r). bind_result (crdt_u64_to_len len) (\<lambda>len.
                  bind_result (vec_with_capacity alloc element len) (\<lambda>_. Ok (len, r)))) of
                 Inl e \<Rightarrow> Some (Err e)
               | Inr (len, r) \<Rightarrow> map_option (\<lambda>res. bind_result res (\<lambda>(ops, r). Ok (con ops, r))) (fuel_read_each rec len r))
          else Some (plain t r))"
    and "\<And>t. forward (plain t)" "fuel_forward k rec"
  shows "fuel_forward (9 + k) g"
  unfolding fuel_forward_def
proof (intro allI impI)
  fix r assume r: "remaining_len r < 9 + k"
  show "\<exists>res. g r = Some res \<and> (\<forall>x r'. res = Ok (x, r') \<longrightarrow> remaining_len r' \<le> remaining_len r)"
  proof (cases "read_u8 r")
    case (Inr p)
    obtain t r1 where p: "p = (t, r1)" by fastforce
    with Inr have r1: "remaining_len r1 < remaining_len r" by (simp add: read_u8_consumes)
    consider len r2 where "t = gtag" "read_u64 r1 = Ok (len, r2)" "alloc element (unat len)"
      | len r2 where "t = gtag" "read_u64 r1 = Ok (len, r2)" "\<not> alloc element (unat len)"
      | e where "t = gtag" "read_u64 r1 = Err e" | "t \<noteq> gtag"
      by (cases "read_u64 r1") fastforce+
    then show ?thesis
    proof cases
      case 1
      have r2: "remaining_len r2 + 8 \<le> remaining_len r1" by (rule read_u64_consumes [OF 1(2)])
      with r r1 have "remaining_len r2 < k" by linarith
      with fuel_forward_each [OF assms(3), of "unat len"] obtain res where
        res: "fuel_read_each rec (unat len) r2 = Some res" "\<And>x r'. res = Ok (x, r') \<Longrightarrow> remaining_len r' \<le> remaining_len r2"
        unfolding fuel_forward_def by blast
      have "g r = Some (bind_result res (\<lambda>(ops, r). Ok (con ops, r)))"
        using assms(1) [of r] Inr p 1 res(1) by (simp add: crdt_u64_to_len_def vec_with_capacity_def)
      moreover have "remaining_len r' \<le> remaining_len r" if "bind_result res (\<lambda>(ops, r). Ok (con ops, r)) = Ok (x, r')" for x r'
      proof -
        from that obtain ops where "res = Ok (ops, r')" by auto
        from res(2) [OF this] r1 r2 show ?thesis by linarith
      qed
      ultimately show ?thesis by blast
    next
      case 2
      then show ?thesis using assms(1) [of r] Inr p by (simp add: crdt_u64_to_len_def vec_with_capacity_def)
    next
      case 3
      then show ?thesis using assms(1) [of r] Inr p by simp
    next
      case 4
      then have "g r = Some (plain t r1)" using assms(1) [of r] Inr p by simp
      with forwardD [OF assms(2), of t r1] r1 show ?thesis by fastforce
    qed
  qed (use assms(1) in simp)
qed

lemma fuel_forward_0: "fuel_forward 0 g"
  by (simp add: fuel_forward_def)

lemma orset_delta_fuel_forward: "fuel_forward (9 * n) (read_orset_delta_fuel alloc n)"
proof (induction n)
  case (Suc n)
  show ?case
    unfolding mult_Suc_right
    by (rule fuel_forward_tagged [OF _ _ Suc, where alloc = alloc and element = "''ORSetDelta<String>''" and gtag = 3 and con = GroupDelta and plain = "\<lambda>tag r.
          if tag = 1 then bind_result (read_bytes r) (\<lambda>(payload, r).
                  bind_result (orset_decode_payload alloc payload 1) (\<lambda>add. Ok (AddDelta add, r)))
          else if tag = 2 then bind_result (read_string r) (\<lambda>(element, r).
                  bind_result (read_version_vector r) (\<lambda>(seen, r).
                  bind_result (read_version_vector r) (\<lambda>(remove_dot, r).
                    Ok (RemoveDelta (ORSetRemoveDelta element seen remove_dot), r))))
          else Err (Message (''unknown ORSet delta operation tag '' @ show_nat (unat tag)))"])
      (auto split: sum.split intro!: forward_intros)
qed (simp add: fuel_forward_0)

lemma ormap_delta_fuel_forward: "fuel_forward (9 * n) (read_ormap_delta_fuel alloc n)"
proof (induction n)
  case (Suc n)
  show ?case
    unfolding mult_Suc_right
    by (rule fuel_forward_tagged [OF _ _ Suc, where alloc = alloc and element = "''ORMapDelta<String, GSet<String>>''" and gtag = 4 and con = MGroup and plain = "\<lambda>tag r.
          if tag = 1 then bind_result (read_delta_keys alloc r) (\<lambda>(keys, r).
                  bind_result (read_gset_entry (gset_decode_payload alloc) r) (\<lambda>((key, value), r).
                    Ok (MPut keys key value, r)))
          else if tag = 2 then bind_result (read_delta_keys alloc r) (\<lambda>(keys, r).
                  bind_result (read_u64 r) (\<lambda>(len, r).
                  bind_result (read_each (read_gset_entry (gset_delta_decode_payload alloc)) (unat len) r) (\<lambda>(values, r).
                    Ok (OR_Map.MUpdate keys (bt_collect values), r))))
          else if tag = 3 then bind_result (read_delta_keys alloc r) (\<lambda>(keys, r). Ok (MRemove keys, r))
          else Err (Message (''unknown ORMap delta operation tag '' @ show_nat (unat tag)))"])
      (auto split: sum.split prod.split intro!: forward_intros)
qed (simp add: fuel_forward_0)

text \<open>More fuel than is needed changes nothing.\<close>

lemma fuel_read_each_mono:
  assumes "\<And>r x. g r = Some x \<Longrightarrow> h r = Some x" and "fuel_read_each g n r = Some x"
  shows "fuel_read_each h n r = Some x"
  using assms(2)
proof (induction n arbitrary: r x)
  case (Suc n)
  then obtain res where g: "g r = Some res" by (cases "g r") simp_all
  with assms(1) have h: "h r = Some res" by blast
  show ?case
  proof (cases res)
    case (Inr p)
    then show ?thesis using Suc g h by (cases p) (auto split: option.splits)
  qed (use Suc g h in simp)
qed simp

lemma orset_delta_fuel_mono:
  "read_orset_delta_fuel alloc n r = Some x \<Longrightarrow> n \<le> m \<Longrightarrow> read_orset_delta_fuel alloc m r = Some x"
proof (induction n arbitrary: m r x)
  case (Suc n)
  then obtain k where m: "m = Suc k" "n \<le> k" by (cases m) simp_all
  note each = fuel_read_each_mono [of "read_orset_delta_fuel alloc n" "read_orset_delta_fuel alloc k", OF Suc.IH [OF _ m(2)]]
  show ?case
    using Suc.prems(1) m by (auto simp: vec_with_capacity_def split: sum.splits if_splits) (use each in blast)+
qed simp

lemma ormap_delta_fuel_mono:
  "read_ormap_delta_fuel alloc n r = Some x \<Longrightarrow> n \<le> m \<Longrightarrow> read_ormap_delta_fuel alloc m r = Some x"
proof (induction n arbitrary: m r x)
  case (Suc n)
  then obtain k where m: "m = Suc k" "n \<le> k" by (cases m) simp_all
  note each = fuel_read_each_mono [of "read_ormap_delta_fuel alloc n" "read_ormap_delta_fuel alloc k", OF Suc.IH [OF _ m(2)]]
  show ?case
    using Suc.prems(1) m by (auto simp: vec_with_capacity_def split: sum.splits if_splits) (use each in blast)+
qed simp

lemma fuel_forward_returns:
  assumes "fuel_forward (9 * Suc (remaining_len r div 9)) g"
  shows "\<exists>res. g r = Some res"
proof -
  have "remaining_len r < 9 * Suc (remaining_len r div 9)" using dividend_less_times_div [of 9 "remaining_len r"] by simp
  with assms show ?thesis unfolding fuel_forward_def by blast
qed

text \<open>A refused reservation ends the decode and changes nothing else.\<close>

definition refused_or :: "'a ser_result \<Rightarrow> 'a ser_result \<Rightarrow> bool" where
  "refused_or a b \<longleftrightarrow> a = Err CapacityFailure \<or> a = b"

abbreviation unlimited :: allocator where
  "unlimited \<equiv> \<lambda>_ _. True"

named_theorems refused_intros \<open>decoders that differ only when a reservation is refused\<close>

lemma refused_refl [refused_intros]: "refused_or a a"
  by (simp add: refused_or_def)

lemma refused_capacity [refused_intros]: "refused_or (vec_with_capacity alloc e n) (vec_with_capacity unlimited e n)"
  by (simp add: refused_or_def vec_with_capacity_def)

lemma refused_bind [refused_intros]:
  "refused_or a b \<Longrightarrow> (\<And>x. refused_or (k x) (l x)) \<Longrightarrow> refused_or (bind_result a k) (bind_result b l)"
  by (cases b) (auto simp: refused_or_def, blast)

lemma refused_prod [refused_intros]:
  "(\<And>a b. refused_or (k a b) (l a b)) \<Longrightarrow> refused_or (case p of (a, b) \<Rightarrow> k a b) (case p of (a, b) \<Rightarrow> l a b)"
  by (cases p) simp

lemma refused_if [refused_intros]:
  "refused_or a c \<Longrightarrow> refused_or b d \<Longrightarrow> refused_or (if x then a else b) (if x then c else d)"
  by simp

lemma refused_each [refused_intros]:
  "(\<And>r. refused_or (g r) (h r)) \<Longrightarrow> refused_or (read_each g n r) (read_each h n r)"
  by (induction n arbitrary: r) (auto intro!: refused_intros)

lemma refused_payloads [refused_intros]:
  "refused_or (gset_decode_payload alloc payload v) (gset_decode_payload unlimited payload v)"
  "refused_or (gset_delta_decode_payload alloc payload v) (gset_delta_decode_payload unlimited payload v)"
  "refused_or (orset_decode_payload alloc payload v) (orset_decode_payload unlimited payload v)"
  unfolding gset_delta_decode_payload_def gset_decode_payload_def orset_decode_payload_def
  by (intro refused_intros)+

lemma refused_entry [refused_intros]:
  "(\<And>p v. refused_or (d p v) (d' p v)) \<Longrightarrow> refused_or (read_gset_entry d r) (read_gset_entry d' r)"
  unfolding read_gset_entry_def by (intro refused_intros)

definition fuel_refused :: "'a ser_result option \<Rightarrow> 'a ser_result option \<Rightarrow> bool" where
  "fuel_refused a b \<longleftrightarrow> a = Some (Err CapacityFailure) \<or> a = b"

lemma fuel_refused_Some [refused_intros]: "refused_or a b \<Longrightarrow> fuel_refused (Some a) (Some b)"
  by (auto simp: fuel_refused_def refused_or_def)

lemma fuel_refused_if [refused_intros]:
  "fuel_refused a c \<Longrightarrow> fuel_refused b d \<Longrightarrow> fuel_refused (if x then a else b) (if x then c else d)"
  by simp

lemma fuel_refused_map:
  "fuel_refused a b \<Longrightarrow> fuel_refused (map_option (\<lambda>res. bind_result res f) a) (map_option (\<lambda>res. bind_result res f) b)"
  by (auto simp: fuel_refused_def)

lemma fuel_refused_refl: "fuel_refused a a"
  by (simp add: fuel_refused_def)

lemma fuel_refused_each:
  assumes "\<And>r. fuel_refused (g r) (h r)"
  shows "fuel_refused (fuel_read_each g n r) (fuel_read_each h n r)"
proof (induction n arbitrary: r)
  case (Suc n)
  show ?case
  proof (cases "g r = Some (Err CapacityFailure)")
    case False
    with assms [of r] have g: "g r = h r" by (simp add: fuel_refused_def)
    show ?thesis
      by (auto simp: g fuel_refused_refl split: option.split sum.split intro!: fuel_refused_map Suc.IH)
  qed (simp add: fuel_refused_def)
qed (simp add: fuel_refused_def)

lemma fuel_refused_group [refused_intros]:
  assumes "\<And>r. fuel_refused (g r) (h r)" and "refused_or a b"
  shows "fuel_refused
    (case a of Inl e \<Rightarrow> Some (Err e) | Inr (len, r) \<Rightarrow> map_option (\<lambda>res. bind_result res (\<lambda>(ops, r). Ok (con ops, r))) (fuel_read_each g len r))
    (case b of Inl e \<Rightarrow> Some (Err e) | Inr (len, r) \<Rightarrow> map_option (\<lambda>res. bind_result res (\<lambda>(ops, r). Ok (con ops, r))) (fuel_read_each h len r))"
proof -
  from assms(2) consider "a = Err CapacityFailure" | "a = b" by (auto simp: refused_or_def)
  then show ?thesis
  proof cases
    case 2
    then show ?thesis
      by (auto split: sum.split intro!: fuel_refused_map fuel_refused_each assms(1) fuel_refused_refl)
  qed (simp add: fuel_refused_def)
qed

lemma fuel_refused_tag [refused_intros]:
  "(\<And>t r. fuel_refused (k t r) (l t r)) \<Longrightarrow>
     fuel_refused (case x of Inl e \<Rightarrow> Some (Err e) | Inr (t, r) \<Rightarrow> k t r) (case x of Inl e \<Rightarrow> Some (Err e) | Inr (t, r) \<Rightarrow> l t r)"
  by (auto simp: fuel_refused_def split: sum.split)

lemma fuel_refused_the: "fuel_refused a b \<Longrightarrow> refused_or (the a) (the b)"
  by (auto simp: fuel_refused_def refused_or_def)

lemma orset_delta_refused: "fuel_refused (read_orset_delta_fuel alloc n r) (read_orset_delta_fuel unlimited n r)"
proof (induction n arbitrary: r)
  case (Suc n)
  show ?case unfolding read_orset_delta_fuel.simps by (intro refused_intros Suc.IH)
qed (simp add: fuel_refused_def)

lemma refused_delta_keys [refused_intros]: "refused_or (read_delta_keys alloc r) (read_delta_keys unlimited r)"
  unfolding read_delta_keys_def orset_delta_decode_payload_def read_orset_delta_def
  by (intro refused_intros fuel_refused_the orset_delta_refused)

lemma ormap_delta_refused: "fuel_refused (read_ormap_delta_fuel alloc n r) (read_ormap_delta_fuel unlimited n r)"
proof (induction n arbitrary: r)
  case (Suc n)
  show ?case unfolding read_ormap_delta_fuel.simps by (intro refused_intros Suc.IH)
qed (simp add: fuel_refused_def)

text \<open>A group whose count is the largest one, and nothing after it.\<close>

definition huge_group :: "u8 \<Rightarrow> bytes" where
  "huge_group tag = tag # replicate 8 255"

lemma huge_group_read:
  "\<exists>n r1 r2. read_u8 (reader_new (huge_group t)) = Ok (t, r1) \<and> read_u64 r1 = Ok (n, r2) \<and> unat n = 2 ^ 64 - 1 \<and>
     read_u8 r2 = Err (Message ''wire payload ended early'')"
proof -
  have "unat (from_be_bytes (replicate 8 255) :: u64) = 2 ^ 64 - 1" by code_simp
  then show ?thesis
    by (simp add: read_u8_def read_u64_def read_exact_def reader_new_def huge_group_def)
qed

lemma fuel_read_each_Err: "g r = Some (Err e) \<Longrightarrow> 0 < n \<Longrightarrow> fuel_read_each g n r = Some (Err e)"
  by (cases n) simp_all

lemma huge_group_decoded:
  "orset_delta_decode_payload alloc (huge_group 3) 1 =
     (if alloc ''ORSetDelta<String>'' (2 ^ 64 - 1) then Err (Message ''wire payload ended early'') else Err CapacityFailure)"
  "ormap_delta_decode_payload alloc (huge_group 4) 1 =
     (if alloc ''ORMapDelta<String, GSet<String>>'' (2 ^ 64 - 1) then Err (Message ''wire payload ended early'')
      else Err CapacityFailure)"
proof -
  obtain k where len: "\<And>t. remaining_len (reader_new (huge_group t)) = Suc k"
    by (simp add: remaining_len_def reader_new_def huge_group_def)
  obtain n r1 r2 where r: "read_u8 (reader_new (huge_group 3)) = Ok (3, r1)" "read_u64 r1 = Ok (n, r2)" "unat n = 2 ^ 64 - 1"
    "read_u8 r2 = Err (Message ''wire payload ended early'')" using huge_group_read by blast
  then show "orset_delta_decode_payload alloc (huge_group 3) 1 =
     (if alloc ''ORSetDelta<String>'' (2 ^ 64 - 1) then Err (Message ''wire payload ended early'') else Err CapacityFailure)"
    by (simp add: orset_delta_decode_payload_def crdt_ensure_version_def read_orset_delta_def len fuel_read_each_Err
        crdt_u64_to_len_def vec_with_capacity_def)
  obtain n r1 r2 where "read_u8 (reader_new (huge_group 4)) = Ok (4, r1)" "read_u64 r1 = Ok (n, r2)" "unat n = 2 ^ 64 - 1"
    "read_u8 r2 = Err (Message ''wire payload ended early'')" using huge_group_read by blast
  then show "ormap_delta_decode_payload alloc (huge_group 4) 1 =
     (if alloc ''ORMapDelta<String, GSet<String>>'' (2 ^ 64 - 1) then Err (Message ''wire payload ended early'')
      else Err CapacityFailure)"
    by (simp add: ormap_delta_decode_payload_def crdt_ensure_version_def read_ormap_delta_def len fuel_read_each_Err
        crdt_u64_to_len_def vec_with_capacity_def)
qed

text \<open>
  C35: Decoding a delta terminates on every payload, and its recursion is bounded by the payload. The readers of the two
  recursive delta types nest at most one call per nine unread bytes, the tag and the count of a group: with that much fuel,
  plus one for the call itself, it never runs out, for every payload and every allocator. What the allocator decides is
  only whether the decode ends in the panic or abort of a refused reservation: otherwise the answer is the one of
  an allocator that serves every request. A refusal is within reach of nine bytes: a group that announces the largest
  count ends in it unless the allocator serves that count, and then in an ordinary error. The stack
  that the nested calls take is not modelled.
\<close>

theorem delta_readers_terminate:
  "(\<exists>res. read_orset_delta_fuel alloc (Suc (remaining_len r div 9)) r = Some res \<and> read_orset_delta alloc r = res) \<and>
   (\<exists>res. read_ormap_delta_fuel alloc (Suc (remaining_len r div 9)) r = Some res \<and> read_ormap_delta alloc r = res) \<and>
   read_orset_delta alloc r \<in> {Err CapacityFailure, read_orset_delta (\<lambda>_ _. True) r} \<and>
   read_ormap_delta alloc r \<in> {Err CapacityFailure, read_ormap_delta (\<lambda>_ _. True) r} \<and>
   orset_delta_decode_payload alloc (huge_group 3) 1 =
     (if alloc ''ORSetDelta<String>'' (2 ^ 64 - 1) then Err (Message ''wire payload ended early'') else Err CapacityFailure) \<and>
   ormap_delta_decode_payload alloc (huge_group 4) 1 =
     (if alloc ''ORMapDelta<String, GSet<String>>'' (2 ^ 64 - 1) then Err (Message ''wire payload ended early'')
      else Err CapacityFailure)"
proof -
  have d: "remaining_len r div 9 \<le> remaining_len r" by (rule div_le_dividend)
  obtain a where a: "read_orset_delta_fuel alloc (Suc (remaining_len r div 9)) r = Some a"
    using fuel_forward_returns [OF orset_delta_fuel_forward] by blast
  obtain b where b: "read_ormap_delta_fuel alloc (Suc (remaining_len r div 9)) r = Some b"
    using fuel_forward_returns [OF ormap_delta_fuel_forward] by blast
  have "read_orset_delta alloc r = a" "read_ormap_delta alloc r = b"
    using orset_delta_fuel_mono [OF a] ormap_delta_fuel_mono [OF b] d
    by (simp_all only: read_orset_delta_def read_ormap_delta_def Suc_le_mono option.sel)
  moreover have "refused_or (read_orset_delta alloc r) (read_orset_delta unlimited r)"
    "refused_or (read_ormap_delta alloc r) (read_ormap_delta unlimited r)"
    unfolding read_orset_delta_def read_ormap_delta_def
    by (intro fuel_refused_the orset_delta_refused ormap_delta_refused)+
  ultimately show ?thesis
    using a b huge_group_decoded [of alloc] by (auto simp: refused_or_def)
qed

section \<open>Maps and embedded payloads\<close>

lemma bt_collect_entries [simp]: "bt_collect (bt_entries m) = m"
  by (rule fmap_ext) (simp add: map_of_rev_distinct)

lemmas crdt_counted = written_counted [where ?e1.0 = "''CRDT collection length exceeds u64''"
    and ?e2.0 = "''CRDT collection length exceeds usize''", folded crdt_len_to_u64_def crdt_u64_to_len_def]

lemmas crdt_reserved = written_reserved [where ?e1.0 = "''CRDT collection length exceeds u64''"
    and ?e2.0 = "''CRDT collection length exceeds usize''", folded crdt_len_to_u64_def crdt_u64_to_len_def]

lemma crdt_u64_to_len_Ok [simp]: "crdt_u64_to_len n = Ok (unat n)"
  by (simp add: crdt_u64_to_len_def)

lemma written_btmap:
  assumes "wire_written v p g"
  shows "wire_written (\<lambda>m. list_all v (bt_entries m))
     (\<lambda>m w. bind_result (crdt_len_to_u64 (length (bt_entries m))) (\<lambda>n. write_each p (bt_entries m) (write_u64 n w)))
     (\<lambda>r. bind_result (read_u64 r) (\<lambda>(n, r). bind_result (read_each g (unat n) r) (\<lambda>(l, r). Ok (bt_collect l, r))))"
  using written_map [OF crdt_counted [OF assms], where f = bt_entries and h = bt_collect
      and V = "\<lambda>m. list_all v (bt_entries m)"]
  by (simp add: wire_simps split_def)

lemma written_embedded:
  assumes "\<And>x b. V x \<Longrightarrow> enc x = Ok b \<Longrightarrow> length b < 2 ^ 32 \<Longrightarrow> dec b = Ok x"
  shows "wire_written V (\<lambda>x w. bind_result (enc x) (\<lambda>b. write_bytes b w))
     (\<lambda>r. bind_result (read_bytes r) (\<lambda>(b, r). bind_result (dec b) (\<lambda>x. Ok (x, r))))"
proof (unfold_locales, goal_cases)
  case (1 x w)
  show ?case by (cases "enc x") (simp_all add: bytesf.put_append [of _ w, symmetric])
next
  case (2 r x bs rest)
  then obtain b where b: "enc x = Ok b" "write_bytes b [] = Ok bs" by auto
  then have "length b < 2 ^ 32" by (auto simp: write_bytes_def split: if_splits)
  with assms 2 b have "dec b = Ok x" by simp
  with bytesf.put_get [OF 2(1) TrueI b(2) 2(4)] show ?case by simp
qed

section \<open>Round trips of full states\<close>

definition gset_ok :: "allocator \<Rightarrow> string gset \<Rightarrow> bool" where
  "gset_ok alloc s \<longleftrightarrow> alloc ''String'' (length (sorted_list_of_fset (gs_elements s))) \<and> list_all utf8_string (sorted_list_of_fset (gs_elements s)) \<and> gs_delta s = None"

lemma gs_from_elements_sorted: "gs_delta s = None \<Longrightarrow> gs_from_elements (sorted_list_of_fset (gs_elements s)) = s"
  by (cases s) (auto simp: gs_from_elements_def fset_of_list.rep_eq sorted_list_of_fset.rep_eq
      simp flip: fset_inject)

lemma gset_roundtrip:
  assumes "length b < 2 ^ 64" "gset_ok alloc s" "gset_encode_payload s = Ok b"
  shows "gset_decode_payload alloc b 1 = Ok s"
  using wire_written.decode_written [OF written_map [OF crdt_reserved [OF written [OF stringf.wire_field_axioms],
          where alloc = alloc and element = "''String''"], where f = "\<lambda>s. sorted_list_of_fset (gs_elements s)" and h = gs_from_elements and V = "gset_ok alloc"], where b = b and m = s] assms
  by (simp add: gset_ok_def gs_from_elements_sorted gset_encode_payload_def gset_decode_payload_def
      crdt_ensure_version_def Let_def wire_simps split_def)

definition gcounter_ok :: "allocator \<Rightarrow> gcounter \<Rightarrow> bool" where
  "gcounter_ok alloc c \<longleftrightarrow> alloc ''(ReplicaId, u128)'' (length (bt_entries (gc_state c))) \<and> list_all (\<lambda>(r, v). wf_replica r) (bt_entries (gc_state c)) \<and> gc_pos c \<and> gc_delta c = None"

lemma gc_from_state_entries: "gc_pos c \<Longrightarrow> gc_delta c = None \<Longrightarrow> gc_from_state (bt_entries (gc_state c)) = c"
proof (cases c)
  case (GCounter st d)
  assume c: "gc_pos c" "gc_delta c = None"
  have "filter (\<lambda>(_, value). value > 0) (bt_entries st) = bt_entries st"
    using c GCounter by (auto simp: filter_id_conv gc_pos_def fmpred_iff)
  with c GCounter show ?thesis by (simp add: gc_from_state_def)
qed

lemma gcounter_roundtrip:
  assumes "length b < 2 ^ 64" "gcounter_ok alloc c" "gcounter_encode_payload c = Ok b"
  shows "gcounter_decode_payload alloc b 1 = Ok c"
  using wire_written.decode_written [OF written_map [OF crdt_reserved [OF written [OF wire_seq
            [OF replicaf.wire_field_axioms u128f.wire_field_axioms]],
          where alloc = alloc and element = "''(ReplicaId, u128)''"],
        where f = "\<lambda>c. bt_entries (gc_state c)" and h = gc_from_state and V = "gcounter_ok alloc"], where b = b and m = c] assms
  by (simp add: gcounter_ok_def gc_from_state_entries gcounter_encode_payload_def gcounter_decode_payload_def
      crdt_ensure_version_def Let_def wire_simps split_def)

definition pncounter_ok :: "allocator \<Rightarrow> pncounter \<Rightarrow> bool" where
  "pncounter_ok alloc c \<longleftrightarrow> gcounter_ok alloc (increments c) \<and> gcounter_ok alloc (decrements c)"

definition lww_ok :: "string lww_register \<Rightarrow> bool" where
  "lww_ok x \<longleftrightarrow> wf_replica (lww_node x) \<and> utf8_string (lww_value x) \<and> i64_min \<le> lww_timestamp x
     \<and> lww_timestamp x \<le> i64_max \<and> lww_delta x = None"

lemma timestamp_wire: "i64_min \<le> t \<Longrightarrow> t \<le> i64_max \<Longrightarrow> timestamp_from_wire (timestamp_to_wire t) = t"
  by (simp add: timestamp_from_wire_def timestamp_to_wire_def i64_min_def i64_max_def signed_of_int
      signed_take_bit_int_eq_self)

lemma lww_roundtrip:
  assumes "length b < 2 ^ 64" "lww_ok x" "lww_encode_payload x = Ok b"
  shows "lww_decode_payload b 1 = Ok x"
proof -
  have "lww_new (lww_node x) (lww_value x) (timestamp_from_wire (timestamp_to_wire (lww_timestamp x))) = x"
    if "lww_ok x" for x :: "string lww_register"
    using that by (cases x) (simp add: lww_ok_def lww_new_def timestamp_wire)
  then show ?thesis
    using wire_written.decode_written [OF written_map [OF written [OF wire_seq [OF replicaf.wire_field_axioms wire_seq
            [OF u64f.wire_field_axioms stringf.wire_field_axioms]]],
          where f = "\<lambda>x. (lww_node x, timestamp_to_wire (lww_timestamp x), lww_value x)"
            and h = "\<lambda>(n, t, v). lww_new n v (timestamp_from_wire t)" and V = lww_ok], where b = b and m = x] assms
    by (simp add: lww_ok_def lww_encode_payload_def lww_decode_payload_def crdt_ensure_version_def wire_simps split_def)
qed

lemma pncounter_roundtrip:
  assumes "length b < 2 ^ 64" "pncounter_ok alloc c" "pncounter_encode_payload c = Ok b"
  shows "pncounter_decode_payload alloc b 1 = Ok c"
proof -
  from assms(3) obtain incs decs where e: "gcounter_encode_payload (increments c) = Ok incs"
    "gcounter_encode_payload (decrements c) = Ok decs"
    and b: "b = to_be_bytes (of_nat (length incs) :: u64) @ to_be_bytes (of_nat (length decs) :: u64) @ incs @ decs"
    and l: "length incs < 2 ^ 64" "length decs < 2 ^ 64"
    by (auto simp: pncounter_encode_payload_def crdt_len_to_u64_def checked_len_def write_u64_def split: if_splits)
  from l have n: "unat (of_nat (length incs) :: u64) = length incs" "unat (of_nat (length decs) :: u64) = length decs"
    by (simp_all add: unat_of_nat)
  let ?r = "reader_new b"
  have wf: "wf_reader ?r" by (rule wf_reader_new [OF assms(1)])
  have "read_u64 ?r = Ok (of_nat (length incs), advance 8 ?r)"
    using u64f.put_get [OF wf TrueI, of "of_nat (length incs)"] b by (simp add: write_u64_def)
  moreover have "read_u64 (advance 8 ?r) = Ok (of_nat (length decs), advance 16 ?r)"
    using u64f.put_get [OF wf_advance [OF wf] TrueI, of 8 "of_nat (length decs)"] b by (simp add: write_u64_def)
  moreover have "read_exact (length incs) (advance 16 ?r) = Ok (incs, advance (length incs) (advance 16 ?r))"
    "read_exact (length decs) (advance (length incs) (advance 16 ?r)) =
       Ok (decs, advance (length decs) (advance (length incs) (advance 16 ?r)))"
    using b wf by (simp_all add: read_exact_Ok wf_advance)
  moreover have "ensure_finished (advance (length decs) (advance (length incs) (advance 16 ?r))) = Ok ()"
    using b by (simp add: ensure_finished_Ok)
  moreover have "gcounter_decode_payload alloc incs 1 = Ok (increments c)" "gcounter_decode_payload alloc decs 1 = Ok (decrements c)"
    using assms(2) e l gcounter_roundtrip by (auto simp: pncounter_ok_def)
  ultimately show ?thesis
    using n by (simp add: pncounter_decode_payload_def crdt_ensure_version_def pn_from_counters_def)
qed

definition vv_ok :: "version_vector \<Rightarrow> bool" where
  "vv_ok vv \<longleftrightarrow> list_all (\<lambda>(r, v). wf_replica r) (bt_entries vv)"

interpretation vvf: wire_written vv_ok write_version_vector read_version_vector
  using written_btmap [OF written [OF wire_seq [OF replicaf.wire_field_axioms u64f.wire_field_axioms]]]
  by (simp add: vv_ok_def [abs_def] write_version_vector_def [abs_def] read_version_vector_def [abs_def] Let_def
      wire_simps split_def)

definition orset_ok :: "allocator \<Rightarrow> string orset \<Rightarrow> bool" where
  "orset_ok alloc s \<longleftrightarrow> vv_ok (os_vv s) \<and> os_delta s = None \<and>
     alloc ''(String, BTreeMap<ReplicaId, u64>)'' (length (bt_entries (os_elements s))) \<and>
     list_all (\<lambda>(e, dots). utf8_string e \<and> vv_ok dots \<and> dots \<noteq> fmempty) (bt_entries (os_elements s))"

lemma os_from_wire_state_entries:
  assumes "orset_ok alloc s"
  shows "os_from_wire_state (bt_entries (os_elements s)) (os_vv s) = s"
proof (cases s)
  case (ORSet elements vv d)
  with assms have "filter (\<lambda>(_, dots). \<not> bt_is_empty dots) (bt_entries elements) = bt_entries elements"
    by (auto simp: orset_ok_def list_all_iff filter_id_conv)
  with assms ORSet show ?thesis by (simp add: os_from_wire_state_def orset_ok_def)
qed

lemma orset_roundtrip:
  assumes "length b < 2 ^ 64" "orset_ok alloc s" "orset_encode_payload s = Ok b"
  shows "orset_decode_payload alloc b 1 = Ok s"
proof -
  have "list_all (\<lambda>(e, dots). utf8_string e \<and> vv_ok dots) (bt_entries (os_elements s))" if "orset_ok alloc s" for s
    using that by (auto simp: orset_ok_def list_all_iff)
  then show ?thesis
    using wire_written.decode_written [OF written_map [OF written_seq [OF vvf.wire_written_axioms crdt_reserved
            [OF written_seq [OF written [OF stringf.wire_field_axioms] vvf.wire_written_axioms],
             where alloc = alloc and element = "''(String, BTreeMap<ReplicaId, u64>)''"]],
          where f = "\<lambda>s. (os_vv s, bt_entries (os_elements s))" and h = "\<lambda>(vv, es). os_from_wire_state es vv"
            and V = "orset_ok alloc"], where b = b and m = s] assms
    by (simp add: os_from_wire_state_entries orset_encode_payload_def orset_decode_payload_def
        crdt_ensure_version_def Let_def wire_simps split_def) (simp add: orset_ok_def)
qed

lemma written_orset_embedded:
  "wire_written (orset_ok alloc) (\<lambda>s w. bind_result (orset_encode_payload s) (\<lambda>b. write_bytes b w))
     (\<lambda>r. bind_result (read_bytes r) (\<lambda>(b, r). bind_result (orset_decode_payload alloc b 1) (\<lambda>s. Ok (s, r))))"
proof (rule written_embedded)
  fix s b assume "orset_ok alloc s" "orset_encode_payload s = Ok b" "length b < 2 ^ 32"
  then show "orset_decode_payload alloc b 1 = Ok s" using orset_roundtrip [of b alloc s] by simp
qed

definition ormap_ok :: "allocator \<Rightarrow> string_ormap \<Rightarrow> bool" where
  "ormap_ok alloc m \<longleftrightarrow> orset_ok alloc (om_keys m) \<and> om_delta m = None \<and>
     list_all (\<lambda>(k, v). utf8_string k \<and> gset_ok alloc v) (bt_entries (om_values m))"

lemma gset_delta_roundtrip:
  "length b < 2 ^ 64 \<Longrightarrow> gset_ok alloc s \<Longrightarrow> gset_encode_payload s = Ok b \<Longrightarrow> gset_delta_decode_payload alloc b 1 = Ok s"
  by (simp add: gset_delta_decode_payload_def crdt_ensure_version_def gset_roundtrip)

lemma written_gset_entry:
  assumes "\<And>s b. length b < 2 ^ 64 \<Longrightarrow> gset_ok alloc s \<Longrightarrow> gset_encode_payload s = Ok b \<Longrightarrow> decode b 1 = Ok s"
  shows "wire_written (\<lambda>(k, v). utf8_string k \<and> gset_ok alloc v)
     (\<lambda>(key, value) w. bind_result (write_string key w) (\<lambda>w.
        bind_result (gset_encode_payload value) (\<lambda>payload. write_bytes payload w)))
     (read_gset_entry decode)"
proof -
  have "decode b 1 = Ok s" if "gset_ok alloc s" "gset_encode_payload s = Ok b" "length b < 2 ^ 32" for s b
    using assms [of b s] that by simp
  from written_seq [OF written [OF stringf.wire_field_axioms] written_embedded [OF this]]
  show ?thesis by (simp add: read_gset_entry_def [abs_def] wire_simps split_def)
qed

lemma written_gset_full: "wire_written (\<lambda>(k, v). utf8_string k \<and> gset_ok alloc v)
     (\<lambda>(key, value) w. bind_result (write_string key w) (\<lambda>w.
        bind_result (gset_encode_payload value) (\<lambda>payload. write_bytes payload w)))
     (read_gset_entry (gset_decode_payload alloc))"
  by (rule written_gset_entry) (rule gset_roundtrip)

lemma ormap_roundtrip:
  assumes "length b < 2 ^ 64" "ormap_ok alloc m" "ormap_encode_payload m = Ok b"
  shows "ormap_decode_payload alloc b 1 = Ok m"
proof -
  note fields = written_seq [OF written_orset_embedded [of alloc] written_btmap [OF written_gset_full [of alloc]]]
  have "wire_written (ormap_ok alloc)
     (\<lambda>m w. bind_result (orset_encode_payload (om_keys m)) (\<lambda>keys. bind_result (write_bytes keys w) (\<lambda>w.
        bind_result (crdt_len_to_u64 (length (bt_entries (om_values m)))) (\<lambda>n.
          write_each (\<lambda>(key, value) w. bind_result (write_string key w) (\<lambda>w.
            bind_result (gset_encode_payload value) (\<lambda>payload. write_bytes payload w)))
            (bt_entries (om_values m)) (write_u64 n w)))))
     (\<lambda>r. bind_result (read_bytes r) (\<lambda>(payload, r). bind_result (orset_decode_payload alloc payload 1) (\<lambda>keys.
        bind_result (read_u64 r) (\<lambda>(len, r).
        bind_result (read_each (read_gset_entry (gset_decode_payload alloc)) (unat len) r) (\<lambda>(values, r).
          Ok (om_from_wire_state keys (bt_collect values), r))))))"
    using written_map [OF fields, where f = "\<lambda>m. (om_keys m, om_values m)" and h = "\<lambda>(k, v). om_from_wire_state k v"
        and V = "ormap_ok alloc"]
    by (simp add: wire_simps split_def ormap_ok_def om_from_wire_state_def ormap.expand)
  from wire_written.decode_written [OF this assms(1,2)] assms(3) show ?thesis
    by (simp add: ormap_encode_payload_def ormap_decode_payload_def crdt_ensure_version_def Let_def wire_simps split_def)
qed

section \<open>Round trips of deltas\<close>

lemma fuel_read_each_written:
  assumes "\<And>x r bs rest. x \<in> set xs \<Longrightarrow> wf_reader r \<Longrightarrow> p x [] = Ok bs \<Longrightarrow> unread r = bs @ rest \<Longrightarrow>
      length bs \<le> k \<Longrightarrow> g r = Some (Ok (x, advance (length bs) r))"
    and "\<And>x w. x \<in> set xs \<Longrightarrow> p x w = bind_result (p x []) (\<lambda>bs. Ok (w @ bs))"
    and "wf_reader r" "write_each p xs [] = Ok bs" "unread r = bs @ rest" "length bs \<le> k"
  shows "fuel_read_each g (length xs) r = Some (Ok (xs, advance (length bs) r))"
  using assms
proof (induction xs arbitrary: r bs)
  case Nil
  from Nil.prems(4) show ?case by simp
next
  case (Cons x xs)
  from Cons.prems(4) obtain b where b: "p x [] = Ok b" "write_each p xs b = Ok bs" by auto
  have "write_each p xs b = bind_result (write_each p xs []) (\<lambda>bs. Ok (b @ bs))"
    by (rule write_each_append, rule Cons.prems(2)) (rule list.set_intros(2))
  with b obtain bs' where bs': "write_each p xs [] = Ok bs'" "bs = b @ bs'"
    by (cases "write_each p xs []") auto
  have "g r = Some (Ok (x, advance (length b) r))"
    using Cons.prems(3,5,6) b(1) bs'(2) by (intro Cons.prems(1) [where rest = "bs' @ rest"]) simp_all
  moreover have "fuel_read_each g (length xs) (advance (length b) r) = Some (Ok (xs, advance (length bs') (advance (length b) r)))"
  proof (rule Cons.IH [OF Cons.prems(1,2) [OF list.set_intros(2)]])
    show "unread (advance (length b) r) = bs' @ rest" "length bs' \<le> k" "wf_reader (advance (length b) r)"
      using Cons.prems(3,5,6) bs'(2) by (simp_all add: wf_advance)
  qed (use bs'(1) in simp_all)
  ultimately show ?case using bs'(2) by simp
qed

fun orset_delta_ok :: "allocator \<Rightarrow> string orset_delta \<Rightarrow> bool" where
  "orset_delta_ok alloc (AddDelta add) \<longleftrightarrow> orset_ok alloc add"
| "orset_delta_ok alloc (RemoveDelta remove) \<longleftrightarrow>
     utf8_string (rm_element remove) \<and> vv_ok (rm_seen remove) \<and> vv_ok (rm_dot remove)"
| "orset_delta_ok alloc (GroupDelta ops) \<longleftrightarrow> alloc ''ORSetDelta<String>'' (length ops) \<and> list_all (orset_delta_ok alloc) ops"

lemma written_remove:
  "wire_written (\<lambda>d. utf8_string (rm_element d) \<and> vv_ok (rm_seen d) \<and> vv_ok (rm_dot d))
     (\<lambda>d w. bind_result (write_string (rm_element d) w) (\<lambda>w.
        bind_result (write_version_vector (rm_seen d) w) (write_version_vector (rm_dot d))))
     (\<lambda>r. bind_result (read_string r) (\<lambda>(element, r). bind_result (read_version_vector r) (\<lambda>(seen, r).
        bind_result (read_version_vector r) (\<lambda>(dot, r). Ok (ORSetRemoveDelta element seen dot, r)))))"
  using written_map [OF written_seq [OF written [OF stringf.wire_field_axioms] written_seq
        [OF vvf.wire_written_axioms vvf.wire_written_axioms]],
      where f = "\<lambda>d. (rm_element d, rm_seen d, rm_dot d)" and h = "\<lambda>(e, s, d). ORSetRemoveDelta e s d"
        and V = "\<lambda>d. utf8_string (rm_element d) \<and> vv_ok (rm_seen d) \<and> vv_ok (rm_dot d)"]
  by (simp add: wire_simps split_def)

lemma write_orset_delta_append:
  "write_orset_delta d w = bind_result (write_orset_delta d []) (\<lambda>bs. Ok (w @ bs))"
proof (induction d w rule: write_orset_delta.induct)
  case (1 add w)
  show ?case
    using wire_written.put_append [OF written_orset_embedded [of "\<lambda>_ _. True"], of add "w @ [1]"]
      wire_written.put_append [OF written_orset_embedded [of "\<lambda>_ _. True"], of add "[1]"]
    by (cases "orset_encode_payload add") (simp_all add: write_u8_def wire_simps)
next
  case (2 d w)
  show ?case
    using wire_written.put_append [OF written_remove, of d "w @ [2]"]
      wire_written.put_append [OF written_remove, of d "[2]"]
    by (simp add: write_u8_def wire_simps)
next
  case (3 ops w)
  have e: "write_each write_orset_delta ops v = bind_result (write_each write_orset_delta ops []) (\<lambda>bs. Ok (v @ bs))" for v
    by (rule write_each_append) (use 3 in blast)
  show ?case
  proof (cases "crdt_len_to_u64 (length ops)")
    case (Inr n)
    then show ?thesis
      using e [of "w @ 3 # to_be_bytes n"] e [of "3 # to_be_bytes n"]
      by (cases "write_each write_orset_delta ops []") (simp_all add: write_u8_def write_u64_def)
  qed simp
qed

text \<open>A tag in front of a field, and a tag in front of a counted group.\<close>

lemma tag_written:
  assumes "wf_reader r" "unread r = (t # bs) @ rest"
  shows "read_u8 r = Ok (t, advance 1 r)" "wf_reader (advance 1 r)" "unread (advance 1 r) = bs @ rest"
  using assms u8f.put_get [of r t "[t]"] wf_advance [of r 1] by (simp_all add: write_u8_def)

lemma tagged_written:
  assumes "wire_written V p g" "V x" "wf_reader r" "p x (write_u8 t []) = Ok bs" "unread r = bs @ rest"
  shows "bs \<noteq> []" "\<exists>r1. read_u8 r = Ok (t, r1) \<and> g r1 = Ok (x, advance (length bs) r)"
proof -
  from assms(4) obtain cs where cs: "p x [] = Ok cs" "bs = t # cs"
    unfolding wire_written.put_Ok [OF assms(1), of x "write_u8 t []" bs] by (auto simp: write_u8_def)
  note t = tag_written [OF assms(3) assms(5) [unfolded cs(2)]]
  show "bs \<noteq> []" "\<exists>r1. read_u8 r = Ok (t, r1) \<and> g r1 = Ok (x, advance (length bs) r)"
    using wire_written.put_get [OF assms(1) t(2) assms(2) cs(1) t(3)] t(1) cs(2) by simp_all
qed

lemma count_written:
  assumes "wf_reader r" "unread r = to_be_bytes (of_nat n :: u64) @ bs @ rest" "n < 2 ^ 64"
  shows "read_u64 r = Ok (of_nat n, advance 8 r)" "unat (of_nat n :: u64) = n"
    "wf_reader (advance 8 r)" "unread (advance 8 r) = bs @ rest"
  using assms u64f.put_get [of r "of_nat n" "to_be_bytes (of_nat n :: u64)"] wf_advance [of r 8]
  by (simp_all add: write_u64_def unat_of_nat)

lemma group_bytes:
  assumes append: "\<And>x w. p x w = bind_result (p x []) (\<lambda>bs. Ok (w @ bs))"
    and "bind_result (crdt_len_to_u64 (length ops)) (\<lambda>n. write_each p ops (write_u64 n (write_u8 t []))) = Ok bs"
  shows "length ops < 2 ^ 64 \<and>
     (\<exists>cs. write_each p ops [] = Ok cs \<and> bs = t # to_be_bytes (of_nat (length ops) :: u64) @ cs)"
proof -
  let ?n = "to_be_bytes (of_nat (length ops) :: u64)"
  from assms(2) have n: "length ops < 2 ^ 64" and w: "write_each p ops (t # ?n) = Ok bs"
    by (auto simp: crdt_len_to_u64_def checked_len_def write_u64_def write_u8_def split: if_splits)
  have "write_each p ops (t # ?n) = bind_result (write_each p ops []) (\<lambda>bs. Ok ((t # ?n) @ bs))"
    by (rule write_each_append) (rule append)
  with w n show ?thesis by (cases "write_each p ops []") auto
qed

lemma group_written:
  assumes elems: "\<And>x r bs rest. x \<in> set ops \<Longrightarrow> wf_reader r \<Longrightarrow> p x [] = Ok bs \<Longrightarrow> unread r = bs @ rest \<Longrightarrow>
      length bs \<le> k \<Longrightarrow> g r = Some (Ok (x, advance (length bs) r))"
    and append: "\<And>x w. p x w = bind_result (p x []) (\<lambda>bs. Ok (w @ bs))"
    and "wf_reader r" "unread r = bs @ rest" "length bs \<le> Suc k"
    and bs: "bind_result (crdt_len_to_u64 (length ops)) (\<lambda>n. write_each p ops (write_u64 n (write_u8 t []))) = Ok bs"
  shows "\<exists>r1 r2. read_u8 r = Ok (t, r1) \<and> read_u64 r1 = Ok (of_nat (length ops), r2) \<and>
     unat (of_nat (length ops) :: u64) = length ops \<and>
     fuel_read_each g (length ops) r2 = Some (Ok (ops, advance (length bs) r))"
proof -
  let ?n = "to_be_bytes (of_nat (length ops) :: u64)"
  from group_bytes [OF append bs] obtain cs where n: "length ops < 2 ^ 64"
    and cs: "write_each p ops [] = Ok cs" "bs = t # ?n @ cs" by blast
  have u: "unread r = (t # ?n @ cs) @ rest" using assms(4) cs(2) by simp
  note t = tag_written [OF assms(3) u]
  have c: "read_u64 (advance 1 r) = Ok (of_nat (length ops), advance 8 (advance 1 r))"
    "unat (of_nat (length ops) :: u64) = length ops"
    "wf_reader (advance 8 (advance 1 r))" "unread (advance 8 (advance 1 r)) = cs @ rest"
    using count_written [OF t(2) _ n, of cs rest] t(3) by simp_all
  have "fuel_read_each g (length ops) (advance 8 (advance 1 r)) =
      Some (Ok (ops, advance (length cs) (advance 8 (advance 1 r))))"
    by (rule fuel_read_each_written [where p = p and k = k and rest = rest])
      (use c(3,4) cs assms(5) in \<open>simp_all only: elems\<close>, rule append, auto)
  with t(1) c(1,2) cs(2) show ?thesis by auto
qed

lemma orset_delta_read_written:
  assumes "orset_delta_ok alloc d" "wf_reader r" "write_orset_delta d [] = Ok bs" "unread r = bs @ rest" "length bs \<le> fuel"
  shows "read_orset_delta_fuel alloc fuel r = Some (Ok (d, advance (length bs) r))"
  using assms
proof (induction alloc d arbitrary: r bs rest fuel rule: orset_delta_ok.induct)
  case (1 alloc add)
  note t = tagged_written [OF written_orset_embedded [of alloc] _ 1(2) _ 1(4), of add 1]
  obtain k where k: "fuel = Suc k" using t(1) 1 by (cases fuel) auto
  obtain r1 where "read_u8 r = Ok (1, r1)" "bind_result (read_bytes r1) (\<lambda>(b, r).
      bind_result (orset_decode_payload alloc b 1) (\<lambda>s. Ok (s, r))) = Ok (add, advance (length bs) r)"
    using t(2) 1(1,3) by auto
  then show ?case using k by auto
next
  case (2 alloc d)
  note t = tagged_written [OF written_remove _ 2(2) _ 2(4), of d 2]
  obtain k where k: "fuel = Suc k" using t(1) 2 by (cases fuel) auto
  obtain r1 where "read_u8 r = Ok (2, r1)" "bind_result (read_string r1) (\<lambda>(element, r).
      bind_result (read_version_vector r) (\<lambda>(seen, r). bind_result (read_version_vector r) (\<lambda>(dot, r).
        Ok (ORSetRemoveDelta element seen dot, r)))) = Ok (d, advance (length bs) r)"
    using t(2) 2(1,3) by auto
  then show ?case using k by auto
next
  case (3 alloc ops)
  have w: "bind_result (crdt_len_to_u64 (length ops)) (\<lambda>n. write_each write_orset_delta ops (write_u64 n (write_u8 3 []))) = Ok bs"
    using 3(4) by simp
  obtain k where k: "fuel = Suc k"
    using 3(6) group_bytes [OF write_orset_delta_append w] by (cases fuel) auto
  have "\<exists>r1 r2. read_u8 r = Ok (3, r1) \<and> read_u64 r1 = Ok (of_nat (length ops), r2) \<and>
     unat (of_nat (length ops) :: u64) = length ops \<and>
     fuel_read_each (read_orset_delta_fuel alloc k) (length ops) r2 = Some (Ok (ops, advance (length bs) r))"
  proof (rule group_written [OF _ write_orset_delta_append 3(3,5) 3(6) [unfolded k] w])
    fix x r bs rest
    assume "x \<in> set ops" "wf_reader r" "write_orset_delta x [] = Ok bs" "unread r = bs @ rest" "length bs \<le> k"
    then show "read_orset_delta_fuel alloc k r = Some (Ok (x, advance (length bs) r))"
      using 3(1) [of x r bs rest k] 3(2) by (auto simp: list_all_iff)
  qed
  then show ?case using k 3(2) by (auto simp: vec_with_capacity_def)
qed

lemma remaining_len_new [simp]: "remaining_len (reader_new b) = length b"
  by (simp add: remaining_len_def reader_new_def)

lemma orset_delta_roundtrip:
  assumes "length b < 2 ^ 64" "orset_delta_ok alloc d" "orset_delta_encode_payload d = Ok b"
  shows "orset_delta_decode_payload alloc b 1 = Ok d"
proof -
  have "read_orset_delta_fuel alloc (Suc (remaining_len (reader_new b))) (reader_new b) =
      Some (Ok (d, advance (length b) (reader_new b)))"
    using assms by (intro orset_delta_read_written [where rest = "[]"] wf_reader_new)
      (simp_all add: orset_delta_encode_payload_def)
  then show ?thesis
    by (simp add: orset_delta_decode_payload_def crdt_ensure_version_def read_orset_delta_def ensure_finished_Ok)
qed

fun ormap_delta_ok :: "allocator \<Rightarrow> string_ormap_delta \<Rightarrow> bool" where
  "ormap_delta_ok alloc (MPut keys key value) \<longleftrightarrow> orset_delta_ok alloc keys \<and> utf8_string key \<and> gset_ok alloc value"
| "ormap_delta_ok alloc (OR_Map.MUpdate keys values) \<longleftrightarrow>
     orset_delta_ok alloc keys \<and> list_all (\<lambda>(k, v). utf8_string k \<and> gset_ok alloc v) (bt_entries values)"
| "ormap_delta_ok alloc (MRemove keys) \<longleftrightarrow> orset_delta_ok alloc keys"
| "ormap_delta_ok alloc (MGroup ops) \<longleftrightarrow> alloc ''ORMapDelta<String, GSet<String>>'' (length ops) \<and> list_all (ormap_delta_ok alloc) ops"

lemma written_delta_keys:
  "wire_written (orset_delta_ok alloc) (\<lambda>d w. bind_result (orset_delta_encode_payload d) (\<lambda>b. write_bytes b w)) (read_delta_keys alloc)"
  unfolding read_delta_keys_def [abs_def]
proof (rule written_embedded)
  fix d b assume "orset_delta_ok alloc d" "orset_delta_encode_payload d = Ok b" "length b < 2 ^ 32"
  then show "orset_delta_decode_payload alloc b 1 = Ok d" using orset_delta_roundtrip [of b alloc d] by simp
qed

lemma written_gset_delta: "wire_written (\<lambda>(k, v). utf8_string k \<and> gset_ok alloc v)
     (\<lambda>(key, value) w. bind_result (write_string key w) (\<lambda>w.
        bind_result (gset_encode_payload value) (\<lambda>payload. write_bytes payload w)))
     (read_gset_entry (gset_delta_decode_payload alloc))"
  by (rule written_gset_entry) (rule gset_delta_roundtrip)

lemmas written_put = written_seq [OF written_delta_keys [of alloc] written_gset_full [of alloc]] for alloc
lemmas written_update = written_seq [OF written_delta_keys [of alloc] written_btmap [OF written_gset_delta [of alloc]]] for alloc

lemma write_ormap_delta_append:
  "write_ormap_delta d w = bind_result (write_ormap_delta d []) (\<lambda>bs. Ok (w @ bs))"
proof (induction d w rule: write_ormap_delta.induct)
  case (1 keys key v w)
  show ?case
    using wire_written.put_append [OF written_put [of "\<lambda>_ _. True"], of "(keys, key, v)" "w @ [1]"]
      wire_written.put_append [OF written_put [of "\<lambda>_ _. True"], of "(keys, key, v)" "[1]"]
    by (simp add: write_u8_def wire_simps)
next
  case (2 keys vs w)
  show ?case
    using wire_written.put_append [OF written_update [of "\<lambda>_ _. True"], of "(keys, vs)" "w @ [2]"]
      wire_written.put_append [OF written_update [of "\<lambda>_ _. True"], of "(keys, vs)" "[2]"]
    by (simp add: write_u8_def wire_simps Let_def)
next
  case (3 keys w)
  show ?case
    using wire_written.put_append [OF written_delta_keys [of "\<lambda>_ _. True"], of keys "w @ [3]"]
      wire_written.put_append [OF written_delta_keys [of "\<lambda>_ _. True"], of keys "[3]"]
    by (simp add: write_u8_def wire_simps)
next
  case (4 ops w)
  have e: "write_each write_ormap_delta ops v = bind_result (write_each write_ormap_delta ops []) (\<lambda>bs. Ok (v @ bs))" for v
    by (rule write_each_append) (use 4 in blast)
  show ?case
  proof (cases "crdt_len_to_u64 (length ops)")
    case (Inr n)
    then show ?thesis
      using e [of "w @ 4 # to_be_bytes n"] e [of "4 # to_be_bytes n"]
      by (cases "write_each write_ormap_delta ops []") (simp_all add: write_u8_def write_u64_def)
  qed simp
qed

lemma ormap_delta_read_written:
  assumes "ormap_delta_ok alloc d" "wf_reader r" "write_ormap_delta d [] = Ok bs" "unread r = bs @ rest" "length bs \<le> fuel"
  shows "read_ormap_delta_fuel alloc fuel r = Some (Ok (d, advance (length bs) r))"
  using assms
proof (induction alloc d arbitrary: r bs rest fuel rule: ormap_delta_ok.induct)
  case (1 alloc keys key v)
  note t = tagged_written [OF written_put [of alloc] _ 1(2) _ 1(4), of "(keys, key, v)" 1]
  obtain k where k: "fuel = Suc k" using t(1) 1 by (cases fuel) (auto simp: wire_simps)
  obtain r1 where "read_u8 r = Ok (1, r1)" "bind_result (read_delta_keys alloc r1) (\<lambda>(a, r).
      bind_result (read_gset_entry (gset_decode_payload alloc) r) (\<lambda>(b, r). Ok ((a, b), r))) = Ok ((keys, key, v), advance (length bs) r)"
    using t(2) 1(1,3) by (auto simp: wire_simps)
  then show ?case using k by auto
next
  case (2 alloc keys vs)
  note t = tagged_written [OF written_update [of alloc] _ 2(2) _ 2(4), of "(keys, vs)" 2]
  obtain k where k: "fuel = Suc k" using t(1) 2 by (cases fuel) (auto simp: wire_simps Let_def)
  obtain r1 where "read_u8 r = Ok (2, r1)" "bind_result (read_delta_keys alloc r1) (\<lambda>(a, r).
      bind_result (bind_result (read_u64 r) (\<lambda>(n, r). bind_result (read_each (read_gset_entry (gset_delta_decode_payload alloc)) (unat n) r)
        (\<lambda>(l, r). Ok (bt_collect l, r)))) (\<lambda>(b, r). Ok ((a, b), r))) = Ok ((keys, vs), advance (length bs) r)"
    using t(2) 2(1,3) by (auto simp: wire_simps Let_def)
  then show ?case using k by auto
next
  case (3 alloc keys)
  note t = tagged_written [OF written_delta_keys [of alloc] _ 3(2) _ 3(4), of keys 3]
  obtain k where k: "fuel = Suc k" using t(1) 3 by (cases fuel) auto
  obtain r1 where "read_u8 r = Ok (3, r1)" "read_delta_keys alloc r1 = Ok (keys, advance (length bs) r)"
    using t(2) 3(1,3) by auto
  then show ?case using k by auto
next
  case (4 alloc ops)
  have w: "bind_result (crdt_len_to_u64 (length ops)) (\<lambda>n. write_each write_ormap_delta ops (write_u64 n (write_u8 4 []))) = Ok bs"
    using 4(4) by simp
  obtain k where k: "fuel = Suc k"
    using 4(6) group_bytes [OF write_ormap_delta_append w] by (cases fuel) auto
  have "\<exists>r1 r2. read_u8 r = Ok (4, r1) \<and> read_u64 r1 = Ok (of_nat (length ops), r2) \<and>
     unat (of_nat (length ops) :: u64) = length ops \<and>
     fuel_read_each (read_ormap_delta_fuel alloc k) (length ops) r2 = Some (Ok (ops, advance (length bs) r))"
  proof (rule group_written [OF _ write_ormap_delta_append 4(3,5) 4(6) [unfolded k] w])
    fix x r bs rest
    assume "x \<in> set ops" "wf_reader r" "write_ormap_delta x [] = Ok bs" "unread r = bs @ rest" "length bs \<le> k"
    then show "read_ormap_delta_fuel alloc k r = Some (Ok (x, advance (length bs) r))"
      using 4(1) [of x r bs rest k] 4(2) by (auto simp: list_all_iff)
  qed
  then show ?case using k 4(2) by (auto simp: vec_with_capacity_def)
qed

lemma ormap_delta_roundtrip:
  assumes "length b < 2 ^ 64" "ormap_delta_ok alloc d" "ormap_delta_encode_payload d = Ok b"
  shows "ormap_delta_decode_payload alloc b 1 = Ok d"
proof -
  have "read_ormap_delta_fuel alloc (Suc (remaining_len (reader_new b))) (reader_new b) =
      Some (Ok (d, advance (length b) (reader_new b)))"
    using assms by (intro ormap_delta_read_written [where rest = "[]"] wf_reader_new)
      (simp_all add: ormap_delta_encode_payload_def)
  then show ?thesis
    by (simp add: ormap_delta_decode_payload_def crdt_ensure_version_def read_ormap_delta_def ensure_finished_Ok)
qed

section \<open>The contract of \<open>CrdtDataCodec\<close>\<close>

locale crdt_data_codec =
  fixes codec :: "'d crdt_codec" and valid :: "'d \<Rightarrow> bool"
  assumes decode_encode: "length b < 2 ^ 64 \<Longrightarrow> valid d \<Longrightarrow> cc_encode_payload codec d = Ok b \<Longrightarrow>
      cc_decode_payload codec b (cc_version codec) = Ok d"
begin

lemma deserialize_serialize:
  "valid d \<Longrightarrow> cc_serialize codec d = Ok s \<Longrightarrow> length (sc_payload s) < 2 ^ 64 \<Longrightarrow> cc_deserialize codec s = Ok d"
  by (auto simp: cc_serialize_def cc_deserialize_def decode_encode)

lemma serialized_metadata: "cc_serialize codec d = Ok s \<Longrightarrow> sc_manifest s = cc_manifest codec \<and> sc_version s = cc_version codec"
  by (auto simp: cc_serialize_def)

end

interpretation gset_cc: crdt_data_codec "gset_string_codec alloc" "gset_ok alloc" for alloc
  by unfold_locales (simp add: gset_string_codec_def gset_roundtrip)

interpretation gset_delta_cc: crdt_data_codec "gset_string_delta_codec alloc" "gset_ok alloc" for alloc
  by unfold_locales (simp add: gset_string_delta_codec_def gset_delta_roundtrip)

interpretation gcounter_cc: crdt_data_codec "gcounter_codec alloc" "gcounter_ok alloc" for alloc
  by unfold_locales (simp add: gcounter_codec_def gcounter_roundtrip)

interpretation pncounter_cc: crdt_data_codec "pncounter_codec alloc" "pncounter_ok alloc" for alloc
  by unfold_locales (simp add: pncounter_codec_def pncounter_roundtrip)

interpretation lww_cc: crdt_data_codec lww_register_string_codec lww_ok
  by unfold_locales (simp add: lww_register_string_codec_def lww_roundtrip)

interpretation orset_cc: crdt_data_codec "orset_string_codec alloc" "orset_ok alloc" for alloc
  by unfold_locales (simp add: orset_string_codec_def orset_roundtrip)

interpretation orset_delta_cc: crdt_data_codec "orset_string_delta_codec alloc" "orset_delta_ok alloc" for alloc
  by unfold_locales (simp add: orset_string_delta_codec_def orset_delta_roundtrip)

interpretation ormap_cc: crdt_data_codec "ormap_string_gset_codec alloc" "ormap_ok alloc" for alloc
  by unfold_locales (simp add: ormap_string_gset_codec_def ormap_roundtrip)

interpretation ormap_delta_cc: crdt_data_codec "ormap_string_gset_delta_codec alloc" "ormap_delta_ok alloc" for alloc
  by unfold_locales (simp add: ormap_string_gset_delta_codec_def ormap_delta_roundtrip)

definition codec_roundtrips :: "'d crdt_codec \<Rightarrow> ('d \<Rightarrow> bool) \<Rightarrow> bool" where
  "codec_roundtrips codec valid \<longleftrightarrow>
     (\<forall>d s. valid d \<longrightarrow> cc_serialize codec d = Ok s \<longrightarrow> length (sc_payload s) < 2 ^ 64 \<longrightarrow> cc_deserialize codec s = Ok d)"

text \<open>
  C36: Every built-in payload codec reads back what it writes. Data whose strings are UTF-8, whose
  invariant holds (positive components, nonempty dots, timestamps in range), that carries no pending delta and whose
  vectors the allocator serves is recovered exactly, for the full states and for the deltas, nested groups included.
\<close>

theorem crdt_codecs_roundtrip:
  "codec_roundtrips (gset_string_codec alloc) (gset_ok alloc) \<and> codec_roundtrips (gset_string_delta_codec alloc) (gset_ok alloc) \<and>
   codec_roundtrips (gcounter_codec alloc) (gcounter_ok alloc) \<and> codec_roundtrips (pncounter_codec alloc) (pncounter_ok alloc) \<and>
   codec_roundtrips lww_register_string_codec lww_ok \<and> codec_roundtrips (orset_string_codec alloc) (orset_ok alloc) \<and>
   codec_roundtrips (orset_string_delta_codec alloc) (orset_delta_ok alloc) \<and>
   codec_roundtrips (ormap_string_gset_codec alloc) (ormap_ok alloc) \<and> codec_roundtrips (ormap_string_gset_delta_codec alloc) (ormap_delta_ok alloc)"
  unfolding codec_roundtrips_def
  by (intro conjI allI impI;
      rule gset_cc.deserialize_serialize gset_delta_cc.deserialize_serialize gcounter_cc.deserialize_serialize
        pncounter_cc.deserialize_serialize lww_cc.deserialize_serialize orset_cc.deserialize_serialize
        orset_delta_cc.deserialize_serialize ormap_cc.deserialize_serialize ormap_delta_cc.deserialize_serialize;
      assumption)

end
