(* ===== verification/Delta_Receive.thy ===== *)
theory Delta_Receive
  imports Delta_Log Crdt_Codec
begin

text \<open>
  The receiving side of delta propagation: \<open>delta_receive.rs\<close>, and the conversions between typed values and wire
  records of \<open>delta_wire.rs\<close> and \<open>aggregation_wire.rs\<close>, all in \<open>kairo-distributed-data/src\<close>.
  Each range that is applied reads the wall clock, so the clock is a function of the position of the range in
  its message. The error text of a range that cannot be decoded is kept as the error value. A codec is a record of
  functions here: an error it returns is handled, so these definitions are for codecs whose reservations are served
  (\<open>vec_with_capacity\<close>), since a refused one would end the process instead of being handled.

  The lemmas show that the conversions lose nothing, and follow a delta log and a tracker connected by a channel: what keeps
  them in step, and what happens once they are not.
\<close>

section \<open>Pruning tables and envelopes on the wire\<close>

definition encode_pruning_state :: "pruning_state \<Rightarrow> wire_pruning_state" where
  "encode_pruning_state state =
     (case state of
        Initialized initialized \<Rightarrow> WInitialized (pi_owner initialized) (sorted_list_of_fset (pi_seen initialized))
      | Performed performed \<Rightarrow> WPerformed (pp_obsolete_at_millis performed))"

definition encode_pruning_table :: "pruning_table \<Rightarrow> replicator_pruning_entry list" where
  "encode_pruning_table pruning =
     map (\<lambda>(removed, state). \<lparr>rpe_removed = removed, rpe_state = encode_pruning_state state\<rparr>) (bt_entries (pt_states pruning))"

definition decode_pruning_entry :: "pruning_table \<Rightarrow> replicator_pruning_entry \<Rightarrow> pruning_table ser_result" where
  "decode_pruning_entry pruning entry =
     (if pt_get pruning (rpe_removed entry) \<noteq> None
      then Err (Message (''duplicate pruning entry for removed replica '' @ replica_str (rpe_removed entry)))
      else Ok (case rpe_state entry of
          WInitialized owner seen \<Rightarrow>
            fold (\<lambda>seen_by pruning. fst (pt_mark_seen pruning (rpe_removed entry) seen_by)) seen
              (fst (pt_initialize pruning (rpe_removed entry) owner))
        | WPerformed obsolete_at_millis \<Rightarrow> fst (pt_mark_performed pruning (rpe_removed entry) obsolete_at_millis)))"

primrec decode_pruning_entries :: "replicator_pruning_entry list \<Rightarrow> pruning_table \<Rightarrow> pruning_table ser_result" where
  "decode_pruning_entries [] pruning = Ok pruning"
| "decode_pruning_entries (entry # entries) pruning =
     bind_result (decode_pruning_entry pruning entry) (decode_pruning_entries entries)"

definition decode_pruning_table :: "replicator_pruning_entry list \<Rightarrow> pruning_table ser_result" where
  "decode_pruning_table entries = decode_pruning_entries entries pt_new"

definition encode_data_envelope :: "'v crdt_codec \<Rightarrow> 'v data_envelope \<Rightarrow> replicator_data_envelope ser_result" where
  "encode_data_envelope codec envelope =
     bind_result (cc_serialize codec (de_data envelope)) (\<lambda>data.
       Ok \<lparr>rde_crdt_manifest = sc_manifest data, rde_crdt_version = sc_version data, rde_payload = sc_payload data,
           rde_pruning = encode_pruning_table (de_pruning envelope)\<rparr>)"

definition expected_crdt_manifest :: "'v crdt_codec \<Rightarrow> string \<Rightarrow> serialization_error" where
  "expected_crdt_manifest codec manifest =
     Message (''expected CRDT manifest '' @ cc_manifest codec @ '', got '' @ manifest)"

definition decode_data_envelope :: "'v crdt_codec \<Rightarrow> replicator_data_envelope \<Rightarrow> 'v data_envelope ser_result" where
  "decode_data_envelope codec envelope =
     (if rde_crdt_manifest envelope \<noteq> cc_manifest codec
      then Err (expected_crdt_manifest codec (rde_crdt_manifest envelope))
      else bind_result (decode_pruning_table (rde_pruning envelope)) (\<lambda>pruning.
           bind_result (cc_decode_payload codec (rde_payload envelope) (rde_crdt_version envelope)) (\<lambda>data.
             Ok \<lparr>de_data = data, de_pruning = pruning\<rparr>)))"

definition encode_write ::
  "'v crdt_codec \<Rightarrow> replicator_key \<Rightarrow> replica_id option \<Rightarrow> 'v data_envelope \<Rightarrow> replicator_write ser_result" where
  "encode_write codec key from envelope =
     bind_result (encode_data_envelope codec envelope) (\<lambda>envelope.
       Ok \<lparr>rwr_key = key_str key, rwr_from = from, rwr_envelope = envelope\<rparr>)"

definition encode_read :: "replicator_key \<Rightarrow> replica_id option \<Rightarrow> replicator_read" where
  "encode_read key from = \<lparr>rrd_key = key_str key, rrd_from = from\<rparr>"

definition encode_read_result :: "'v crdt_codec \<Rightarrow> 'v data_envelope option \<Rightarrow> replicator_read_result ser_result" where
  "encode_read_result codec envelope =
     (case envelope of
        None \<Rightarrow> Ok \<lparr>rrr_envelope = None\<rparr>
      | Some envelope \<Rightarrow> bind_result (encode_data_envelope codec envelope) (\<lambda>w. Ok \<lparr>rrr_envelope = Some w\<rparr>))"

definition decode_read_result :: "'v crdt_codec \<Rightarrow> replicator_read_result \<Rightarrow> 'v data_envelope option ser_result" where
  "decode_read_result codec result =
     (case rrr_envelope result of
        None \<Rightarrow> Ok None
      | Some envelope \<Rightarrow> bind_result (decode_data_envelope codec envelope) (\<lambda>envelope. Ok (Some envelope)))"

section \<open>Deltas on the wire\<close>

record 'd decoded_replicator_delta =
  drd_key :: replicator_key
  drd_delta :: 'd
  drd_pruning :: pruning_table
  drd_from_version :: u64
  drd_to_version :: u64

definition encode_delta ::
  "'d crdt_codec \<Rightarrow> replicator_key \<times> 'd delta_propagation_entry \<Rightarrow> replicator_delta ser_result" where
  "encode_delta codec = (\<lambda>(key, entry).
     bind_result (cc_serialize codec (pe_delta entry)) (\<lambda>encoded.
       Ok \<lparr>rdl_key = key_str key, rdl_crdt_manifest = sc_manifest encoded, rdl_crdt_version = sc_version encoded,
           rdl_payload = sc_payload encoded, rdl_pruning = encode_pruning_table (pe_pruning entry),
           rdl_from_version = pe_from_version entry, rdl_to_version = pe_to_version entry\<rparr>))"

definition encode_delta_propagation ::
  "'d crdt_codec \<Rightarrow> replica_id \<Rightarrow> bool \<Rightarrow> 'd delta_propagation \<Rightarrow> replicator_delta_propagation ser_result" where
  "encode_delta_propagation codec from reply propagation =
     bind_result (collect_results (encode_delta codec) (bt_entries (dp_entries propagation))) (\<lambda>deltas.
       Ok \<lparr>rdp_from = from, rdp_reply = reply, rdp_deltas = deltas\<rparr>)"

definition decode_delta :: "'d crdt_codec \<Rightarrow> replicator_delta \<Rightarrow> 'd decoded_replicator_delta ser_result" where
  "decode_delta codec delta =
     (if rdl_crdt_manifest delta \<noteq> cc_manifest codec
      then Err (expected_crdt_manifest codec (rdl_crdt_manifest delta))
      else bind_result (decode_pruning_table (rdl_pruning delta)) (\<lambda>pruning.
           bind_result (cc_decode_payload codec (rdl_payload delta) (rdl_crdt_version delta)) (\<lambda>payload.
             Ok \<lparr>drd_key = ReplicatorKey (rdl_key delta), drd_delta = payload, drd_pruning = pruning,
                 drd_from_version = rdl_from_version delta, drd_to_version = rdl_to_version delta\<rparr>)))"

definition decode_delta_propagation ::
  "'d crdt_codec \<Rightarrow> replicator_delta_propagation \<Rightarrow> 'd decoded_replicator_delta list ser_result" where
  "decode_delta_propagation codec propagation = collect_results (decode_delta codec) (rdp_deltas propagation)"

section \<open>Receiving\<close>

datatype delta_receive_status =
    Applied replica_id replicator_key u64 u64 bool
  | AlreadyHandled replica_id replicator_key u64 u64
  | Missing replica_id replicator_key u64 u64 u64 u64
  | InvalidRange replica_id replicator_key u64 u64

datatype delta_receive_failure = DecodeFailed string serialization_error

datatype delta_receive_reply = ReplyAck | ReplyNack

record delta_receive_report =
  drr_from :: replica_id
  drr_reply_requested :: bool
  drr_ignored_removed_source :: bool
  drr_statuses :: "delta_receive_status list"
  drr_failures :: "delta_receive_failure list"

definition drr_is_success :: "delta_receive_report \<Rightarrow> bool" where
  "drr_is_success report \<longleftrightarrow> \<not> drr_ignored_removed_source report \<and> drr_failures report = [] \<and>
     list_all (\<lambda>status. case status of
        Applied _ _ _ _ _ \<Rightarrow> True | AlreadyHandled _ _ _ _ \<Rightarrow> True
      | Missing _ _ _ _ _ _ \<Rightarrow> False | InvalidRange _ _ _ _ \<Rightarrow> False) (drr_statuses report)"

definition drr_reply :: "delta_receive_report \<Rightarrow> delta_receive_reply option" where
  "drr_reply report =
     (if \<not> drr_reply_requested report \<or> drr_ignored_removed_source report then None
      else if drr_is_success report then Some ReplyAck else Some ReplyNack)"

definition drr_ignored :: "replica_id \<Rightarrow> bool \<Rightarrow> delta_receive_report" where
  "drr_ignored from reply_requested = \<lparr>drr_from = from, drr_reply_requested = reply_requested,
     drr_ignored_removed_source = True, drr_statuses = [], drr_failures = []\<rparr>"

record delta_receive_tracker =
  tr_versions :: "(replica_id \<times> replicator_key, u64) fmap"

definition tr_new :: delta_receive_tracker where
  "tr_new = \<lparr>tr_versions = fmempty\<rparr>"

definition tr_current_version :: "delta_receive_tracker \<Rightarrow> replica_id \<Rightarrow> replicator_key \<Rightarrow> u64" where
  "tr_current_version tracker from key = unwrap_or (fmlookup (tr_versions tracker) (from, key)) 0"

definition tr_clear_from :: "delta_receive_tracker \<Rightarrow> replica_id \<Rightarrow> delta_receive_tracker" where
  "tr_clear_from tracker from = \<lparr>tr_versions = fmfilter (\<lambda>(node, _). node \<noteq> from) (tr_versions tracker)\<rparr>"

definition tr_forget_key :: "delta_receive_tracker \<Rightarrow> replicator_key \<Rightarrow> delta_receive_tracker" where
  "tr_forget_key tracker key = \<lparr>tr_versions = fmfilter (\<lambda>(_, existing_key). existing_key \<noteq> key) (tr_versions tracker)\<rparr>"

definition tr_apply_delta_pruned ::
  "('v, 'd, 'x) value_ops_scheme \<Rightarrow> u64 \<Rightarrow> delta_receive_tracker \<Rightarrow> 'v replicator_state \<Rightarrow> replica_id \<Rightarrow> replicator_key
     \<Rightarrow> u64 \<Rightarrow> u64 \<Rightarrow> 'd \<Rightarrow> pruning_table \<Rightarrow> replica_id option
     \<Rightarrow> delta_receive_tracker \<times> 'v replicator_state \<times> delta_receive_status" where
  "tr_apply_delta_pruned V wall_millis tracker state from key from_version to_version delta pruning seen_by =
     (if from_version = 0 \<or> to_version < from_version
      then (tracker, state, InvalidRange from key from_version to_version)
      else
        let previous_version = tr_current_version tracker from key
        in if to_version \<le> previous_version
           then (tracker, state, AlreadyHandled from key previous_version to_version)
           else
             let expected_from_version = previous_version + 1
             in if expected_from_version < from_version
                then (tracker, state, Missing from key previous_version expected_from_version from_version to_version)
                else
                  let (state, merged) = rs_write_delta_pruned V state key delta pruning wall_millis;
                      (state, seen_changed) = (case seen_by of
                          Some seen_by \<Rightarrow> rs_mark_key_pruning_seen state key seen_by
                        | None \<Rightarrow> (state, False))
                  in (\<lparr>tr_versions = fmupd (from, key) to_version (tr_versions tracker)\<rparr>, state,
                      Applied from key previous_version to_version (merged \<or> seen_changed)))"

definition tr_apply_delta ::
  "('v, 'd, 'x) value_ops_scheme \<Rightarrow> delta_receive_tracker \<Rightarrow> 'v replicator_state \<Rightarrow> replica_id \<Rightarrow> replicator_key
     \<Rightarrow> u64 \<Rightarrow> u64 \<Rightarrow> 'd \<Rightarrow> delta_receive_tracker \<times> 'v replicator_state \<times> delta_receive_status" where
  "tr_apply_delta V tracker state from key from_version to_version delta =
     (if from_version = 0 \<or> to_version < from_version
      then (tracker, state, InvalidRange from key from_version to_version)
      else
        let previous_version = tr_current_version tracker from key
        in if to_version \<le> previous_version
           then (tracker, state, AlreadyHandled from key previous_version to_version)
           else
             let expected_from_version = previous_version + 1
             in if expected_from_version < from_version
                then (tracker, state, Missing from key previous_version expected_from_version from_version to_version)
                else
                  let (state, changed) = rs_write_delta V state key delta
                  in (\<lparr>tr_versions = fmupd (from, key) to_version (tr_versions tracker)\<rparr>, state,
                      Applied from key previous_version to_version changed))"

text \<open>The loop over the ranges of a message; \<open>i\<close> is the position of the first of them.\<close>

primrec tr_apply_ranges ::
  "('v, 'd, 'x) value_ops_scheme \<Rightarrow> 'd crdt_codec \<Rightarrow> (nat \<Rightarrow> u64) \<Rightarrow> replica_id \<Rightarrow> replica_id option
     \<Rightarrow> replicator_delta list \<Rightarrow> nat \<Rightarrow> delta_receive_tracker \<Rightarrow> 'v replicator_state
     \<Rightarrow> delta_receive_tracker \<times> 'v replicator_state \<times> delta_receive_status list \<times> delta_receive_failure list" where
  "tr_apply_ranges V codec clock from seen_by [] i tracker state = (tracker, state, [], [])"
| "tr_apply_ranges V codec clock from seen_by (delta # deltas) i tracker state =
     (case decode_delta codec delta of
        Ok decoded \<Rightarrow>
          let (tracker, state, status) = tr_apply_delta_pruned V (clock i) tracker state from (drd_key decoded)
                (drd_from_version decoded) (drd_to_version decoded) (drd_delta decoded) (drd_pruning decoded) seen_by;
              (tracker, state, statuses, failures) = tr_apply_ranges V codec clock from seen_by deltas (i + 1) tracker state
          in (tracker, state, status # statuses, failures)
      | Err error \<Rightarrow>
          let (tracker, state, statuses, failures) = tr_apply_ranges V codec clock from seen_by deltas (i + 1) tracker state
          in (tracker, state, statuses, DecodeFailed (rdl_key delta) error # failures))"

definition tr_apply_propagation_inner ::
  "('v, 'd, 'x) value_ops_scheme \<Rightarrow> 'd crdt_codec \<Rightarrow> (nat \<Rightarrow> u64) \<Rightarrow> delta_receive_tracker \<Rightarrow> 'v replicator_state
     \<Rightarrow> replicator_delta_propagation \<Rightarrow> replica_id option
     \<Rightarrow> delta_receive_tracker \<times> 'v replicator_state \<times> delta_receive_report" where
  "tr_apply_propagation_inner V codec clock tracker state propagation seen_by =
     (let (tracker, state, statuses, failures) =
            tr_apply_ranges V codec clock (rdp_from propagation) seen_by (rdp_deltas propagation) 0 tracker state
      in (tracker, state, \<lparr>drr_from = rdp_from propagation, drr_reply_requested = rdp_reply propagation,
            drr_ignored_removed_source = False, drr_statuses = statuses, drr_failures = failures\<rparr>))"

section \<open>Nothing is lost on the wire\<close>

definition decode_pruning_state :: "wire_pruning_state \<Rightarrow> pruning_state" where
  "decode_pruning_state state =
     (case state of
        WInitialized owner seen \<Rightarrow> Initialized \<lparr>pi_owner = owner, pi_seen = fset_of_list seen |-| {|owner|}\<rparr>
      | WPerformed obsolete_at_millis \<Rightarrow> ps_performed obsolete_at_millis)"

text \<open>The owner counts as having seen its marker and is never listed.\<close>

definition pruning_table_ok :: "pruning_table \<Rightarrow> bool" where
  "pruning_table_ok t \<longleftrightarrow> (\<forall>r i. pt_get t r = Some (Initialized i) \<longrightarrow> pi_owner i |\<notin>| pi_seen i)"

lemma fold_add_seen:
  "fold (\<lambda>n s. ps_add_seen s n) ns (Initialized i) =
     Initialized \<lparr>pi_owner = pi_owner i, pi_seen = pi_seen i |\<union>| (fset_of_list ns |-| {|pi_owner i|})\<rparr>"
proof (induction ns arbitrary: i)
  case (Cons n ns)
  then show ?case by (auto simp: ps_add_seen_def pi_add_seen_def)
qed simp

lemma pt_get_fold_mark_seen:
  "pt_get (fold (\<lambda>n t. fst (pt_mark_seen t q n)) ns t) r =
     (if r = q then map_option (fold (\<lambda>n s. ps_add_seen s n) ns) (pt_get t r) else pt_get t r)"
  by (induction ns arbitrary: t) (auto simp: option.map_comp o_def option.map_id)

lemma decode_pruning_entry_Ok:
  assumes "pt_get t (rpe_removed e) = None"
  obtains t' where "decode_pruning_entry t e = Ok t'"
    and "\<And>r. pt_get t' r = (if r = rpe_removed e then Some (decode_pruning_state (rpe_state e)) else pt_get t r)"
proof (rule that)
  let ?t = "case rpe_state e of
          WInitialized owner seen \<Rightarrow>
            fold (\<lambda>seen_by pruning. fst (pt_mark_seen pruning (rpe_removed e) seen_by)) seen
              (fst (pt_initialize t (rpe_removed e) owner))
        | WPerformed obsolete_at_millis \<Rightarrow> fst (pt_mark_performed t (rpe_removed e) obsolete_at_millis)"
  show "decode_pruning_entry t e = Ok ?t" using assms by (simp add: decode_pruning_entry_def)
  show "pt_get ?t r = (if r = rpe_removed e then Some (decode_pruning_state (rpe_state e)) else pt_get t r)" for r
    by (simp add: decode_pruning_state_def pt_get_fold_mark_seen fold_add_seen ps_initialized_def pi_new_def
        split: wire_pruning_state.split)
qed

lemma decode_pruning_entries_Ok:
  assumes "distinct (map rpe_removed es)" and "\<forall>e \<in> set es. pt_get t (rpe_removed e) = None"
  shows "\<exists>t'. decode_pruning_entries es t = Ok t' \<and>
    (\<forall>r. pt_get t' r = (case map_of (map (\<lambda>e. (rpe_removed e, decode_pruning_state (rpe_state e))) es) r of
       Some s \<Rightarrow> Some s | None \<Rightarrow> pt_get t r))"
  using assms
proof (induction es arbitrary: t)
  case (Cons e es)
  obtain t1 where t1: "decode_pruning_entry t e = Ok t1"
    "\<And>r. pt_get t1 r = (if r = rpe_removed e then Some (decode_pruning_state (rpe_state e)) else pt_get t r)"
    using Cons.prems by (elim decode_pruning_entry_Ok [rotated]) auto
  have "rpe_removed e' \<noteq> rpe_removed e" if "e' \<in> set es" for e'
    using Cons.prems(1) imageI [OF that, of rpe_removed] by auto
  then have "\<forall>e \<in> set es. pt_get t1 (rpe_removed e) = None" using Cons.prems(2) by (simp add: t1(2))
  then obtain t' where t': "decode_pruning_entries es t1 = Ok t'"
    "\<And>r. pt_get t' r = (case map_of (map (\<lambda>e. (rpe_removed e, decode_pruning_state (rpe_state e))) es) r of
       Some s \<Rightarrow> Some s | None \<Rightarrow> pt_get t1 r)"
    using Cons.IH [of t1] Cons.prems(1) by auto
  have "rpe_removed e \<notin> rpe_removed ` set es" using Cons.prems(1) by simp
  then have "map_of (map (\<lambda>e. (rpe_removed e, decode_pruning_state (rpe_state e))) es) (rpe_removed e) = None"
    by (auto simp: map_of_eq_None_iff)
  with t1 t' show ?case by (auto split: option.split)
qed simp

lemma decode_encode_pruning_table:
  "\<exists>t'. decode_pruning_table (encode_pruning_table t) = Ok t' \<and>
    (\<forall>r. pt_get t' r = map_option (\<lambda>s. decode_pruning_state (encode_pruning_state s)) (pt_get t r))"
proof -
  let ?es = "encode_pruning_table t"
  have names: "map rpe_removed ?es = bt_keys (pt_states t)"
    by (simp add: encode_pruning_table_def split_def o_def flip: map_fst_bt_entries)
  have "map_of (map (\<lambda>e. (rpe_removed e, decode_pruning_state (rpe_state e))) ?es) r =
      map_option (\<lambda>s. decode_pruning_state (encode_pruning_state s)) (pt_get t r)" for r
  proof -
    have "map (\<lambda>e. (rpe_removed e, decode_pruning_state (rpe_state e))) ?es =
        map (\<lambda>(removed, s). (removed, decode_pruning_state (encode_pruning_state s))) (bt_entries (pt_states t))"
      by (simp add: encode_pruning_table_def split_def o_def)
    then show ?thesis by (simp add: map_of_map o_def pt_get_def)
  qed
  moreover have "\<exists>t'. decode_pruning_entries ?es pt_new = Ok t' \<and>
    (\<forall>r. pt_get t' r = (case map_of (map (\<lambda>e. (rpe_removed e, decode_pruning_state (rpe_state e))) ?es) r of
       Some s \<Rightarrow> Some s | None \<Rightarrow> pt_get pt_new r))"
    by (rule decode_pruning_entries_Ok) (simp_all add: names)
  ultimately show ?thesis by (auto simp: decode_pruning_table_def split: option.split)
qed

lemma decode_encode_pruning_state:
  "(\<And>i. s = Initialized i \<Longrightarrow> pi_owner i |\<notin>| pi_seen i) \<Longrightarrow> decode_pruning_state (encode_pruning_state s) = s"
  by (cases s) (auto simp: decode_pruning_state_def encode_pruning_state_def ps_performed_def)

lemma pruning_table_round_trip:
  assumes "pruning_table_ok t"
  shows "decode_pruning_table (encode_pruning_table t) = Ok t"
proof -
  obtain t' where t': "decode_pruning_table (encode_pruning_table t) = Ok t'"
    "\<And>r. pt_get t' r = map_option (\<lambda>s. decode_pruning_state (encode_pruning_state s)) (pt_get t r)"
    using decode_encode_pruning_table by blast
  have "pt_get t' r = pt_get t r" for r
  proof (cases "pt_get t r")
    case (Some s)
    have "decode_pruning_state (encode_pruning_state s) = s"
      using assms Some by (intro decode_encode_pruning_state) (auto simp: pruning_table_ok_def)
    with Some t'(2) [of r] show ?thesis by simp
  qed (simp add: t'(2))
  then have "t' = t" by (rule pt_eqI)
  with t' show ?thesis by simp
qed

lemma ReplicatorKey_key_str [simp]: "ReplicatorKey (key_str key) = key"
  by (cases key) simp

lemma encode_delta_Ok:
  "encode_delta codec (key, e) = Ok w \<longleftrightarrow> (\<exists>b. cc_encode_payload codec (pe_delta e) = Ok b \<and>
     w = \<lparr>rdl_key = key_str key, rdl_crdt_manifest = cc_manifest codec, rdl_crdt_version = cc_version codec,
       rdl_payload = b, rdl_pruning = encode_pruning_table (pe_pruning e),
       rdl_from_version = pe_from_version e, rdl_to_version = pe_to_version e\<rparr>)"
  by (auto simp: encode_delta_def cc_serialize_def)

text \<open>Every payload codec that reads back what it writes carries over to envelopes, read results and deltas.\<close>

context crdt_data_codec
begin

lemma data_envelope_round_trip:
  assumes "valid (de_data e)" and "pruning_table_ok (de_pruning e)" and "encode_data_envelope codec e = Ok w"
    and "length (rde_payload w) < 2 ^ 64"
  shows "decode_data_envelope codec w = Ok e"
  using assms decode_encode [of _ "de_data e"] pruning_table_round_trip [OF assms(2)]
  by (auto simp: encode_data_envelope_def decode_data_envelope_def cc_serialize_def)

lemma read_result_round_trip:
  assumes "\<And>e. r = Some e \<Longrightarrow> valid (de_data e) \<and> pruning_table_ok (de_pruning e)"
    and "encode_read_result codec r = Ok w" and "\<And>e. rrr_envelope w = Some e \<Longrightarrow> length (rde_payload e) < 2 ^ 64"
  shows "decode_read_result codec w = Ok r"
proof (cases r)
  case (Some e)
  with assms obtain we where "encode_data_envelope codec e = Ok we" "w = \<lparr>rrr_envelope = Some we\<rparr>"
    by (auto simp: encode_read_result_def)
  with assms Some show ?thesis by (simp add: decode_read_result_def data_envelope_round_trip)
qed (use assms in \<open>auto simp: encode_read_result_def decode_read_result_def\<close>)

lemma delta_decodes:
  assumes "valid (pe_delta e)" and "encode_delta codec (key, e) = Ok w" and "length (rdl_payload w) < 2 ^ 64"
  shows "\<exists>p. decode_delta codec w = Ok \<lparr>drd_key = key, drd_delta = pe_delta e, drd_pruning = p,
    drd_from_version = pe_from_version e, drd_to_version = pe_to_version e\<rparr> \<and>
    (pruning_table_ok (pe_pruning e) \<longrightarrow> p = pe_pruning e)"
proof -
  obtain b where b: "cc_encode_payload codec (pe_delta e) = Ok b" "length b < 2 ^ 64"
    and w: "w = \<lparr>rdl_key = key_str key, rdl_crdt_manifest = cc_manifest codec, rdl_crdt_version = cc_version codec,
       rdl_payload = b, rdl_pruning = encode_pruning_table (pe_pruning e),
       rdl_from_version = pe_from_version e, rdl_to_version = pe_to_version e\<rparr>"
    using assms(2,3) by (auto simp: encode_delta_Ok)
  obtain p where "decode_pruning_table (encode_pruning_table (pe_pruning e)) = Ok p"
    using decode_encode_pruning_table by blast
  moreover from this have "pruning_table_ok (pe_pruning e) \<longrightarrow> p = pe_pruning e"
    using pruning_table_round_trip [of "pe_pruning e"] by auto
  ultimately show ?thesis
    using decode_encode [OF b(2) assms(1) b(1)] by (auto simp: decode_delta_def w)
qed

end

section \<open>One range at the tracker\<close>

definition advances :: "u64 \<Rightarrow> u64 \<Rightarrow> u64 \<Rightarrow> bool" where
  "advances tracked from_version to_version \<longleftrightarrow>
     from_version \<noteq> 0 \<and> from_version \<le> to_version \<and> tracked < to_version \<and> from_version \<le> tracked + 1"

fun status_key :: "delta_receive_status \<Rightarrow> replicator_key" where
  "status_key (Applied _ key _ _ _) = key"
| "status_key (AlreadyHandled _ key _ _) = key"
| "status_key (Missing _ key _ _ _ _) = key"
| "status_key (InvalidRange _ key _ _) = key"

fun is_applied :: "delta_receive_status \<Rightarrow> bool" where
  "is_applied (Applied _ _ _ _ _) = True"
| "is_applied _ = False"

fun is_missing :: "delta_receive_status \<Rightarrow> bool" where
  "is_missing (Missing _ _ _ _ _ _) = True"
| "is_missing _ = False"

lemma tr_current_version_simps [simp]:
  "tr_current_version \<lparr>tr_versions = fmupd (a, k) v m\<rparr> b q = (if b = a \<and> q = k then v else tr_current_version \<lparr>tr_versions = m\<rparr> b q)"
  "tr_current_version \<lparr>tr_versions = tr_versions tr\<rparr> b q = tr_current_version tr b q"
  "tr_current_version (tr_clear_from tr a) b q = (if b = a then 0 else tr_current_version tr b q)"
  "tr_current_version (tr_forget_key tr k) b q = (if q = k then 0 else tr_current_version tr b q)"
  by (auto simp: tr_current_version_def tr_clear_from_def tr_forget_key_def)

lemma tr_apply_delta_pruned_effect:
  assumes "tr_apply_delta_pruned V now tr st from key f t d p seen = (tr', st', status)"
  shows "tr_current_version tr' a k =
      (if a = from \<and> k = key \<and> advances (tr_current_version tr from key) f t then t else tr_current_version tr a k)"
    and "status_key status = key"
    and "is_applied status \<longleftrightarrow> advances (tr_current_version tr from key) f t"
    and "is_missing status \<longleftrightarrow> f \<noteq> 0 \<and> f \<le> t \<and> tr_current_version tr from key < t \<and> tr_current_version tr from key + 1 < f"
    and "\<not> is_applied status \<Longrightarrow> st' = st"
  using assms
  by (auto simp: tr_apply_delta_pruned_def advances_def Let_def not_le not_less split_def split: if_splits)

lemma tr_apply_delta_effect:
  assumes "tr_apply_delta V tr st from key f t d = (tr', st', status)"
  shows "tr_current_version tr' a k =
      (if a = from \<and> k = key \<and> advances (tr_current_version tr from key) f t then t else tr_current_version tr a k)"
    and "is_applied status \<longleftrightarrow> advances (tr_current_version tr from key) f t"
    and "st' = (if is_applied status then fst (rs_write_delta V st key d) else st)"
  using assms
  by (auto simp: tr_apply_delta_def advances_def Let_def not_le not_less split_def split: if_splits)

text \<open>No range ever lowers a tracked version, so a range is applied at most once.\<close>

lemma tr_apply_delta_pruned_mono:
  assumes "tr_apply_delta_pruned V now tr st from key f t d p seen = (tr', st', status)"
  shows "tr_current_version tr a k \<le> tr_current_version tr' a k"
  using tr_apply_delta_pruned_effect(1) [OF assms, of a k] by (auto simp: advances_def)

section \<open>One message at the tracker\<close>

lemma tr_apply_ranges_decoded:
  assumes "tr_apply_ranges V codec clock from seen (d # ds) i tr st = (tr', st', ss, fs)" and "decode_delta codec d = Ok x"
  obtains tr1 st1 s ss' where "tr_apply_ranges V codec clock from seen ds (i + 1) tr1 st1 = (tr', st', ss', fs)" and "ss = s # ss'"
    and "\<And>key. tr_current_version tr1 from key = (if key = ReplicatorKey (rdl_key d) \<and>
        advances (tr_current_version tr from key) (rdl_from_version d) (rdl_to_version d)
      then rdl_to_version d else tr_current_version tr from key)"
    and "status_key s = ReplicatorKey (rdl_key d)"
    and "is_applied s \<longleftrightarrow> advances (tr_current_version tr from (ReplicatorKey (rdl_key d))) (rdl_from_version d) (rdl_to_version d)"
    and "is_missing s \<longleftrightarrow> (let tracked = tr_current_version tr from (ReplicatorKey (rdl_key d)); f = rdl_from_version d; t = rdl_to_version d
      in f \<noteq> 0 \<and> f \<le> t \<and> tracked < t \<and> tracked + 1 < f)"
proof -
  obtain tr1 st1 s where one: "tr_apply_delta_pruned V (clock i) tr st from (drd_key x) (drd_from_version x)
      (drd_to_version x) (drd_delta x) (drd_pruning x) seen = (tr1, st1, s)"
    by (cases "tr_apply_delta_pruned V (clock i) tr st from (drd_key x) (drd_from_version x)
      (drd_to_version x) (drd_delta x) (drd_pruning x) seen")
  have x: "drd_key x = ReplicatorKey (rdl_key d)" "drd_from_version x = rdl_from_version d" "drd_to_version x = rdl_to_version d"
    using assms(2) by (auto simp: decode_delta_def split: if_splits)
  obtain ss' where "tr_apply_ranges V codec clock from seen ds (i + 1) tr1 st1 = (tr', st', ss', fs)" "ss = s # ss'"
    using assms one by (auto split: prod.splits)
  then show ?thesis
    by (rule that) (use tr_apply_delta_pruned_effect(1-4) [OF one] in \<open>auto simp: x Let_def\<close>)
qed

lemma tr_apply_ranges_undecoded:
  assumes "tr_apply_ranges V codec clock from seen (d # ds) i tr st = (tr', st', ss, fs)" and "decode_delta codec d = Err e"
  obtains fs' where "tr_apply_ranges V codec clock from seen ds (i + 1) tr st = (tr', st', ss, fs')"
  using assms by (auto split: prod.splits)

lemma tr_apply_ranges_other_key:
  assumes "tr_apply_ranges V codec clock from seen ds i tr st = (tr', st', ss, fs)"
    and "\<forall>d \<in> set ds. ReplicatorKey (rdl_key d) \<noteq> key"
  shows "tr_current_version tr' from key = tr_current_version tr from key \<and> (\<forall>s \<in> set ss. status_key s \<noteq> key)"
  using assms
proof (induction ds arbitrary: i tr st ss fs)
  case (Cons d ds)
  show ?case
  proof (cases "decode_delta codec d")
    case (Inl e)
    with Cons show ?thesis by (elim tr_apply_ranges_undecoded) auto
  next
    case (Inr x)
    with Cons.prems(1) show ?thesis
    proof (rule tr_apply_ranges_decoded)
      fix tr1 st1 s ss'
      assume "tr_apply_ranges V codec clock from seen ds (i + 1) tr1 st1 = (tr', st', ss', fs)"
      from Cons.IH [OF this] Cons.prems(2)
      have "tr_current_version tr' from key = tr_current_version tr1 from key \<and> (\<forall>s \<in> set ss'. status_key s \<noteq> key)" by simp
      moreover assume "ss = s # ss'" "status_key s = ReplicatorKey (rdl_key d)"
        "\<And>key. tr_current_version tr1 from key = (if key = ReplicatorKey (rdl_key d) \<and>
            advances (tr_current_version tr from key) (rdl_from_version d) (rdl_to_version d)
          then rdl_to_version d else tr_current_version tr from key)"
      ultimately show ?thesis using Cons.prems(2) by auto
    qed
  qed
qed simp

text \<open>A message carries at most one range for a key. It decides the tracked version.\<close>

definition range_outcome :: "replicator_delta \<Rightarrow> u64 \<Rightarrow> u64 \<Rightarrow> replicator_key \<Rightarrow> delta_receive_status list \<Rightarrow> bool" where
  "range_outcome d tracked tracked' key ss \<longleftrightarrow>
     (let f = rdl_from_version d; t = rdl_to_version d in
        tracked' = (if advances tracked f t then t else tracked) \<and>
        (\<forall>s \<in> set ss. status_key s = key \<longrightarrow>
          (is_applied s \<longleftrightarrow> advances tracked f t) \<and> (is_missing s \<longleftrightarrow> f \<noteq> 0 \<and> f \<le> t \<and> tracked < t \<and> tracked + 1 < f)))"

lemma tr_apply_ranges_key:
  assumes "tr_apply_ranges V codec clock from seen ds i tr st = (tr', st', ss, fs)"
    and "distinct (map rdl_key ds)" and "d \<in> set ds" and "ReplicatorKey (rdl_key d) = key"
  shows "case decode_delta codec d of
      Err _ \<Rightarrow> tr_current_version tr' from key = tr_current_version tr from key \<and> (\<forall>s \<in> set ss. status_key s \<noteq> key)
    | Ok _ \<Rightarrow> range_outcome d (tr_current_version tr from key) (tr_current_version tr' from key) key ss"
  using assms
proof (induction ds arbitrary: i tr st ss fs)
  case (Cons a ds)
  have names: "rdl_key b \<noteq> rdl_key a" if "b \<in> set ds" for b
    using Cons.prems(2) imageI [OF that, of rdl_key] by auto
  then have others: "\<forall>b \<in> set ds. ReplicatorKey (rdl_key b) \<noteq> key" if "d = a"
    using Cons.prems(4) that by auto
  show ?case
  proof (cases "decode_delta codec a")
    case (Inl e)
    obtain fs' where rest: "tr_apply_ranges V codec clock from seen ds (i + 1) tr st = (tr', st', ss, fs')"
      using Cons.prems(1) Inl by (rule tr_apply_ranges_undecoded)
    with Cons.IH [OF rest] Cons.prems Inl tr_apply_ranges_other_key [OF rest others] show ?thesis
      by (cases "d = a") auto
  next
    case (Inr x)
    from Cons.prems(1) Inr obtain tr1 st1 s ss' where rest:
      "tr_apply_ranges V codec clock from seen ds (i + 1) tr1 st1 = (tr', st', ss', fs)" "ss = s # ss'"
      and one: "\<And>key. tr_current_version tr1 from key = (if key = ReplicatorKey (rdl_key a) \<and>
          advances (tr_current_version tr from key) (rdl_from_version a) (rdl_to_version a)
        then rdl_to_version a else tr_current_version tr from key)"
      and s: "status_key s = ReplicatorKey (rdl_key a)"
      "is_applied s \<longleftrightarrow> advances (tr_current_version tr from (ReplicatorKey (rdl_key a))) (rdl_from_version a) (rdl_to_version a)"
      "is_missing s \<longleftrightarrow> (let tracked = tr_current_version tr from (ReplicatorKey (rdl_key a)); f = rdl_from_version a; t = rdl_to_version a
        in f \<noteq> 0 \<and> f \<le> t \<and> tracked < t \<and> tracked + 1 < f)"
      by (rule tr_apply_ranges_decoded) (rule that)
    show ?thesis
    proof (cases "d = a")
      case True
      with tr_apply_ranges_other_key [OF rest(1) others] Inr s one [of key] Cons.prems(4) rest(2) show ?thesis
        by (auto simp: range_outcome_def Let_def)
    next
      case False
      with Cons.prems names [of d] have d: "distinct (map rdl_key ds)" "d \<in> set ds" "rdl_key a \<noteq> rdl_key d" by auto
      then have "status_key s \<noteq> key" "tr_current_version tr1 from key = tr_current_version tr from key"
        using one [of key] s(1) Cons.prems(4) by auto
      with Cons.IH [OF rest(1) d(1,2) Cons.prems(4)] rest(2) show ?thesis
        by (simp add: range_outcome_def Let_def split: sum.splits)
    qed
  qed
qed simp

end
