(* ===== verification/Delta_Channel.thy ===== *)
theory Delta_Channel
  imports Delta_Receive
begin

text \<open>
  A delta log and a receive tracker joined by a channel: one replica records deltas and runs propagation ticks
  (\<open>delta.rs\<close>, \<open>delta_loop.rs\<close>), another one applies what reaches it (\<open>delta_wire.rs\<close>,
  \<open>delta_receive.rs\<close>), and full states reach the receiver in between (\<open>state.rs\<close>). A tick puts its message in
  flight and a later step delivers it, so updates, ticks and deliveries interleave freely; a message in flight may be
  overtaken, repeated or lost. The lemmas follow one key from the log of the sender to the tracker of the receiver.
\<close>

section \<open>The log of one key\<close>

definition dl_entry_at :: "'d delta_log \<Rightarrow> replicator_key \<Rightarrow> u64 \<Rightarrow> 'd option option" where
  "dl_entry_at l key v = Option.bind (fmlookup (dl_entries l) key) (\<lambda>es. fmlookup es v)"

abbreviation dl_sent :: "'d delta_log \<Rightarrow> replicator_key \<Rightarrow> replica_id \<Rightarrow> u64" where
  "dl_sent l \<equiv> sent_at (dl_sent_to_node l)"

definition log_ok :: "'d delta_log \<Rightarrow> replicator_key \<Rightarrow> bool" where
  "log_ok l key \<longleftrightarrow> distinct (dl_nodes l) \<and> dl_current_version l key \<noteq> - 1 \<and>
     (\<forall>v. dl_entry_at l key v \<noteq> None \<longrightarrow> 0 < v \<and> v \<le> dl_current_version l key) \<and>
     (\<forall>node. dl_sent l key node \<le> dl_current_version l key)"

lemma dl_record_delta_simps [simp]:
  "dl_entry_at (fst (dl_record_delta l k d)) key v =
     (if k = key \<and> v = dl_current_version l key + 1 then Some d else dl_entry_at l key v)"
  "dl_current_version (fst (dl_record_delta l k d)) key =
     (if k = key then dl_current_version l key + 1 else dl_current_version l key)"
  "dl_sent_to_node (fst (dl_record_delta l k d)) = dl_sent_to_node l"
  "dl_nodes (fst (dl_record_delta l k d)) = dl_nodes l"
  "dl_max_delta_versions (fst (dl_record_delta l k d)) = dl_max_delta_versions l"
  by (auto simp: dl_record_delta_def dl_entry_at_def dl_current_version_def Let_def split: option.split)

lemma dl_set_nodes_simps [simp]:
  "dl_entry_at (dl_set_nodes l ns) key v = dl_entry_at l key v"
  "dl_current_version (dl_set_nodes l ns) key = dl_current_version l key"
  "dl_nodes (dl_set_nodes l ns) = sorted_unique_nodes ns"
  "dl_max_delta_versions (dl_set_nodes l ns) = dl_max_delta_versions l"
  by (simp_all add: dl_set_nodes_def dl_entry_at_def dl_current_version_def Let_def)

lemma dl_sent_set_nodes [simp]:
  "dl_sent (dl_set_nodes l ns) key node = (if node \<in> set ns then dl_sent l key node else 0)"
  by (cases "fmlookup (dl_sent_to_node l) key")
    (simp_all add: dl_set_nodes_def Let_def sent_at_def sorted_unique_nodes_def fset_of_list.rep_eq)

lemma dl_collect_fields:
  assumes "dl_collect_propagations merge l = (l', ps)"
  shows "dl_nodes l' = dl_nodes l" "dl_max_delta_versions l' = dl_max_delta_versions l"
  using assms by (auto simp: dl_collect_propagations_def Let_def split_def dl_selected_nodes_fields split: if_splits)

lemma smallest_version_le:
  assumes "node \<in> set nodes"
  shows "smallest_version_propagated_to_all key nodes sent \<le> sent_at sent key node"
proof (cases "fmlookup sent key")
  case (Some m)
  show ?thesis
  proof (cases "bt_is_empty m \<or> list_ex (\<lambda>node. fmlookup m node = None) nodes")
    case False
    then obtain v where v: "fmlookup m node = Some v" using assms by (auto simp: list_ex_iff)
    then have "v \<in> set (bt_values m)" by (auto simp: bt_values_conv fmlookup_dom'_iff intro: image_eqI [of _ _ node])
    then obtain x where "min_by_key (\<lambda>v. v) (bt_values m) = Some x" "x \<le> v"
      by (cases "min_by_key (\<lambda>v. v) (bt_values m)") (auto dest: min_by_key_Some elim: min_by_key.elims)
    with Some False v show ?thesis by (simp add: smallest_version_propagated_to_all_def sent_at_def)
  qed (simp add: smallest_version_propagated_to_all_def Some)
qed (simp add: smallest_version_propagated_to_all_def)

lemma log_ok_sent: "log_ok l key \<Longrightarrow> dl_sent l key node \<noteq> - 1"
  unfolding log_ok_def by (metis word_order.extremum_unique)

lemma unsent_range_None:
  assumes "log_ok l key" and "unsent_range merge n (dl_entries l) (dl_sent_to_node l) key node = None"
    and "dl_sent l key node < v"
  shows "dl_entry_at l key v = None"
proof (cases "fmlookup (dl_entries l) key")
  case (Some es)
  with assms(2) have "entries_after es (dl_sent l key node) = fmempty"
    by (auto simp: unsent_range_def range_of_def Let_def split: if_splits)
  then have "fmlookup (entries_after es (dl_sent l key node)) v = None" by simp
  with assms(3) Some show ?thesis
    by (simp add: dl_entry_at_def word_Suc_le_iff [OF log_ok_sent [OF assms(1)]])
qed (simp add: dl_entry_at_def)

lemma unsent_range_Some:
  assumes "log_ok l key" and "unsent_range merge n (dl_entries l) (dl_sent_to_node l) key node = Some (f, t, d)"
  shows "dl_sent l key node < f" "f \<le> t" "t \<le> dl_current_version l key"
    and "dl_entry_at l key f \<noteq> None" "dl_entry_at l key t \<noteq> None"
    and "dl_sent l key node < v \<Longrightarrow> dl_entry_at l key v \<noteq> None \<Longrightarrow> f \<le> v \<and> v \<le> t"
proof -
  obtain es where es: "fmlookup (dl_entries l) key = Some es"
    using assms(2) by (cases "fmlookup (dl_entries l) key") (auto simp: unsent_range_def)
  let ?u = "entries_after es (dl_sent l key node)"
  have u: "?u \<noteq> fmempty" "f = hd (bt_keys ?u)" "t = last (bt_keys ?u)"
    using assms(2) es by (auto simp: unsent_range_def range_of_def Let_def split: if_splits)
  have at: "fmlookup ?u v = (if dl_sent l key node < v then dl_entry_at l key v else None)" for v
    by (simp add: dl_entry_at_def es word_Suc_le_iff [OF log_ok_sent [OF assms(1)]])
  have f: "fmlookup ?u f \<noteq> None" and t: "fmlookup ?u t \<noteq> None"
    using hd_bt_keys(1) [OF u(1)] last_bt_keys(1) [OF u(1)] u by simp_all
  then show "dl_sent l key node < f" "dl_entry_at l key f \<noteq> None" "dl_entry_at l key t \<noteq> None"
    by (auto simp: at simp del: fmlookup_entries_after split: if_splits)
  show "f \<le> t" using hd_bt_keys(2) [OF u(1) t] u by simp
  show "t \<le> dl_current_version l key" using assms(1) \<open>dl_entry_at l key t \<noteq> None\<close> by (simp add: log_ok_def)
  show "f \<le> v \<and> v \<le> t" if "dl_sent l key node < v" "dl_entry_at l key v \<noteq> None"
    using hd_bt_keys(2) [OF u(1), of v] last_bt_keys(2) [OF u(1), of v] that u(2,3) at [of v] by simp
qed

section \<open>One tick\<close>

lemma dl_cleanup_entry:
  assumes "log_ok l key"
  shows "dl_entry_at (dl_cleanup_delta_entries l) key v \<in> {None, dl_entry_at l key v}"
    and "node \<in> set (dl_nodes l) \<Longrightarrow> dl_sent l key node < v \<Longrightarrow> dl_entry_at (dl_cleanup_delta_entries l) key v = dl_entry_at l key v"
proof -
  let ?s = "smallest_version_propagated_to_all key (dl_nodes l) (dl_sent_to_node l)"
  have eq: "dl_entry_at (dl_cleanup_delta_entries l) key v =
      (if dl_nodes l \<noteq> [] \<and> ?s + 1 \<le> v then dl_entry_at l key v else None)"
    by (cases "fmlookup (dl_entries l) key") (simp_all add: dl_cleanup_delta_entries_def dl_entry_at_def)
  then show "dl_entry_at (dl_cleanup_delta_entries l) key v \<in> {None, dl_entry_at l key v}" by simp
  assume node: "node \<in> set (dl_nodes l)" "dl_sent l key node < v"
  from smallest_version_le [OF node(1)] have le: "?s \<le> dl_sent l key node" .
  then have "?s \<noteq> - 1" using log_ok_sent [OF assms, of node] by (metis word_order.extremum_unique)
  then have "?s + 1 \<le> v" using le node(2) by (simp add: word_Suc_le_iff)
  then show "dl_entry_at (dl_cleanup_delta_entries l) key v = dl_entry_at l key v"
    using node(1) by (auto simp: eq)
qed

lemma dl_cleanup_fields [simp]:
  "dl_sent_to_node (dl_cleanup_delta_entries l) = dl_sent_to_node l" "dl_nodes (dl_cleanup_delta_entries l) = dl_nodes l"
  "dl_current_version (dl_cleanup_delta_entries l) key = dl_current_version l key"
  "dl_max_delta_versions (dl_cleanup_delta_entries l) = dl_max_delta_versions l"
  by (simp_all add: dl_cleanup_delta_entries_def dl_current_version_def)

text \<open>What a tick does to one key of one peer.\<close>

definition selected_range :: "('d \<Rightarrow> 'd \<Rightarrow> 'd) \<Rightarrow> 'd delta_log \<Rightarrow> replicator_key \<Rightarrow> replica_id \<Rightarrow> (u64 \<times> u64 \<times> 'd option) option" where
  "selected_range merge l key node =
     (if dl_nodes l \<noteq> [] \<and> node \<in> set (snd (dl_selected_nodes l))
      then unsent_range merge (dl_max_delta_versions l) (dl_entries l) (dl_sent_to_node l) key node else None)"

lemma dl_collect_key:
  assumes "log_ok l key" and "dl_collect_propagations merge l = (l', ps)"
  shows "dl_current_version l' key = dl_current_version l key" and "dl_entry_at l' key v = dl_entry_at l key v"
    and "dl_sent l' key node = (case selected_range merge l key node of Some (f, t, d) \<Rightarrow> t | None \<Rightarrow> dl_sent l key node)"
    and "propagated ps node key = (case selected_range merge l key node of
      Some (f, t, Some d) \<Rightarrow> Some (pe_new d f t) | _ \<Rightarrow> None)"
    and "log_ok l' key"
proof -
  have dist: "distinct (dl_nodes l)" using assms(1) by (simp add: log_ok_def)
  note spec = collect_propagations_spec [OF dist assms(2), where k = key]
  show same: "dl_current_version l' key = dl_current_version l key" "dl_entry_at l' key v = dl_entry_at l key v" for v
    using spec by (simp_all add: dl_current_version_def dl_entry_at_def Let_def)
  show sent: "dl_sent l' key node = (case selected_range merge l key node of Some (f, t, d) \<Rightarrow> t | None \<Rightarrow> dl_sent l key node)" for node
    using spec [where node = node] by (simp add: selected_range_def Let_def)
  show "propagated ps node key = (case selected_range merge l key node of
      Some (f, t, Some d) \<Rightarrow> Some (pe_new d f t) | _ \<Rightarrow> None)"
    using spec [where node = node] by (simp add: selected_range_def Let_def)
  have "dl_sent l' key node \<le> dl_current_version l key" for node
    using assms(1) unsent_range_Some(3) [OF assms(1)]
    by (auto simp: sent selected_range_def log_ok_def split: option.split)
  then show "log_ok l' key" using assms(1) by (simp add: log_ok_def same dl_collect_fields [OF assms(2)])
qed

lemma log_ok_cleanup:
  assumes "log_ok l key"
  shows "log_ok (dl_cleanup_delta_entries l) key"
proof -
  have "dl_entry_at l key v \<noteq> None" if "dl_entry_at (dl_cleanup_delta_entries l) key v \<noteq> None" for v
    using dl_cleanup_entry(1) [OF assms, of v] that by auto
  with assms show ?thesis by (simp add: log_ok_def)
qed

lemma dl_run_tick_key:
  assumes "log_ok l key" and "dl_run_tick merge n pr l = (l', ps, cleaned)"
  shows "dl_current_version l' key = dl_current_version l key" and "dl_nodes l' = dl_nodes l"
    and "dl_max_delta_versions l' = dl_max_delta_versions l"
    and "dl_sent l' key node = (case selected_range merge l key node of Some (f, t, d) \<Rightarrow> t | None \<Rightarrow> dl_sent l key node)"
    and "propagated ps node key = (case selected_range merge l key node of
      Some (f, t, Some d) \<Rightarrow> Some \<lparr>pe_delta = d, pe_from_version = f, pe_to_version = t, pe_pruning = pr key\<rparr> | _ \<Rightarrow> None)"
    and "dl_entry_at l' key v \<in> {None, dl_entry_at l key v}"
    and "node \<in> set (dl_nodes l) \<Longrightarrow> dl_sent l' key node < v \<Longrightarrow> dl_entry_at l' key v = dl_entry_at l key v"
    and "log_ok l' key"
proof -
  obtain l1 ps1 where c: "dl_collect_propagations merge l = (l1, ps1)" by fastforce
  have l': "l' = (if cleaned then dl_cleanup_delta_entries l1 else l1)" and ps: "ps = fmmap (dp_attach_pruning pr) ps1"
    using assms(2) unfolding dl_run_tick_def c Let_def by (auto simp only: prod.case prod.inject)
  note key = dl_collect_key [OF assms(1) c] and fields = dl_collect_fields [OF c]
  show "dl_current_version l' key = dl_current_version l key" "dl_nodes l' = dl_nodes l"
    "dl_max_delta_versions l' = dl_max_delta_versions l"
    "dl_sent l' key node = (case selected_range merge l key node of Some (f, t, d) \<Rightarrow> t | None \<Rightarrow> dl_sent l key node)"
    by (simp_all add: l' key(1,3) fields)
  have "propagated ps node key = map_option (\<lambda>e. e\<lparr>pe_pruning := pr key\<rparr>) (propagated ps1 node key)"
    by (cases "fmlookup ps1 node") (simp_all add: propagated_def ps dp_attach_pruning_def)
  then show "propagated ps node key = (case selected_range merge l key node of
      Some (f, t, Some d) \<Rightarrow> Some \<lparr>pe_delta = d, pe_from_version = f, pe_to_version = t, pe_pruning = pr key\<rparr> | _ \<Rightarrow> None)"
    by (simp add: key(4) pe_new_def split: option.split)
  show "dl_entry_at l' key v \<in> {None, dl_entry_at l key v}"
    using dl_cleanup_entry(1) [OF key(5), of v] by (simp add: l' key(2))
  show "dl_entry_at l' key v = dl_entry_at l key v" if "node \<in> set (dl_nodes l)" "dl_sent l' key node < v"
    using dl_cleanup_entry(2) [OF key(5), of node v] that by (simp add: l' key(2) fields split: if_splits)
  show "log_ok l' key" using key(5) by (simp add: l' log_ok_cleanup)
qed

section \<open>One message\<close>

lemma encoded_ranges:
  assumes "encode_delta_propagation codec from reply p = Ok w"
  shows "rdp_from w = from" and "distinct (map rdl_key (rdp_deltas w))"
    and "fmlookup (dp_entries p) key = Some e \<Longrightarrow> \<exists>d \<in> set (rdp_deltas w). encode_delta codec (key, e) = Ok d"
    and "fmlookup (dp_entries p) key = None \<Longrightarrow> \<forall>d \<in> set (rdp_deltas w). ReplicatorKey (rdl_key d) \<noteq> key"
proof -
  have w: "rdp_from w = from" and all: "list_all2 (\<lambda>x d. encode_delta codec x = Ok d) (bt_entries (dp_entries p)) (rdp_deltas w)"
    using assms by (auto simp: encode_delta_propagation_def collect_results_Ok)
  show "rdp_from w = from" by (rule w)
  have "map (key_str \<circ> fst) (bt_entries (dp_entries p)) = map rdl_key (rdp_deltas w)"
    using all by (induction rule: list_all2_induct) (auto simp: encode_delta_Ok)
  then have names: "map rdl_key (rdp_deltas w) = map key_str (bt_keys (dp_entries p))"
    by (simp flip: map_map map_fst_bt_entries)
  have "inj_on key_str A" for A by (metis ReplicatorKey_key_str inj_onI)
  then show "distinct (map rdl_key (rdp_deltas w))" unfolding names by (simp add: distinct_map)
  show "\<exists>d \<in> set (rdp_deltas w). encode_delta codec (key, e) = Ok d" if "fmlookup (dp_entries p) key = Some e"
  proof -
    have "(key, e) \<in> set (bt_entries (dp_entries p))" using that by simp
    then obtain i where i: "i < length (rdp_deltas w)" "bt_entries (dp_entries p) ! i = (key, e)"
      using list_all2_lengthD [OF all] by (auto simp: in_set_conv_nth)
    show ?thesis
      by (rule bexI [of _ "rdp_deltas w ! i"]) (use list_all2_nthD2 [OF all i(1)] i in simp_all)
  qed
  show "\<forall>d \<in> set (rdp_deltas w). ReplicatorKey (rdl_key d) \<noteq> key" if none: "fmlookup (dp_entries p) key = None"
  proof
    fix d
    assume "d \<in> set (rdp_deltas w)"
    then have "rdl_key d \<in> set (map rdl_key (rdp_deltas w))" by simp
    then obtain k where "rdl_key d = key_str k" "fmlookup (dp_entries p) k \<noteq> None"
      unfolding names by (auto simp: fmlookup_dom'_iff)
    with none show "ReplicatorKey (rdl_key d) \<noteq> key" by auto
  qed
qed

section \<open>The channel\<close>

record ('v, 'd) channel =
  ch_log :: "'d delta_log"
  ch_in_flight :: "replicator_delta_propagation list"
  ch_tracker :: delta_receive_tracker
  ch_state :: "'v replicator_state"
  ch_statuses :: "delta_receive_status list"

text \<open>
  The events: a delta recorded, a tick without a message for the peer, a tick with one, a tick whose message could not
  be encoded, the delivery of the message at a position of the queue, a second delivery, a loss, a full-state write at the
  receiver, and a change of the other peers.
\<close>

datatype 'd channel_event =
    Recorded replicator_key "'d option"
  | IdleTick
  | Sent replicator_delta_propagation
  | NotEncoded
  | Delivered nat
  | Repeated
  | Lost
  | FullState replicator_key
  | NodesSet

definition ch_received :: "('v, 'd) channel \<Rightarrow> delta_receive_tracker \<Rightarrow> 'v replicator_state \<Rightarrow> delta_receive_status list \<Rightarrow> ('v, 'd) channel" where
  "ch_received c tracker state statuses =
     c\<lparr>ch_tracker := tracker, ch_state := state, ch_statuses := ch_statuses c @ statuses\<rparr>"

inductive channel_step ::
  "('v, 'd, 'x) value_ops_scheme \<Rightarrow> ('d \<Rightarrow> 'd \<Rightarrow> 'd) \<Rightarrow> 'd crdt_codec \<Rightarrow> replica_id \<Rightarrow> replica_id
     \<Rightarrow> ('v, 'd) channel \<Rightarrow> 'd channel_event \<Rightarrow> ('v, 'd) channel \<Rightarrow> bool"
  for V :: "('v, 'd, 'x) value_ops_scheme" and merge :: "'d \<Rightarrow> 'd \<Rightarrow> 'd" and codec :: "'d crdt_codec"
    and self :: replica_id and peer :: replica_id where
  recorded: "unat (dl_current_version (ch_log c) k) + 2 < 2 ^ 64 \<Longrightarrow>
    channel_step V merge codec self peer c (Recorded k d) (c\<lparr>ch_log := fst (dl_record_delta (ch_log c) k d)\<rparr>)"
| idle_tick: "dl_run_tick merge n pr (ch_log c) = (l', ps, cleaned) \<Longrightarrow> fmlookup ps peer = None \<Longrightarrow>
    channel_step V merge codec self peer c IdleTick (c\<lparr>ch_log := l'\<rparr>)"
| sent: "dl_run_tick merge n pr (ch_log c) = (l', ps, cleaned) \<Longrightarrow> fmlookup ps peer = Some p \<Longrightarrow>
    encode_delta_propagation codec self reply p = Ok w \<Longrightarrow>
    channel_step V merge codec self peer c (Sent w) (c\<lparr>ch_log := l', ch_in_flight := ch_in_flight c @ [w]\<rparr>)"
| not_encoded: "dl_run_tick merge n pr (ch_log c) = (l', ps, cleaned) \<Longrightarrow> fmlookup ps peer = Some p \<Longrightarrow>
    encode_delta_propagation codec self reply p = Err e \<Longrightarrow>
    channel_step V merge codec self peer c NotEncoded (c\<lparr>ch_log := l'\<rparr>)"
| delivered: "ch_in_flight c = xs @ w # ys \<Longrightarrow>
    tr_apply_propagation_inner V codec clock (ch_tracker c) (ch_state c) w seen = (tracker', state', report) \<Longrightarrow>
    channel_step V merge codec self peer c (Delivered (length xs))
      (ch_received (c\<lparr>ch_in_flight := xs @ ys\<rparr>) tracker' state' (drr_statuses report))"
| repeated: "w \<in> set (ch_in_flight c) \<Longrightarrow>
    tr_apply_propagation_inner V codec clock (ch_tracker c) (ch_state c) w seen = (tracker', state', report) \<Longrightarrow>
    channel_step V merge codec self peer c Repeated (ch_received c tracker' state' (drr_statuses report))"
| lost: "ch_in_flight c = xs @ w # ys \<Longrightarrow>
    channel_step V merge codec self peer c Lost (c\<lparr>ch_in_flight := xs @ ys\<rparr>)"
| full_state: "channel_step V merge codec self peer c (FullState k)
    (c\<lparr>ch_state := fst (rs_write_full V (ch_state c) k envelope)\<rparr>)"
| nodes_set: "peer \<in> set ns \<Longrightarrow>
    channel_step V merge codec self peer c NodesSet (c\<lparr>ch_log := dl_set_nodes (ch_log c) ns\<rparr>)"

inductive channel_run ::
  "('v, 'd, 'x) value_ops_scheme \<Rightarrow> ('d \<Rightarrow> 'd \<Rightarrow> 'd) \<Rightarrow> 'd crdt_codec \<Rightarrow> replica_id \<Rightarrow> replica_id
     \<Rightarrow> (('v, 'd) channel \<Rightarrow> 'd channel_event \<Rightarrow> bool) \<Rightarrow> ('v, 'd) channel \<Rightarrow> ('v, 'd) channel \<Rightarrow> bool"
  for V merge codec self peer allowed where
  none: "channel_run V merge codec self peer allowed c c"
| more: "channel_run V merge codec self peer allowed c c' \<Longrightarrow> allowed c' e \<Longrightarrow> channel_step V merge codec self peer c' e c'' \<Longrightarrow>
    channel_run V merge codec self peer allowed c c''"

abbreviation tracked :: "replica_id \<Rightarrow> replicator_key \<Rightarrow> ('v, 'd) channel \<Rightarrow> u64" where
  "tracked self key c \<equiv> tr_current_version (ch_tracker c) self key"

lemma ch_received_simps [simp]:
  "ch_log (ch_received c tr st ss) = ch_log c" "ch_in_flight (ch_received c tr st ss) = ch_in_flight c"
  "ch_tracker (ch_received c tr st ss) = tr" "ch_statuses (ch_received c tr st ss) = ch_statuses c @ ss"
  by (simp_all add: ch_received_def)

text \<open>A message of the sender, with at most one range per key, and its range of one key.\<close>

definition from_sender :: "replica_id \<Rightarrow> replicator_delta_propagation \<Rightarrow> bool" where
  "from_sender self w \<longleftrightarrow> rdp_from w = self \<and> distinct (map rdl_key (rdp_deltas w))"

definition range_in :: "replicator_key \<Rightarrow> replicator_delta_propagation \<Rightarrow> replicator_delta option" where
  "range_in key w = find (\<lambda>d. ReplicatorKey (rdl_key d) = key) (rdp_deltas w)"

lemma range_in_Some: "range_in key w = Some d \<Longrightarrow> d \<in> set (rdp_deltas w) \<and> ReplicatorKey (rdl_key d) = key"
  unfolding range_in_def by (auto simp: find_Some_iff)

lemma range_in_None: "range_in key w = None \<longleftrightarrow> (\<forall>d \<in> set (rdp_deltas w). ReplicatorKey (rdl_key d) \<noteq> key)"
  unfolding range_in_def by (auto simp: find_None_iff)

lemma range_in_encoded:
  assumes "encode_delta_propagation codec self reply p = Ok w"
  shows "from_sender self w"
    and "fmlookup (dp_entries p) key = None \<Longrightarrow> range_in key w = None"
    and "fmlookup (dp_entries p) key = Some e \<Longrightarrow> \<exists>d. range_in key w = Some d \<and> encode_delta codec (key, e) = Ok d"
proof -
  note enc = encoded_ranges [OF assms]
  show "from_sender self w" using enc(1,2) by (simp add: from_sender_def)
  show "range_in key w = None" if "fmlookup (dp_entries p) key = None" using enc(4) [OF that] by (simp add: range_in_None)
  show "\<exists>d. range_in key w = Some d \<and> encode_delta codec (key, e) = Ok d" if e: "fmlookup (dp_entries p) key = Some e"
  proof -
    obtain d where d: "d \<in> set (rdp_deltas w)" "encode_delta codec (key, e) = Ok d" using enc(3) [OF e] by blast
    then have dk: "ReplicatorKey (rdl_key d) = key" by (auto simp: encode_delta_Ok)
    with d obtain d' where d': "range_in key w = Some d'" by (cases "range_in key w") (auto simp: range_in_None)
    from range_in_Some [OF d'] have "d' \<in> set (rdp_deltas w)" "rdl_key d' = rdl_key d" using dk by auto
    with enc(2) d(1) have "d' = d" by (auto simp: distinct_map dest: inj_onD)
    with d' d(2) show ?thesis by blast
  qed
qed

text \<open>What happens to one key in a message that arrives.\<close>

lemma received_range:
  assumes "from_sender self w"
    and "tr_apply_propagation_inner V codec clock tr st w seen = (tr', st', report)"
  shows "case range_in key w of
      None \<Rightarrow> tr_current_version tr' self key = tr_current_version tr self key \<and> (\<forall>s \<in> set (drr_statuses report). status_key s \<noteq> key)
    | Some d \<Rightarrow> (case decode_delta codec d of
        Err _ \<Rightarrow> tr_current_version tr' self key = tr_current_version tr self key \<and> (\<forall>s \<in> set (drr_statuses report). status_key s \<noteq> key)
      | Ok _ \<Rightarrow> range_outcome d (tr_current_version tr self key) (tr_current_version tr' self key) key (drr_statuses report))"
proof -
  obtain fs where ranges: "tr_apply_ranges V codec clock self seen (rdp_deltas w) 0 tr st = (tr', st', drr_statuses report, fs)"
    using assms by (auto simp: from_sender_def tr_apply_propagation_inner_def Let_def split: prod.splits)
  show ?thesis
  proof (cases "range_in key w")
    case None
    then have "\<forall>d \<in> set (rdp_deltas w). ReplicatorKey (rdl_key d) \<noteq> key" by (simp add: range_in_None)
    from tr_apply_ranges_other_key [OF ranges this] show ?thesis by (simp add: None)
  next
    case (Some d)
    note d = range_in_Some [OF Some]
    have "distinct (map rdl_key (rdp_deltas w))" using assms(1) by (simp add: from_sender_def)
    from tr_apply_ranges_key [OF ranges this conjunct1 [OF d] conjunct2 [OF d]] show ?thesis by (simp add: Some)
  qed
qed

lemma log_ok_record:
  assumes "log_ok l key" and "unat (dl_current_version l k) + 2 < 2 ^ 64"
  shows "log_ok (fst (dl_record_delta l k d)) key"
proof (cases "k = key")
  case True
  let ?v = "dl_current_version l key"
  have v: "unat (?v + 1) = Suc (unat ?v)" using assms by (intro unat_word_Suc) (simp add: log_ok_def)
  have max: "unat (- 1 :: u64) = 18446744073709551615" by (simp add: unsigned_minus_1_eq_mask mask_eq_exp_minus_1)
  have "unat (?v + 1) \<noteq> unat (- 1 :: u64)" unfolding v max using assms(2) True by simp
  then have "?v + 1 \<noteq> - 1" by metis
  moreover have "x \<le> ?v + 1" if "x \<le> ?v" for x using that v by (simp add: word_le_nat_alt)
  moreover have "0 < ?v + 1" using v by (simp add: word_less_nat_alt)
  ultimately show ?thesis using assms(1) True by (auto simp: log_ok_def)
qed (use assms in \<open>simp add: log_ok_def\<close>)

lemma log_ok_set_nodes: "log_ok l key \<Longrightarrow> log_ok (dl_set_nodes l ns) key"
  by (simp add: log_ok_def sorted_unique_nodes_def sorted_list_of_fset.rep_eq)

lemma channel_step_log_ok:
  assumes "channel_step V merge codec self peer c e c'" and "log_ok (ch_log c) key"
  shows "log_ok (ch_log c') key"
  using assms by cases (simp_all add: log_ok_record log_ok_set_nodes dl_run_tick_key(8))

text \<open>The two halves of a round as functions: a tick, and the delivery of the oldest message.\<close>

definition channel_send ::
  "('d \<Rightarrow> 'd \<Rightarrow> 'd) \<Rightarrow> 'd crdt_codec \<Rightarrow> replica_id \<Rightarrow> replica_id \<Rightarrow> ('v, 'd) channel \<Rightarrow> ('v, 'd) channel \<times> 'd channel_event" where
  "channel_send merge codec self peer c =
     (let (l', ps, _) = dl_run_tick merge 5 (\<lambda>_. pt_new) (ch_log c)
      in case fmlookup ps peer of
           None \<Rightarrow> (c\<lparr>ch_log := l'\<rparr>, IdleTick)
         | Some p \<Rightarrow>
             (case encode_delta_propagation codec self False p of
                Err _ \<Rightarrow> (c\<lparr>ch_log := l'\<rparr>, NotEncoded)
              | Ok w \<Rightarrow> (c\<lparr>ch_log := l', ch_in_flight := ch_in_flight c @ [w]\<rparr>, Sent w)))"

definition channel_receive ::
  "('v, 'd, 'x) value_ops_scheme \<Rightarrow> 'd crdt_codec \<Rightarrow> replicator_delta_propagation \<Rightarrow> ('v, 'd) channel \<Rightarrow> ('v, 'd) channel" where
  "channel_receive V codec w c =
     (let (tracker, state, report) = tr_apply_propagation_inner V codec (\<lambda>_. 0) (ch_tracker c) (ch_state c) w None
      in ch_received (c\<lparr>ch_in_flight := tl (ch_in_flight c)\<rparr>) tracker state (drr_statuses report))"

lemma channel_step_send:
  assumes "channel_send merge codec self peer c = (c', e)"
  shows "channel_step V merge codec self peer c e c'"
  using assms
  by (auto simp: channel_send_def Let_def intro: channel_step.intros split: prod.splits option.splits sum.splits)

lemma channel_step_receive:
  assumes "ch_in_flight c = w # ws"
  shows "channel_step V merge codec self peer c (Delivered 0) (channel_receive V codec w c)"
proof -
  obtain tr' st' report where r: "tr_apply_propagation_inner V codec (\<lambda>_. 0) (ch_tracker c) (ch_state c) w None = (tr', st', report)"
    by (rule prod_cases3)
  from channel_step.delivered [where xs = "[]" and ys = ws, OF _ r] assms show ?thesis
    by (simp add: channel_receive_def r)
qed

abbreviation counter_log :: "gcounter delta_log" where
  "counter_log \<equiv> (dl_new [])\<lparr>dl_nodes := [ReplicaId ''b'']\<rparr>"

abbreviation counter_delta :: gcounter where
  "counter_delta \<equiv> GCounter (fmupd (ReplicaId ''a'') 1 fmempty) None"

lemma log_ok_counter_log: "log_ok counter_log key"
  by (simp add: log_ok_def dl_new_def dl_current_version_def dl_entry_at_def sent_at_def)

section \<open>A gap never closes\<close>

text \<open>The receiver lacks a range that is recorded as sent, and every message in flight is past the gap.\<close>

definition past_gap :: "replica_id \<Rightarrow> replicator_key \<Rightarrow> u64 \<Rightarrow> replicator_delta_propagation \<Rightarrow> bool" where
  "past_gap self key v w \<longleftrightarrow> from_sender self w \<and>
     (case range_in key w of
        None \<Rightarrow> True
      | Some d \<Rightarrow> v + 1 < rdl_from_version d \<and> rdl_from_version d \<le> rdl_to_version d)"

definition behind :: "replica_id \<Rightarrow> replica_id \<Rightarrow> replicator_key \<Rightarrow> ('v, 'd) channel \<Rightarrow> bool" where
  "behind self peer key c \<longleftrightarrow> tracked self key c < dl_sent (ch_log c) key peer \<and>
     (\<forall>w \<in> set (ch_in_flight c). past_gap self key (tracked self key c) w)"

lemma tick_sent_mono:
  assumes "log_ok l key" and "dl_run_tick merge n pr l = (l', ps, cleaned)"
  shows "dl_sent l key node \<le> dl_sent l' key node"
    and "propagated ps node key = Some e \<Longrightarrow> dl_sent l key node < pe_from_version e \<and>
      pe_from_version e \<le> pe_to_version e \<and> pe_to_version e = dl_sent l' key node"
proof -
  note key = dl_run_tick_key(4,5) [OF assms, where node = node]
  have r: "dl_sent l key node < f \<and> f \<le> t" if "selected_range merge l key node = Some (f, t, d)" for f t d
  proof -
    have "unsent_range merge (dl_max_delta_versions l) (dl_entries l) (dl_sent_to_node l) key node = Some (f, t, d)"
      using that by (simp add: selected_range_def split: if_splits)
    from unsent_range_Some(1,2) [OF assms(1) this] show ?thesis by blast
  qed
  have "dl_sent l key node \<le> dl_sent l' key node \<and> (propagated ps node key = Some e \<longrightarrow>
      dl_sent l key node < pe_from_version e \<and> pe_from_version e \<le> pe_to_version e \<and> pe_to_version e = dl_sent l' key node)"
  proof (cases "selected_range merge l key node")
    case (Some x)
    obtain f t d where x: "x = (f, t, d)" by (cases x)
    with r Some have "dl_sent l key node < f" "f \<le> t" by blast+
    with Some x show ?thesis by (cases d) (auto simp: key)
  qed (simp add: key)
  then show "dl_sent l key node \<le> dl_sent l' key node"
    and "propagated ps node key = Some e \<Longrightarrow> dl_sent l key node < pe_from_version e \<and>
      pe_from_version e \<le> pe_to_version e \<and> pe_to_version e = dl_sent l' key node" by blast+
qed

lemma past_gap_received:
  assumes "past_gap self key (tr_current_version tr self key) w"
    and "tr_apply_propagation_inner V codec clock tr st w seen = (tr', st', report)"
    and "tr_current_version tr self key \<noteq> - 1"
  shows "tr_current_version tr' self key = tr_current_version tr self key \<and>
    (\<forall>s \<in> set (drr_statuses report). status_key s = key \<longrightarrow> is_missing s)"
proof -
  let ?v = "tr_current_version tr self key"
  have w: "from_sender self w" using assms(1) by (simp add: past_gap_def)
  note got = received_range [OF w assms(2), of key]
  show ?thesis
  proof (cases "range_in key w")
    case (Some d)
    with assms(1) have d: "?v + 1 < rdl_from_version d" "rdl_from_version d \<le> rdl_to_version d"
      by (simp_all add: past_gap_def)
    then have "rdl_from_version d \<noteq> 0" by (metis word_not_simps(1))
    moreover have "?v < rdl_to_version d" using d word_Suc_greater [OF assms(3)] by (meson less_trans less_le_trans)
    ultimately show ?thesis using got d Some by (auto simp: range_outcome_def advances_def Let_def split: sum.splits)
  qed (use got in simp)
qed

lemma past_gap_sent:
  assumes "log_ok l key" and "dl_run_tick merge n pr l = (l', ps, cleaned)" and "fmlookup ps peer = Some p"
    and "encode_delta_propagation codec self reply p = Ok w" and "v < dl_sent l key peer"
  shows "past_gap self key v w"
proof -
  note enc = range_in_encoded [OF assms(4)]
  show ?thesis
  proof (cases "fmlookup (dp_entries p) key")
    case (Some e)
    with assms(3) have "propagated ps peer key = Some e" by (simp add: propagated_def)
    from tick_sent_mono(2) [OF assms(1,2) this] have e: "dl_sent l key peer < pe_from_version e" "pe_from_version e \<le> pe_to_version e"
      by blast+
    obtain d where d: "range_in key w = Some d" "encode_delta codec (key, e) = Ok d" using enc(3) [OF Some] by blast
    then have "rdl_from_version d = pe_from_version e" "rdl_to_version d = pe_to_version e" by (auto simp: encode_delta_Ok)
    moreover have "v + 1 \<le> dl_sent l key peer" using assms(5) by (simp add: inc_le)
    ultimately show ?thesis using e d(1) enc(1) by (auto simp: past_gap_def)
  qed (simp add: past_gap_def enc(1,2))
qed

lemma behind_step:
  assumes "channel_step V merge codec self peer c e c'" and "log_ok (ch_log c) key" and "behind self peer key c"
  shows "behind self peer key c' \<and>
    (\<exists>ss. ch_statuses c' = ch_statuses c @ ss \<and> (\<forall>s \<in> set ss. status_key s = key \<longrightarrow> is_missing s))"
proof -
  have lt: "tracked self key c < dl_sent (ch_log c) key peer"
    and flight: "\<And>w. w \<in> set (ch_in_flight c) \<Longrightarrow> past_gap self key (tracked self key c) w"
    using assms(3) by (auto simp: behind_def)
  have top: "tracked self key c \<noteq> - 1" using lt by (metis word_order.extremum_strict)
  have quiet: ?thesis if "ch_tracker c' = ch_tracker c" "ch_statuses c' = ch_statuses c"
    "set (ch_in_flight c') \<subseteq> set (ch_in_flight c)" "dl_sent (ch_log c) key peer \<le> dl_sent (ch_log c') key peer"
    using that lt flight by (auto simp: behind_def)
  have received: ?thesis if "w \<in> set (ch_in_flight c)"
    "tr_apply_propagation_inner V codec clock (ch_tracker c) (ch_state c) w seen = (tr', st', report)"
    "ch_log c' = ch_log c" "set (ch_in_flight c') \<subseteq> set (ch_in_flight c)" "ch_tracker c' = tr'"
    "ch_statuses c' = ch_statuses c @ drr_statuses report" for w clock seen tr' st' report
    using past_gap_received [OF flight [OF that(1)] that(2) top] that lt flight by (auto simp: behind_def)
  from assms(1) show ?thesis
  proof cases
    case (idle_tick n pr l' ps cleaned)
    with tick_sent_mono(1) [OF assms(2) idle_tick(3)] show ?thesis by (intro quiet) simp_all
  next
    case (not_encoded n pr l' ps cleaned p reply e)
    with tick_sent_mono(1) [OF assms(2) not_encoded(3)] show ?thesis by (intro quiet) simp_all
  next
    case (sent n pr l' ps cleaned p reply w)
    from past_gap_sent [OF assms(2) sent(3-5) lt] tick_sent_mono(1) [OF assms(2) sent(3), of peer] lt flight sent(2)
    show ?thesis by (auto simp: behind_def)
  next
    case (delivered xs w ys clock seen tr' st' report)
    then show ?thesis by (intro received [of w clock seen tr' st' report]) auto
  next
    case (repeated w clock seen tr' st' report)
    then show ?thesis by (intro received [of w clock seen tr' st' report]) auto
  qed (rule quiet; auto)+
qed

section \<open>Staying in step\<close>

lemma try_fold_merge_Some:
  assumes "\<And>a b. P a \<Longrightarrow> P b \<Longrightarrow> P (merge a b)" and "P acc" and "\<forall>d \<in> set ds. \<exists>x. d = Some x \<and> P x"
  shows "\<exists>x. try_fold (\<lambda>acc next. map_option (\<lambda>delta. merge acc delta) next) acc ds = Some x \<and> P x"
  using assms(2,3)
proof (induction ds arbitrary: acc)
  case (Cons d ds)
  then obtain x where "d = Some x" "P (merge acc x)" using assms(1) by auto
  with Cons.IH [of "merge acc x"] Cons.prems(2) show ?case by simp
qed simp

lemma merge_delta_group_Some:
  assumes "\<And>a b. P a \<Longrightarrow> P b \<Longrightarrow> P (merge a b)" and "m \<noteq> fmempty" and "length (bt_keys m) < n"
    and "\<And>v d. fmlookup m v = Some d \<Longrightarrow> \<exists>x. d = Some x \<and> P x"
  shows "\<exists>x. merge_delta_group merge m n = Some x \<and> P x"
proof -
  have all: "\<forall>d \<in> set (bt_values m). \<exists>x. d = Some x \<and> P x"
    using assms(4) by (auto simp: bt_values_conv fmlookup_dom'_iff)
  have "bt_values m \<noteq> []" using assms(2) by (simp add: bt_values_conv)
  then obtain d ds where ds: "bt_values m = d # ds" by (cases "bt_values m") auto
  with all obtain x where x: "d = Some x" "P x" by auto
  have "\<exists>y. try_fold (\<lambda>acc next. map_option (\<lambda>delta. merge acc delta) next) x ds = Some y \<and> P y"
    by (rule try_fold_merge_Some [where P = P]) (use assms(1) x all ds in auto)
  with ds x assms(3) show ?thesis by (simp add: merge_delta_group_def)
qed

text \<open>A message that takes the tracker from the version before its range to the end of the range.\<close>

definition carries :: "'d crdt_codec \<Rightarrow> replica_id \<Rightarrow> replicator_key \<Rightarrow> u64 \<Rightarrow> replicator_delta_propagation \<Rightarrow> bool" where
  "carries codec self key v w \<longleftrightarrow> from_sender self w \<and>
     (case range_in key w of
        None \<Rightarrow> True
      | Some d \<Rightarrow> rdl_from_version d = v + 1 \<and> v < rdl_to_version d \<and> (\<exists>x. decode_delta codec d = Ok x))"

definition version_after :: "replicator_key \<Rightarrow> u64 \<Rightarrow> replicator_delta_propagation \<Rightarrow> u64" where
  "version_after key v w = (case range_in key w of None \<Rightarrow> v | Some d \<Rightarrow> rdl_to_version d)"

primrec chained :: "'d crdt_codec \<Rightarrow> replica_id \<Rightarrow> replicator_key \<Rightarrow> u64 \<Rightarrow> replicator_delta_propagation list \<Rightarrow> u64 \<Rightarrow> bool" where
  "chained codec self key v [] v' \<longleftrightarrow> v = v'"
| "chained codec self key v (w # ws) v' \<longleftrightarrow> carries codec self key v w \<and> chained codec self key (version_after key v w) ws v'"

lemma chained_snoc:
  "chained codec self key v (ws @ [w]) v' \<longleftrightarrow>
     (\<exists>u. chained codec self key v ws u \<and> carries codec self key u w \<and> version_after key u w = v')"
  by (induction ws arbitrary: v) auto

lemma version_after_ge: "carries codec self key v w \<Longrightarrow> v \<le> version_after key v w"
  by (auto simp: carries_def version_after_def split: option.splits)

lemma chained_le: "chained codec self key v ws v' \<Longrightarrow> v \<le> v'"
  by (induction ws arbitrary: v) (auto dest: version_after_ge intro: order_trans)

lemma carries_received:
  assumes "carries codec self key (tr_current_version tr self key) w"
    and "tr_apply_propagation_inner V codec clock tr st w seen = (tr', st', report)"
  shows "tr_current_version tr' self key = version_after key (tr_current_version tr self key) w \<and>
    (\<forall>s \<in> set (drr_statuses report). status_key s = key \<longrightarrow> is_applied s)"
proof -
  let ?v = "tr_current_version tr self key"
  have w: "from_sender self w" using assms(1) by (simp add: carries_def)
  note got = received_range [OF w assms(2), of key]
  show ?thesis
  proof (cases "range_in key w")
    case (Some d)
    with assms(1) obtain x where d: "rdl_from_version d = ?v + 1" "?v < rdl_to_version d" "decode_delta codec d = Ok x"
      by (auto simp: carries_def)
    have "?v \<noteq> - 1" using d(2) by (metis word_order.extremum_strict)
    then have "?v < ?v + 1" "?v + 1 \<le> rdl_to_version d" using d(2) by (simp_all add: inc_le word_Suc_greater)
    moreover from this(1) have "?v + 1 \<noteq> 0" by auto
    ultimately show ?thesis
      using got d Some by (auto simp: range_outcome_def advances_def Let_def version_after_def)
  qed (use got in \<open>simp add: version_after_def\<close>)
qed

definition in_sync :: "'d crdt_codec \<Rightarrow> ('d \<Rightarrow> bool) \<Rightarrow> replica_id \<Rightarrow> replica_id \<Rightarrow> replicator_key \<Rightarrow> ('v, 'd) channel \<Rightarrow> bool" where
  "in_sync codec valid self peer key c \<longleftrightarrow> log_ok (ch_log c) key \<and> peer \<in> set (dl_nodes (ch_log c)) \<and>
     chained codec self key (tracked self key c) (ch_in_flight c) (dl_sent (ch_log c) key peer) \<and>
     (\<forall>v. dl_sent (ch_log c) key peer < v \<and> v \<le> dl_current_version (ch_log c) key \<longrightarrow>
       (\<exists>d. dl_entry_at (ch_log c) key v = Some (Some d) \<and> valid d))"

text \<open>The versions that the peer lacks are fewer than the number from which on a range is not sent.\<close>

definition short_range :: "replica_id \<Rightarrow> replicator_key \<Rightarrow> 'd delta_log \<Rightarrow> bool" where
  "short_range peer key l \<longleftrightarrow>
     (case fmlookup (dl_entries l) key of
        None \<Rightarrow> True
      | Some es \<Rightarrow> length (bt_keys (entries_after es (dl_sent l key peer))) < dl_max_delta_versions l)"

text \<open>
  The events that keep a key in step: an update of the key records a valid payload, at a tick the range is short, a
  message is encoded and its payloads fit their length fields, and messages are delivered once and in order.
\<close>

definition reliable ::
  "('d \<Rightarrow> bool) \<Rightarrow> replica_id \<Rightarrow> replicator_key \<Rightarrow> ('v, 'd) channel \<Rightarrow> 'd channel_event \<Rightarrow> bool" where
  "reliable valid peer key c e \<longleftrightarrow>
     (case e of
        Recorded k d \<Rightarrow> k = key \<longrightarrow> (\<exists>x. d = Some x \<and> valid x)
      | IdleTick \<Rightarrow> short_range peer key (ch_log c)
      | Sent w \<Rightarrow> short_range peer key (ch_log c) \<and> (\<forall>d \<in> set (rdp_deltas w). length (rdl_payload d) < 2 ^ 64)
      | NotEncoded \<Rightarrow> False
      | Delivered i \<Rightarrow> i = 0
      | Repeated \<Rightarrow> False
      | Lost \<Rightarrow> False
      | FullState _ \<Rightarrow> True
      | NodesSet \<Rightarrow> True)"

lemma in_sync_range:
  assumes sync: "in_sync codec valid self peer key c" and rel: "short_range peer key (ch_log c)"
    and closed: "\<And>a b. valid a \<Longrightarrow> valid b \<Longrightarrow> valid (merge a b)"
    and range: "unsent_range merge (dl_max_delta_versions (ch_log c)) (dl_entries (ch_log c)) (dl_sent_to_node (ch_log c)) key peer = Some (f, t, d)"
  shows "f = dl_sent (ch_log c) key peer + 1" and "t = dl_current_version (ch_log c) key"
    and "\<exists>x. d = Some x \<and> valid x"
proof -
  let ?l = "ch_log c" and ?s = "dl_sent (ch_log c) key peer"
  have ok: "log_ok ?l key" and full: "\<And>v. ?s < v \<Longrightarrow> v \<le> dl_current_version ?l key \<Longrightarrow> \<exists>d. dl_entry_at ?l key v = Some (Some d) \<and> valid d"
    using sync by (auto simp: in_sync_def)
  note r = unsent_range_Some [OF ok range]
  have s: "?s < ?s + 1" "?s + 1 \<le> f" using log_ok_sent [OF ok] r(1) by (simp_all add: word_Suc_greater inc_le)
  have "?s + 1 \<le> dl_current_version ?l key" "?s < dl_current_version ?l key" using s r(2,3) by auto
  then have "f \<le> ?s + 1" "dl_current_version ?l key \<le> t"
    using full [OF s(1)] full [of "dl_current_version ?l key"] r(6) s(1) by auto
  then show "f = ?s + 1" "t = dl_current_version ?l key" using s r(3) by auto
  obtain es where es: "fmlookup (dl_entries ?l) key = Some es"
    using range by (cases "fmlookup (dl_entries ?l) key") (auto simp: unsent_range_def)
  let ?u = "entries_after es ?s"
  have u: "?u \<noteq> fmempty" "d = merge_delta_group merge ?u (dl_max_delta_versions ?l)"
    using range es by (auto simp: unsent_range_def range_of_def Let_def split: if_splits)
  have "\<exists>x. d = Some x \<and> valid x" if "fmlookup ?u v = Some d" for v d
  proof -
    have "?s < v" "dl_entry_at ?l key v = Some d"
      using that es s(1) by (auto simp: dl_entry_at_def split: if_splits)
    moreover from this have "v \<le> dl_current_version ?l key" using ok by (auto simp: log_ok_def)
    ultimately show ?thesis using full by fastforce
  qed
  moreover have "length (bt_keys ?u) < dl_max_delta_versions ?l" using rel es by (simp add: short_range_def)
  ultimately show "\<exists>x. d = Some x \<and> valid x"
    unfolding u(2) by (intro merge_delta_group_Some [where P = valid] closed u(1))
qed

lemma tick_in_sync:
  assumes sync: "in_sync codec valid self peer key c" and rel: "short_range peer key (ch_log c)"
    and closed: "\<And>a b. valid a \<Longrightarrow> valid b \<Longrightarrow> valid (merge a b)"
    and tick: "dl_run_tick merge n pr (ch_log c) = (l', ps, cleaned)"
  shows "propagated ps peer key = None \<Longrightarrow> dl_sent l' key peer = dl_sent (ch_log c) key peer"
    and "propagated ps peer key = Some entry \<Longrightarrow> valid (pe_delta entry) \<and> pe_from_version entry = dl_sent (ch_log c) key peer + 1 \<and>
      pe_to_version entry = dl_sent l' key peer \<and> dl_sent (ch_log c) key peer < dl_sent l' key peer"
    and "peer \<in> set (snd (dl_selected_nodes (ch_log c))) \<Longrightarrow> dl_sent l' key peer = dl_current_version (ch_log c) key"
proof -
  let ?l = "ch_log c"
  have ok: "log_ok ?l key" and mem: "peer \<in> set (dl_nodes ?l)"
    using sync by (simp_all add: in_sync_def)
  note key = dl_run_tick_key(4,5) [OF ok tick, where node = peer]
  show "dl_sent l' key peer = dl_sent ?l key peer" if none: "propagated ps peer key = None"
  proof (cases "selected_range merge ?l key peer")
    case (Some x)
    obtain f t d where x: "x = (f, t, d)" by (cases x)
    with Some in_sync_range(3) [OF sync rel closed] none key show ?thesis
      by (force simp: selected_range_def split: if_splits)
  qed (simp add: key)
  show "valid (pe_delta entry) \<and> pe_from_version entry = dl_sent (ch_log c) key peer + 1 \<and>
      pe_to_version entry = dl_sent l' key peer \<and> dl_sent (ch_log c) key peer < dl_sent l' key peer"
    if some: "propagated ps peer key = Some entry"
  proof -
    obtain f t d where r: "selected_range merge ?l key peer = Some (f, t, Some d)"
      and entry: "entry = \<lparr>pe_delta = d, pe_from_version = f, pe_to_version = t, pe_pruning = pr key\<rparr>"
      using some key(2) by (auto split: option.splits)
    then have u: "unsent_range merge (dl_max_delta_versions ?l) (dl_entries ?l) (dl_sent_to_node ?l) key peer = Some (f, t, Some d)"
      by (simp add: selected_range_def split: if_splits)
    from in_sync_range [OF sync rel closed u] unsent_range_Some(1,2) [OF ok u] key(1) r entry show ?thesis by auto
  qed
  show "dl_sent l' key peer = dl_current_version ?l key" if "peer \<in> set (snd (dl_selected_nodes ?l))"
  proof (cases "selected_range merge ?l key peer")
    case None
    then have "unsent_range merge (dl_max_delta_versions ?l) (dl_entries ?l) (dl_sent_to_node ?l) key peer = None"
      using that mem by (auto simp: selected_range_def split: if_splits)
    from unsent_range_None [OF ok this, of "dl_current_version ?l key"] sync
    have "\<not> dl_sent ?l key peer < dl_current_version ?l key" by (auto simp: in_sync_def)
    moreover have "dl_sent ?l key peer \<le> dl_current_version ?l key" using ok by (simp add: log_ok_def)
    ultimately show ?thesis using None key(1) by simp
  next
    case (Some x)
    obtain f t d where x: "x = (f, t, d)" by (cases x)
    with Some in_sync_range(2) [OF sync rel closed] key(1) show ?thesis
      by (force simp: selected_range_def split: if_splits)
  qed
qed

lemma in_sync_after_tick:
  assumes "in_sync codec valid self peer key c" and "dl_run_tick merge n pr (ch_log c) = (l', ps, cleaned)"
    and "ch_log c' = l'" and "chained codec self key (tracked self key c') (ch_in_flight c') (dl_sent l' key peer)"
  shows "in_sync codec valid self peer key c'"
proof -
  have ok: "log_ok (ch_log c) key" and mem: "peer \<in> set (dl_nodes (ch_log c))" using assms(1) by (simp_all add: in_sync_def)
  note tick = dl_run_tick_key [OF ok assms(2)]
  have "dl_sent (ch_log c) key peer \<le> dl_sent l' key peer" by (rule tick_sent_mono(1) [OF ok assms(2)])
  then show ?thesis using assms(1,3,4) tick(1,2,8) tick(7) [OF mem] by (auto simp: in_sync_def)
qed

lemma in_sync_record:
  assumes "in_sync codec valid self peer key c" and "unat (dl_current_version (ch_log c) k) + 2 < 2 ^ 64"
    and "k = key \<Longrightarrow> \<exists>x. d = Some x \<and> valid x"
  shows "in_sync codec valid self peer key (c\<lparr>ch_log := fst (dl_record_delta (ch_log c) k d)\<rparr>)"
proof -
  have ok: "log_ok (ch_log c) key" using assms(1) by (simp add: in_sync_def)
  have "v \<le> dl_current_version (ch_log c) key" if "v \<le> dl_current_version (ch_log c) key + 1" "v \<noteq> dl_current_version (ch_log c) key + 1" for v
    using that ok by (metis inc_le log_ok_def not_le order_antisym)
  with assms log_ok_record [OF ok assms(2), of d] show ?thesis by (auto simp: in_sync_def)
qed

lemma in_sync_sent:
  assumes sync: "in_sync codec valid self peer key c" and short: "short_range peer key (ch_log c)"
    and codec: "crdt_data_codec codec valid" and closed: "\<And>a b. valid a \<Longrightarrow> valid b \<Longrightarrow> valid (merge a b)"
    and tick: "dl_run_tick merge n pr (ch_log c) = (l', ps, cleaned)" and p: "fmlookup ps peer = Some p"
    and enc: "encode_delta_propagation codec self reply p = Ok w"
    and size: "\<forall>d \<in> set (rdp_deltas w). length (rdl_payload d) < 2 ^ 64"
  shows "carries codec self key (dl_sent (ch_log c) key peer) w \<and>
    version_after key (dl_sent (ch_log c) key peer) w = dl_sent l' key peer"
proof (cases "fmlookup (dp_entries p) key")
  case None
  then have "propagated ps peer key = None" using p by (simp add: propagated_def)
  with tick_in_sync(1) [OF sync short closed tick] range_in_encoded(1,2) [OF enc] None show ?thesis
    by (simp add: carries_def version_after_def)
next
  case (Some e)
  then have "propagated ps peer key = Some e" using p by (simp add: propagated_def)
  from tick_in_sync(2) [OF sync short closed tick this] have e: "valid (pe_delta e)"
    "pe_from_version e = dl_sent (ch_log c) key peer + 1" "pe_to_version e = dl_sent l' key peer"
    "dl_sent (ch_log c) key peer < dl_sent l' key peer" by auto
  obtain d where d: "range_in key w = Some d" "encode_delta codec (key, e) = Ok d"
    using range_in_encoded(3) [OF enc Some] by blast
  have "length (rdl_payload d) < 2 ^ 64" using size range_in_Some [OF d(1)] by blast
  with crdt_data_codec.delta_decodes [OF codec e(1) d(2)] obtain x where "decode_delta codec d = Ok x" by blast
  moreover have "rdl_from_version d = pe_from_version e" "rdl_to_version d = pe_to_version e" using d(2) by (auto simp: encode_delta_Ok)
  ultimately show ?thesis using e d(1) range_in_encoded(1) [OF enc] by (auto simp: carries_def version_after_def)
qed

lemma in_sync_delivered:
  assumes "in_sync codec valid self peer key c" and "ch_in_flight c = w # ws"
    and "tr_apply_propagation_inner V codec clock (ch_tracker c) (ch_state c) w seen = (tr', st', report)"
  shows "in_sync codec valid self peer key (ch_received (c\<lparr>ch_in_flight := ws\<rparr>) tr' st' (drr_statuses report)) \<and>
    (\<forall>s \<in> set (drr_statuses report). status_key s = key \<longrightarrow> is_applied s)"
proof -
  have "carries codec self key (tracked self key c) w" using assms(1,2) by (simp add: in_sync_def)
  from carries_received [OF this assms(3)] assms(1,2) show ?thesis by (simp add: in_sync_def)
qed

lemma in_sync_step:
  assumes "channel_step V merge codec self peer c e c'" and "in_sync codec valid self peer key c" and "reliable valid peer key c e"
    and "crdt_data_codec codec valid" and "\<And>a b. valid a \<Longrightarrow> valid b \<Longrightarrow> valid (merge a b)"
  shows "in_sync codec valid self peer key c' \<and>
    (\<exists>ss. ch_statuses c' = ch_statuses c @ ss \<and> (\<forall>s \<in> set ss. status_key s = key \<longrightarrow> is_applied s))"
  using assms(1)
proof cases
  case (recorded k d)
  with assms(2,3) in_sync_record [of codec valid self peer key c k d] show ?thesis by (auto simp: reliable_def)
next
  case (idle_tick n pr l' ps cleaned)
  have "propagated ps peer key = None" using idle_tick(4) by (simp add: propagated_def)
  moreover have "short_range peer key (ch_log c)" using assms(3) idle_tick(1) by (simp add: reliable_def)
  ultimately have "dl_sent l' key peer = dl_sent (ch_log c) key peer"
    using tick_in_sync(1) [OF assms(2) _ assms(5) idle_tick(3)] by blast
  then have "in_sync codec valid self peer key c'"
    using idle_tick(2) assms(2) by (intro in_sync_after_tick [OF assms(2) idle_tick(3)]) (simp_all add: in_sync_def)
  with idle_tick(2) show ?thesis by simp
next
  case (sent n pr l' ps cleaned p reply w)
  have rel: "short_range peer key (ch_log c)" "\<forall>d \<in> set (rdp_deltas w). length (rdl_payload d) < 2 ^ 64"
    using assms(3) sent(1) by (simp_all add: reliable_def)
  from in_sync_sent [OF assms(2) rel(1) assms(4,5) sent(3-5) rel(2)] assms(2) sent(2)
  have "in_sync codec valid self peer key c'"
    by (intro in_sync_after_tick [OF assms(2) sent(3)]) (auto simp: in_sync_def chained_snoc)
  with sent(2) show ?thesis by simp
next
  case (delivered xs w ys clock seen tr' st' report)
  have "xs = []" using assms(3) delivered(1) by (simp add: reliable_def)
  then have "ch_in_flight c = w # ys" using delivered(3) by simp
  from in_sync_delivered [OF assms(2) this delivered(4)] \<open>xs = []\<close> delivered(2) show ?thesis by auto
next
  case (full_state k envelope)
  with assms(2) show ?thesis by (simp add: in_sync_def)
next
  case (nodes_set ns)
  with assms(2) show ?thesis
    by (simp add: in_sync_def log_ok_set_nodes sorted_unique_nodes_def sorted_list_of_fset.rep_eq fset_of_list.rep_eq)
qed (use assms(3) in \<open>simp_all add: reliable_def\<close>)

lemma in_sync_run:
  assumes "channel_run V merge codec self peer (reliable valid peer key) c c'" and "in_sync codec valid self peer key c"
    and "crdt_data_codec codec valid" and "\<And>a b. valid a \<Longrightarrow> valid b \<Longrightarrow> valid (merge a b)"
  shows "in_sync codec valid self peer key c' \<and>
    (\<exists>ss. ch_statuses c' = ch_statuses c @ ss \<and> (\<forall>s \<in> set ss. status_key s = key \<longrightarrow> is_applied s))"
  using assms(1,2)
proof (induction rule: channel_run.induct)
  case (more c c' e c'')
  from more.IH [OF more.prems] obtain ss where ss: "in_sync codec valid self peer key c'" "ch_statuses c' = ch_statuses c @ ss"
    "\<forall>s \<in> set ss. status_key s = key \<longrightarrow> is_applied s" by blast
  from in_sync_step [OF more.hyps(3) ss(1) more.hyps(2) assms(3,4)] obtain ss' where
    "in_sync codec valid self peer key c''" "ch_statuses c'' = ch_statuses c' @ ss'"
    "\<forall>s \<in> set ss'. status_key s = key \<longrightarrow> is_applied s" by blast
  with ss show ?case by (intro conjI exI [of _ "ss @ ss'"]) auto
qed simp

lemma channel_run_step:
  assumes "allowed c e" and "channel_step V merge codec self peer c e c'" and "channel_run V merge codec self peer allowed c' c''"
  shows "channel_run V merge codec self peer allowed c c''"
  using assms(3,1,2) by (induction rule: channel_run.induct) (blast intro: channel_run.intros)+

text \<open>Delivering what is in flight, oldest first.\<close>

lemma channel_drains:
  "\<exists>c'. channel_run V merge codec self peer (reliable valid peer key) c c' \<and> ch_in_flight c' = [] \<and> ch_log c' = ch_log c"
proof (induction "ch_in_flight c" arbitrary: c)
  case Nil
  then show ?case by (intro exI [of _ c]) (simp add: channel_run.none)
next
  case (Cons w ws)
  let ?d = "channel_receive V codec w c"
  have d: "ch_in_flight ?d = ws" "ch_log ?d = ch_log c"
    using Cons.hyps(2) by (simp_all add: channel_receive_def Let_def split_beta flip: Cons.hyps(2))
  from Cons.hyps(1) [OF d(1) [symmetric]] obtain c' where c': "channel_run V merge codec self peer (reliable valid peer key) ?d c'"
    "ch_in_flight c' = []" "ch_log c' = ch_log ?d" by blast
  have "channel_step V merge codec self peer c (Delivered 0) ?d" using channel_step_receive Cons.hyps(2) by metis
  from channel_run_step [OF _ this c'(1)] c'(2,3) d(2) show ?case by (auto simp: reliable_def)
qed

section \<open>Correctness of the channel\<close>

text \<open>
  C10: Deltas and tracker stay in step on a reliable channel. The conditions are those of \<open>reliable\<close>: every update of the
  key records a payload that the codec can carry, every message of a tick is encoded (its payloads shorter than 2^64
  bytes) and is delivered once and in the order of the ticks, and at every tick the peer lacks fewer versions than
  \<open>max_delta_versions\<close>, since a longer range is recorded as sent without being sent. Then, after any interleaving of
  updates, ticks, deliveries, full-state writes and changes of the other peers, with any number of messages in flight,
  the receiver is at most behind by what is in flight: it never tracks more than the log has
  recorded as sent, it tracks exactly that when nothing is in flight, and delivering what is in flight gets it there; every
  range of the key that arrived was applied, none was reported missing or repeated. A tick that selects the peer
  brings what is recorded as sent to the current version.
\<close>

theorem delta_channel_in_sync:
  assumes "crdt_data_codec codec valid" and "\<And>a b. valid a \<Longrightarrow> valid b \<Longrightarrow> valid (merge a b)"
    and "in_sync codec valid self peer key c"
    and "channel_run V merge codec self peer (reliable valid peer key) c c'"
  shows "tracked self key c' \<le> dl_sent (ch_log c') key peer \<and>
    (ch_in_flight c' = [] \<longrightarrow> tracked self key c' = dl_sent (ch_log c') key peer) \<and>
    (\<exists>c''. channel_run V merge codec self peer (reliable valid peer key) c' c'' \<and> ch_in_flight c'' = [] \<and>
       ch_log c'' = ch_log c' \<and> tracked self key c'' = dl_sent (ch_log c') key peer) \<and>
    (\<exists>ss. ch_statuses c' = ch_statuses c @ ss \<and> (\<forall>s \<in> set ss. status_key s = key \<longrightarrow> is_applied s)) \<and>
    (\<forall>n pr. peer \<in> set (snd (dl_selected_nodes (ch_log c'))) \<longrightarrow> short_range peer key (ch_log c') \<longrightarrow>
       dl_sent (fst (dl_run_tick merge n pr (ch_log c'))) key peer = dl_current_version (ch_log c') key)"
proof -
  note run = in_sync_run [OF assms(4,3,1,2)]
  then have chain: "chained codec self key (tracked self key c') (ch_in_flight c') (dl_sent (ch_log c') key peer)"
    by (simp add: in_sync_def)
  obtain c'' where c'': "channel_run V merge codec self peer (reliable valid peer key) c' c''" "ch_in_flight c'' = []"
    "ch_log c'' = ch_log c'" using channel_drains by blast
  from in_sync_run [OF c''(1) conjunct1 [OF run] assms(1,2)] c''(2,3) have "tracked self key c'' = dl_sent (ch_log c') key peer"
    by (simp add: in_sync_def)
  moreover have "dl_sent (fst (dl_run_tick merge n pr (ch_log c'))) key peer = dl_current_version (ch_log c') key"
    if "peer \<in> set (snd (dl_selected_nodes (ch_log c')))" "short_range peer key (ch_log c')" for n pr
  proof -
    obtain l' ps cleaned where tick: "dl_run_tick merge n pr (ch_log c') = (l', ps, cleaned)" by (rule prod_cases3)
    from tick_in_sync(3) [OF conjunct1 [OF run] that(2) assms(2) tick that(1)] tick show ?thesis by simp
  qed
  ultimately show ?thesis using run c'' chain chained_le [OF chain] by auto
qed

text \<open>
  C18: Once the receiver lacks a range that the log has recorded as sent for a key, and what is still in flight is past that
  gap (a message was lost, or a range without a payload was skipped, or the peer joined after the early versions were
  cleaned up), it stays behind: no interleaving of updates, ticks, deliveries in any order, repetitions, losses and
  full-state writes lets the tracker catch up, and every later range of the key is answered as missing.
\<close>

theorem delta_gap_never_heals:
  assumes "log_ok (ch_log c) key" and "behind self peer key c"
    and "channel_run V merge codec self peer (\<lambda>_ _. True) c c'"
  shows "behind self peer key c' \<and>
    (\<exists>ss. ch_statuses c' = ch_statuses c @ ss \<and> (\<forall>s \<in> set ss. status_key s = key \<longrightarrow> is_missing s))"
proof -
  from assms(3,1,2) have "log_ok (ch_log c') key \<and> behind self peer key c' \<and>
    (\<exists>ss. ch_statuses c' = ch_statuses c @ ss \<and> (\<forall>s \<in> set ss. status_key s = key \<longrightarrow> is_missing s))"
  proof (induction rule: channel_run.induct)
    case (more c c' e c'')
    from more.IH [OF more.prems] obtain ss where ss: "log_ok (ch_log c') key" "behind self peer key c'" "ch_statuses c' = ch_statuses c @ ss"
      "\<forall>s \<in> set ss. status_key s = key \<longrightarrow> is_missing s" by blast
    from behind_step [OF more.hyps(3) ss(1,2)] obtain ss' where
      "behind self peer key c''" "ch_statuses c'' = ch_statuses c' @ ss'"
      "\<forall>s \<in> set ss'. status_key s = key \<longrightarrow> is_missing s" by blast
    with ss channel_step_log_ok [OF more.hyps(3) ss(1)] show ?case by (intro conjI exI [of _ "ss @ ss'"]) auto
  qed simp
  then show ?thesis by blast
qed

abbreviation gap_channel :: "(gcounter, gcounter) channel" where
  "gap_channel \<equiv>
     \<lparr>ch_log = fst (dl_run_tick gc_merge 5 (\<lambda>_. pt_new) (fst (dl_record_delta counter_log (ReplicatorKey ''k'') None))),
      ch_in_flight = [], ch_tracker = tr_new, ch_state = rs_new, ch_statuses = []\<rparr>"

text \<open>An update that changes nothing, a tick, then an update that counts: its delta is refused.\<close>

theorem delta_gap_never_heals_witness:
  "\<exists>c. ch_statuses c = [Missing (ReplicaId ''a'') (ReplicatorKey ''k'') 0 1 2 2] \<and>
     channel_run gcounter_ops gc_merge (gcounter_codec unlimited) (ReplicaId ''a'') (ReplicaId ''b'') (\<lambda>_ _. True) gap_channel c \<and>
     behind (ReplicaId ''a'') (ReplicaId ''b'') (ReplicatorKey ''k'') c"
proof -
  let ?k = "ReplicatorKey ''k''" and ?a = "ReplicaId ''a''" and ?b = "ReplicaId ''b''"
  let ?c1 = "gap_channel\<lparr>ch_log := fst (dl_record_delta (ch_log gap_channel) ?k (Some counter_delta))\<rparr>"
  let ?c2 = "fst (channel_send gc_merge (gcounter_codec unlimited) ?a ?b ?c1)"
  let ?c3 = "channel_receive gcounter_ops (gcounter_codec unlimited) (hd (ch_in_flight ?c2)) ?c2"
  let ?run = "channel_run gcounter_ops gc_merge (gcounter_codec unlimited) ?a ?b (\<lambda>_ _. True) gap_channel"
  have "log_ok (fst (dl_record_delta counter_log ?k None)) ?k"
    by (rule log_ok_record [OF log_ok_counter_log]) (simp add: dl_new_def dl_current_version_def)
  then have ok: "log_ok (ch_log gap_channel) ?k"
    using dl_run_tick_key(8) by (metis channel.select_convs(1) prod.collapse)
  have sent: "dl_sent (ch_log gap_channel) ?k ?b = 1" by code_simp
  have behind: "behind ?a ?b ?k gap_channel"
    unfolding behind_def sent by (simp add: tr_new_def tr_current_version_def)
  have small: "unat (dl_current_version (ch_log gap_channel) ?k) + 2 < 2 ^ 64" by code_simp
  have "?run ?c1" by (rule channel_run.more [OF channel_run.none _ channel_step.recorded [OF small]]) simp
  then have run2: "?run ?c2" by (rule channel_run.more [OF _ _ channel_step_send [OF prod.collapse [symmetric]]]) simp
  have "length (ch_in_flight ?c2) = 1" by code_simp
  then have "ch_in_flight ?c2 = [hd (ch_in_flight ?c2)]" by (cases "ch_in_flight ?c2") simp_all
  from channel_run.more [OF run2 _ channel_step_receive [OF this]] have run: "?run ?c3" by simp
  have "ch_statuses ?c3 = [Missing ?a ?k 0 1 2 2]" by code_simp
  with run delta_gap_never_heals [OF ok behind run] show ?thesis by blast
qed

lemma gcounter_ok_iff:
  "gcounter_ok unlimited c \<longleftrightarrow> (\<forall>r v. fmlookup (gc_state c) r = Some v \<longrightarrow> wf_replica r) \<and> gc_pos c \<and> gc_delta c = None"
  by (auto simp: gcounter_ok_def list_all_iff)

lemma gcounter_ok_merge: "gcounter_ok unlimited a \<Longrightarrow> gcounter_ok unlimited b \<Longrightarrow> gcounter_ok unlimited (gc_merge a b)"
  by (auto simp: gcounter_ok_iff gc_pos_merge) (auto simp: gc_merge_def fmlookup_merge_max split: option.splits)

abbreviation fresh_channel :: "(gcounter, gcounter) channel" where
  "fresh_channel \<equiv> \<lparr>ch_log = counter_log, ch_in_flight = [], ch_tracker = tr_new, ch_state = rs_new, ch_statuses = []\<rparr>"

text \<open>An update, a tick and the delivery of its message.\<close>

theorem delta_channel_in_sync_witness:
  "\<exists>c. ch_statuses c = [Applied (ReplicaId ''a'') (ReplicatorKey ''k'') 0 1 True] \<and> ch_in_flight c = [] \<and>
     channel_run gcounter_ops gc_merge (gcounter_codec unlimited) (ReplicaId ''a'') (ReplicaId ''b'')
       (reliable (gcounter_ok unlimited) (ReplicaId ''b'') (ReplicatorKey ''k'')) fresh_channel c \<and>
     tracked (ReplicaId ''a'') (ReplicatorKey ''k'') c = dl_sent (ch_log c) (ReplicatorKey ''k'') (ReplicaId ''b'')"
proof -
  let ?k = "ReplicatorKey ''k''" and ?a = "ReplicaId ''a''" and ?b = "ReplicaId ''b''"
  let ?c1 = "fresh_channel\<lparr>ch_log := fst (dl_record_delta counter_log ?k (Some counter_delta))\<rparr>"
  let ?s = "channel_send gc_merge (gcounter_codec unlimited) ?a ?b ?c1"
  let ?w = "hd (ch_in_flight (fst ?s))"
  let ?c3 = "channel_receive gcounter_ops (gcounter_codec unlimited) ?w (fst ?s)"
  let ?run = "channel_run gcounter_ops gc_merge (gcounter_codec unlimited) ?a ?b (reliable (gcounter_ok unlimited) ?b ?k) fresh_channel"
  have codec: "crdt_data_codec (gcounter_codec unlimited) (gcounter_ok unlimited)" by (rule gcounter_cc.crdt_data_codec_axioms)
  have sync: "in_sync (gcounter_codec unlimited) (gcounter_ok unlimited) ?a ?b ?k fresh_channel"
    using log_ok_counter_log [of ?k]
    by (auto simp: in_sync_def tr_current_version_def tr_new_def sent_at_def dl_new_def dl_current_version_def)
  have "wf_replica ?a" by code_simp
  then have valid: "gcounter_ok unlimited counter_delta"
    by (auto simp: gcounter_ok_iff gc_pos_def fmpred_iff split: if_splits)
  have small: "unat (dl_current_version (ch_log fresh_channel) ?k) + 2 < 2 ^ 64" by code_simp
  have step: "channel_step gcounter_ops gc_merge (gcounter_codec unlimited) ?a ?b fresh_channel (Recorded ?k (Some counter_delta)) ?c1"
    using channel_step.recorded [OF small, where d = "Some counter_delta"] by simp
  have run: "?run ?c1"
    by (rule channel_run.more [OF channel_run.none _ step]) (simp add: reliable_def valid)
  have "case snd ?s of Sent w \<Rightarrow> list_all (\<lambda>d. length (rdl_payload d) < 2 ^ 64) (rdp_deltas w) | _ \<Rightarrow> False" by code_simp
  moreover have "short_range ?b ?k (ch_log ?c1)" by code_simp
  ultimately have rel: "reliable (gcounter_ok unlimited) ?b ?k ?c1 (snd ?s)"
    unfolding reliable_def list_all_iff by (cases "snd ?s") auto
  have run2: "?run (fst ?s)"
    by (rule channel_run.more [OF run rel channel_step_send]) simp
  have "length (ch_in_flight (fst ?s)) = 1" by code_simp
  then have "ch_in_flight (fst ?s) = [?w]" by (cases "ch_in_flight (fst ?s)") simp_all
  from channel_run.more [OF run2 _ channel_step_receive [OF this]] have run3: "?run ?c3" by (simp add: reliable_def)
  have "ch_statuses ?c3 = [Applied ?a ?k 0 1 True]" "ch_in_flight ?c3 = []" by code_simp+
  with run3 delta_channel_in_sync [OF codec gcounter_ok_merge sync run3] show ?thesis by blast
qed

end
