(* ===== verification/Quorum.thy ===== *)
theory Quorum
  imports Replicator_State
begin

text \<open>
  Consistency levels and quorum aggregation: \<open>consistency.rs\<close> and \<open>aggregation.rs\<close> of
  \<open>kairo-distributed-data/src\<close>. Sizes (\<open>usize\<close>) are naturals; the one sum of caller-supplied sizes, in
  \<open>calculate_majority\<close>, wraps at 64 bits as it does in a build without overflow checks. A timeout is carried
  along and never read here, so durations are naturals.

  The lemmas give the outcome of an aggregation for every sequence of replies, bound the majority, and show that a
  majority read sees every completed majority write.
\<close>

section \<open>Consistency levels\<close>

type_synonym duration = nat

datatype consistency_error = ReplicaCountTooSmall nat

datatype read_consistency =
    ReadLocal
  | ReadFrom nat duration
  | ReadMajority duration nat
  | ReadMajorityPlus duration nat nat
  | ReadAll duration

datatype write_consistency =
    WriteLocal
  | WriteTo nat duration
  | WriteMajority duration nat
  | WriteMajorityPlus duration nat nat
  | WriteAll duration

definition ensure_multi_replica :: "nat \<Rightarrow> (consistency_error, unit) result" where
  "ensure_multi_replica replicas = (if replicas \<ge> 2 then Ok () else Err (ReplicaCountTooSmall replicas))"

definition read_from :: "nat \<Rightarrow> duration \<Rightarrow> (consistency_error, read_consistency) result" where
  "read_from replicas timeout = bind_result (ensure_multi_replica replicas) (\<lambda>_. Ok (ReadFrom replicas timeout))"

definition read_majority :: "duration \<Rightarrow> read_consistency" where
  "read_majority timeout = ReadMajority timeout 0"

definition read_majority_plus :: "duration \<Rightarrow> nat \<Rightarrow> read_consistency" where
  "read_majority_plus timeout additional = ReadMajorityPlus timeout additional 0"

fun read_is_local :: "read_consistency \<Rightarrow> nat \<Rightarrow> bool" where
  "read_is_local ReadLocal remote_replica_count = True"
| "read_is_local (ReadFrom _ _) remote_replica_count = False"
| "read_is_local _ remote_replica_count = (remote_replica_count = 0)"

fun read_timeout :: "read_consistency \<Rightarrow> duration option" where
  "read_timeout ReadLocal = None"
| "read_timeout (ReadFrom _ timeout) = Some timeout"
| "read_timeout (ReadMajority timeout _) = Some timeout"
| "read_timeout (ReadMajorityPlus timeout _ _) = Some timeout"
| "read_timeout (ReadAll timeout) = Some timeout"

definition write_to :: "nat \<Rightarrow> duration \<Rightarrow> (consistency_error, write_consistency) result" where
  "write_to replicas timeout = bind_result (ensure_multi_replica replicas) (\<lambda>_. Ok (WriteTo replicas timeout))"

definition write_majority :: "duration \<Rightarrow> write_consistency" where
  "write_majority timeout = WriteMajority timeout 0"

definition write_majority_plus :: "duration \<Rightarrow> nat \<Rightarrow> write_consistency" where
  "write_majority_plus timeout additional = WriteMajorityPlus timeout additional 0"

fun write_is_local :: "write_consistency \<Rightarrow> nat \<Rightarrow> bool" where
  "write_is_local WriteLocal remote_replica_count = True"
| "write_is_local (WriteTo _ _) remote_replica_count = False"
| "write_is_local _ remote_replica_count = (remote_replica_count = 0)"

fun write_timeout :: "write_consistency \<Rightarrow> duration option" where
  "write_timeout WriteLocal = None"
| "write_timeout (WriteTo _ timeout) = Some timeout"
| "write_timeout (WriteMajority timeout _) = Some timeout"
| "write_timeout (WriteMajorityPlus timeout _ _) = Some timeout"
| "write_timeout (WriteAll timeout) = Some timeout"

section \<open>Quorum sizes and replica selection\<close>

datatype aggregation_error = LocalConsistencyUnsupported | NotEnoughReplicas nat nat

definition usize_add :: "nat \<Rightarrow> nat \<Rightarrow> nat" where
  "usize_add a b = (a + b) mod 2 ^ 64"

definition calculate_majority :: "nat \<Rightarrow> nat \<Rightarrow> nat \<Rightarrow> nat" where
  "calculate_majority min_cap total_replicas additional =
     (let majority = total_replicas div 2 + 1
      in min total_replicas (max (usize_add majority additional) min_cap))"

fun required_remote_count_for_write :: "write_consistency \<Rightarrow> nat \<Rightarrow> (aggregation_error, nat) result" where
  "required_remote_count_for_write WriteLocal remote_count = Err LocalConsistencyUnsupported"
| "required_remote_count_for_write (WriteTo replicas _) remote_count = Ok (replicas - 1)"
| "required_remote_count_for_write (WriteMajority _ min_cap) remote_count =
     Ok (calculate_majority min_cap (remote_count + 1) 0 - 1)"
| "required_remote_count_for_write (WriteMajorityPlus _ additional min_cap) remote_count =
     Ok (calculate_majority min_cap (remote_count + 1) additional - 1)"
| "required_remote_count_for_write (WriteAll _) remote_count = Ok (remote_count + 1 - 1)"

fun required_remote_count_for_read :: "read_consistency \<Rightarrow> nat \<Rightarrow> (aggregation_error, nat) result" where
  "required_remote_count_for_read ReadLocal remote_count = Err LocalConsistencyUnsupported"
| "required_remote_count_for_read (ReadFrom replicas _) remote_count = Ok (replicas - 1)"
| "required_remote_count_for_read (ReadMajority _ min_cap) remote_count =
     Ok (calculate_majority min_cap (remote_count + 1) 0 - 1)"
| "required_remote_count_for_read (ReadMajorityPlus _ additional min_cap) remote_count =
     Ok (calculate_majority min_cap (remote_count + 1) additional - 1)"
| "required_remote_count_for_read (ReadAll _) remote_count = Ok (remote_count + 1 - 1)"

definition ensure_available :: "nat \<Rightarrow> nat \<Rightarrow> (aggregation_error, unit) result" where
  "ensure_available required available =
     (if required \<le> available then Ok () else Err (NotEnoughReplicas required available))"

definition required_remote_write_acks :: "write_consistency \<Rightarrow> nat \<Rightarrow> (aggregation_error, nat) result" where
  "required_remote_write_acks consistency remote_count =
     bind_result (required_remote_count_for_write consistency remote_count) (\<lambda>required.
     bind_result (ensure_available required remote_count) (\<lambda>_. Ok required))"

definition required_remote_read_results :: "read_consistency \<Rightarrow> nat \<Rightarrow> (aggregation_error, nat) result" where
  "required_remote_read_results consistency remote_count = required_remote_count_for_read consistency remote_count"

record replica_selection =
  sel_primary :: "replica_id list"
  sel_secondary :: "replica_id list"

definition select_replicas :: "replica_id list \<Rightarrow> replica_id fset \<Rightarrow> nat \<Rightarrow> replica_selection" where
  "select_replicas remote_nodes unreachable primary_size =
     (let ordered = filter (\<lambda>node. node |\<notin>| unreachable) remote_nodes @ filter (\<lambda>node. node |\<in>| unreachable) remote_nodes;
          primary_size = min primary_size (length ordered)
      in \<lparr>sel_primary = take primary_size ordered, sel_secondary = take 10 (drop primary_size ordered)\<rparr>)"

section \<open>Write aggregation\<close>

datatype write_aggregation_outcome =
    WriteInProgress
  | WriteSuccess
  | WriteFailed nat nat
  | WriteTimedOut nat nat

record write_aggregator =
  wa_key :: replicator_key
  wa_remote_nodes :: "replica_id list"
  wa_required_remote_acks :: nat
  wa_acked :: "replica_id fset"
  wa_nacked :: "replica_id fset"

definition wa_new :: "replicator_key \<Rightarrow> write_consistency \<Rightarrow> replica_id list \<Rightarrow> (aggregation_error, write_aggregator) result" where
  "wa_new key consistency remote_nodes =
     bind_result (required_remote_write_acks consistency (length remote_nodes)) (\<lambda>required.
       Ok \<lparr>wa_key = key, wa_remote_nodes = remote_nodes, wa_required_remote_acks = required,
           wa_acked = {||}, wa_nacked = {||}\<rparr>)"

definition wa_outcome :: "write_aggregator \<Rightarrow> write_aggregation_outcome" where
  "wa_outcome a =
     (if fcard (wa_acked a) \<ge> wa_required_remote_acks a then WriteSuccess
      else
        let available = length (wa_remote_nodes a) - fcard (wa_nacked a)
        in if available < wa_required_remote_acks a then WriteFailed (wa_required_remote_acks a) available
           else WriteInProgress)"

definition wa_record_ack :: "write_aggregator \<Rightarrow> replica_id \<Rightarrow> write_aggregator \<times> write_aggregation_outcome" where
  "wa_record_ack a replica =
     (let a = (if replica \<in> set (wa_remote_nodes a)
               then a\<lparr>wa_nacked := wa_nacked a |-| {|replica|}, wa_acked := finsert replica (wa_acked a)\<rparr> else a)
      in (a, wa_outcome a))"

definition wa_record_nack :: "write_aggregator \<Rightarrow> replica_id \<Rightarrow> write_aggregator \<times> write_aggregation_outcome" where
  "wa_record_nack a replica =
     (let a = (if replica \<in> set (wa_remote_nodes a) \<and> replica |\<notin>| wa_acked a
               then a\<lparr>wa_nacked := finsert replica (wa_nacked a)\<rparr> else a)
      in (a, wa_outcome a))"

definition wa_timeout :: "write_aggregator \<Rightarrow> write_aggregation_outcome" where
  "wa_timeout a =
     (if fcard (wa_acked a) \<ge> wa_required_remote_acks a then WriteSuccess
      else WriteTimedOut (wa_required_remote_acks a) (fcard (wa_acked a)))"

definition wa_select_replicas :: "write_aggregator \<Rightarrow> replica_id fset \<Rightarrow> replica_selection" where
  "wa_select_replicas a unreachable = select_replicas (wa_remote_nodes a) unreachable (wa_required_remote_acks a)"

section \<open>Read aggregation\<close>

datatype 'v read_aggregation_outcome =
    ReadInProgress
  | ReadSuccess "'v data_envelope"
  | ReadNotFound
  | ReadFailure nat nat

record 'v read_aggregator =
  ra_key :: replicator_key
  ra_remote_nodes :: "replica_id list"
  ra_required_remote_reads :: nat
  ra_received :: nat
  ra_received_from :: "replica_id fset"
  ra_result :: "'v data_envelope option"

definition ra_new ::
  "replicator_key \<Rightarrow> read_consistency \<Rightarrow> replica_id list \<Rightarrow> 'v data_envelope option
     \<Rightarrow> (aggregation_error, 'v read_aggregator) result" where
  "ra_new key consistency remote_nodes local_value =
     bind_result (required_remote_read_results consistency (length remote_nodes)) (\<lambda>required.
       Ok \<lparr>ra_key = key, ra_remote_nodes = remote_nodes, ra_required_remote_reads = required, ra_received = 0,
           ra_received_from = {||}, ra_result = local_value\<rparr>)"

definition ra_outcome :: "'v read_aggregator \<Rightarrow> 'v read_aggregation_outcome" where
  "ra_outcome a =
     (if ra_required_remote_reads a > length (ra_remote_nodes a)
      then ReadFailure (ra_required_remote_reads a) (ra_received a)
      else if ra_received a < ra_required_remote_reads a then ReadInProgress
      else case ra_result a of Some envelope \<Rightarrow> ReadSuccess envelope | None \<Rightarrow> ReadNotFound)"

definition ra_record_read ::
  "('v, 'd, 'x) value_ops_scheme \<Rightarrow> 'v read_aggregator \<Rightarrow> 'v data_envelope option
     \<Rightarrow> 'v read_aggregator \<times> 'v read_aggregation_outcome" where
  "ra_record_read V a envelope =
     (let a = a\<lparr>ra_received := ra_received a + 1,
           ra_result := (case (ra_result a, envelope) of
               (Some left, Some right) \<Rightarrow> Some (de_merge V left right)
             | (Some left, None) \<Rightarrow> Some left
             | (None, Some right) \<Rightarrow> Some right
             | (None, None) \<Rightarrow> None)\<rparr>
      in (a, ra_outcome a))"

definition ra_record_read_from ::
  "('v, 'd, 'x) value_ops_scheme \<Rightarrow> 'v read_aggregator \<Rightarrow> replica_id \<Rightarrow> 'v data_envelope option
     \<Rightarrow> 'v read_aggregator \<times> 'v read_aggregation_outcome" where
  "ra_record_read_from V a replica envelope =
     (if replica \<notin> set (ra_remote_nodes a) \<or> replica |\<in>| ra_received_from a then (a, ra_outcome a)
      else ra_record_read V (a\<lparr>ra_received_from := finsert replica (ra_received_from a)\<rparr>) envelope)"

definition ra_timeout :: "'v read_aggregator \<Rightarrow> 'v read_aggregation_outcome" where
  "ra_timeout a =
     (case ra_outcome a of
        ReadInProgress \<Rightarrow> ReadFailure (ra_required_remote_reads a) (ra_received a)
      | outcome \<Rightarrow> outcome)"

definition ra_select_replicas :: "'v read_aggregator \<Rightarrow> replica_id fset \<Rightarrow> replica_selection" where
  "ra_select_replicas a unreachable = select_replicas (ra_remote_nodes a) unreachable (ra_required_remote_reads a)"

section \<open>Majorities\<close>

lemma calculate_majority_le: "calculate_majority c n a \<le> n"
  by (simp add: calculate_majority_def Let_def)

lemma calculate_majority_gt:
  assumes "0 < n" and "n div 2 + 1 + a < 2 ^ 64"
  shows "n div 2 < calculate_majority c n a"
  using assms by (auto simp: calculate_majority_def usize_add_def Let_def)

text \<open>
  C37: The size of a majority quorum is at most the number of replicas and more than half of it, as long as the sum of
  the majority and the additional replicas fits in 64 bits. The sum is not checked: with the largest additional count it wraps
  and the quorum is half of the replicas, which is no majority.
\<close>

theorem majority_bounds:
  assumes "0 < n" and "n < 2 ^ 64"
  shows "calculate_majority min_cap n additional \<le> n \<and>
    (n div 2 + 1 + additional < 2 ^ 64 \<longrightarrow> n div 2 < calculate_majority min_cap n additional) \<and>
    calculate_majority 0 n (2 ^ 64 - 1) = n div 2"
proof -
  have "usize_add (n div 2 + 1) (2 ^ 64 - 1) = (n div 2 + 2 ^ 64) mod 2 ^ 64" by (simp add: usize_add_def)
  also have "\<dots> = n div 2" using assms(2) by (simp only: mod_add_self2) simp
  finally show ?thesis
    using calculate_majority_le calculate_majority_gt [OF assms(1)] by (simp add: calculate_majority_def Let_def)
qed

theorem majority_bounds_witness:
  "calculate_majority 0 5 0 = 3 \<and> 5 div 2 < calculate_majority 0 5 0 \<and> calculate_majority 0 5 (2 ^ 64 - 1) = 2"
  using majority_bounds [of 5 0 0] by (simp add: calculate_majority_def usize_add_def)

lemma quorums_meet:
  assumes "finite N" "A \<subseteq> N" "B \<subseteq> N" and "card N < card A + card B"
  shows "A \<inter> B \<noteq> {}"
proof
  assume "A \<inter> B = {}"
  then have "card (A \<union> B) = card A + card B" using assms by (intro card_Un_disjoint) (auto dest: finite_subset)
  moreover have "card (A \<union> B) \<le> card N" using assms by (intro card_mono) auto
  ultimately show False using assms(4) by simp
qed

section \<open>Replies to a write\<close>

datatype write_reply = Ack replica_id | Nack replica_id

primrec wa_reply :: "write_reply \<Rightarrow> write_aggregator \<Rightarrow> write_aggregator" where
  "wa_reply (Ack replica) a = fst (wa_record_ack a replica)"
| "wa_reply (Nack replica) a = fst (wa_record_nack a replica)"

abbreviation wa_run :: "write_reply list \<Rightarrow> write_aggregator \<Rightarrow> write_aggregator" where
  "wa_run replies \<equiv> fold wa_reply replies"

lemma wa_reply_fixed [simp]:
  "wa_remote_nodes (wa_reply x a) = wa_remote_nodes a" "wa_required_remote_acks (wa_reply x a) = wa_required_remote_acks a"
  by (cases x; simp add: wa_record_ack_def wa_record_nack_def Let_def)+

lemma wa_run_fixed [simp]:
  "wa_remote_nodes (wa_run xs a) = wa_remote_nodes a" "wa_required_remote_acks (wa_run xs a) = wa_required_remote_acks a"
  by (induction xs arbitrary: a) simp_all

lemma wa_run_sets:
  assumes "wa_acked a = {||}" "wa_nacked a = {||}"
  shows "fset (wa_acked (wa_run xs a)) = {r \<in> set (wa_remote_nodes a). Ack r \<in> set xs}"
    and "fset (wa_nacked (wa_run xs a)) = {r \<in> set (wa_remote_nodes a). Nack r \<in> set xs \<and> Ack r \<notin> set xs}"
proof (induction xs rule: rev_induct)
  case (snoc x xs)
  {
    case 1
    show ?case using snoc by (cases x) (auto simp: wa_record_ack_def wa_record_nack_def Let_def)
  next
    case 2
    show ?case using snoc by (cases x) (auto simp: wa_record_ack_def wa_record_nack_def Let_def)
  }
qed (simp_all add: assms)

lemma wa_new_Ok:
  assumes "wa_new key consistency remote = Ok a"
  shows "wa_remote_nodes a = remote" "wa_acked a = {||}" "wa_nacked a = {||}"
    "wa_required_remote_acks a \<le> length remote"
    "required_remote_count_for_write consistency (length remote) = Ok (wa_required_remote_acks a)"
  using assms by (auto simp: wa_new_def required_remote_write_acks_def ensure_available_def split: if_splits)

text \<open>
  C38: The outcome of a write aggregation depends only on which known replicas acknowledged and which refused, not on the
  order, repetition or unknown senders of the replies: it succeeds exactly when enough distinct replicas acknowledged, it fails exactly when
  too few could still do so, an acknowledgement overrides a refusal, and a success is final.
\<close>

theorem write_aggregation_correct:
  assumes "wa_new key consistency remote = Ok a"
  shows "let acked = card {r \<in> set remote. Ack r \<in> set replies};
      nacked = card {r \<in> set remote. Nack r \<in> set replies \<and> Ack r \<notin> set replies};
      required = wa_required_remote_acks a; available = length remote - nacked
    in wa_outcome (wa_run replies a) =
         (if required \<le> acked then WriteSuccess else if available < required then WriteFailed required available else WriteInProgress) \<and>
       wa_timeout (wa_run replies a) = (if required \<le> acked then WriteSuccess else WriteTimedOut required acked) \<and>
       (wa_outcome (wa_run replies a) = WriteSuccess \<longrightarrow> wa_outcome (wa_run (replies @ later) a) = WriteSuccess)"
proof -
  note new = wa_new_Ok [OF assms]
  have cards: "fcard (wa_acked (wa_run xs a)) = card {r \<in> set remote. Ack r \<in> set xs}"
    "fcard (wa_nacked (wa_run xs a)) = card {r \<in> set remote. Nack r \<in> set xs \<and> Ack r \<notin> set xs}" for xs
    using wa_run_sets [OF new(2,3), of xs] by (simp_all add: fcard.rep_eq new(1))
  have "card {r \<in> set remote. Ack r \<in> set replies} \<le> card {r \<in> set remote. Ack r \<in> set (replies @ later)}"
    by (intro card_mono) auto
  then show ?thesis
    unfolding Let_def wa_outcome_def wa_timeout_def cards wa_run_fixed new(1) by auto
qed

theorem write_aggregation_correct_witness:
  "\<exists>a. wa_new (ReplicatorKey ''k'') (WriteMajority 0 0) [ReplicaId ''b'', ReplicaId ''c''] = Ok a \<and>
    wa_outcome (wa_run [Nack (ReplicaId ''b''), Ack (ReplicaId ''z''), Ack (ReplicaId ''b'')] a) = WriteSuccess"
proof -
  let ?bc = "[ReplicaId ''b'', ReplicaId ''c'']" and ?rs = "[Nack (ReplicaId ''b''), Ack (ReplicaId ''z''), Ack (ReplicaId ''b'')]"
  obtain a where a: "wa_new (ReplicatorKey ''k'') (WriteMajority 0 0) ?bc = Ok a" "wa_required_remote_acks a = 1"
    by (simp add: wa_new_def required_remote_write_acks_def calculate_majority_def usize_add_def ensure_available_def)
  have "{r \<in> set ?bc. Ack r \<in> set ?rs} = {ReplicaId ''b''}" by auto
  with write_aggregation_correct [OF a(1), of ?rs] a show ?thesis by (auto simp: Let_def)
qed

section \<open>Replies to a read\<close>

definition ra_run ::
  "('v, 'd, 'x) value_ops_scheme \<Rightarrow> (replica_id \<times> 'v data_envelope option) list \<Rightarrow> 'v read_aggregator \<Rightarrow> 'v read_aggregator" where
  "ra_run V replies = fold (\<lambda>(replica, envelope) a. fst (ra_record_read_from V a replica envelope)) replies"

lemma ra_run_simps [simp]:
  "ra_run V [] a = a"
  "ra_run V (xs @ [x]) a = fst (ra_record_read_from V (ra_run V xs a) (fst x) (snd x))"
  by (simp_all add: ra_run_def split_def)

lemma ra_record_read_from_cases:
  "fst (ra_record_read_from V a q x) =
     (if q \<notin> set (ra_remote_nodes a) \<or> q |\<in>| ra_received_from a then a
      else a\<lparr>ra_received_from := finsert q (ra_received_from a), ra_received := ra_received a + 1,
        ra_result := (case (ra_result a, x) of (Some l, Some r) \<Rightarrow> Some (de_merge V l r) | (Some l, None) \<Rightarrow> Some l
          | (None, Some r) \<Rightarrow> Some r | (None, None) \<Rightarrow> None)\<rparr>)"
  by (simp add: ra_record_read_from_def ra_record_read_def Let_def)

lemma ra_run_fixed [simp]:
  "ra_remote_nodes (ra_run V xs a) = ra_remote_nodes a" "ra_required_remote_reads (ra_run V xs a) = ra_required_remote_reads a"
  by (induction xs rule: rev_induct) (simp_all add: ra_record_read_from_cases)

lemma ra_run_received:
  assumes "ra_received a = 0" "ra_received_from a = {||}"
  shows "fset (ra_received_from (ra_run V xs a)) = {q \<in> set (ra_remote_nodes a). \<exists>x. (q, x) \<in> set xs} \<and>
    ra_received (ra_run V xs a) = fcard (ra_received_from (ra_run V xs a))"
proof (induction xs rule: rev_induct)
  case (snoc x xs)
  have "fcard (finsert q A) = fcard A + 1" if "q |\<notin>| A" for q and A :: "replica_id fset"
    using that by (simp add: fcard_finsert_disjoint)
  with snoc show ?case by (cases x) (auto simp: ra_record_read_from_cases)
qed (simp add: assms)

text \<open>An envelope includes another one when merging that one into it changes nothing but the pending delta.\<close>

definition de_includes :: "('v, 'd) value_ops \<Rightarrow> 'v data_envelope \<Rightarrow> 'v data_envelope \<Rightarrow> bool" where
  "de_includes V e big \<longleftrightarrow> de_merge V e big = \<lparr>de_data = vo_reset_delta V (de_data big), de_pruning = de_pruning big\<rparr>"

definition ra_includes :: "('v, 'd) value_ops \<Rightarrow> 'v data_envelope \<Rightarrow> 'v read_aggregator \<Rightarrow> bool" where
  "ra_includes V e a \<longleftrightarrow> (\<exists>res. ra_result a = Some res \<and> de_includes V e res)"

context envelope_data
begin

definition ra_wf :: "'v read_aggregator \<Rightarrow> bool" where
  "ra_wf a \<longleftrightarrow> (\<forall>e. ra_result a = Some e \<longrightarrow> wf (de_data e))"

lemma includes_below: "de_includes V = env.below"
  by (intro ext) (simp add: de_includes_def env.below_def)

lemma read_step:
  fixes q :: replica_id
  assumes "ra_wf a" and "\<forall>e. x = Some e \<longrightarrow> wf (de_data e)"
  defines "a' \<equiv> fst (ra_record_read_from V a q x)"
  shows "ra_wf a'"
    and "wf (de_data e) \<Longrightarrow> ra_includes V e a \<Longrightarrow> ra_includes V e a'"
    and "q \<in> set (ra_remote_nodes a) \<Longrightarrow> q |\<notin>| ra_received_from a \<Longrightarrow> x = Some e \<Longrightarrow> ra_includes V e a'"
proof -
  show "ra_wf a'"
    using assms by (auto simp: ra_wf_def ra_record_read_from_cases env.wf_merge split: option.splits if_splits)
  show "ra_includes V e a'" if e: "wf (de_data e)" "ra_includes V e a"
  proof -
    obtain res where res: "ra_result a = Some res" "env.below e res" "wf (de_data res)"
      using e assms(1) by (auto simp: ra_includes_def includes_below ra_wf_def)
    have "env.below e (de_merge V res y)" if "wf (de_data y)" for y
      using env.below_trans [OF e(1) res(3) env.wf_merge [OF res(3) that] res(2)] env.below_merge_left [OF res(3) that] by blast
    with res assms(2) show ?thesis
      by (auto simp: a'_def ra_includes_def ra_record_read_from_cases includes_below split: option.split)
  qed
  show "ra_includes V e a'" if "q \<in> set (ra_remote_nodes a)" "q |\<notin>| ra_received_from a" "x = Some e"
    using that assms(1,2)
    by (auto simp: a'_def ra_includes_def ra_record_read_from_cases includes_below ra_wf_def
        env.below_merge_right env.below_refl split: option.split)
qed

text \<open>The result of a read includes the local value and one value of every replica that was counted.\<close>

lemma read_result_includes:
  assumes "ra_received_from a = {||}" and "ra_wf a" and "\<forall>(q, x) \<in> set xs. \<forall>e. x = Some e \<longrightarrow> wf (de_data e)"
  shows "ra_wf (ra_run V xs a) \<and>
    (\<forall>e. wf (de_data e) \<longrightarrow> ra_includes V e a \<longrightarrow> ra_includes V e (ra_run V xs a)) \<and>
    (\<forall>q. q |\<in>| ra_received_from (ra_run V xs a) \<longrightarrow>
      (\<exists>x. (q, x) \<in> set xs \<and> (\<forall>e. x = Some e \<longrightarrow> ra_includes V e (ra_run V xs a))))"
  using assms(3)
proof (induction xs rule: rev_induct)
  case (snoc y ys)
  obtain p x where y: "y = (p, x)" by fastforce
  have ys: "\<forall>(q, x) \<in> set ys. \<forall>e. x = Some e \<longrightarrow> wf (de_data e)" and x: "\<forall>e. x = Some e \<longrightarrow> wf (de_data e)"
    using snoc.prems y by auto
  note IH = snoc.IH [OF ys]
  note step = read_step [OF conjunct1 [OF IH] x, where q = p]
  have "\<exists>z. (q, z) \<in> set (ys @ [y]) \<and> (\<forall>e. z = Some e \<longrightarrow> ra_includes V e (ra_run V (ys @ [y]) a))"
    if q: "q |\<in>| ra_received_from (ra_run V (ys @ [y]) a)" for q
  proof (cases "q |\<in>| ra_received_from (ra_run V ys a)")
    case True
    with IH obtain z where "(q, z) \<in> set ys" "\<forall>e. z = Some e \<longrightarrow> ra_includes V e (ra_run V ys a)" by blast
    with step(2) ys show ?thesis by (intro exI [of _ z]) (auto simp: y)
  next
    case False
    with q have "q = p" "q \<in> set (ra_remote_nodes a)" by (auto simp: y ra_record_read_from_cases split: if_splits)
    with step(3) False show ?thesis by (intro exI [of _ x]) (auto simp: y)
  qed
  with step(1,2) IH show ?case by (simp add: y)
qed (use assms(1,2) in simp)

end

lemma ra_new_Ok:
  assumes "ra_new key consistency remote local_value = Ok a"
  shows "ra_remote_nodes a = remote" "ra_received a = 0" "ra_received_from a = {||}" "ra_result a = local_value"
    "required_remote_count_for_read consistency (length remote) = Ok (ra_required_remote_reads a)"
  using assms by (auto simp: ra_new_def required_remote_read_results_def)

text \<open>The replicas behind a completed majority write and a completed majority read.\<close>

lemma majority_quorums_meet:
  assumes "distinct (w # ws)" "distinct (r # rs)" "set (w # ws) = set (r # rs)" "length (w # ws) < 2 ^ 64"
    and "A \<subseteq> set ws" "calculate_majority c (length ws + 1) 0 - 1 \<le> card A"
    and "B \<subseteq> set rs" "calculate_majority d (length rs + 1) 0 - 1 \<le> card B"
  shows "insert w A \<inter> insert r B \<noteq> {}"
proof (rule quorums_meet)
  let ?n = "length ws + 1"
  have n: "length rs = length ws" using assms(1-3) distinct_card [of "w # ws"] distinct_card [of "r # rs"] by simp
  have fin: "finite A" "finite B" using assms(5,7) by (auto dest: finite_subset)
  have "?n div 2 < calculate_majority c ?n 0" "?n div 2 < calculate_majority d ?n 0"
    using assms(4) by (intro calculate_majority_gt; simp)+
  moreover have "card (insert w A) = card A + 1" "card (insert r B) = card B + 1"
    using assms(1,2,5,7) fin by (auto simp: card_insert_if)
  moreover have "card (set (w # ws)) = ?n" using distinct_card [OF assms(1)] by simp
  ultimately show "card (set (w # ws)) < card (insert w A) + card (insert r B)"
    using assms(6,8) n by simp
qed (use assms(3,5,7) in auto)

context envelope_data
begin

lemma majority_read:
  assumes nodes: "distinct (w # ws)" "distinct (r # rs)" "set (w # ws) = set (r # rs)" "length (w # ws) < 2 ^ 64"
    and wa: "wa_new key (WriteMajority t c) ws = Ok wa" "wa_outcome (wa_run replies wa) = WriteSuccess"
    and stored: "\<forall>q. q = w \<or> q \<in> set ws \<and> Ack q \<in> set replies \<longrightarrow> (\<exists>s. held q = Some s \<and> de_includes V written s)"
    and wf: "\<forall>q s. held q = Some s \<longrightarrow> wf (de_data s)" "wf (de_data written)"
    and ra: "ra_new key (ReadMajority t' d) rs (held r) = Ok ra" "\<forall>(q, x) \<in> set reads. x = held q"
    and ended: "ra_outcome (ra_run V reads ra) \<noteq> ReadInProgress"
  shows "\<exists>res. ra_outcome (ra_run V reads ra) = ReadSuccess res \<and> de_includes V written res"
proof -
  let ?b = "ra_run V reads ra"
  note wn = wa_new_Ok [OF wa(1)] and rn = ra_new_Ok [OF ra(1)]
  define A B where "A = {q \<in> set ws. Ack q \<in> set replies}" and "B = fset (ra_received_from ?b)"
  have "wa_required_remote_acks wa \<le> card A"
    using wa(2) wa_run_sets(1) [OF wn(2,3), of replies]
    by (auto simp: wa_outcome_def A_def wn(1) fcard.rep_eq Let_def split: if_splits)
  then have A: "A \<subseteq> set ws" "calculate_majority c (length ws + 1) 0 - 1 \<le> card A" using wn(5) by (auto simp: A_def)
  have recv: "B = {q \<in> set rs. \<exists>x. (q, x) \<in> set reads}" "ra_received ?b = card B"
    using ra_run_received [OF rn(2,3), of V reads] by (simp_all add: B_def rn(1) fcard.rep_eq)
  have req: "ra_required_remote_reads ra = calculate_majority d (length rs + 1) 0 - 1"
    "ra_required_remote_reads ra \<le> length rs" using rn(5) calculate_majority_le [of d "length rs + 1" 0] by auto
  have B: "B \<subseteq> set rs" "calculate_majority d (length rs + 1) 0 - 1 \<le> card B"
    using ended req recv by (auto simp: ra_outcome_def rn(1) split: if_splits)
  obtain q where q: "q \<in> insert w A" "q \<in> insert r B" using majority_quorums_meet [OF nodes A B] by blast
  obtain s where s: "held q = Some s" "de_includes V written s" using stored q(1) A_def by auto
  have start: "ra_wf ra" using wf(1) by (simp add: ra_wf_def rn(4))
  have reply_wf: "\<forall>(q, x) \<in> set reads. \<forall>e. x = Some e \<longrightarrow> wf (de_data e)" using ra(2) wf(1) by auto
  note res = read_result_includes [OF rn(3) start reply_wf]
  have "ra_includes V s ?b"
  proof (cases "q = r")
    case True
    then have "ra_includes V s ra" using s(1) wf(1) by (simp add: ra_includes_def rn(4) includes_below env.below_refl)
    with res s(1) wf(1) show ?thesis by blast
  next
    case False
    then have "q |\<in>| ra_received_from ?b" using q(2) by (simp add: B_def)
    with res obtain x where "(q, x) \<in> set reads" "\<forall>e. x = Some e \<longrightarrow> ra_includes V e ?b" by blast
    with ra(2) s(1) show ?thesis by auto
  qed
  then obtain big where big: "ra_result ?b = Some big" "env.below s big" by (auto simp: ra_includes_def includes_below)
  have "wf (de_data big)" using res big(1) by (auto simp: ra_wf_def)
  with env.below_trans [of written s big] s big(2) wf have "de_includes V written big" by (auto simp: includes_below)
  moreover have "ra_outcome ?b = ReadSuccess big" using ended req recv(2) B(2) big(1) by (simp add: ra_outcome_def rn(1))
  ultimately show ?thesis by blast
qed

end

text \<open>
  C6: A majority read sees every completed majority write. Writer and reader are any two members of the same set of replicas;
  every replica that acknowledged the write holds a state that includes it, and every reply to the read is the
  state the replica holds. When the read completes it returns a value, and that value includes the write. Stated for OR-sets.
\<close>

theorem majority_read_sees_majority_write:
  fixes written :: "'a::linorder orset data_envelope"
  assumes "distinct (w # ws)" "distinct (r # rs)" "set (w # ws) = set (r # rs)" "length (w # ws) < 2 ^ 64"
    and "wa_new key (WriteMajority t c) ws = Ok wa" "wa_outcome (wa_run replies wa) = WriteSuccess"
    and "\<forall>q. q = w \<or> q \<in> set ws \<and> Ack q \<in> set replies \<longrightarrow> (\<exists>s. held q = Some s \<and> de_includes orset_ops written s)"
    and "\<forall>q s. held q = Some s \<longrightarrow> os_wf (de_data s)" "os_wf (de_data written)"
    and "ra_new key (ReadMajority t' d) rs (held r) = Ok ra" "\<forall>(q, x) \<in> set reads. x = held q"
    and "ra_outcome (ra_run orset_ops reads ra) \<noteq> ReadInProgress"
  shows "\<exists>res. ra_outcome (ra_run orset_ops reads ra) = ReadSuccess res \<and> de_includes orset_ops written res"
  by (rule ose.majority_read [OF assms])

theorem majority_read_sees_majority_write_witness:
  "\<exists>wa ra. wa_new (ReplicatorKey ''k'') (WriteMajority 0 0) [ReplicaId ''b'', ReplicaId ''c''] = Ok wa \<and>
    ra_new (ReplicatorKey ''k'') (ReadMajority 0 0) [ReplicaId ''a'', ReplicaId ''b''] None = Ok ra \<and>
    (\<exists>res. ra_outcome (ra_run orset_ops [(ReplicaId ''b'', Some (de_new (os_new :: int orset)))] ra) = ReadSuccess res \<and>
      de_includes orset_ops (de_new os_new) res)"
proof -
  let ?a = "ReplicaId ''a''" and ?b = "ReplicaId ''b''" and ?c = "ReplicaId ''c''" and ?k = "ReplicatorKey ''k''"
  let ?e = "de_new (os_new :: int orset)"
  let ?held = "\<lambda>q. if q = ?c then None else Some ?e"
  obtain wa where wa: "wa_new ?k (WriteMajority 0 0) [?b, ?c] = Ok wa" "wa_required_remote_acks wa = 1"
    by (simp add: wa_new_def required_remote_write_acks_def calculate_majority_def usize_add_def ensure_available_def)
  obtain ra where ra: "ra_new ?k (ReadMajority 0 0) [?a, ?b] (?held ?c) = Ok ra" "ra_required_remote_reads ra = 1"
    by (simp add: ra_new_def required_remote_read_results_def calculate_majority_def usize_add_def)
  note rn = ra_new_Ok [OF ra(1)]
  have wf: "os_wf (os_new :: int orset)" by (simp add: os_wf_def os_new_def)
  then have incl: "de_includes orset_ops ?e ?e"
    using ose.env.below_refl [of ?e] by (simp add: ose.includes_below de_new_def)
  have "wa_outcome (wa_run [Ack ?b] wa) = WriteSuccess"
    using wa wa_run_sets(1) [of wa "[Ack ?b]"] wa_new_Ok [OF wa(1)]
    by (simp add: wa_outcome_def wa_record_ack_def Let_def fcard_finsert_if)
  moreover have "ra_outcome (ra_run orset_ops [(?b, Some ?e)] ra) \<noteq> ReadInProgress"
    using ra(2) rn by (simp add: ra_run_def ra_record_read_from_def ra_record_read_def ra_outcome_def Let_def)
  ultimately have "\<exists>res. ra_outcome (ra_run orset_ops [(?b, Some ?e)] ra) = ReadSuccess res \<and> de_includes orset_ops ?e res"
    using wa(1) ra(1) incl wf
    by (intro majority_read_sees_majority_write [of ?a "[?b, ?c]" ?c "[?a, ?b]" _ _ _ wa "[Ack ?b]" ?held]) (auto simp: de_new_def)
  with wa ra show ?thesis by auto
qed

end
