(* ===== verification/Reliable_Delivery.thy ===== *)
theory Reliable_Delivery
  imports Codec_Registry
begin

text \<open>
  Reliable delivery of system messages: \<open>reliable_delivery.rs\<close> of \<open>kairo-remote/src\<close>, with its codecs, the sender that
  retains envelopes until they are acknowledged and the receiver that orders and deduplicates them.

  The two sides are then joined by a network that may lose, repeat and reorder everything. The lemmas show that what is
  delivered is always a prefix of what was sent, that nothing undelivered is ever dropped by the sender, and that one
  retry round completes the delivery.
\<close>

section \<open>Messages and codecs\<close>

record reliable_system_envelope =
  rse_from_uid :: u64
  rse_to_uid :: u64
  rse_sequence_nr :: u64
  rse_envelope :: remote_envelope

record reliable_system_ack =
  rsa_from_uid :: u64
  rsa_to_uid :: u64
  rsa_sequence_nr :: u64

record reliable_system_nack =
  rsn_from_uid :: u64
  rsn_to_uid :: u64
  rsn_highest_contiguous_sequence_nr :: u64

definition reliable_envelope_type :: remote_message_type where
  "reliable_envelope_type = \<lparr>mt_name = ''ReliableSystemEnvelope'', mt_manifest = ''kairo.remote.system.reliable-envelope'', mt_version = 1\<rparr>"

definition reliable_ack_type :: remote_message_type where
  "reliable_ack_type = \<lparr>mt_name = ''ReliableSystemAck'', mt_manifest = ''kairo.remote.system.reliable-ack'', mt_version = 1\<rparr>"

definition reliable_nack_type :: remote_message_type where
  "reliable_nack_type = \<lparr>mt_name = ''ReliableSystemNack'', mt_manifest = ''kairo.remote.system.reliable-nack'', mt_version = 1\<rparr>"

definition reliable_ensure_version :: "remote_message_type \<Rightarrow> u16 \<Rightarrow> unit ser_result" where
  "reliable_ensure_version M version =
     (if version = mt_version M then Ok ()
      else Err (Message (''unsupported '' @ mt_manifest M @ '' version '' @ show_nat (unat version))))"

definition encode_reply :: "u64 \<Rightarrow> u64 \<Rightarrow> u64 \<Rightarrow> bytes" where
  "encode_reply from_uid to_uid sequence_nr = write_u64 sequence_nr (write_u64 to_uid (write_u64 from_uid []))"

definition decode_reply :: "bytes \<Rightarrow> (u64 \<times> u64 \<times> u64) ser_result" where
  "decode_reply payload =
     bind_result (read_u64 (reader_new payload)) (\<lambda>(from_uid, r).
     bind_result (read_u64 r) (\<lambda>(to_uid, r).
     bind_result (read_u64 r) (\<lambda>(sequence_nr, r).
     bind_result (ensure_finished r) (\<lambda>_. Ok (from_uid, to_uid, sequence_nr)))))"

definition reliable_envelope_encode :: "reliable_system_envelope \<Rightarrow> bytes ser_result" where
  "reliable_envelope_encode m =
     bind_result (envelope_encode_wire (rse_envelope m)) (\<lambda>b.
       write_bytes b (write_u64 (rse_sequence_nr m) (write_u64 (rse_to_uid m) (write_u64 (rse_from_uid m) []))))"

definition reliable_envelope_decode :: "bytes \<Rightarrow> u16 \<Rightarrow> reliable_system_envelope ser_result" where
  "reliable_envelope_decode payload version =
     bind_result (reliable_ensure_version reliable_envelope_type version) (\<lambda>_.
     bind_result (read_u64 (reader_new payload)) (\<lambda>(from_uid, r).
     bind_result (read_u64 r) (\<lambda>(to_uid, r).
     bind_result (read_u64 r) (\<lambda>(sequence_nr, r).
     bind_result (read_bytes r) (\<lambda>(b, r).
     bind_result (envelope_decode_wire b) (\<lambda>envelope.
     bind_result (ensure_finished r) (\<lambda>_.
       Ok \<lparr>rse_from_uid = from_uid, rse_to_uid = to_uid, rse_sequence_nr = sequence_nr, rse_envelope = envelope\<rparr>)))))))"

definition reliable_ack_encode :: "reliable_system_ack \<Rightarrow> bytes ser_result" where
  "reliable_ack_encode m = Ok (encode_reply (rsa_from_uid m) (rsa_to_uid m) (rsa_sequence_nr m))"

definition reliable_ack_decode :: "bytes \<Rightarrow> u16 \<Rightarrow> reliable_system_ack ser_result" where
  "reliable_ack_decode payload version =
     bind_result (reliable_ensure_version reliable_ack_type version) (\<lambda>_.
     bind_result (decode_reply payload) (\<lambda>(from_uid, to_uid, sequence_nr).
       Ok \<lparr>rsa_from_uid = from_uid, rsa_to_uid = to_uid, rsa_sequence_nr = sequence_nr\<rparr>))"

definition reliable_nack_encode :: "reliable_system_nack \<Rightarrow> bytes ser_result" where
  "reliable_nack_encode m = Ok (encode_reply (rsn_from_uid m) (rsn_to_uid m) (rsn_highest_contiguous_sequence_nr m))"

definition reliable_nack_decode :: "bytes \<Rightarrow> u16 \<Rightarrow> reliable_system_nack ser_result" where
  "reliable_nack_decode payload version =
     bind_result (reliable_ensure_version reliable_nack_type version) (\<lambda>_.
     bind_result (decode_reply payload) (\<lambda>(from_uid, to_uid, highest).
       Ok \<lparr>rsn_from_uid = from_uid, rsn_to_uid = to_uid, rsn_highest_contiguous_sequence_nr = highest\<rparr>))"

datatype reliable_message =
    REnvelope reliable_system_envelope
  | RAck reliable_system_ack
  | RNack reliable_system_nack

definition as_reliable_envelope :: "reliable_message \<Rightarrow> reliable_system_envelope option" where
  "as_reliable_envelope m = (case m of REnvelope e \<Rightarrow> Some e | _ \<Rightarrow> None)"

definition as_reliable_ack :: "reliable_message \<Rightarrow> reliable_system_ack option" where
  "as_reliable_ack m = (case m of RAck a \<Rightarrow> Some a | _ \<Rightarrow> None)"

definition as_reliable_nack :: "reliable_message \<Rightarrow> reliable_system_nack option" where
  "as_reliable_nack m = (case m of RNack n \<Rightarrow> Some n | _ \<Rightarrow> None)"

definition register_reliable_system_codecs :: "reliable_message registry \<Rightarrow> reliable_message registry ser_result" where
  "register_reliable_system_codecs reg =
     bind_result (register reliable_envelope_type as_reliable_envelope REnvelope
       \<lparr>mc_serializer_id = 1010, mc_encode = reliable_envelope_encode, mc_decode = reliable_envelope_decode\<rparr> reg) (\<lambda>reg.
     bind_result (register reliable_ack_type as_reliable_ack RAck
       \<lparr>mc_serializer_id = 1011, mc_encode = reliable_ack_encode, mc_decode = reliable_ack_decode\<rparr> reg) (\<lambda>reg.
       register reliable_nack_type as_reliable_nack RNack
         \<lparr>mc_serializer_id = 1012, mc_encode = reliable_nack_encode, mc_decode = reliable_nack_decode\<rparr> reg))"

section \<open>The sender\<close>

datatype remote_error =
    ReliableSystemBufferFull nat
  | InvalidReliableSystemDelivery string

record reliable_sender =
  sd_local_uid :: u64
  sd_remote_uid :: u64
  sd_next_sequence_nr :: u64
  sd_capacity :: nat
  sd_unacknowledged :: "reliable_system_envelope list"

definition sd_new :: "u64 \<Rightarrow> u64 \<Rightarrow> nat \<Rightarrow> (remote_error, reliable_sender) result" where
  "sd_new local_uid remote_uid capacity =
     (if capacity = 0 then Err (InvalidReliableSystemDelivery ''sender buffer capacity must be greater than zero'')
      else Ok \<lparr>sd_local_uid = local_uid, sd_remote_uid = remote_uid, sd_next_sequence_nr = 1, sd_capacity = capacity,
               sd_unacknowledged = []\<rparr>)"

definition sd_retain :: "reliable_sender \<Rightarrow> remote_envelope \<Rightarrow> (remote_error, reliable_sender \<times> reliable_system_envelope) result" where
  "sd_retain s envelope =
     (if length (sd_unacknowledged s) \<ge> sd_capacity s then Err (ReliableSystemBufferFull (sd_capacity s))
      else bind_result (ok_or (checked_add (sd_next_sequence_nr s) 1)
             (InvalidReliableSystemDelivery ''sender sequence number overflow'')) (\<lambda>next.
           let reliable = \<lparr>rse_from_uid = sd_local_uid s, rse_to_uid = sd_remote_uid s,
                 rse_sequence_nr = sd_next_sequence_nr s, rse_envelope = envelope\<rparr>
           in Ok (s\<lparr>sd_next_sequence_nr := next, sd_unacknowledged := sd_unacknowledged s @ [reliable]\<rparr>, reliable)))"

definition sd_validate_reply :: "reliable_sender \<Rightarrow> u64 \<Rightarrow> u64 \<Rightarrow> u64 \<Rightarrow> (remote_error, unit) result" where
  "sd_validate_reply s from_uid to_uid sequence_nr =
     (if from_uid \<noteq> sd_remote_uid s \<or> to_uid \<noteq> sd_local_uid s
      then Err (InvalidReliableSystemDelivery (''reply association '' @ show_nat (unat from_uid) @ ''->'' @ show_nat (unat to_uid) @
             '' does not match '' @ show_nat (unat (sd_remote_uid s)) @ ''->'' @ show_nat (unat (sd_local_uid s))))
      else
        let highest_sent = sd_next_sequence_nr s - 1
        in if highest_sent < sequence_nr
           then Err (InvalidReliableSystemDelivery (''reply sequence '' @ show_nat (unat sequence_nr) @
                  '' exceeds highest sent '' @ show_nat (unat highest_sent)))
           else Ok ())"

fun clear_front :: "u64 \<Rightarrow> reliable_system_envelope list \<Rightarrow> nat \<Rightarrow> reliable_system_envelope list \<times> nat" where
  "clear_front sequence_nr [] removed = ([], removed)"
| "clear_front sequence_nr (e # es) removed =
     (if rse_sequence_nr e \<le> sequence_nr then clear_front sequence_nr es (removed + 1) else (e # es, removed))"

definition sd_clear_through :: "reliable_sender \<Rightarrow> u64 \<Rightarrow> reliable_sender \<times> nat" where
  "sd_clear_through s sequence_nr =
     (let (kept, removed) = clear_front sequence_nr (sd_unacknowledged s) 0 in (s\<lparr>sd_unacknowledged := kept\<rparr>, removed))"

definition sd_acknowledge :: "reliable_sender \<Rightarrow> reliable_system_ack \<Rightarrow> (remote_error, reliable_sender \<times> nat) result" where
  "sd_acknowledge s ack =
     bind_result (sd_validate_reply s (rsa_from_uid ack) (rsa_to_uid ack) (rsa_sequence_nr ack)) (\<lambda>_.
       Ok (sd_clear_through s (rsa_sequence_nr ack)))"

definition sd_negative_acknowledge :: "reliable_sender \<Rightarrow> reliable_system_nack \<Rightarrow> (remote_error, reliable_sender \<times> nat) result" where
  "sd_negative_acknowledge s nack =
     bind_result (sd_validate_reply s (rsn_from_uid nack) (rsn_to_uid nack) (rsn_highest_contiguous_sequence_nr nack)) (\<lambda>_.
       Ok (sd_clear_through s (rsn_highest_contiguous_sequence_nr nack)))"

definition sd_retry_batch :: "reliable_sender \<Rightarrow> reliable_system_envelope list" where
  "sd_retry_batch s = sd_unacknowledged s"

definition sd_reset_remote_uid :: "reliable_sender \<Rightarrow> u64 \<Rightarrow> reliable_sender \<times> remote_envelope list" where
  "sd_reset_remote_uid s remote_uid =
     (s\<lparr>sd_unacknowledged := [], sd_remote_uid := remote_uid, sd_next_sequence_nr := 1\<rparr>,
      map rse_envelope (sd_unacknowledged s))"

section \<open>The receiver\<close>

datatype reliable_receive_outcome =
    Deliver remote_envelope reliable_system_ack
  | Duplicate reliable_system_ack
  | Gap reliable_system_nack

record reliable_receiver =
  rv_local_uid :: u64
  rv_remote_uid :: u64
  rv_next_expected_sequence_nr :: u64

definition rv_new :: "u64 \<Rightarrow> u64 \<Rightarrow> reliable_receiver" where
  "rv_new local_uid remote_uid =
     \<lparr>rv_local_uid = local_uid, rv_remote_uid = remote_uid, rv_next_expected_sequence_nr = 1\<rparr>"

definition rv_ack :: "reliable_receiver \<Rightarrow> reliable_system_ack" where
  "rv_ack r = \<lparr>rsa_from_uid = rv_local_uid r, rsa_to_uid = rv_remote_uid r,
     rsa_sequence_nr = rv_next_expected_sequence_nr r - 1\<rparr>"

definition rv_receive ::
  "reliable_receiver \<Rightarrow> reliable_system_envelope \<Rightarrow> (remote_error, reliable_receiver \<times> reliable_receive_outcome) result" where
  "rv_receive r reliable =
     (if rse_from_uid reliable \<noteq> rv_remote_uid r \<or> rse_to_uid reliable \<noteq> rv_local_uid r
      then Err (InvalidReliableSystemDelivery (''envelope association '' @ show_nat (unat (rse_from_uid reliable)) @ ''->'' @
             show_nat (unat (rse_to_uid reliable)) @ '' does not match '' @ show_nat (unat (rv_remote_uid r)) @ ''->'' @
             show_nat (unat (rv_local_uid r))))
      else if rse_sequence_nr reliable = rv_next_expected_sequence_nr r
      then bind_result (ok_or (checked_add (rv_next_expected_sequence_nr r) 1)
             (InvalidReliableSystemDelivery ''receiver sequence number overflow'')) (\<lambda>next.
           let r = r\<lparr>rv_next_expected_sequence_nr := next\<rparr> in Ok (r, Deliver (rse_envelope reliable) (rv_ack r)))
      else if rse_sequence_nr reliable < rv_next_expected_sequence_nr r then Ok (r, Duplicate (rv_ack r))
      else Ok (r, Gap \<lparr>rsn_from_uid = rv_local_uid r, rsn_to_uid = rv_remote_uid r,
             rsn_highest_contiguous_sequence_nr = rv_next_expected_sequence_nr r - 1\<rparr>))"

section \<open>Codecs\<close>

lemma envelope_decode_iff:
  "length b < 2 ^ 64 \<Longrightarrow> envelope_decode_wire b = Ok e \<longleftrightarrow> wf_envelope e \<and> envelope_encode_wire e = Ok b"
  using wire_field.decode_iff [OF wire_envelope, of b e]
  by (simp add: envelope_decode_wire_def envelope_encode_wire_def wire_simps split_def)

lemma reply_round_trip:
  "length b < 2 ^ 64 \<Longrightarrow> decode_reply b = Ok (f, t, n) \<longleftrightarrow> b = encode_reply f t n"
  using wire_field.decode_iff [OF wire_seq [OF u64f.wire_field_axioms wire_seq [OF u64f.wire_field_axioms u64f.wire_field_axioms]], of b "(f, t, n)"]
  by (auto simp: decode_reply_def encode_reply_def wire_simps split_def)

lemma reliable_ack_decode_iff:
  "length b < 2 ^ 64 \<Longrightarrow> reliable_ack_decode b 1 = Ok m \<longleftrightarrow> reliable_ack_encode m = Ok b"
  by (cases m) (auto simp: reliable_ack_decode_def reliable_ack_encode_def reliable_ensure_version_def reliable_ack_type_def reply_round_trip)

lemma reliable_nack_decode_iff:
  "length b < 2 ^ 64 \<Longrightarrow> reliable_nack_decode b 1 = Ok m \<longleftrightarrow> reliable_nack_encode m = Ok b"
  by (cases m) (auto simp: reliable_nack_decode_def reliable_nack_encode_def reliable_ensure_version_def reliable_nack_type_def reply_round_trip)

section \<open>Numbered envelopes\<close>

definition numbered :: "u64 \<Rightarrow> u64 \<Rightarrow> remote_envelope list \<Rightarrow> nat \<Rightarrow> reliable_system_envelope" where
  "numbered a b sent i = \<lparr>rse_from_uid = a, rse_to_uid = b, rse_sequence_nr = of_nat (Suc i), rse_envelope = sent ! i\<rparr>"

lemma numbered_append: "i < length sent \<Longrightarrow> numbered a b (sent @ es) i = numbered a b sent i"
  by (simp add: numbered_def nth_append)

lemma unat_seq: "Suc i < 2 ^ 64 \<Longrightarrow> unat (of_nat (Suc i) :: u64) = Suc i"
  unfolding unat_of_nat by simp

lemma unat_pred: "unat x = Suc n \<Longrightarrow> unat (x - 1) = n" for x :: u64
  using unat_minus_one [of x] by (cases "x = 0") auto

lemma clear_front_numbered:
  assumes "n < 2 ^ 64 - 1" and "k \<le> n"
  shows "clear_front q (map (numbered a b sent) [k..<n]) c =
    (map (numbered a b sent) [max k (min n (unat q))..<n], c + (max k (min n (unat q)) - k))"
  using assms(2)
proof (induction "n - k" arbitrary: k c)
  case (Suc d)
  then have k: "k < n" by simp
  have seq: "rse_sequence_nr (numbered a b sent k) \<le> q \<longleftrightarrow> Suc k \<le> unat q"
    using k assms(1) unat_seq [of k] by (simp add: numbered_def word_le_nat_alt)
  have upt: "[k..<n] = k # [Suc k..<n]" using k by (simp add: upt_rec)
  show ?case
  proof (cases "Suc k \<le> unat q")
    case True
    have "max k (min n (unat q)) = max (Suc k) (min n (unat q))" using True k by auto
    with True Suc.hyps(1) [of "Suc k" "c + 1"] Suc.hyps(2) k show ?thesis unfolding upt by (simp add: seq)
  next
    case False
    then have "max k (min n (unat q)) = k" by auto
    with False upt show ?thesis by (simp add: seq)
  qed
qed simp

section \<open>The link\<close>

record link =
  lk_sender :: reliable_sender
  lk_receiver :: reliable_receiver
  lk_wire :: "reliable_system_envelope list"
  lk_acks :: "reliable_system_ack list"
  lk_nacks :: "reliable_system_nack list"
  lk_sent :: "remote_envelope list"
  lk_delivered :: "remote_envelope list"

text \<open>
  Everything that was ever transmitted stays available: a transmission may arrive at any later time, any number of
  times, or never.
\<close>

primrec record_outcome :: "reliable_receive_outcome \<Rightarrow> link \<Rightarrow> link" where
  "record_outcome (Deliver e a) k = k\<lparr>lk_delivered := lk_delivered k @ [e], lk_acks := a # lk_acks k\<rparr>"
| "record_outcome (Duplicate a) k = k\<lparr>lk_acks := a # lk_acks k\<rparr>"
| "record_outcome (Gap n) k = k\<lparr>lk_nacks := n # lk_nacks k\<rparr>"

inductive link_step :: "link \<Rightarrow> link \<Rightarrow> bool" where
  send: "sd_retain (lk_sender k) e = Ok (s', x) \<Longrightarrow>
    link_step k (k\<lparr>lk_sender := s', lk_wire := x # lk_wire k, lk_sent := lk_sent k @ [e]\<rparr>)"
| retry: "link_step k (k\<lparr>lk_wire := sd_retry_batch (lk_sender k) @ lk_wire k\<rparr>)"
| receive: "x \<in> set (lk_wire k) \<Longrightarrow> rv_receive (lk_receiver k) x = Ok (r', out) \<Longrightarrow>
    link_step k (record_outcome out (k\<lparr>lk_receiver := r'\<rparr>))"
| ack: "a \<in> set (lk_acks k) \<Longrightarrow> sd_acknowledge (lk_sender k) a = Ok (s', n) \<Longrightarrow> link_step k (k\<lparr>lk_sender := s'\<rparr>)"
| nack: "m \<in> set (lk_nacks k) \<Longrightarrow> sd_negative_acknowledge (lk_sender k) m = Ok (s', n) \<Longrightarrow> link_step k (k\<lparr>lk_sender := s'\<rparr>)"

definition link_init :: "reliable_sender \<Rightarrow> reliable_receiver \<Rightarrow> link" where
  "link_init s r = \<lparr>lk_sender = s, lk_receiver = r, lk_wire = [], lk_acks = [], lk_nacks = [], lk_sent = [], lk_delivered = []\<rparr>"

inductive link_reachable :: "u64 \<Rightarrow> u64 \<Rightarrow> nat \<Rightarrow> link \<Rightarrow> bool" for a b capacity where
  start: "sd_new a b capacity = Ok s \<Longrightarrow> link_reachable a b capacity (link_init s (rv_new b a))"
| step: "link_reachable a b capacity k \<Longrightarrow> link_step k k' \<Longrightarrow> link_reachable a b capacity k'"

definition link_inv :: "u64 \<Rightarrow> u64 \<Rightarrow> nat \<Rightarrow> link \<Rightarrow> bool" where
  "link_inv a b capacity k \<longleftrightarrow>
     (let s = lk_sender k; r = lk_receiver k; n = length (lk_sent k); m = length (lk_delivered k) in
      sd_local_uid s = a \<and> sd_remote_uid s = b \<and> rv_local_uid r = b \<and> rv_remote_uid r = a \<and> sd_capacity s = capacity \<and>
      unat (sd_next_sequence_nr s) = Suc n \<and> unat (rv_next_expected_sequence_nr r) = Suc m \<and>
      m \<le> n \<and> lk_delivered k = take m (lk_sent k) \<and>
      (\<exists>c \<le> m. sd_unacknowledged s = map (numbered a b (lk_sent k)) [c..<n]) \<and> length (sd_unacknowledged s) \<le> capacity \<and>
      (\<forall>x \<in> set (lk_wire k). \<exists>i < n. x = numbered a b (lk_sent k) i) \<and>
      (\<forall>x \<in> set (lk_acks k). rsa_from_uid x = b \<and> rsa_to_uid x = a \<and> unat (rsa_sequence_nr x) \<le> m) \<and>
      (\<forall>x \<in> set (lk_nacks k). rsn_from_uid x = b \<and> rsn_to_uid x = a \<and> unat (rsn_highest_contiguous_sequence_nr x) \<le> m))"

lemmas link_inv_defs = link_inv_def Let_def

lemma link_invD:
  assumes "link_inv a b capacity k"
  shows "sd_local_uid (lk_sender k) = a" "sd_remote_uid (lk_sender k) = b" "rv_local_uid (lk_receiver k) = b"
    "rv_remote_uid (lk_receiver k) = a" "sd_capacity (lk_sender k) = capacity"
    "unat (sd_next_sequence_nr (lk_sender k)) = Suc (length (lk_sent k))"
    "unat (rv_next_expected_sequence_nr (lk_receiver k)) = Suc (length (lk_delivered k))"
    "length (lk_delivered k) \<le> length (lk_sent k)" "lk_delivered k = take (length (lk_delivered k)) (lk_sent k)"
    "\<exists>c \<le> length (lk_delivered k). sd_unacknowledged (lk_sender k) = map (numbered a b (lk_sent k)) [c..<length (lk_sent k)]"
    "length (sd_unacknowledged (lk_sender k)) \<le> capacity"
    "\<And>x. x \<in> set (lk_wire k) \<Longrightarrow> \<exists>i < length (lk_sent k). x = numbered a b (lk_sent k) i"
    "\<And>x. x \<in> set (lk_acks k) \<Longrightarrow> rsa_from_uid x = b \<and> rsa_to_uid x = a \<and> unat (rsa_sequence_nr x) \<le> length (lk_delivered k)"
    "\<And>x. x \<in> set (lk_nacks k) \<Longrightarrow> rsn_from_uid x = b \<and> rsn_to_uid x = a \<and>
      unat (rsn_highest_contiguous_sequence_nr x) \<le> length (lk_delivered k)"
  using assms unfolding link_inv_defs by blast+

lemma link_invI:
  assumes "sd_local_uid (lk_sender k) = a" "sd_remote_uid (lk_sender k) = b" "rv_local_uid (lk_receiver k) = b"
    "rv_remote_uid (lk_receiver k) = a" "sd_capacity (lk_sender k) = capacity"
    "unat (sd_next_sequence_nr (lk_sender k)) = Suc (length (lk_sent k))"
    "unat (rv_next_expected_sequence_nr (lk_receiver k)) = Suc (length (lk_delivered k))"
    "length (lk_delivered k) \<le> length (lk_sent k)" "lk_delivered k = take (length (lk_delivered k)) (lk_sent k)"
    "c \<le> length (lk_delivered k)" "sd_unacknowledged (lk_sender k) = map (numbered a b (lk_sent k)) [c..<length (lk_sent k)]"
    "length (sd_unacknowledged (lk_sender k)) \<le> capacity"
    "\<And>x. x \<in> set (lk_wire k) \<Longrightarrow> \<exists>i < length (lk_sent k). x = numbered a b (lk_sent k) i"
    "\<And>x. x \<in> set (lk_acks k) \<Longrightarrow> rsa_from_uid x = b \<and> rsa_to_uid x = a \<and> unat (rsa_sequence_nr x) \<le> length (lk_delivered k)"
    "\<And>x. x \<in> set (lk_nacks k) \<Longrightarrow> rsn_from_uid x = b \<and> rsn_to_uid x = a \<and>
      unat (rsn_highest_contiguous_sequence_nr x) \<le> length (lk_delivered k)"
  shows "link_inv a b capacity k"
  using assms unfolding link_inv_defs by blast

lemma link_inv_init: "sd_new a b capacity = Ok s \<Longrightarrow> link_inv a b capacity (link_init s (rv_new b a))"
  by (auto simp: link_inv_defs link_init_def sd_new_def rv_new_def split: if_splits)

lemma link_inv_length: "link_inv a b capacity k \<Longrightarrow> length (lk_sent k) < 2 ^ 64 - 1"
proof -
  assume "link_inv a b capacity k"
  then have "unat (sd_next_sequence_nr (lk_sender k)) = Suc (length (lk_sent k))" by (simp add: link_inv_defs)
  moreover have "unat (sd_next_sequence_nr (lk_sender k)) < 2 ^ 64" using unsigned_less [of "sd_next_sequence_nr (lk_sender k)"] by simp
  ultimately show ?thesis by simp
qed

lemma link_inv_send:
  assumes inv: "link_inv a b capacity k" and e: "sd_retain (lk_sender k) e = Ok (s', x)"
  shows "link_inv a b capacity (k\<lparr>lk_sender := s', lk_wire := x # lk_wire k, lk_sent := lk_sent k @ [e]\<rparr>)"
proof -
  let ?s = "lk_sender k" and ?n = "length (lk_sent k)" and ?sent = "lk_sent k @ [e]"
  note I = link_invD [OF inv]
  obtain c where c: "c \<le> length (lk_delivered k)" "sd_unacknowledged ?s = map (numbered a b (lk_sent k)) [c..<?n]"
    using I(10) by blast
  from e obtain n' where n': "checked_add (sd_next_sequence_nr ?s) 1 = Some n'" and cap: "length (sd_unacknowledged ?s) < capacity"
    and x: "x = \<lparr>rse_from_uid = a, rse_to_uid = b, rse_sequence_nr = sd_next_sequence_nr ?s, rse_envelope = e\<rparr>"
    and s': "s' = ?s\<lparr>sd_next_sequence_nr := n', sd_unacknowledged := sd_unacknowledged ?s @ [x]\<rparr>"
    by (auto simp: sd_retain_def Let_def I(1,2,5) split: if_splits)
  have "sd_next_sequence_nr ?s = of_nat (Suc ?n)"
    using I(6) unat_seq [of ?n] link_inv_length [OF inv] by (simp add: word_unat_eq_iff)
  then have xn: "x = numbered a b ?sent ?n" by (simp add: x numbered_def)
  have un: "sd_unacknowledged s' = map (numbered a b ?sent) [c..<length ?sent]"
    using c I(8) by (simp add: s' xn [symmetric] numbered_append)
  have wire: "\<exists>i < length ?sent. y = numbered a b ?sent i" if y: "y \<in> set (x # lk_wire k)" for y
  proof (cases "y = x")
    case False
    with y I(12) obtain i where "i < ?n" "y = numbered a b (lk_sent k) i" by auto
    then show ?thesis by (intro exI [of _ i]) (simp add: numbered_append)
  qed (auto simp: xn)
  have "unat n' = Suc (length ?sent)" using unat_checked_add [OF n'] I(6) by simp
  then have fields: "unat (sd_next_sequence_nr s') = Suc (length ?sent)" "sd_local_uid s' = a" "sd_remote_uid s' = b"
    "sd_capacity s' = capacity" "length (sd_unacknowledged s') \<le> capacity" using cap by (simp_all add: s' I)
  have "lk_delivered k = take (length (lk_delivered k)) ?sent" using I(8,9) by simp
  then show ?thesis
    by (intro link_invI [where c = c]) (use fields I c(1) un wire in simp_all)
qed

lemma link_inv_reply:
  assumes inv: "link_inv a b capacity k" and q: "unat q \<le> length (lk_delivered k)"
  shows "sd_validate_reply (lk_sender k) b a q = Ok ()"
    and "link_inv a b capacity (k\<lparr>lk_sender := fst (sd_clear_through (lk_sender k) q)\<rparr>)"
proof -
  let ?s = "lk_sender k" and ?n = "length (lk_sent k)"
  note I = link_invD [OF inv]
  have "unat (sd_next_sequence_nr ?s - 1) = ?n" by (rule unat_pred [OF I(6)])
  then show "sd_validate_reply ?s b a q = Ok ()"
    using I(1,2,8) q by (simp add: sd_validate_reply_def word_less_nat_alt)
  obtain c where c: "c \<le> length (lk_delivered k)" "sd_unacknowledged ?s = map (numbered a b (lk_sent k)) [c..<?n]"
    using I(10) by blast
  let ?c = "max c (min ?n (unat q))"
  have cleared: "fst (sd_clear_through ?s q) = ?s\<lparr>sd_unacknowledged := map (numbered a b (lk_sent k)) [?c..<?n]\<rparr>"
    using clear_front_numbered [OF link_inv_length [OF inv], of c q a b "lk_sent k" 0] c I(8)
    by (simp add: sd_clear_through_def split_def)
  have "?n - ?c \<le> capacity" using I(11) c(2) by simp
  then show "link_inv a b capacity (k\<lparr>lk_sender := fst (sd_clear_through ?s q)\<rparr>)"
    unfolding cleared by (intro link_invI [where c = ?c]) (use I c q in simp_all)
qed

lemma rv_receive_numbered:
  assumes "rv_local_uid r = b" "rv_remote_uid r = a" "unat (rv_next_expected_sequence_nr r) = Suc m"
    and "m \<le> length sent" "length sent < 2 ^ 64 - 1" "i < length sent"
  shows "i < m \<Longrightarrow> rv_receive r (numbered a b sent i) = Ok (r, Duplicate (rv_ack r))"
    and "i = m \<Longrightarrow> \<exists>r'. rv_receive r (numbered a b sent i) = Ok (r', Deliver (sent ! m) (rv_ack r')) \<and> rv_local_uid r' = b \<and>
      rv_remote_uid r' = a \<and> unat (rv_next_expected_sequence_nr r') = Suc (Suc m)"
    and "m < i \<Longrightarrow> rv_receive r (numbered a b sent i) =
      Ok (r, Gap \<lparr>rsn_from_uid = b, rsn_to_uid = a, rsn_highest_contiguous_sequence_nr = rv_next_expected_sequence_nr r - 1\<rparr>)"
proof -
  let ?x = "numbered a b sent i"
  have seq: "unat (rse_sequence_nr ?x) = Suc i" using assms(5,6) unat_seq [of i] by (simp add: numbered_def)
  have cmp: "rse_sequence_nr ?x = rv_next_expected_sequence_nr r \<longleftrightarrow> i = m" "rse_sequence_nr ?x < rv_next_expected_sequence_nr r \<longleftrightarrow> i < m"
    unfolding word_unat_eq_iff word_less_nat_alt seq assms(3) by simp_all
  have uids: "rse_from_uid ?x = a" "rse_to_uid ?x = b" "rse_envelope ?x = sent ! i" by (simp_all add: numbered_def)
  show "i < m \<Longrightarrow> rv_receive r ?x = Ok (r, Duplicate (rv_ack r))"
    by (simp add: rv_receive_def uids assms(1,2) cmp)
  show "m < i \<Longrightarrow> rv_receive r ?x =
      Ok (r, Gap \<lparr>rsn_from_uid = b, rsn_to_uid = a, rsn_highest_contiguous_sequence_nr = rv_next_expected_sequence_nr r - 1\<rparr>)"
    by (simp add: rv_receive_def uids assms(1,2) cmp)
  assume i: "i = m"
  have "Suc m + 1 < 2 ^ 64" using i assms(5,6) by simp
  then obtain n' where n': "checked_add (rv_next_expected_sequence_nr r) 1 = Some n'"
    by (simp add: checked_add_def assms(3))
  from unat_checked_add [OF n'] have "unat n' = Suc (Suc m)" using assms(3) by simp
  moreover have "rse_sequence_nr ?x = rv_next_expected_sequence_nr r" using cmp(1) i by blast
  then have "rv_receive r ?x = Ok (r\<lparr>rv_next_expected_sequence_nr := n'\<rparr>,
      Deliver (sent ! i) (rv_ack (r\<lparr>rv_next_expected_sequence_nr := n'\<rparr>)))"
    using n' by (simp add: rv_receive_def uids assms(1,2) Let_def)
  ultimately show "\<exists>r'. rv_receive r ?x = Ok (r', Deliver (sent ! m) (rv_ack r')) \<and> rv_local_uid r' = b \<and>
      rv_remote_uid r' = a \<and> unat (rv_next_expected_sequence_nr r') = Suc (Suc m)"
    using i assms(1,2) by auto
qed

lemma link_inv_receive:
  assumes inv: "link_inv a b capacity k" and x: "x \<in> set (lk_wire k)" and out: "rv_receive (lk_receiver k) x = Ok (r', out)"
  shows "link_inv a b capacity (record_outcome out (k\<lparr>lk_receiver := r'\<rparr>))"
proof -
  let ?r = "lk_receiver k" and ?m = "length (lk_delivered k)" and ?n = "length (lk_sent k)"
  note I = link_invD [OF inv]
  obtain c where c: "c \<le> ?m" "sd_unacknowledged (lk_sender k) = map (numbered a b (lk_sent k)) [c..<?n]" using I(10) by blast
  obtain i where i: "i < ?n" "x = numbered a b (lk_sent k) i" using I(12) [OF x] by blast
  note rc = rv_receive_numbered [OF I(3,4,7,8) link_inv_length [OF inv] i(1), folded i(2)]
  have ack: "rsa_from_uid (rv_ack r) = rv_local_uid r" "rsa_to_uid (rv_ack r) = rv_remote_uid r"
    "rsa_sequence_nr (rv_ack r) = rv_next_expected_sequence_nr r - 1" for r by (simp_all add: rv_ack_def)
  have len: "unat (rv_next_expected_sequence_nr ?r - 1) = ?m" by (rule unat_pred [OF I(7)])
  consider "i < ?m" | "i = ?m" | "?m < i" by linarith
  then show ?thesis
  proof cases
    case 1
    with rc(1) out have "r' = ?r" "out = Duplicate (rv_ack ?r)" by simp_all
    then show ?thesis
      by (intro link_invI [where c = c]) (use I c in \<open>auto simp: ack len\<close>)
  next
    case 2
    with rc(2) out have r': "out = Deliver (lk_sent k ! ?m) (rv_ack r')" "rv_local_uid r' = b" "rv_remote_uid r' = a"
      "unat (rv_next_expected_sequence_nr r') = Suc (Suc ?m)" by auto
    have "lk_delivered k @ [lk_sent k ! ?m] = take (Suc ?m) (lk_sent k)"
      using 2 i(1) I(9) by (metis take_Suc_conv_app_nth)
    moreover have "unat (rv_next_expected_sequence_nr r' - 1) = Suc ?m" by (rule unat_pred [OF r'(4)])
    ultimately show ?thesis
      by (intro link_invI [where c = c]) (use I c r' 2 i(1) in \<open>auto simp: ack intro: le_SucI\<close>)
  next
    case 3
    with rc(3) out have "r' = ?r" "out = Gap \<lparr>rsn_from_uid = b, rsn_to_uid = a,
      rsn_highest_contiguous_sequence_nr = rv_next_expected_sequence_nr ?r - 1\<rparr>" by simp_all
    then show ?thesis
      by (intro link_invI [where c = c]) (use I c in \<open>auto simp: len\<close>)
  qed
qed

lemma link_inv_step:
  assumes "link_step k k'" and inv: "link_inv a b capacity k"
  shows "link_inv a b capacity k'"
  using assms(1)
proof cases
  case (send e s' x)
  then show ?thesis using link_inv_send [OF inv] by simp
next
  case retry
  note I = link_invD [OF inv]
  obtain c where c: "c \<le> length (lk_delivered k)" "sd_unacknowledged (lk_sender k) = map (numbered a b (lk_sent k)) [c..<length (lk_sent k)]"
    using I(10) by blast
  show ?thesis unfolding retry
    by (intro link_invI [where c = c]) (use I c in \<open>auto simp: sd_retry_batch_def\<close>)
next
  case (receive x r' out)
  then show ?thesis using link_inv_receive [OF inv] by simp
next
  case (ack x s' n)
  then show ?thesis
    using link_invD(13) [OF inv ack(2)] link_inv_reply [OF inv, of "rsa_sequence_nr x"]
    by (auto simp: sd_acknowledge_def)
next
  case (nack x s' n)
  then show ?thesis
    using link_invD(14) [OF inv nack(2)] link_inv_reply [OF inv, of "rsn_highest_contiguous_sequence_nr x"]
    by (auto simp: sd_negative_acknowledge_def)
qed

lemma link_reachable_inv: "link_reachable a b capacity k \<Longrightarrow> link_inv a b capacity k"
  by (induction rule: link_reachable.induct) (auto intro: link_inv_init link_inv_step)

section \<open>Retries\<close>

fun deliver_batch ::
  "reliable_receiver \<Rightarrow> reliable_system_envelope list \<Rightarrow> (remote_error, reliable_receiver \<times> remote_envelope list) result" where
  "deliver_batch r [] = Ok (r, [])"
| "deliver_batch r (x # xs) =
     bind_result (rv_receive r x) (\<lambda>(r, out).
     bind_result (deliver_batch r xs) (\<lambda>(r, es). Ok (r, (case out of Deliver e _ \<Rightarrow> e # es | _ \<Rightarrow> es))))"

lemma deliver_batch_numbered:
  assumes "rv_local_uid r = b" "rv_remote_uid r = a" "unat (rv_next_expected_sequence_nr r) = Suc m"
    and "c \<le> m" "m \<le> length sent" "length sent < 2 ^ 64 - 1"
  shows "\<exists>r'. deliver_batch r (map (numbered a b sent) [c..<length sent]) = Ok (r', drop m sent) \<and>
    rv_local_uid r' = b \<and> rv_remote_uid r' = a \<and> unat (rv_next_expected_sequence_nr r') = Suc (length sent)"
  using assms
proof (induction "length sent - c" arbitrary: c m r)
  case 0
  then show ?case by simp
next
  case (Suc d)
  then have c: "c < length sent" and upt: "[c..<length sent] = c # [Suc c..<length sent]" by (simp_all add: upt_rec)
  note rc = rv_receive_numbered [OF Suc.prems(1-3,5,6) c]
  have d: "d = length sent - Suc c" using Suc.hyps(2) by simp
  show ?case
  proof (cases "c < m")
    case True
    with Suc.hyps(1) [OF d, of r m] Suc.prems rc(1) show ?thesis by (auto simp: upt)
  next
    case False
    then have cm: "c = m" using Suc.prems(4) by simp
    from rc(2) [OF cm] obtain r1 where r1: "rv_receive r (numbered a b sent c) = Ok (r1, Deliver (sent ! m) (rv_ack r1))"
      "rv_local_uid r1 = b" "rv_remote_uid r1 = a" "unat (rv_next_expected_sequence_nr r1) = Suc (Suc m)" by blast
    from Suc.hyps(1) [OF d r1(2-4)] Suc.prems c cm obtain r' where
      "deliver_batch r1 (map (numbered a b sent) [Suc c..<length sent]) = Ok (r', drop (Suc m) sent)"
      "rv_local_uid r' = b" "rv_remote_uid r' = a" "unat (rv_next_expected_sequence_nr r') = Suc (length sent)" by auto
    with r1(1) c cm upt show ?thesis by (simp add: Cons_nth_drop_Suc)
  qed
qed

text \<open>
  C5: System messages are delivered exactly once and in order. Over a network that loses, repeats and reorders
  envelopes and replies, what the receiver has delivered is always a prefix of what the sender accepted; every envelope that is
  not delivered yet is still retained for retry, within the capacity of the buffer; and no envelope or reply that was
  really sent is refused as invalid.
\<close>

theorem reliable_delivery_exactly_once:
  assumes "link_reachable a b capacity k"
  shows "lk_delivered k = take (length (lk_delivered k)) (lk_sent k) \<and>
    (\<forall>i. length (lk_delivered k) \<le> i \<longrightarrow> i < length (lk_sent k) \<longrightarrow>
       numbered a b (lk_sent k) i \<in> set (sd_retry_batch (lk_sender k))) \<and>
    length (sd_retry_batch (lk_sender k)) \<le> capacity \<and>
    (\<forall>x \<in> set (lk_wire k). \<exists>out. rv_receive (lk_receiver k) x = Ok out) \<and>
    (\<forall>x \<in> set (lk_acks k). \<exists>out. sd_acknowledge (lk_sender k) x = Ok out) \<and>
    (\<forall>x \<in> set (lk_nacks k). \<exists>out. sd_negative_acknowledge (lk_sender k) x = Ok out)"
proof -
  have inv: "link_inv a b capacity k" by (rule link_reachable_inv [OF assms])
  note I = link_invD [OF inv]
  have "\<exists>out. rv_receive (lk_receiver k) x = Ok out" if x: "x \<in> set (lk_wire k)" for x
  proof -
    obtain i where i: "i < length (lk_sent k)" "x = numbered a b (lk_sent k) i" using I(12) [OF x] by blast
    from rv_receive_numbered [OF I(3,4,7,8) link_inv_length [OF inv] i(1)] i(2) show ?thesis
      by (cases i "length (lk_delivered k)" rule: linorder_cases) auto
  qed
  moreover have "\<exists>out. sd_acknowledge (lk_sender k) x = Ok out" if "x \<in> set (lk_acks k)" for x
    using I(13) [OF that] link_inv_reply(1) [OF inv] by (auto simp: sd_acknowledge_def)
  moreover have "\<exists>out. sd_negative_acknowledge (lk_sender k) x = Ok out" if "x \<in> set (lk_nacks k)" for x
    using I(14) [OF that] link_inv_reply(1) [OF inv] by (auto simp: sd_negative_acknowledge_def)
  ultimately show ?thesis using I(9,10,11) by (auto simp: sd_retry_batch_def)
qed

definition sample_link :: link where
  "sample_link =
     (case sd_new 1 2 8 of
        Ok s \<Rightarrow> (case sd_retain s sample_envelope of
            Ok (s', x) \<Rightarrow> (link_init s (rv_new 2 1))\<lparr>lk_sender := s', lk_wire := [x], lk_sent := [sample_envelope]\<rparr>
          | Err _ \<Rightarrow> link_init s (rv_new 2 1))
      | Err _ \<Rightarrow> undefined)"

lemma sample_link_reachable: "link_reachable 1 2 8 sample_link"
proof -
  obtain s where s: "sd_new 1 2 8 = Ok s" by (simp add: sd_new_def)
  then obtain s' x where r: "sd_retain s sample_envelope = Ok (s', x)"
    by (auto simp: sd_new_def sd_retain_def checked_add_def Let_def)
  have "link_step (link_init s (rv_new 2 1)) sample_link"
    using link_step.send [of "link_init s (rv_new 2 1)" sample_envelope s' x] s r
    by (simp add: sample_link_def link_init_def)
  then show ?thesis by (rule link_reachable.step [OF link_reachable.start [OF s]])
qed

theorem reliable_delivery_exactly_once_witness:
  "lk_sent sample_link = [sample_envelope] \<and> lk_delivered sample_link = [] \<and>
   numbered 1 2 [sample_envelope] 0 \<in> set (sd_retry_batch (lk_sender sample_link))"
  using reliable_delivery_exactly_once [OF sample_link_reachable]
  by (auto simp: sample_link_def sd_new_def sd_retain_def checked_add_def Let_def link_init_def)

text \<open>
  C39: One retry round completes the delivery: from every reachable state, when the retry batch of the sender reaches the
  receiver in order, exactly the missing envelopes are delivered in their order, and the acknowledgement that results
  empties the buffer of the sender.
\<close>

theorem reliable_retry_completes:
  assumes "link_reachable a b capacity k"
  shows "\<exists>r' s'. deliver_batch (lk_receiver k) (sd_retry_batch (lk_sender k)) = Ok (r', drop (length (lk_delivered k)) (lk_sent k)) \<and>
    sd_acknowledge (lk_sender k) (rv_ack r') = Ok (s', length (sd_retry_batch (lk_sender k))) \<and> sd_retry_batch s' = []"
proof -
  have inv: "link_inv a b capacity k" by (rule link_reachable_inv [OF assms])
  note I = link_invD [OF inv]
  let ?n = "length (lk_sent k)"
  obtain c where c: "c \<le> length (lk_delivered k)" "sd_unacknowledged (lk_sender k) = map (numbered a b (lk_sent k)) [c..<?n]"
    using I(10) by blast
  from deliver_batch_numbered [OF I(3,4,7) c(1) I(8) link_inv_length [OF inv]] obtain r' where
    r': "deliver_batch (lk_receiver k) (sd_retry_batch (lk_sender k)) = Ok (r', drop (length (lk_delivered k)) (lk_sent k))"
    "rv_local_uid r' = b" "rv_remote_uid r' = a" "unat (rv_next_expected_sequence_nr r') = Suc ?n"
    by (auto simp: sd_retry_batch_def c(2))
  let ?q = "rv_next_expected_sequence_nr r' - 1"
  have q: "unat ?q = ?n" by (rule unat_pred [OF r'(4)])
  have "clear_front ?q (sd_unacknowledged (lk_sender k)) 0 = ([], ?n - c)"
    using clear_front_numbered [OF link_inv_length [OF inv], of c ?q a b "lk_sent k" 0] c I(8) q by simp
  moreover have "unat (sd_next_sequence_nr (lk_sender k) - 1) = ?n" by (rule unat_pred [OF I(6)])
  then have "sd_validate_reply (lk_sender k) b a ?q = Ok ()"
    using I(1,2) q by (simp add: sd_validate_reply_def word_less_nat_alt)
  ultimately show ?thesis
    using r' c by (auto simp: sd_acknowledge_def rv_ack_def sd_clear_through_def sd_retry_batch_def)
qed

theorem reliable_retry_completes_witness:
  "\<exists>r'. deliver_batch (lk_receiver sample_link) (sd_retry_batch (lk_sender sample_link)) = Ok (r', [sample_envelope])"
  using reliable_retry_completes [OF sample_link_reachable]
  by (auto simp: sample_link_def sd_new_def sd_retain_def checked_add_def Let_def link_init_def)

end
