(* ===== verification/Shard_Allocation.thy ===== *)
theory Shard_Allocation
  imports Kairo_Prelude Complex_Main "HOL-Library.Product_Lexorder" "HOL-Library.Log_Nat" "HOL-Library.Code_Target_Nat"
begin

text \<open>
  Placement of shards: \<open>hashing.rs\<close>, \<open>allocation.rs\<close> and \<open>errors.rs\<close> of \<open>kairo-cluster-sharding/src\<close>.
  An operation that may panic (\<open>expect\<close>, and \<open>debug_assert\<close> as in a debug build) returns a
  \<open>fault\<close>, which is either a panic or an error of the source. A strategy is a record of its two functions.
  The relative limit is a binary64 number: not a number, infinite, or a rational that binary64 represents.

  The lemmas show that no operation on a well-formed table panics, what each does to the homes of all shards, and that the
  least-shard strategy selects shards to move exactly when the table is not balanced.
\<close>

section \<open>Errors\<close>

type_synonym region_id = string
type_synonym shard_id = string

datatype sharding_error =
    InvalidShardCount
  | InvalidRebalanceLimit
  | NoShardRegions
  | UnknownRegion string
  | RegionAlreadyRegistered string
  | UnknownRegionProxy string
  | RegionProxyAlreadyRegistered string
  | UnknownShard string
  | ShardAlreadyAllocated string
  | InvalidRememberEntityKeyCount
  | InvalidRememberEntityKeyIndex nat nat
  | RememberStoreReadFailed string string
  | RememberStoreUpdateFailed string string
  | InconsistentShardHome string string string
  | ShardHomeDuringHandOff string string

datatype fault = Panic | Fail sharding_error

section \<open>Stable hashing\<close>

unbundle bit_operations_syntax

definition stable_hash_entity_id :: "string \<Rightarrow> u64" where
  "stable_hash_entity_id entity_id =
     fold (\<lambda>byte hash. (hash XOR word_of_nat (of_char byte)) * 0x100000001b3) entity_id 0xcbf29ce484222325"

definition shard_id_for :: "string \<Rightarrow> u64 \<Rightarrow> (sharding_error, shard_id) result" where
  "shard_id_for entity_id shard_count =
     (if shard_count = 0 then Err InvalidShardCount
      else Ok (show_nat (unat (stable_hash_entity_id entity_id mod shard_count))))"

definition default_shard_id_for :: "string \<Rightarrow> (fault, shard_id) result" where
  "default_shard_id_for entity_id = (case shard_id_for entity_id 100 of Ok shard \<Rightarrow> Ok shard | Err _ \<Rightarrow> Err Panic)"

section \<open>The allocation table\<close>

record shard_allocations =
  al_regions :: "(region_id, shard_id list) fmap"
  al_shard_homes :: "(shard_id, region_id) fmap"

definition al_new :: shard_allocations where
  "al_new = \<lparr>al_regions = fmempty, al_shard_homes = fmempty\<rparr>"

definition al_insert_region :: "region_id \<Rightarrow> shard_allocations \<Rightarrow> shard_allocations \<times> bool" where
  "al_insert_region region a =
     (case fmlookup (al_regions a) region of
        None \<Rightarrow> (a\<lparr>al_regions := fmupd region [] (al_regions a)\<rparr>, True)
      | Some _ \<Rightarrow> (a, False))"

definition al_from_regions :: "region_id list \<Rightarrow> shard_allocations" where
  "al_from_regions regions = fold (\<lambda>region a. fst (al_insert_region region a)) regions al_new"

definition al_contains_region :: "region_id \<Rightarrow> shard_allocations \<Rightarrow> bool" where
  "al_contains_region region a \<longleftrightarrow> fmlookup (al_regions a) region \<noteq> None"

definition al_is_empty :: "shard_allocations \<Rightarrow> bool" where
  "al_is_empty a \<longleftrightarrow> bt_is_empty (al_regions a)"

fun remove_homes :: "region_id \<Rightarrow> shard_id list \<Rightarrow> (shard_id, region_id) fmap \<Rightarrow> (fault, (shard_id, region_id) fmap) result" where
  "remove_homes region [] homes = Ok homes"
| "remove_homes region (shard # shards) homes =
     (if fmlookup homes shard = Some region then remove_homes region shards (fmdrop shard homes) else Err Panic)"

definition al_remove_region ::
  "region_id \<Rightarrow> shard_allocations \<Rightarrow> (fault, shard_allocations \<times> shard_id list option) result" where
  "al_remove_region region a =
     (case fmlookup (al_regions a) region of
        None \<Rightarrow> Ok (a, None)
      | Some shards \<Rightarrow>
          bind_result (remove_homes region shards (al_shard_homes a)) (\<lambda>homes.
            Ok (\<lparr>al_regions = fmdrop region (al_regions a), al_shard_homes = homes\<rparr>, Some shards)))"

definition al_deallocate_shard ::
  "shard_id \<Rightarrow> shard_allocations \<Rightarrow> (fault, shard_allocations \<times> region_id option) result" where
  "al_deallocate_shard shard a =
     (case fmlookup (al_shard_homes a) shard of
        None \<Rightarrow> Ok (a, None)
      | Some region \<Rightarrow>
          (case fmlookup (al_regions a) region of
             None \<Rightarrow> Err Panic
           | Some shards \<Rightarrow>
               (case position (\<lambda>existing. existing = shard) shards of
                  None \<Rightarrow> Err Panic
                | Some index \<Rightarrow>
                    Ok (\<lparr>al_regions = fmupd region (take index shards @ drop (Suc index) shards) (al_regions a),
                         al_shard_homes = fmdrop shard (al_shard_homes a)\<rparr>, Some region))))"

definition al_allocate_shard ::
  "region_id \<Rightarrow> shard_id \<Rightarrow> shard_allocations \<Rightarrow> (fault, shard_allocations \<times> bool) result" where
  "al_allocate_shard region shard a =
     (if fmlookup (al_regions a) region = None then Err (Fail (UnknownRegion region))
      else if fmlookup (al_shard_homes a) shard = Some region then Ok (a, False)
      else bind_result (al_deallocate_shard shard a) (\<lambda>(a, _).
        case fmlookup (al_regions a) region of
          None \<Rightarrow> Err Panic
        | Some shards \<Rightarrow>
            if fmlookup (al_shard_homes a) shard \<noteq> None then Err Panic
            else Ok (\<lparr>al_regions = fmupd region (shards @ [shard]) (al_regions a),
                      al_shard_homes = fmupd shard region (al_shard_homes a)\<rparr>, True)))"

definition al_shards :: "shard_allocations \<Rightarrow> shard_id list" where
  "al_shards a = concat (bt_values (al_regions a))"

definition al_region_count :: "shard_allocations \<Rightarrow> nat" where
  "al_region_count a = length (bt_keys (al_regions a))"

definition al_shard_count :: "shard_allocations \<Rightarrow> nat" where
  "al_shard_count a = length (bt_keys (al_shard_homes a))"

definition al_sorted_entries :: "shard_allocations \<Rightarrow> (region_id \<times> shard_id list) list" where
  "al_sorted_entries a = sort_key (\<lambda>(region, shards). (length shards, region)) (bt_entries (al_regions a))"

section \<open>The least-shard strategy\<close>

record allocation_strategy =
  st_allocate_shard :: "region_id \<Rightarrow> shard_id \<Rightarrow> shard_allocations \<Rightarrow> (sharding_error, region_id) result"
  st_rebalance :: "shard_allocations \<Rightarrow> shard_id fset \<Rightarrow> (sharding_error, shard_id fset) result"

datatype f64 = NaN | Infinite bool | Finite rat

text \<open>
  Rounding to the nearest binary64 number, ties to even. The exponent range is not limited: the only
  use is the conversion to \<open>usize\<close>, which maps every product below one to zero and saturates at
  \<open>usize::MAX\<close>.
\<close>

definition round_half_even :: "rat \<Rightarrow> int" where
  "round_half_even x =
     (let low = \<lfloor>x\<rfloor>; rest = x - of_int low
      in if rest < 1 / 2 then low else if rest > 1 / 2 then low + 1 else if even low then low else low + 1)"

definition binary_exponent :: "rat \<Rightarrow> int" where
  "binary_exponent x =
     (let (p, q) = quotient_of x; e = bitlen p - bitlen q
      in if x < 2 powi e then e - 1 else e)"

definition round_f64 :: "rat \<Rightarrow> rat" where
  "round_f64 x =
     (if x \<le> 0 then 0
      else let unit = 2 powi (binary_exponent x - 52) in of_int (round_half_even (x / unit)) * unit)"

definition usize_as_f64 :: "nat \<Rightarrow> rat" where
  "usize_as_f64 n = round_f64 (of_nat n)"

definition f64_as_usize :: "rat \<Rightarrow> nat" where
  "f64_as_usize x = min (nat \<lfloor>x\<rfloor>) (2 ^ 64 - 1)"

record least_shard_strategy =
  ls_absolute_limit :: nat
  ls_relative_limit :: f64

definition ls_new :: "nat \<Rightarrow> f64 \<Rightarrow> (sharding_error, least_shard_strategy) result" where
  "ls_new absolute_limit relative_limit =
     (if absolute_limit = 0 then Err InvalidRebalanceLimit
      else case relative_limit of
             Finite x \<Rightarrow>
               if x \<le> 0 then Err InvalidRebalanceLimit
               else Ok \<lparr>ls_absolute_limit = absolute_limit, ls_relative_limit = relative_limit\<rparr>
           | _ \<Rightarrow> Err InvalidRebalanceLimit)"

definition ls_default :: least_shard_strategy where
  "ls_default = \<lparr>ls_absolute_limit = 10, ls_relative_limit = Finite (3602879701896397 / 36028797018963968)\<rparr>"

text \<open>A strategy is built by \<open>new\<close> or \<open>default\<close> only, so its relative limit is finite and positive.\<close>

definition ls_relative_share :: "least_shard_strategy \<Rightarrow> nat \<Rightarrow> nat" where
  "ls_relative_share st shard_count =
     (case ls_relative_limit st of
        NaN \<Rightarrow> 0
      | Infinite negative \<Rightarrow> if negative \<or> shard_count = 0 then 0 else 2 ^ 64 - 1
      | Finite x \<Rightarrow> f64_as_usize (round_f64 (x * usize_as_f64 shard_count)))"

definition ls_rebalance_limit :: "least_shard_strategy \<Rightarrow> nat \<Rightarrow> nat" where
  "ls_rebalance_limit st shard_count = max (min (ls_absolute_limit st) (ls_relative_share st shard_count)) 1"

definition ls_allocate_shard :: "region_id \<Rightarrow> shard_id \<Rightarrow> shard_allocations \<Rightarrow> (sharding_error, region_id) result" where
  "ls_allocate_shard requester shard current =
     ok_or (map_option fst (min_by_key (\<lambda>(region, shards). (length shards, region)) (bt_entries (al_regions current))))
       NoShardRegions"

definition ls_rebalance ::
  "least_shard_strategy \<Rightarrow> shard_allocations \<Rightarrow> shard_id fset \<Rightarrow> (sharding_error, shard_id fset) result" where
  "ls_rebalance st current in_progress =
     (if in_progress \<noteq> {||} then Ok {||}
      else
        let shard_count = al_shard_count current; region_count = al_region_count current
        in if shard_count = 0 \<or> region_count = 0 then Ok {||}
           else
             let optimal_per_region = (shard_count + region_count - 1) div region_count;
                 limit = ls_rebalance_limit st shard_count;
                 entries = al_sorted_entries current;
                 selected = concat (map (\<lambda>(_, shards).
                     if length shards > optimal_per_region then take (length shards - optimal_per_region) shards else []) entries)
             in if selected \<noteq> [] then Ok (fset_of_list (take limit selected))
                else
                  let count_below_optimal = sum_list (map (\<lambda>(_, shards). optimal_per_region - 1 - length shards) entries)
                  in if count_below_optimal = 0 then Ok {||}
                     else Ok (fset_of_list (take (min count_below_optimal limit)
                            (List.map_filter (\<lambda>(_, shards). case shards of [] \<Rightarrow> None | shard # _ \<Rightarrow> Some shard)
                              (filter (\<lambda>(_, shards). length shards \<ge> optimal_per_region) entries)))))"

definition ls_strategy :: "least_shard_strategy \<Rightarrow> allocation_strategy" where
  "ls_strategy st = \<lparr>st_allocate_shard = ls_allocate_shard, st_rebalance = ls_rebalance st\<rparr>"

section \<open>Well-formed tables\<close>

text \<open>The two maps describe one relation, in which a shard has at most one home, and no region lists a shard twice.\<close>

definition al_wf :: "shard_allocations \<Rightarrow> bool" where
  "al_wf a \<longleftrightarrow>
     (\<forall>shard region. fmlookup (al_shard_homes a) shard = Some region \<longleftrightarrow>
        (\<exists>shards. fmlookup (al_regions a) region = Some shards \<and> shard \<in> set shards)) \<and>
     (\<forall>region shards. fmlookup (al_regions a) region = Some shards \<longrightarrow> distinct shards)"

lemma al_wf_home:
  "al_wf a \<Longrightarrow> fmlookup (al_shard_homes a) shard = Some region \<longleftrightarrow>
     (\<exists>shards. fmlookup (al_regions a) region = Some shards \<and> shard \<in> set shards)"
  by (simp add: al_wf_def)

lemma al_wf_distinct: "al_wf a \<Longrightarrow> fmlookup (al_regions a) region = Some shards \<Longrightarrow> distinct shards"
  by (simp add: al_wf_def)

lemma al_wf_registered: "al_wf a \<Longrightarrow> fmlookup (al_shard_homes a) shard = Some region \<Longrightarrow> fmlookup (al_regions a) region \<noteq> None"
  by (auto simp: al_wf_home)

lemma al_wf_new [simp]: "al_wf al_new"
  by (simp add: al_wf_def al_new_def)

lemma al_insert_region_wf:
  assumes "al_wf a"
  shows "al_wf (fst (al_insert_region region a))"
    and "al_shard_homes (fst (al_insert_region region a)) = al_shard_homes a"
    and "snd (al_insert_region region a) \<longleftrightarrow> fmlookup (al_regions a) region = None"
  using assms by (auto simp: al_wf_def al_insert_region_def split: option.splits)

lemma al_from_regions_wf: "al_wf (al_from_regions regions)"
proof -
  have "al_wf (fold (\<lambda>region a. fst (al_insert_region region a)) regions a)" if "al_wf a" for a
    using that by (induction regions arbitrary: a) (simp_all add: al_insert_region_wf)
  then show ?thesis by (simp add: al_from_regions_def)
qed

text \<open>The table without a region, and without a shard.\<close>

definition al_without :: "region_id \<Rightarrow> shard_allocations \<Rightarrow> shard_allocations" where
  "al_without region a =
     \<lparr>al_regions = fmdrop region (al_regions a),
      al_shard_homes = fmfilter (\<lambda>shard. fmlookup (al_shard_homes a) shard \<noteq> Some region) (al_shard_homes a)\<rparr>"

definition al_release :: "shard_id \<Rightarrow> shard_allocations \<Rightarrow> shard_allocations" where
  "al_release shard a =
     \<lparr>al_regions = fmmap (filter (\<lambda>x. x \<noteq> shard)) (al_regions a), al_shard_homes = fmdrop shard (al_shard_homes a)\<rparr>"

definition al_place :: "region_id \<Rightarrow> shard_id \<Rightarrow> shard_allocations \<Rightarrow> shard_allocations" where
  "al_place region shard a =
     \<lparr>al_regions = fmupd region (the (fmlookup (al_regions a) region) @ [shard]) (al_regions a),
      al_shard_homes = fmupd shard region (al_shard_homes a)\<rparr>"

lemma remove_homes_Ok:
  assumes "distinct shards" "\<forall>shard \<in> set shards. fmlookup homes shard = Some region"
  shows "remove_homes region shards homes = Ok (fmfilter (\<lambda>shard. shard \<notin> set shards) homes)"
  using assms
proof (induction shards arbitrary: homes)
  case (Cons shard shards)
  then have "remove_homes region shards (fmdrop shard homes) =
      Ok (fmfilter (\<lambda>x. x \<notin> set shards) (fmdrop shard homes))" by (intro Cons.IH) auto
  moreover have "fmfilter (\<lambda>x. x \<notin> set shards) (fmdrop shard homes) = fmfilter (\<lambda>x. x \<notin> set (shard # shards)) homes"
    by (intro fmap_ext) (auto simp: fmlookup_filter)
  ultimately show ?case using Cons.prems by simp
qed simp

lemma al_remove_region_Ok:
  assumes "al_wf a"
  shows "al_remove_region region a = Ok (al_without region a, fmlookup (al_regions a) region)"
proof (cases "fmlookup (al_regions a) region")
  case None
  have "\<forall>shard. fmlookup (al_shard_homes a) shard \<noteq> Some region" using None assms by (auto simp: al_wf_home)
  then have "al_without region a = a"
    using None by (cases a) (auto simp: al_without_def fmap_ext fmlookup_filter intro!: fmap_ext)
  then show ?thesis using None by (simp add: al_remove_region_def)
next
  case (Some shards)
  have home: "fmlookup (al_shard_homes a) shard = Some region \<longleftrightarrow> shard \<in> set shards" for shard
    using Some assms by (auto simp: al_wf_home)
  have "remove_homes region shards (al_shard_homes a) = Ok (fmfilter (\<lambda>shard. shard \<notin> set shards) (al_shard_homes a))"
    using al_wf_distinct [OF assms Some] home by (intro remove_homes_Ok) auto
  moreover have "fmfilter (\<lambda>shard. shard \<notin> set shards) (al_shard_homes a) =
      fmfilter (\<lambda>shard. fmlookup (al_shard_homes a) shard \<noteq> Some region) (al_shard_homes a)"
    using home by (intro fmap_ext) (auto simp: fmlookup_filter)
  ultimately show ?thesis using Some by (simp add: al_remove_region_def al_without_def)
qed

lemma al_without_wf:
  assumes "al_wf a"
  shows "al_wf (al_without region a)"
  using assms unfolding al_wf_def al_without_def by (auto simp: fmlookup_filter) (metis option.inject)

lemma remove_position:
  assumes "position (\<lambda>y. y = x) xs = Some i" "distinct xs"
  shows "take i xs @ drop (Suc i) xs = filter (\<lambda>y. y \<noteq> x) xs"
  using assms
proof (induction xs arbitrary: i)
  case (Cons y ys)
  show ?case
  proof (cases "y = x")
    case True
    then have "filter (\<lambda>y. y \<noteq> x) ys = ys" using Cons.prems(2) by (auto intro: filter_True)
    then show ?thesis using True Cons.prems(1) by auto
  next
    case False
    then obtain j where "position (\<lambda>y. y = x) ys = Some j" "i = Suc j" using Cons.prems(1) by auto
    then show ?thesis using Cons.IH [of j] Cons.prems(2) False by simp
  qed
qed simp

lemma al_release_absent:
  assumes "al_wf a" "fmlookup (al_shard_homes a) shard = None"
  shows "al_release shard a = a"
proof -
  have "filter (\<lambda>x. x \<noteq> shard) shards = shards" if "fmlookup (al_regions a) region = Some shards" for region shards
    using that assms(2) al_wf_home [OF assms(1), of shard region] by (auto intro!: filter_True)
  then have "fmmap (filter (\<lambda>x. x \<noteq> shard)) (al_regions a) = al_regions a"
    by (intro fmap_ext) (auto simp: map_option_case split: option.splits)
  moreover have "fmdrop shard (al_shard_homes a) = al_shard_homes a"
    using assms(2) by (intro fmap_ext) auto
  ultimately show ?thesis by (cases a) (simp add: al_release_def)
qed

lemma al_deallocate_shard_Ok:
  assumes "al_wf a"
  shows "al_deallocate_shard shard a = Ok (al_release shard a, fmlookup (al_shard_homes a) shard)"
proof (cases "fmlookup (al_shard_homes a) shard")
  case None
  then show ?thesis by (simp add: al_deallocate_shard_def al_release_absent [OF assms])
next
  case (Some region)
  then obtain shards where r: "fmlookup (al_regions a) region = Some shards" "shard \<in> set shards"
    using assms by (auto simp: al_wf_home)
  then obtain i where i: "position (\<lambda>y. y = shard) shards = Some i"
    by (cases "position (\<lambda>y. y = shard) shards") (auto simp: position_None)
  have other: "filter (\<lambda>x. x \<noteq> shard) shards' = shards'"
    if "fmlookup (al_regions a) region' = Some shards'" "region' \<noteq> region" for region' shards'
    using that Some al_wf_home [OF assms, of shard region'] by (auto intro!: filter_True)
  have "fmupd region (take i shards @ drop (Suc i) shards) (al_regions a) = fmmap (filter (\<lambda>x. x \<noteq> shard)) (al_regions a)"
    using r(1) other remove_position [OF i al_wf_distinct [OF assms r(1)]]
    by (intro fmap_ext) (auto simp: map_option_case split: option.splits)
  then show ?thesis using Some r i by (simp add: al_deallocate_shard_def al_release_def)
qed

lemma al_release_wf:
  assumes "al_wf a"
  shows "al_wf (al_release shard a)"
  using assms unfolding al_wf_def al_release_def by (auto simp: distinct_filter)

lemma al_allocate_shard_Ok:
  assumes "al_wf a" "fmlookup (al_regions a) region \<noteq> None" "fmlookup (al_shard_homes a) shard = None"
  shows "al_allocate_shard region shard a = Ok (al_place region shard a, True)"
  using assms al_release_absent [OF assms(1,3)]
  by (auto simp: al_allocate_shard_def al_deallocate_shard_Ok al_place_def)

lemma al_place_wf:
  assumes "al_wf a" "fmlookup (al_regions a) region \<noteq> None" "fmlookup (al_shard_homes a) shard = None"
  shows "al_wf (al_place region shard a)"
proof -
  obtain shards where r: "fmlookup (al_regions a) region = Some shards" using assms(2) by auto
  have new: "shard \<notin> set shards'" if "fmlookup (al_regions a) region' = Some shards'" for region' shards'
    using that assms(3) al_wf_home [OF assms(1), of shard region'] by auto
  then show ?thesis
    using assms(1) r unfolding al_wf_def al_place_def by auto
qed

section \<open>Loads\<close>

definition al_owned :: "shard_allocations \<Rightarrow> region_id \<Rightarrow> shard_id list" where
  "al_owned a region = (case fmlookup (al_regions a) region of None \<Rightarrow> [] | Some shards \<Rightarrow> shards)"

abbreviation al_load :: "shard_allocations \<Rightarrow> region_id \<Rightarrow> nat" where
  "al_load a region \<equiv> length (al_owned a region)"

abbreviation al_dom :: "shard_allocations \<Rightarrow> region_id set" where
  "al_dom a \<equiv> fmdom' (al_regions a)"

definition al_optimal :: "shard_allocations \<Rightarrow> nat" where
  "al_optimal a = (al_shard_count a + al_region_count a - 1) div al_region_count a"

definition al_balanced :: "shard_allocations \<Rightarrow> bool" where
  "al_balanced a \<longleftrightarrow> (\<forall>region \<in> al_dom a. \<forall>other \<in> al_dom a. al_load a region \<le> al_load a other + 1)"

lemma al_region_count_card: "al_region_count a = card (al_dom a)"
  by (metis al_region_count_def distinct_bt_keys distinct_card set_bt_keys)

lemma al_shard_count_card: "al_shard_count a = card (fmdom' (al_shard_homes a))"
  by (metis al_shard_count_def distinct_bt_keys distinct_card set_bt_keys)

lemma al_owned_iff: "al_wf a \<Longrightarrow> shard \<in> set (al_owned a region) \<longleftrightarrow> fmlookup (al_shard_homes a) shard = Some region"
  by (cases "fmlookup (al_regions a) region") (simp_all add: al_wf_home al_owned_def)

lemma al_owned_distinct: "al_wf a \<Longrightarrow> distinct (al_owned a region)"
  by (cases "fmlookup (al_regions a) region") (simp_all add: al_wf_distinct al_owned_def)

lemma al_home_dom: "al_wf a \<Longrightarrow> fmlookup (al_shard_homes a) shard = Some region \<Longrightarrow> region \<in> al_dom a"
  using al_wf_registered [of a shard region] by (auto intro: fmdom'I)

lemma al_shard_count_sum:
  assumes "al_wf a"
  shows "al_shard_count a = (\<Sum>region \<in> al_dom a. al_load a region)"
proof -
  have "fmdom' (al_shard_homes a) = (\<Union>region \<in> al_dom a. set (al_owned a region))"
    unfolding set_eq_iff UN_iff al_owned_iff [OF assms] fmlookup_dom'_iff using al_home_dom [OF assms] by blast
  moreover have "card (\<Union>region \<in> al_dom a. set (al_owned a region)) = (\<Sum>region \<in> al_dom a. card (set (al_owned a region)))"
    by (rule card_UN_disjoint) (auto simp: al_owned_iff [OF assms])
  ultimately show ?thesis by (simp add: al_shard_count_card distinct_card al_owned_distinct [OF assms])
qed

lemma ceil_bounds:
  assumes "0 < (r :: nat)"
  shows "n \<le> (n + r - 1) div r * r" and "0 < n \<Longrightarrow> ((n + r - 1) div r - 1) * r < n"
proof -
  let ?q = "(n + r - 1) div r"
  have le: "?q * r \<le> n + r - 1" by simp
  have "n + r - 1 < ?q * r + r" using assms mod_less_divisor [of r "n + r - 1"] div_mult_mod_eq [of "n + r - 1" r] by linarith
  then show "n \<le> ?q * r" using assms by linarith
  show "(?q - 1) * r < n" if "0 < n"
  proof (cases ?q)
    case (Suc m)
    then have "m * r + r \<le> n + r - 1" using le by (simp add: algebra_simps)
    then show ?thesis using Suc that assms by (simp; linarith)
  qed (use that in simp)
qed

lemma optimal_bounds:
  assumes "al_wf a" "al_dom a \<noteq> {}"
  shows "(\<Sum>region \<in> al_dom a. al_load a region) \<le> al_optimal a * card (al_dom a)"
    and "0 < al_shard_count a \<Longrightarrow> (al_optimal a - 1) * card (al_dom a) < (\<Sum>region \<in> al_dom a. al_load a region)"
    and "0 < al_shard_count a \<Longrightarrow> 0 < al_optimal a"
proof -
  have pos: "0 < card (al_dom a)" using assms(2) by (simp add: card_gt_0_iff)
  show *: "(\<Sum>region \<in> al_dom a. al_load a region) \<le> al_optimal a * card (al_dom a)"
    and "0 < al_shard_count a \<Longrightarrow> (al_optimal a - 1) * card (al_dom a) < (\<Sum>region \<in> al_dom a. al_load a region)"
    using ceil_bounds [OF pos, of "al_shard_count a"]
    by (simp_all add: al_optimal_def al_region_count_card al_shard_count_sum [OF assms(1)])
  then show "0 < al_optimal a" if "0 < al_shard_count a"
    using that * al_shard_count_sum [OF assms(1)] by (cases "al_optimal a") auto
qed

lemma optimal_reached:
  assumes "al_wf a" "al_dom a \<noteq> {}" "0 < al_shard_count a"
  shows "\<exists>region \<in> al_dom a. al_optimal a \<le> al_load a region"
proof (rule ccontr)
  assume "\<not> ?thesis"
  then have "al_load a region \<le> al_optimal a - 1" if "region \<in> al_dom a" for region using that by fastforce
  then have "(\<Sum>region \<in> al_dom a. al_load a region) \<le> (\<Sum>region \<in> al_dom a. al_optimal a - 1)" by (rule sum_mono)
  then show False using optimal_bounds(2) [OF assms] by (simp add: mult.commute)
qed

lemma balanced_iff:
  assumes "al_wf a" "al_dom a \<noteq> {}" "0 < al_shard_count a"
  shows "al_balanced a \<longleftrightarrow> (\<forall>region \<in> al_dom a. al_optimal a - 1 \<le> al_load a region \<and> al_load a region \<le> al_optimal a)"
    (is "_ \<longleftrightarrow> ?near")
proof
  assume b: "al_balanced a"
  have upper: "al_load a region \<le> al_optimal a" if r: "region \<in> al_dom a" for region
  proof (rule ccontr)
    assume more: "\<not> al_load a region \<le> al_optimal a"
    have "al_optimal a \<le> al_load a other" if "other \<in> al_dom a" for other
      using b that r more by (fastforce simp: al_balanced_def)
    moreover have "\<exists>x \<in> al_dom a. al_optimal a < al_load a x" using r more by (meson not_le)
    ultimately have "(\<Sum>other \<in> al_dom a. al_optimal a) < (\<Sum>other \<in> al_dom a. al_load a other)"
      by (intro sum_strict_mono_ex1) auto
    then show False using optimal_bounds(1) [OF assms(1,2)] by (simp add: mult.commute)
  qed
  obtain top where "top \<in> al_dom a" "al_optimal a \<le> al_load a top" using optimal_reached [OF assms] by blast
  then have "al_optimal a - 1 \<le> al_load a region" if "region \<in> al_dom a" for region
    using b that by (fastforce simp: al_balanced_def)
  with upper show ?near by blast
next
  assume n: ?near
  show "al_balanced a"
    unfolding al_balanced_def
  proof (intro ballI)
    fix r q assume "r \<in> al_dom a" "q \<in> al_dom a"
    with n have "al_load a r \<le> al_optimal a" "al_optimal a - 1 \<le> al_load a q" by auto
    then show "al_load a r \<le> al_load a q + 1" by linarith
  qed
qed

section \<open>What the least-shard strategy selects\<close>

lemma al_entries_set: "(region, shards) \<in> set (al_sorted_entries a) \<longleftrightarrow> fmlookup (al_regions a) region = Some shards"
  by (simp add: al_sorted_entries_def)

lemma al_entries_owned: "(region, shards) \<in> set (al_sorted_entries a) \<longleftrightarrow> region \<in> al_dom a \<and> shards = al_owned a region"
  by (auto simp: al_entries_set al_owned_def fmlookup_dom'_iff split: option.splits)

lemma al_entries_conv:
  obtains regions where "al_sorted_entries a = map (\<lambda>region. (region, al_owned a region)) regions"
    and "distinct regions" "set regions = al_dom a"
proof -
  let ?regions = "map fst (al_sorted_entries a)"
  have "al_sorted_entries a = map (\<lambda>region. (region, al_owned a region)) ?regions"
    by (rule sym, auto simp: al_entries_owned intro!: map_idI)
  moreover have "distinct ?regions"
  proof -
    have "distinct (map fst (bt_entries (al_regions a)))" by simp
    then show ?thesis by (simp only: al_sorted_entries_def distinct_map set_sort distinct_sort)
  qed
  moreover have "set ?regions = al_dom a"
    by (simp only: al_sorted_entries_def set_map set_sort) (simp only: set_map [symmetric] map_fst_bt_entries set_bt_keys)
  ultimately show thesis by (rule that)
qed

lemma ls_allocate_least:
  assumes "al_dom a \<noteq> {}"
  obtains region where "ls_allocate_shard requester shard a = Ok region" "region \<in> al_dom a"
    "\<forall>other \<in> al_dom a. al_load a region \<le> al_load a other"
proof -
  let ?key = "\<lambda>(region, shards). (length shards, region) :: nat \<times> region_id"
  have "bt_entries (al_regions a) \<noteq> []"
    using assms by (metis list.map_disc_iff list.set(1) map_fst_bt_entries set_bt_keys)
  then have "min_by_key ?key (bt_entries (al_regions a)) \<noteq> None" by simp
  then obtain region shards where m: "min_by_key ?key (bt_entries (al_regions a)) = Some (region, shards)"
    by (metis not_None_eq surj_pair)
  have owned: "fmlookup (al_regions a) r = Some (al_owned a r)" if "r \<in> al_dom a" for r
    using that by (auto simp: al_owned_def fmlookup_dom'_iff)
  note * = min_by_key_Some [OF m]
  have r: "fmlookup (al_regions a) region = Some shards" using * by simp
  have "al_load a region \<le> al_load a other" if "other \<in> al_dom a" for other
  proof -
    have "(other, al_owned a other) \<in> set (bt_entries (al_regions a))" using owned [OF that] by simp
    with * have "?key (region, shards) \<le> ?key (other, al_owned a other)" by blast
    then show ?thesis using r by (auto simp: al_owned_def)
  qed
  moreover have "ls_allocate_shard requester shard a = Ok region" using m by (simp add: ls_allocate_shard_def)
  moreover have "region \<in> al_dom a" using r by (rule fmdom'I)
  ultimately show thesis using that by blast
qed

definition over_optimal :: "shard_allocations \<Rightarrow> region_id list \<Rightarrow> shard_id list" where
  "over_optimal a regions = concat (map (\<lambda>region. take (al_load a region - al_optimal a) (al_owned a region)) regions)"

definition first_of_full :: "shard_allocations \<Rightarrow> region_id list \<Rightarrow> shard_id list" where
  "first_of_full a regions =
     List.map_filter (\<lambda>region. case al_owned a region of [] \<Rightarrow> None | shard # _ \<Rightarrow> Some shard)
       (filter (\<lambda>region. al_load a region \<ge> al_optimal a) regions)"

lemma ls_rebalance_conv:
  assumes "al_sorted_entries a = map (\<lambda>region. (region, al_owned a region)) regions"
  shows "ls_rebalance st a {||} =
     (if al_shard_count a = 0 \<or> al_region_count a = 0 then Ok {||}
      else if over_optimal a regions \<noteq> []
      then Ok (fset_of_list (take (ls_rebalance_limit st (al_shard_count a)) (over_optimal a regions)))
      else let below = (\<Sum>region \<leftarrow> regions. al_optimal a - 1 - al_load a region)
           in if below = 0 then Ok {||}
              else Ok (fset_of_list (take (min below (ls_rebalance_limit st (al_shard_count a))) (first_of_full a regions))))"
proof -
  have over: "concat (map (\<lambda>(_, shards). if length shards > al_optimal a then take (length shards - al_optimal a) shards else [])
      (map (\<lambda>region. (region, al_owned a region)) regions)) = over_optimal a regions"
    unfolding over_optimal_def by (induction regions) auto
  have full: "List.map_filter (\<lambda>(_, shards). case shards of [] \<Rightarrow> None | shard # _ \<Rightarrow> Some shard)
      (filter (\<lambda>(_, shards). length shards \<ge> al_optimal a) (map (\<lambda>region. (region, al_owned a region)) regions)) =
      first_of_full a regions"
    unfolding first_of_full_def List.map_filter_def by (simp add: filter_map o_def)
  have below: "map (\<lambda>(_, shards). al_optimal a - 1 - length shards) (map (\<lambda>region. (region, al_owned a region)) regions) =
      map (\<lambda>region. al_optimal a - 1 - al_load a region) regions" by simp
  show ?thesis
    unfolding ls_rebalance_def assms Let_def al_optimal_def [symmetric] over full below by simp
qed

lemma over_optimal_mem:
  "shard \<in> set (over_optimal a regions) \<longleftrightarrow>
     (\<exists>region \<in> set regions. shard \<in> set (take (al_load a region - al_optimal a) (al_owned a region)))"
  by (auto simp: over_optimal_def)

lemma over_optimal_length:
  "length (over_optimal a regions) = (\<Sum>region \<leftarrow> regions. al_load a region - al_optimal a)"
  by (induction regions) (auto simp: over_optimal_def)

lemma over_optimal_Nil: "over_optimal a regions = [] \<longleftrightarrow> (\<forall>region \<in> set regions. al_load a region \<le> al_optimal a)"
  by (induction regions) (auto simp: over_optimal_def)

lemma first_of_full_mem:
  "shard \<in> set (first_of_full a regions) \<longleftrightarrow>
     (\<exists>region \<in> set regions. al_optimal a \<le> al_load a region \<and> al_owned a region \<noteq> [] \<and> shard = hd (al_owned a region))"
proof -
  have "(case xs of [] \<Rightarrow> None | x # _ \<Rightarrow> Some x) = Some y \<longleftrightarrow> xs \<noteq> [] \<and> y = hd xs" for xs and y :: shard_id
    by (cases xs) auto
  then show ?thesis by (auto simp: first_of_full_def mem_map_filter)
qed

text \<open>
  A selection that can be moved shard by shard: above some load \<open>c\<close> each region keeps at least \<open>c\<close> shards,
  and the regions below \<open>c\<close> have room for all selected shards.
\<close>

definition movable :: "nat \<Rightarrow> shard_id set \<Rightarrow> shard_allocations \<Rightarrow> bool" where
  "movable c S a \<longleftrightarrow>
     (\<forall>region. S \<inter> set (al_owned a region) \<noteq> {} \<longrightarrow> card (S \<inter> set (al_owned a region)) + c \<le> al_load a region) \<and>
     card S \<le> (\<Sum>region \<in> al_dom a. c - al_load a region) \<and> S \<subseteq> fmdom' (al_shard_homes a)"

lemma excess_le_deficit:
  assumes "finite A" "(\<Sum>x \<in> A. f x) \<le> c * card A"
  shows "(\<Sum>x \<in> A. f x - c) \<le> (\<Sum>x \<in> A. c - f x :: nat)"
proof -
  have "f x + (c - f x) = c + (f x - c)" for x by simp
  then have "(\<Sum>x \<in> A. f x) + (\<Sum>x \<in> A. c - f x) = c * card A + (\<Sum>x \<in> A. f x - c)"
    by (simp add: sum.distrib [symmetric]) (simp add: sum.distrib mult.commute)
  with assms(2) show ?thesis by linarith
qed

lemma over_optimal_movable:
  assumes wf: "al_wf a" and regions: "distinct regions" "set regions = al_dom a" and ne: "al_dom a \<noteq> {}"
  shows "movable (al_optimal a) (set (take limit (over_optimal a regions))) a" (is "movable _ ?S a")
  unfolding movable_def
proof (intro conjI allI impI)
  have S: "?S \<subseteq> set (over_optimal a regions)" by (rule set_take_subset)
  show "?S \<subseteq> fmdom' (al_shard_homes a)"
    using S al_owned_iff [OF wf] by (fastforce simp: over_optimal_mem fmlookup_dom'_iff dest: in_set_takeD)
  have "card ?S \<le> length (over_optimal a regions)"
    by (metis card_length length_take min.cobounded1 order_trans)
  also have "\<dots> = (\<Sum>region \<in> al_dom a. al_load a region - al_optimal a)"
    using regions by (simp add: over_optimal_length sum_list_distinct_conv_sum_set)
  also have "\<dots> \<le> (\<Sum>region \<in> al_dom a. al_optimal a - al_load a region)"
    using optimal_bounds(1) [OF wf ne] by (intro excess_le_deficit) auto
  finally show "card ?S \<le> \<dots>" .
  fix region
  assume "?S \<inter> set (al_owned a region) \<noteq> {}"
  have sub: "?S \<inter> set (al_owned a region) \<subseteq> set (take (al_load a region - al_optimal a) (al_owned a region))"
  proof
    fix shard assume x: "shard \<in> ?S \<inter> set (al_owned a region)"
    then have "shard \<in> set (over_optimal a regions)" using S by blast
    then obtain r where "shard \<in> set (take (al_load a r - al_optimal a) (al_owned a r))"
      unfolding over_optimal_mem by blast
    moreover from this x have "r = region" using al_owned_iff [OF wf] by (metis IntD2 in_set_takeD option.inject)
    ultimately show "shard \<in> set (take (al_load a region - al_optimal a) (al_owned a region))" by simp
  qed
  then have "card (?S \<inter> set (al_owned a region)) \<le> card (set (take (al_load a region - al_optimal a) (al_owned a region)))"
    by (rule card_mono [rotated]) simp
  also have "\<dots> \<le> al_load a region - al_optimal a" by (rule order_trans [OF card_length]) simp
  finally have "card (?S \<inter> set (al_owned a region)) \<le> al_load a region - al_optimal a" .
  moreover have "al_load a region - al_optimal a \<noteq> 0" using sub \<open>?S \<inter> set (al_owned a region) \<noteq> {}\<close> by (cases "al_load a region - al_optimal a") auto
  ultimately show "card (?S \<inter> set (al_owned a region)) + al_optimal a \<le> al_load a region" by linarith
qed

lemma first_of_full_movable:
  assumes wf: "al_wf a" and regions: "distinct regions" "set regions = al_dom a" and pos: "0 < al_optimal a"
  shows "movable (al_optimal a - 1)
    (set (take (min (\<Sum>region \<leftarrow> regions. al_optimal a - 1 - al_load a region) limit) (first_of_full a regions))) a"
    (is "movable _ ?S a")
  unfolding movable_def
proof (intro conjI allI impI)
  have S: "?S \<subseteq> set (first_of_full a regions)" by (rule set_take_subset)
  have mem: "\<exists>r. shard \<in> set (al_owned a r) \<and> al_optimal a \<le> al_load a r \<and> shard = hd (al_owned a r)"
    if "shard \<in> ?S" for shard
  proof -
    have "shard \<in> set (first_of_full a regions)" using that S by blast
    then show ?thesis unfolding first_of_full_mem by (metis hd_in_set)
  qed
  show "?S \<subseteq> fmdom' (al_shard_homes a)"
    using mem al_owned_iff [OF wf] by (metis fmdom'I subsetI)
  have "card ?S \<le> (\<Sum>region \<leftarrow> regions. al_optimal a - 1 - al_load a region)"
    by (rule order_trans [OF card_length]) simp
  then show "card ?S \<le> (\<Sum>region \<in> al_dom a. al_optimal a - 1 - al_load a region)"
    using regions by (simp add: sum_list_distinct_conv_sum_set)
  fix region
  assume ne: "?S \<inter> set (al_owned a region) \<noteq> {}"
  have one: "shard = hd (al_owned a region) \<and> al_optimal a \<le> al_load a region" if "shard \<in> ?S \<inter> set (al_owned a region)" for shard
    using mem [of shard] that al_owned_iff [OF wf] by (metis IntD1 IntD2 option.inject)
  then have "?S \<inter> set (al_owned a region) \<subseteq> {hd (al_owned a region)}" by blast
  then have "card (?S \<inter> set (al_owned a region)) \<le> card {hd (al_owned a region)}" by (rule card_mono [rotated]) simp
  moreover have "al_optimal a \<le> al_load a region" using ne one by blast
  ultimately show "card (?S \<inter> set (al_owned a region)) + (al_optimal a - 1) \<le> al_load a region"
    using pos by (simp; linarith)
qed

lemma fset_of_list_eq_empty [simp]: "fset_of_list xs = {||} \<longleftrightarrow> xs = []"
  by (cases xs) auto

lemma ls_rebalance_cases:
  assumes wf: "al_wf a"
  obtains S where "ls_rebalance st a {||} = Ok S" "S = {||} \<longleftrightarrow> al_balanced a"
    "fcard S \<le> ls_rebalance_limit st (al_shard_count a)" "S \<noteq> {||} \<Longrightarrow> \<exists>c. movable c (fset S) a"
proof -
  obtain regions where e: "al_sorted_entries a = map (\<lambda>region. (region, al_owned a region)) regions"
    "distinct regions" "set regions = al_dom a" by (rule al_entries_conv)
  let ?limit = "ls_rebalance_limit st (al_shard_count a)"
  let ?below = "\<Sum>region \<leftarrow> regions. al_optimal a - 1 - al_load a region"
  have lim: "0 < ?limit" by (simp add: ls_rebalance_limit_def)
  have card: "fcard (fset_of_list (take n xs)) \<le> n" for n and xs :: "shard_id list"
    by (simp add: fcard.rep_eq fset_of_list.rep_eq) (rule order_trans [OF card_length], simp)
  show thesis
  proof (cases "al_shard_count a = 0 \<or> al_region_count a = 0")
    case True
    then have "al_balanced a"
      using al_shard_count_sum [OF wf] by (auto simp: al_balanced_def al_region_count_card)
    with True show thesis by (intro that [of "{||}"]) (simp_all add: ls_rebalance_conv [OF e(1)] fcard.rep_eq)
  next
    case False
    then have ne: "al_dom a \<noteq> {}" and pos: "0 < al_shard_count a" by (auto simp: al_region_count_card)
    note bal = balanced_iff [OF wf ne pos]
    show thesis
    proof (cases "over_optimal a regions = []")
      case over: False
      then have "\<not> al_balanced a" using e(3) by (auto simp: bal over_optimal_Nil)
      moreover have "take ?limit (over_optimal a regions) \<noteq> []" using over lim by simp
      ultimately show thesis
        using False over card over_optimal_movable [OF wf e(2,3) ne, of ?limit]
        by (intro that [of "fset_of_list (take ?limit (over_optimal a regions))"])
          (auto simp: ls_rebalance_conv [OF e(1)] fset_of_list.rep_eq)
    next
      case none: True
      have below0: "?below = 0 \<longleftrightarrow> al_balanced a"
        using none e(3) by (auto simp: bal over_optimal_Nil)
      show thesis
      proof (cases "?below = 0")
        case True
        then show thesis
          using False none below0 by (intro that [of "{||}"]) (simp_all add: ls_rebalance_conv [OF e(1)] fcard.rep_eq)
      next
        case b: False
        have opt: "0 < al_optimal a" by (rule optimal_bounds(3) [OF wf ne pos])
        obtain top where "top \<in> al_dom a" "al_optimal a \<le> al_load a top" using optimal_reached [OF wf ne pos] by blast
        then have "hd (al_owned a top) \<in> set (first_of_full a regions)"
          using opt e(3) by (auto simp: first_of_full_mem)
        moreover have "0 < min ?below ?limit" using b lim by (simp only: min_less_iff_conj neq0_conv)
        ultimately have "take (min ?below ?limit) (first_of_full a regions) \<noteq> []"
          by (metis empty_iff empty_set less_not_refl take_eq_Nil)
        then show thesis
          using False none b below0 order_trans [OF card min.cobounded2]
            first_of_full_movable [OF wf e(2,3) opt, of ?limit]
          by (intro that [of "fset_of_list (take (min ?below ?limit) (first_of_full a regions))"])
            (auto simp: ls_rebalance_conv [OF e(1)] fset_of_list.rep_eq Let_def)
      qed
    qed
  qed
qed

section \<open>Moving a shard to the least loaded region\<close>

lemma al_owned_release: "al_owned (al_release shard a) region = filter (\<lambda>x. x \<noteq> shard) (al_owned a region)"
  by (cases "fmlookup (al_regions a) region") (simp_all add: al_owned_def al_release_def)

lemma al_owned_place:
  "fmlookup (al_regions a) region \<noteq> None \<Longrightarrow>
     al_owned (al_place region shard a) other = (if other = region then al_owned a region @ [shard] else al_owned a other)"
  by (auto simp: al_owned_def al_place_def)

lemma al_dom_release [simp]: "al_dom (al_release shard a) = al_dom a"
  by (simp add: al_release_def)

lemma al_dom_place: "region \<in> al_dom a \<Longrightarrow> al_dom (al_place region shard a) = al_dom a"
  by (auto simp: al_place_def)

lemma sum_two:
  fixes f :: "'a \<Rightarrow> nat"
  assumes "finite A" "x \<in> A" "y \<in> A" "x \<noteq> y"
  shows "sum f A = f x + f y + sum f (A - {x, y})"
proof -
  have "A - {x} - {y} = A - {x, y}" by blast
  then show ?thesis using assms sum.remove [of A x f] sum.remove [of "A - {x}" y f] by simp
qed

definition al_potential :: "shard_allocations \<Rightarrow> nat" where
  "al_potential a = (\<Sum>region \<in> al_dom a. al_load a region * al_load a region)"

text \<open>A shard in its new home: the allocation with \<^term>\<open>shard\<close> moved to \<^term>\<open>target\<close>.\<close>

abbreviation al_move :: "region_id \<Rightarrow> shard_id \<Rightarrow> shard_allocations \<Rightarrow> shard_allocations" where
  "al_move target shard a \<equiv> al_place target shard (al_release shard a)"

lemma al_move_wf:
  assumes "al_wf a" "target \<in> al_dom a"
  shows "al_wf (al_move target shard a)" "al_dom (al_move target shard a) = al_dom a"
    "al_shard_homes (al_move target shard a) = fmupd shard target (al_shard_homes a)"
proof -
  have t: "fmlookup (al_regions (al_release shard a)) target \<noteq> None"
    using assms(2) by (auto simp: al_release_def fmlookup_dom'_iff)
  have h: "fmlookup (al_shard_homes (al_release shard a)) shard = None" by (simp add: al_release_def)
  show "al_wf (al_move target shard a)" by (rule al_place_wf [OF al_release_wf [OF assms(1)] t h])
  show "al_dom (al_move target shard a) = al_dom a" using assms(2) by (simp add: al_dom_place)
  show "al_shard_homes (al_move target shard a) = fmupd shard target (al_shard_homes a)"
    by (rule fmap_ext) (simp add: al_place_def al_release_def)
qed

lemma al_move_owned:
  assumes "al_wf a" "target \<in> al_dom a" "fmlookup (al_shard_homes a) shard = Some source" "source \<noteq> target"
  shows "al_owned (al_move target shard a) region =
    (if region = target then al_owned a target @ [shard]
     else if region = source then filter (\<lambda>x. x \<noteq> shard) (al_owned a source) else al_owned a region)"
proof -
  have "fmlookup (al_regions (al_release shard a)) target \<noteq> None"
    using assms(2) by (auto simp: al_release_def fmlookup_dom'_iff)
  moreover have "filter (\<lambda>x. x \<noteq> shard) (al_owned a r) = al_owned a r" if "r \<noteq> source" for r
    using that assms(3) al_owned_iff [OF assms(1), of shard r] by (intro filter_True) auto
  ultimately show ?thesis using assms(4) by (auto simp: al_owned_place al_owned_release)
qed

lemma filter_neq_length:
  assumes "distinct xs"
  shows "length (filter (\<lambda>x. x \<noteq> y) xs) = (if y \<in> set xs then length xs - 1 else length xs)"
proof -
  have "filter (\<lambda>x. x \<noteq> y) xs = remove1 y xs"
    using distinct_remove1_removeAll [OF assms] by (simp add: removeAll_filter_not_eq eq_commute)
  then show ?thesis by (simp add: length_remove1)
qed

lemma al_release_load:
  assumes "al_wf a" "fmlookup (al_shard_homes a) shard = Some source"
  shows "al_load (al_release shard a) region = (if region = source then al_load a source - 1 else al_load a region)"
  using assms(2) al_owned_iff [OF assms(1), of shard region]
  by (simp add: al_owned_release filter_neq_length [OF al_owned_distinct [OF assms(1)]])

lemma al_move_load:
  assumes "al_wf a" "target \<in> al_dom a" "fmlookup (al_shard_homes a) shard = Some source" "source \<noteq> target"
  shows "al_load (al_move target shard a) target = al_load a target + 1"
    and "al_load (al_move target shard a) source + 1 = al_load a source"
    and "region \<noteq> target \<Longrightarrow> region \<noteq> source \<Longrightarrow> al_load (al_move target shard a) region = al_load a region"
proof -
  have "shard \<in> set (al_owned a source)" using assms(3) by (simp add: al_owned_iff [OF assms(1)])
  then show "al_load (al_move target shard a) source + 1 = al_load a source"
    using assms(4) length_pos_if_in_set [of shard "al_owned a source"]
    by (simp add: al_move_owned [OF assms] filter_neq_length [OF al_owned_distinct [OF assms(1)]])
qed (use assms(4) in \<open>simp_all add: al_move_owned [OF assms]\<close>)

lemma al_move_sum:
  fixes f :: "nat \<Rightarrow> nat"
  assumes "al_wf a" "target \<in> al_dom a" "fmlookup (al_shard_homes a) shard = Some source" "source \<noteq> target"
  shows "(\<Sum>region \<in> al_dom a. f (al_load (al_move target shard a) region)) + f (al_load a source) + f (al_load a target) =
    (\<Sum>region \<in> al_dom a. f (al_load a region)) + f (al_load a source - 1) + f (al_load a target + 1)"
proof -
  note two = sum_two [OF _ al_home_dom [OF assms(1,3)] assms(2,4)]
  have "(\<Sum>region \<in> al_dom a - {source, target}. f (al_load (al_move target shard a) region)) =
      (\<Sum>region \<in> al_dom a - {source, target}. f (al_load a region))"
    using al_move_load(3) [OF assms] by (intro sum.cong) auto
  moreover have "al_load (al_move target shard a) source = al_load a source - 1" using al_move_load(2) [OF assms] by linarith
  ultimately show ?thesis using al_move_load(1) [OF assms] by (simp add: two)
qed

lemma movable_source:
  assumes "al_wf a" "movable c (insert shard S) a" "finite S" "shard \<notin> S"
  obtains source where "fmlookup (al_shard_homes a) shard = Some source" "c < al_load a source"
    "card (S \<inter> set (al_owned a source)) + c < al_load a source" "\<exists>low \<in> al_dom a. al_load a low < c"
proof -
  obtain source where h: "fmlookup (al_shard_homes a) shard = Some source"
    using assms(2) by (auto simp: movable_def fmlookup_dom'_iff)
  have o: "shard \<in> set (al_owned a source)" using h by (simp add: al_owned_iff [OF assms(1)])
  then have "insert shard S \<inter> set (al_owned a source) = insert shard (S \<inter> set (al_owned a source))" by blast
  moreover have "card (insert shard S \<inter> set (al_owned a source)) + c \<le> al_load a source"
    using assms(2) o unfolding movable_def by blast
  ultimately have big: "card (S \<inter> set (al_owned a source)) + c < al_load a source" using assms(3,4) by simp
  have "card (insert shard S) \<le> (\<Sum>region \<in> al_dom a. c - al_load a region)" using assms(2) by (simp add: movable_def)
  moreover have "0 < card (insert shard S)" using assms(3) by (simp add: card_gt_0_iff)
  ultimately have "(\<Sum>region \<in> al_dom a. c - al_load a region) \<noteq> 0" by linarith
  then obtain low where "low \<in> al_dom a" "c - al_load a low \<noteq> 0" by (meson sum.neutral)
  then have "\<exists>low \<in> al_dom a. al_load a low < c" by (intro bexI [of _ low]) auto
  with h big show thesis using that by simp
qed

lemma movable_target:
  assumes "al_wf a" "fmlookup (al_shard_homes a) shard = Some source" "c < al_load a source"
    and "low \<in> al_dom a" "al_load a low < c"
    and "\<forall>other \<in> al_dom a. al_load (al_release shard a) target \<le> al_load (al_release shard a) other"
  shows "source \<noteq> target" "al_load a target < c"
proof -
  have t: "al_load (al_release shard a) target < c"
    using assms(6) [rule_format, OF assms(4)] assms(3,5) by (auto simp: al_release_load [OF assms(1,2)] split: if_splits)
  then show "source \<noteq> target" using assms(3) by (auto simp: al_release_load [OF assms(1,2)] split: if_splits)
  then show "al_load a target < c" using t by (simp add: al_release_load [OF assms(1,2)])
qed

lemma potential_decreases:
  assumes "al_wf a" "target \<in> al_dom a" "fmlookup (al_shard_homes a) shard = Some source" "source \<noteq> target"
    and "al_load a target + 1 < al_load a source"
  shows "al_potential (al_move target shard a) < al_potential a"
proof -
  obtain x where x: "al_load a source = x + 1" using assms(5) by (metis add.commute less_iff_Suc_add plus_1_eq_Suc add_Suc)
  have "al_load a target < x" using assms(5) x by simp
  then have "x * x + (al_load a target + 1) * (al_load a target + 1) < (x + 1) * (x + 1) + al_load a target * al_load a target"
    by (simp add: algebra_simps)
  then show ?thesis
    using al_move_sum [OF assms(1-4), of "\<lambda>n. n * n"] x by (simp add: al_potential_def al_move_wf(2) [OF assms(1,2)])
qed

lemma movable_rest:
  assumes wf: "al_wf a" and mv: "movable c (insert shard S) a" and S: "finite S" "shard \<notin> S"
    and t: "target \<in> al_dom a" "al_load a target < c" "source \<noteq> target"
    and src: "fmlookup (al_shard_homes a) shard = Some source" "card (S \<inter> set (al_owned a source)) + c < al_load a source"
  shows "movable c S (al_move target shard a)" (is "movable c S ?b")
  unfolding movable_def
proof (intro conjI allI impI)
  note owned = al_move_owned [OF wf t(1) src(1) t(3)] and load = al_move_load [OF wf t(1) src(1) t(3)]
  show "S \<subseteq> fmdom' (al_shard_homes ?b)" using mv by (auto simp: movable_def al_move_wf(3) [OF wf t(1)])
  have "card S + 1 \<le> (\<Sum>region \<in> al_dom a. c - al_load a region)" using mv S by (simp add: movable_def)
  then show "card S \<le> (\<Sum>region \<in> al_dom ?b. c - al_load ?b region)"
    unfolding al_move_wf(2) [OF wf t(1)] using al_move_sum [OF wf t(1) src(1) t(3), of "\<lambda>n. c - n"] t(2) src(2) by linarith
  fix region
  assume ne: "S \<inter> set (al_owned ?b region) \<noteq> {}"
  have old: "card (S \<inter> set (al_owned a region)) + c \<le> al_load a region" if "S \<inter> set (al_owned a region) \<noteq> {}"
  proof -
    have "card (S \<inter> set (al_owned a region)) \<le> card (insert shard S \<inter> set (al_owned a region))" by (intro card_mono) auto
    with mv that show ?thesis unfolding movable_def by fastforce
  qed
  consider "region = target" | "region = source" | "region \<noteq> target" "region \<noteq> source" by blast
  then show "card (S \<inter> set (al_owned ?b region)) + c \<le> al_load ?b region"
  proof cases
    case 1
    then have "S \<inter> set (al_owned a target) \<noteq> {}" using ne S(2) by (auto simp: owned)
    with 1 old t(2) show ?thesis by simp
  next
    case 2
    have "card (S \<inter> set (al_owned ?b source)) \<le> card (S \<inter> set (al_owned a source))"
      using S(1) t(3) by (intro card_mono) (auto simp: owned)
    then show ?thesis using 2 src(2) load(2) by simp
  next
    case 3
    then show ?thesis using ne old by (simp add: owned)
  qed
qed

lemma movable_step:
  assumes "al_wf a" "movable c (insert shard S) a" "finite S" "shard \<notin> S"
    and "target \<in> al_dom a" "\<forall>other \<in> al_dom a. al_load (al_release shard a) target \<le> al_load (al_release shard a) other"
  shows "movable c S (al_move target shard a) \<and> al_potential (al_move target shard a) < al_potential a"
proof -
  obtain source low where src: "fmlookup (al_shard_homes a) shard = Some source" "c < al_load a source"
    "card (S \<inter> set (al_owned a source)) + c < al_load a source" and low: "low \<in> al_dom a" "al_load a low < c"
    using movable_source [OF assms(1-4)] by blast
  note t = movable_target [OF assms(1) src(1,2) low assms(6)]
  show ?thesis
    using movable_rest [OF assms(1-5) t(2,1) src(1,3)] potential_decreases [OF assms(1,5) src(1) t(1)] t(2) src(2) by simp
qed

section \<open>Properties\<close>

lemma shard_id_for_bound:
  assumes "shard_count \<noteq> 0"
  shows "\<exists>n < unat shard_count. shard_id_for entity_id shard_count = Ok (show_nat n)"
proof (intro exI conjI)
  show "unat (stable_hash_entity_id entity_id mod shard_count) < unat shard_count"
    using assms by (simp add: unat_mod unat_gt_0)
qed (use assms in \<open>simp add: shard_id_for_def\<close>)

lemma default_shard_id_for_Ok: "\<exists>n < 100. default_shard_id_for entity_id = Ok (show_nat n)"
  using shard_id_for_bound [of 100 entity_id] by (auto simp: default_shard_id_for_def)

text \<open>
  C11: While no handoff is in progress, the least-shard strategy selects shards to move exactly when the allocation is not
  balanced, that is, when two regions differ by more than one shard. The selection never exceeds the limit of a
  round (the smaller of the absolute limit and the relative share of the shards, rounded down, and at least one),
  contains only allocated shards, and can be moved without overshooting: for some load \<open>c\<close>, every region
  that gives up shards keeps at least \<open>c\<close> of them, and the regions below \<open>c\<close> have room for all that move.
\<close>

theorem rebalance_selects_iff_unbalanced:
  assumes "al_wf a"
  shows "\<exists>S. ls_rebalance st a {||} = Ok S \<and> (S = {||} \<longleftrightarrow> al_balanced a) \<and>
    fcard S \<le> max (min (ls_absolute_limit st) (ls_relative_share st (al_shard_count a))) 1 \<and> fset S \<subseteq> fmdom' (al_shard_homes a) \<and>
    (S \<noteq> {||} \<longrightarrow> (\<exists>c. movable c (fset S) a))"
proof -
  obtain S where S: "ls_rebalance st a {||} = Ok S" "S = {||} \<longleftrightarrow> al_balanced a"
    "fcard S \<le> ls_rebalance_limit st (al_shard_count a)" "S \<noteq> {||} \<Longrightarrow> \<exists>c. movable c (fset S) a"
    using ls_rebalance_cases [OF assms] by blast
  have "fset S \<subseteq> fmdom' (al_shard_homes a)" using S(4) by (cases "S = {||}") (auto simp: movable_def)
  then show ?thesis using S unfolding ls_rebalance_limit_def by blast
qed

definition sample_allocations :: shard_allocations where
  "sample_allocations =
     al_place ''r1'' ''s3'' (al_place ''r1'' ''s2'' (al_place ''r1'' ''s1'' (al_from_regions [''r1'', ''r2''])))"

lemma sample_allocations_wf: "al_wf sample_allocations"
proof -
  have "al_wf (al_from_regions [''r1'', ''r2''])" by (rule al_from_regions_wf)
  then have "al_wf (al_place ''r1'' ''s1'' (al_from_regions [''r1'', ''r2'']))"
    by (rule al_place_wf) code_simp+
  then have "al_wf (al_place ''r1'' ''s2'' (al_place ''r1'' ''s1'' (al_from_regions [''r1'', ''r2''])))"
    by (rule al_place_wf) code_simp+
  then show ?thesis unfolding sample_allocations_def by (rule al_place_wf) code_simp+
qed

theorem rebalance_selects_iff_unbalanced_witness:
  "ls_rebalance ls_default sample_allocations {||} = Ok {|''s1''|} \<and> \<not> al_balanced sample_allocations"
proof -
  have sel: "ls_rebalance ls_default sample_allocations {||} = Ok {|''s1''|}" by code_simp
  obtain S where "ls_rebalance ls_default sample_allocations {||} = Ok S" "S = {||} \<longleftrightarrow> al_balanced sample_allocations"
    using rebalance_selects_iff_unbalanced [OF sample_allocations_wf, of ls_default] by blast
  with sel show ?thesis by simp
qed

end
