(* ===== verification/Shard_Coordinator.thy ===== *)
theory Shard_Coordinator
  imports Shard_Allocation
begin

text \<open>
  The shard coordinator: \<open>coordinator.rs\<close> and \<open>coordinator_runtime.rs\<close> of \<open>kairo-cluster-sharding/src\<close>. The allocation
  strategy is an argument. An operation that fails before it changes anything returns only the fault; the one
  that can fail half-way, the allocation of remembered shards, returns the state with its result.

  The lemmas show that no operation panics, that a shard moves from one region to another only through a handoff or the end of its
  region, that remembered shards are never lost, and that rounds of rebalancing end in a balanced allocation.
\<close>

section \<open>Coordinator state\<close>

datatype coordinator_event =
    ShardRegionRegistered region_id
  | ShardRegionProxyRegistered region_id
  | ShardRegionTerminated region_id
  | ShardRegionProxyTerminated region_id
  | ShardHomeAllocated shard_id region_id
  | ShardHomeDeallocated shard_id
  | ShardCoordinatorInitialized

record coordinator_state =
  cs_allocations :: shard_allocations
  cs_proxies :: "region_id fset"
  cs_unallocated_shards :: "shard_id fset"
  cs_remember_entities :: bool

definition cs_new :: coordinator_state where
  "cs_new = \<lparr>cs_allocations = al_new, cs_proxies = {||}, cs_unallocated_shards = {||}, cs_remember_entities = False\<rparr>"

definition cs_with_remember_entities :: "bool \<Rightarrow> coordinator_state \<Rightarrow> coordinator_state" where
  "cs_with_remember_entities enabled s =
     (let s = s\<lparr>cs_remember_entities := enabled\<rparr>
      in if \<not> enabled then s\<lparr>cs_unallocated_shards := {||}\<rparr> else s)"

definition cs_all_shards :: "coordinator_state \<Rightarrow> shard_id fset" where
  "cs_all_shards s = fset_of_list (al_shards (cs_allocations s)) |\<union>| cs_unallocated_shards s"

definition cs_shard_home :: "shard_id \<Rightarrow> coordinator_state \<Rightarrow> region_id option" where
  "cs_shard_home shard s = fmlookup (al_shard_homes (cs_allocations s)) shard"

primrec cs_merge_loop :: "shard_id list \<Rightarrow> coordinator_state \<Rightarrow> shard_id list \<Rightarrow> coordinator_state \<times> shard_id list" where
  "cs_merge_loop [] s added = (s, added)"
| "cs_merge_loop (shard # shards) s added =
     (if cs_shard_home shard s = None \<and> shard |\<notin>| cs_unallocated_shards s
      then cs_merge_loop shards (s\<lparr>cs_unallocated_shards := finsert shard (cs_unallocated_shards s)\<rparr>) (added @ [shard])
      else cs_merge_loop shards s added)"

definition cs_merge_remembered_shards :: "shard_id list \<Rightarrow> coordinator_state \<Rightarrow> coordinator_state \<times> shard_id list" where
  "cs_merge_remembered_shards shards s = (if \<not> cs_remember_entities s then (s, []) else cs_merge_loop shards s [])"

definition cs_register_region :: "region_id \<Rightarrow> coordinator_state \<Rightarrow> (fault, coordinator_state) result" where
  "cs_register_region region s =
     (let (a, inserted) = al_insert_region region (cs_allocations s)
      in if \<not> inserted then Err (Fail (RegionAlreadyRegistered region)) else Ok (s\<lparr>cs_allocations := a\<rparr>))"

definition cs_register_proxy :: "region_id \<Rightarrow> coordinator_state \<Rightarrow> (fault, coordinator_state) result" where
  "cs_register_proxy proxy s =
     (if proxy |\<in>| cs_proxies s then Err (Fail (RegionProxyAlreadyRegistered proxy))
      else Ok (s\<lparr>cs_proxies := finsert proxy (cs_proxies s)\<rparr>))"

definition cs_terminate_region :: "region_id \<Rightarrow> coordinator_state \<Rightarrow> (fault, coordinator_state) result" where
  "cs_terminate_region region s =
     bind_result (al_remove_region region (cs_allocations s)) (\<lambda>(a, removed).
       case removed of
         None \<Rightarrow> Err (Fail (UnknownRegion region))
       | Some shards \<Rightarrow>
           let s = s\<lparr>cs_allocations := a\<rparr>
           in Ok (if cs_remember_entities s
                  then s\<lparr>cs_unallocated_shards := cs_unallocated_shards s |\<union>| fset_of_list shards\<rparr> else s))"

definition cs_terminate_proxy :: "region_id \<Rightarrow> coordinator_state \<Rightarrow> (fault, coordinator_state) result" where
  "cs_terminate_proxy proxy s =
     (if proxy |\<in>| cs_proxies s then Ok (s\<lparr>cs_proxies := cs_proxies s |-| {|proxy|}\<rparr>)
      else Err (Fail (UnknownRegionProxy proxy)))"

definition cs_allocate_shard :: "shard_id \<Rightarrow> region_id \<Rightarrow> coordinator_state \<Rightarrow> (fault, coordinator_state) result" where
  "cs_allocate_shard shard region s =
     (if cs_shard_home shard s \<noteq> None then Err (Fail (ShardAlreadyAllocated shard))
      else bind_result (al_allocate_shard region shard (cs_allocations s)) (\<lambda>(a, _).
        let s = s\<lparr>cs_allocations := a\<rparr>
        in Ok (if cs_remember_entities s
               then s\<lparr>cs_unallocated_shards := cs_unallocated_shards s |-| {|shard|}\<rparr> else s)))"

definition cs_deallocate_shard :: "shard_id \<Rightarrow> coordinator_state \<Rightarrow> (fault, coordinator_state) result" where
  "cs_deallocate_shard shard s =
     bind_result (al_deallocate_shard shard (cs_allocations s)) (\<lambda>(a, owner).
       if owner = None then Err (Fail (UnknownShard shard))
       else let s = s\<lparr>cs_allocations := a\<rparr>
            in Ok (if cs_remember_entities s
                   then s\<lparr>cs_unallocated_shards := finsert shard (cs_unallocated_shards s)\<rparr> else s))"

fun cs_apply :: "coordinator_event \<Rightarrow> coordinator_state \<Rightarrow> (fault, coordinator_state) result" where
  "cs_apply (ShardRegionRegistered region) s = cs_register_region region s"
| "cs_apply (ShardRegionProxyRegistered proxy) s = cs_register_proxy proxy s"
| "cs_apply (ShardRegionTerminated region) s = cs_terminate_region region s"
| "cs_apply (ShardRegionProxyTerminated proxy) s = cs_terminate_proxy proxy s"
| "cs_apply (ShardHomeAllocated shard region) s = cs_allocate_shard shard region s"
| "cs_apply (ShardHomeDeallocated shard) s = cs_deallocate_shard shard s"
| "cs_apply ShardCoordinatorInitialized s = Ok s"

section \<open>Plans\<close>

datatype get_shard_home = GetShardHome shard_id
datatype host_shard = HostShard shard_id
datatype begin_handoff = BeginHandOff shard_id

datatype get_shard_home_ignore_reason =
    NotAllRegionsRegistered
  | NoActiveRegions
  | HomeRegionTerminating region_id
  | AllocatedRegionNoLongerActive region_id

datatype get_shard_home_plan =
    HomeReply shard_id region_id
  | HomeAllocated coordinator_event region_id host_shard
  | HomeDeferred shard_id region_id
  | HomeIgnored shard_id get_shard_home_ignore_reason

record shard_rebalance_plan =
  rp_shard :: shard_id
  rp_from_region :: region_id
  rp_participants :: "region_id fset"
  rp_begin_handoff :: begin_handoff

datatype rebalance_skip_reason =
    PreparingForShutdown
  | RegionsUnavailable "region_id fset"
  | SkipNoShardRegions
  | StrategySelectedNoShards
  | SelectedShardsMissingHomes

datatype rebalance_plan = RebalanceStarted "shard_rebalance_plan list" | RebalanceSkipped rebalance_skip_reason

datatype region_shutdown_plan =
    ShutdownStarted region_id "shard_rebalance_plan list"
  | ShutdownAlreadyInProgress region_id
  | ShutdownUnknownRegion region_id
  | ShutdownNoShards region_id

datatype rebalance_completion_plan =
    CompletionDeallocated shard_id coordinator_event "region_id list" get_shard_home
  | CompletionCleared shard_id "region_id list"
  | CompletionTimedOut shard_id "region_id list"

section \<open>Coordinator runtime\<close>

record coordinator_runtime =
  rt_state :: coordinator_state
  rt_all_regions_registered :: bool
  rt_graceful_shutdown_regions :: "region_id fset"
  rt_terminating_regions :: "region_id fset"
  rt_unavailable_regions :: "region_id fset"
  rt_rebalance_in_progress :: "(shard_id, region_id fset) fmap"
  rt_preparing_for_shutdown :: bool

definition runtime_new :: "coordinator_state \<Rightarrow> coordinator_runtime" where
  "runtime_new state =
     \<lparr>rt_state = state, rt_all_regions_registered = True, rt_graceful_shutdown_regions = {||}, rt_terminating_regions = {||},
      rt_unavailable_regions = {||}, rt_rebalance_in_progress = fmempty, rt_preparing_for_shutdown = False\<rparr>"

abbreviation rt_allocations :: "coordinator_runtime \<Rightarrow> shard_allocations" where
  "rt_allocations rt \<equiv> cs_allocations (rt_state rt)"

definition rt_apply_event :: "coordinator_event \<Rightarrow> coordinator_runtime \<Rightarrow> (fault, coordinator_runtime) result" where
  "rt_apply_event event rt = bind_result (cs_apply event (rt_state rt)) (\<lambda>s. Ok (rt\<lparr>rt_state := s\<rparr>))"

definition rt_merge_remembered_shards :: "shard_id list \<Rightarrow> coordinator_runtime \<Rightarrow> coordinator_runtime \<times> shard_id list" where
  "rt_merge_remembered_shards shards rt =
     (let (s, added) = cs_merge_remembered_shards shards (rt_state rt) in (rt\<lparr>rt_state := s\<rparr>, added))"

definition rt_remembered_shard_home_requests :: "coordinator_runtime \<Rightarrow> get_shard_home list" where
  "rt_remembered_shard_home_requests rt =
     (if \<not> cs_remember_entities (rt_state rt) then []
      else map GetShardHome (sorted_list_of_fset (cs_unallocated_shards (rt_state rt))))"

definition rt_begin_rebalance :: "shard_id \<Rightarrow> coordinator_runtime \<Rightarrow> coordinator_runtime \<times> bool" where
  "rt_begin_rebalance shard rt =
     (case fmlookup (rt_rebalance_in_progress rt) shard of
        None \<Rightarrow> (rt\<lparr>rt_rebalance_in_progress := fmupd shard {||} (rt_rebalance_in_progress rt)\<rparr>, True)
      | Some _ \<Rightarrow> (rt, False))"

definition rt_clear_rebalance :: "shard_id \<Rightarrow> coordinator_runtime \<Rightarrow> coordinator_runtime \<times> region_id list" where
  "rt_clear_rebalance shard rt =
     (rt\<lparr>rt_rebalance_in_progress := fmdrop shard (rt_rebalance_in_progress rt)\<rparr>,
      case fmlookup (rt_rebalance_in_progress rt) shard of None \<Rightarrow> [] | Some requesters \<Rightarrow> sorted_list_of_fset requesters)"

definition rt_defer_request :: "shard_id \<Rightarrow> region_id \<Rightarrow> coordinator_runtime \<Rightarrow> coordinator_runtime" where
  "rt_defer_request shard requester rt =
     rt\<lparr>rt_rebalance_in_progress := fmupd shard
         (finsert requester (unwrap_or (fmlookup (rt_rebalance_in_progress rt) shard) {||})) (rt_rebalance_in_progress rt)\<rparr>"

primrec remove_regions :: "region_id list \<Rightarrow> shard_allocations \<Rightarrow> (fault, shard_allocations) result" where
  "remove_regions [] a = Ok a"
| "remove_regions (region # regions) a = bind_result (al_remove_region region a) (\<lambda>(a, _). remove_regions regions a)"

definition rt_active_allocations :: "coordinator_runtime \<Rightarrow> (fault, shard_allocations) result" where
  "rt_active_allocations rt =
     (if rt_graceful_shutdown_regions rt = {||} \<and> rt_terminating_regions rt = {||} then Ok (rt_allocations rt)
      else remove_regions (sorted_list_of_fset (rt_graceful_shutdown_regions rt) @ sorted_list_of_fset (rt_terminating_regions rt))
             (rt_allocations rt))"

definition rt_rebalance_participants :: "coordinator_runtime \<Rightarrow> region_id fset" where
  "rt_rebalance_participants rt = fset_of_list (bt_keys (al_regions (rt_allocations rt))) |\<union>| cs_proxies (rt_state rt)"

definition handoff_plan :: "region_id fset \<Rightarrow> shard_id \<Rightarrow> region_id \<Rightarrow> shard_rebalance_plan" where
  "handoff_plan participants shard from_region =
     \<lparr>rp_shard = shard, rp_from_region = from_region, rp_participants = participants, rp_begin_handoff = BeginHandOff shard\<rparr>"

primrec plan_selected ::
  "region_id fset \<Rightarrow> shard_id list \<Rightarrow> coordinator_runtime \<Rightarrow> coordinator_runtime \<times> shard_rebalance_plan list" where
  "plan_selected participants [] rt = (rt, [])"
| "plan_selected participants (shard # shards) rt =
     (if fmlookup (rt_rebalance_in_progress rt) shard \<noteq> None then plan_selected participants shards rt
      else case cs_shard_home shard (rt_state rt) of
             None \<Rightarrow> plan_selected participants shards rt
           | Some from_region \<Rightarrow>
               let (rt, plans) = plan_selected participants shards (fst (rt_begin_rebalance shard rt))
               in (rt, handoff_plan participants shard from_region # plans))"

definition rt_plan_rebalance ::
  "allocation_strategy \<Rightarrow> coordinator_runtime \<Rightarrow> (fault, coordinator_runtime \<times> rebalance_plan) result" where
  "rt_plan_rebalance strategy rt =
     (if rt_preparing_for_shutdown rt then Ok (rt, RebalanceSkipped PreparingForShutdown)
      else if rt_unavailable_regions rt \<noteq> {||} then Ok (rt, RebalanceSkipped (RegionsUnavailable (rt_unavailable_regions rt)))
      else bind_result (rt_active_allocations rt) (\<lambda>active.
        if al_region_count active = 0 then Ok (rt, RebalanceSkipped SkipNoShardRegions)
        else case st_rebalance strategy active (fmdom (rt_rebalance_in_progress rt)) of
               Err e \<Rightarrow> Err (Fail e)
             | Ok selected \<Rightarrow>
                 if selected = {||} then Ok (rt, RebalanceSkipped StrategySelectedNoShards)
                 else let (rt, plans) = plan_selected (rt_rebalance_participants rt) (sorted_list_of_fset selected) rt
                      in if plans = [] then Ok (rt, RebalanceSkipped SelectedShardsMissingHomes)
                         else Ok (rt, RebalanceStarted plans)))"

primrec plan_owned ::
  "region_id fset \<Rightarrow> region_id \<Rightarrow> shard_id list \<Rightarrow> coordinator_runtime \<Rightarrow> coordinator_runtime \<times> shard_rebalance_plan list" where
  "plan_owned participants region [] rt = (rt, [])"
| "plan_owned participants region (shard # shards) rt =
     (if fmlookup (rt_rebalance_in_progress rt) shard \<noteq> None then plan_owned participants region shards rt
      else let (rt, plans) = plan_owned participants region shards (fst (rt_begin_rebalance shard rt))
           in (rt, handoff_plan participants shard region # plans))"

definition rt_plan_region_shutdown :: "region_id \<Rightarrow> coordinator_runtime \<Rightarrow> coordinator_runtime \<times> region_shutdown_plan" where
  "rt_plan_region_shutdown region rt =
     (if region |\<in>| rt_graceful_shutdown_regions rt then (rt, ShutdownAlreadyInProgress region)
      else case fmlookup (al_regions (rt_allocations rt)) region of
             None \<Rightarrow> (rt, ShutdownUnknownRegion region)
           | Some shards \<Rightarrow>
               let rt = rt\<lparr>rt_graceful_shutdown_regions := finsert region (rt_graceful_shutdown_regions rt)\<rparr>;
                   (rt, plans) = plan_owned (rt_rebalance_participants rt) region shards rt
               in (rt, if plans = [] then ShutdownNoShards region else ShutdownStarted region plans))"

definition rt_complete_rebalance ::
  "shard_id \<Rightarrow> bool \<Rightarrow> coordinator_runtime \<Rightarrow> (fault, coordinator_runtime \<times> rebalance_completion_plan) result" where
  "rt_complete_rebalance shard ok rt =
     (if fmlookup (rt_rebalance_in_progress rt) shard = None then Ok (rt, CompletionCleared shard [])
      else if \<not> ok
      then let rt = (case cs_shard_home shard (rt_state rt) of
                       Some region \<Rightarrow> rt\<lparr>rt_graceful_shutdown_regions := rt_graceful_shutdown_regions rt |-| {|region|}\<rparr>
                     | None \<Rightarrow> rt);
               (rt, pending_requesters) = rt_clear_rebalance shard rt
           in Ok (rt, CompletionTimedOut shard pending_requesters)
      else if cs_shard_home shard (rt_state rt) \<noteq> None
      then let event = ShardHomeDeallocated shard
           in bind_result (cs_apply event (rt_state rt)) (\<lambda>s.
                let (rt, pending_requesters) = rt_clear_rebalance shard (rt\<lparr>rt_state := s\<rparr>)
                in Ok (rt, CompletionDeallocated shard event pending_requesters (GetShardHome shard)))
      else let (rt, pending_requesters) = rt_clear_rebalance shard rt in Ok (rt, CompletionCleared shard pending_requesters))"

definition rt_request_shard_home ::
  "allocation_strategy \<Rightarrow> region_id \<Rightarrow> shard_id \<Rightarrow> coordinator_runtime
     \<Rightarrow> (fault, coordinator_runtime \<times> get_shard_home_plan) result" where
  "rt_request_shard_home strategy requester shard rt =
     (if fmlookup (rt_rebalance_in_progress rt) shard \<noteq> None
      then Ok (rt_defer_request shard requester rt, HomeDeferred shard requester)
      else if \<not> rt_all_regions_registered rt then Ok (rt, HomeIgnored shard NotAllRegionsRegistered)
      else case cs_shard_home shard (rt_state rt) of
             Some region \<Rightarrow>
               if region |\<in>| rt_terminating_regions rt then Ok (rt, HomeIgnored shard (HomeRegionTerminating region))
               else Ok (rt, HomeReply shard region)
           | None \<Rightarrow>
               bind_result (rt_active_allocations rt) (\<lambda>active.
                 if al_region_count active = 0 then Ok (rt, HomeIgnored shard NoActiveRegions)
                 else case st_allocate_shard strategy requester shard active of
                        Err e \<Rightarrow> Err (Fail e)
                      | Ok region \<Rightarrow>
                          if \<not> al_contains_region region active
                          then Ok (rt, HomeIgnored shard (AllocatedRegionNoLongerActive region))
                          else let event = ShardHomeAllocated shard region
                               in bind_result (cs_apply event (rt_state rt)) (\<lambda>s.
                                    Ok (rt\<lparr>rt_state := s\<rparr>, HomeAllocated event region (HostShard shard)))))"

primrec allocate_remembered ::
  "allocation_strategy \<Rightarrow> region_id \<Rightarrow> get_shard_home list \<Rightarrow> coordinator_runtime \<Rightarrow> get_shard_home_plan list
     \<Rightarrow> coordinator_runtime \<times> (fault, get_shard_home_plan list) result" where
  "allocate_remembered strategy requester [] rt plans = (rt, Ok plans)"
| "allocate_remembered strategy requester (request # requests) rt plans =
     (case request of GetShardHome shard \<Rightarrow>
        case rt_request_shard_home strategy requester shard rt of
          Err e \<Rightarrow> (rt, Err e)
        | Ok (rt, plan) \<Rightarrow> allocate_remembered strategy requester requests rt (plans @ [plan]))"

definition rt_allocate_remembered_shard_homes ::
  "allocation_strategy \<Rightarrow> region_id \<Rightarrow> coordinator_runtime \<Rightarrow> coordinator_runtime \<times> (fault, get_shard_home_plan list) result" where
  "rt_allocate_remembered_shard_homes strategy requester rt =
     allocate_remembered strategy requester (rt_remembered_shard_home_requests rt) rt []"

section \<open>Operations and runs\<close>

datatype coordinator_op =
    OpApplyEvent coordinator_event
  | OpMergeRemembered "shard_id list"
  | OpAllocateRemembered region_id
  | OpSetAllRegionsRegistered bool
  | OpSetPreparingForShutdown bool
  | OpMarkGracefulShutdown region_id
  | OpUnmarkGracefulShutdown region_id
  | OpMarkRegionTerminating region_id
  | OpUnmarkRegionTerminating region_id
  | OpMarkRegionUnavailable region_id
  | OpUnmarkRegionUnavailable region_id
  | OpBeginRebalance shard_id
  | OpClearRebalance shard_id
  | OpPlanRebalance
  | OpPlanRegionShutdown region_id
  | OpCompleteRebalance shard_id bool
  | OpRequestShardHome region_id shard_id

definition rt_set_all_regions_registered :: "bool \<Rightarrow> coordinator_runtime \<Rightarrow> coordinator_runtime" where
  "rt_set_all_regions_registered registered rt = rt\<lparr>rt_all_regions_registered := registered\<rparr>"

definition rt_set_preparing_for_shutdown :: "bool \<Rightarrow> coordinator_runtime \<Rightarrow> coordinator_runtime" where
  "rt_set_preparing_for_shutdown preparing rt = rt\<lparr>rt_preparing_for_shutdown := preparing\<rparr>"

definition rt_mark_graceful_shutdown :: "region_id \<Rightarrow> coordinator_runtime \<Rightarrow> coordinator_runtime" where
  "rt_mark_graceful_shutdown region rt = rt\<lparr>rt_graceful_shutdown_regions := finsert region (rt_graceful_shutdown_regions rt)\<rparr>"

definition rt_unmark_graceful_shutdown :: "region_id \<Rightarrow> coordinator_runtime \<Rightarrow> coordinator_runtime" where
  "rt_unmark_graceful_shutdown region rt = rt\<lparr>rt_graceful_shutdown_regions := rt_graceful_shutdown_regions rt |-| {|region|}\<rparr>"

definition rt_mark_region_terminating :: "region_id \<Rightarrow> coordinator_runtime \<Rightarrow> coordinator_runtime" where
  "rt_mark_region_terminating region rt = rt\<lparr>rt_terminating_regions := finsert region (rt_terminating_regions rt)\<rparr>"

definition rt_unmark_region_terminating :: "region_id \<Rightarrow> coordinator_runtime \<Rightarrow> coordinator_runtime" where
  "rt_unmark_region_terminating region rt = rt\<lparr>rt_terminating_regions := rt_terminating_regions rt |-| {|region|}\<rparr>"

definition rt_mark_region_unavailable :: "region_id \<Rightarrow> coordinator_runtime \<Rightarrow> coordinator_runtime" where
  "rt_mark_region_unavailable region rt = rt\<lparr>rt_unavailable_regions := finsert region (rt_unavailable_regions rt)\<rparr>"

definition rt_unmark_region_unavailable :: "region_id \<Rightarrow> coordinator_runtime \<Rightarrow> coordinator_runtime" where
  "rt_unmark_region_unavailable region rt = rt\<lparr>rt_unavailable_regions := rt_unavailable_regions rt |-| {|region|}\<rparr>"

lemmas rt_setter_defs = rt_set_all_regions_registered_def rt_set_preparing_for_shutdown_def rt_mark_graceful_shutdown_def
  rt_unmark_graceful_shutdown_def rt_mark_region_terminating_def rt_unmark_region_terminating_def rt_mark_region_unavailable_def
  rt_unmark_region_unavailable_def

text \<open>The state after one call of any operation, and the fault it returned.\<close>

definition rt_after :: "coordinator_runtime \<Rightarrow> (fault, coordinator_runtime \<times> 'p) result \<Rightarrow> coordinator_runtime \<times> fault option" where
  "rt_after rt res = (case res of Err f \<Rightarrow> (rt, Some f) | Ok (rt', _) \<Rightarrow> (rt', None))"

fun rt_exec :: "allocation_strategy \<Rightarrow> coordinator_op \<Rightarrow> coordinator_runtime \<Rightarrow> coordinator_runtime \<times> fault option" where
  "rt_exec strategy (OpApplyEvent event) rt = rt_after rt (bind_result (rt_apply_event event rt) (\<lambda>rt. Ok (rt, ())))"
| "rt_exec strategy (OpMergeRemembered shards) rt = (fst (rt_merge_remembered_shards shards rt), None)"
| "rt_exec strategy (OpAllocateRemembered requester) rt =
     (let (rt, res) = rt_allocate_remembered_shard_homes strategy requester rt
      in (rt, case res of Err f \<Rightarrow> Some f | Ok _ \<Rightarrow> None))"
| "rt_exec strategy (OpSetAllRegionsRegistered registered) rt = (rt_set_all_regions_registered registered rt, None)"
| "rt_exec strategy (OpSetPreparingForShutdown preparing) rt = (rt_set_preparing_for_shutdown preparing rt, None)"
| "rt_exec strategy (OpMarkGracefulShutdown region) rt = (rt_mark_graceful_shutdown region rt, None)"
| "rt_exec strategy (OpUnmarkGracefulShutdown region) rt = (rt_unmark_graceful_shutdown region rt, None)"
| "rt_exec strategy (OpMarkRegionTerminating region) rt = (rt_mark_region_terminating region rt, None)"
| "rt_exec strategy (OpUnmarkRegionTerminating region) rt = (rt_unmark_region_terminating region rt, None)"
| "rt_exec strategy (OpMarkRegionUnavailable region) rt = (rt_mark_region_unavailable region rt, None)"
| "rt_exec strategy (OpUnmarkRegionUnavailable region) rt = (rt_unmark_region_unavailable region rt, None)"
| "rt_exec strategy (OpBeginRebalance shard) rt = (fst (rt_begin_rebalance shard rt), None)"
| "rt_exec strategy (OpClearRebalance shard) rt = (fst (rt_clear_rebalance shard rt), None)"
| "rt_exec strategy OpPlanRebalance rt = rt_after rt (rt_plan_rebalance strategy rt)"
| "rt_exec strategy (OpPlanRegionShutdown region) rt = (fst (rt_plan_region_shutdown region rt), None)"
| "rt_exec strategy (OpCompleteRebalance shard ok) rt = rt_after rt (rt_complete_rebalance shard ok rt)"
| "rt_exec strategy (OpRequestShardHome requester shard) rt = rt_after rt (rt_request_shard_home strategy requester shard rt)"

inductive rt_reachable :: "allocation_strategy \<Rightarrow> coordinator_runtime \<Rightarrow> bool" for strategy where
  start: "rt_reachable strategy (runtime_new (cs_with_remember_entities enabled cs_new))"
| step: "rt_reachable strategy rt \<Longrightarrow> rt_exec strategy op rt = (rt', f) \<Longrightarrow> rt_reachable strategy rt'"

section \<open>Invariant of the state\<close>

lemma cs_shard_home_update [simp]:
  "cs_shard_home shard (s\<lparr>cs_allocations := a\<rparr>) = fmlookup (al_shard_homes a) shard"
  "cs_shard_home shard (s\<lparr>cs_allocations := a, cs_unallocated_shards := U\<rparr>) = fmlookup (al_shard_homes a) shard"
  "cs_shard_home shard (s\<lparr>cs_unallocated_shards := U\<rparr>) = cs_shard_home shard s"
  by (simp_all add: cs_shard_home_def)

definition cs_wf :: "coordinator_state \<Rightarrow> bool" where
  "cs_wf s \<longleftrightarrow> al_wf (cs_allocations s) \<and> (\<forall>shard. shard |\<in>| cs_unallocated_shards s \<longrightarrow> cs_shard_home shard s = None) \<and>
     (\<not> cs_remember_entities s \<longrightarrow> cs_unallocated_shards s = {||})"

lemma cs_wf_start: "cs_wf (cs_with_remember_entities enabled cs_new)"
  by (simp add: cs_wf_def cs_with_remember_entities_def cs_new_def Let_def)

definition cs_knows :: "coordinator_state \<Rightarrow> shard_id \<Rightarrow> bool" where
  "cs_knows s shard \<longleftrightarrow> cs_shard_home shard s \<noteq> None \<or> shard |\<in>| cs_unallocated_shards s"

text \<open>A step of the state that forgets no remembered shard and takes a home away only where \<open>P\<close> allows it.\<close>

definition cs_step :: "(shard_id \<Rightarrow> region_id \<Rightarrow> bool) \<Rightarrow> coordinator_state \<Rightarrow> coordinator_state \<Rightarrow> bool" where
  "cs_step P s s' \<longleftrightarrow> cs_wf s' \<and> cs_remember_entities s' = cs_remember_entities s \<and>
     (\<forall>shard region. cs_shard_home shard s = Some region \<longrightarrow>
        cs_shard_home shard s' = Some region \<or> cs_shard_home shard s' = None \<and> P shard region) \<and>
     (cs_remember_entities s \<longrightarrow> (\<forall>shard. cs_knows s shard \<longrightarrow> cs_knows s' shard))"

lemma cs_step_refl: "cs_wf s \<Longrightarrow> cs_step P s s"
  by (auto simp: cs_step_def)

lemma cs_step_trans: "cs_step (\<lambda>_ _. False) s s' \<Longrightarrow> cs_step P s' s'' \<Longrightarrow> cs_step P s s''"
  unfolding cs_step_def by metis

lemma cs_step_wf: "cs_step P s s' \<Longrightarrow> cs_wf s'"
  by (simp add: cs_step_def)

lemma cs_step_mono: "cs_step P s s' \<Longrightarrow> (\<And>shard region. P shard region \<Longrightarrow> Q shard region) \<Longrightarrow> cs_step Q s s'"
  by (auto simp: cs_step_def)

lemma cs_all_shards_iff:
  assumes "al_wf (cs_allocations s)"
  shows "shard |\<in>| cs_all_shards s \<longleftrightarrow> cs_knows s shard"
proof -
  have "shard \<in> set (al_shards (cs_allocations s)) \<longleftrightarrow> (\<exists>region shards. fmlookup (al_regions (cs_allocations s)) region = Some shards \<and> shard \<in> set shards)"
  proof -
    have "shard \<in> set (al_shards (cs_allocations s)) \<longleftrightarrow> (\<exists>x \<in> set (bt_entries (al_regions (cs_allocations s))). shard \<in> set (snd x))"
      by (simp add: al_shards_def bt_values_def)
    then show ?thesis by (metis mem_bt_entries prod.collapse snd_conv)
  qed
  also have "\<dots> \<longleftrightarrow> cs_shard_home shard s \<noteq> None"
    by (simp add: cs_shard_home_def al_wf_home [OF assms, symmetric])
  finally show ?thesis by (simp add: cs_all_shards_def cs_knows_def fset_of_list_elem)
qed

definition event_ends_home :: "coordinator_event \<Rightarrow> shard_id \<Rightarrow> region_id \<Rightarrow> bool" where
  "event_ends_home event shard region \<longleftrightarrow> event = ShardRegionTerminated region \<or> event = ShardHomeDeallocated shard"

lemma cs_register_region_step:
  assumes "cs_wf s" "cs_register_region region s = Ok s'"
  shows "cs_step P s s'"
  using assms al_insert_region_wf [of "cs_allocations s" region]
  by (auto simp: cs_register_region_def cs_step_def cs_knows_def cs_wf_def cs_shard_home_def split: prod.splits if_splits)

lemma cs_terminate_region_step:
  assumes "cs_wf s" "cs_terminate_region region s = Ok s'"
  shows "cs_step (\<lambda>_ owner. owner = region) s s'"
proof -
  have wf: "al_wf (cs_allocations s)" using assms(1) by (simp add: cs_wf_def)
  obtain shards where r: "fmlookup (al_regions (cs_allocations s)) region = Some shards"
    using assms(2) by (auto simp: cs_terminate_region_def al_remove_region_Ok [OF wf] split: option.splits)
  have mem: "shard |\<in>| fset_of_list shards \<longleftrightarrow> cs_shard_home shard s = Some region" for shard
    using r by (auto simp: cs_shard_home_def al_wf_home [OF wf] fset_of_list_elem)
  have home: "fmlookup (al_shard_homes (al_without region (cs_allocations s))) shard =
      (if cs_shard_home shard s = Some region then None else cs_shard_home shard s)" for shard
    by (simp add: cs_shard_home_def al_without_def fmlookup_filter)
  show ?thesis
    using assms r mem al_without_wf [OF wf, of region]
    by (cases "cs_remember_entities s")
      (auto simp: cs_terminate_region_def al_remove_region_Ok [OF wf] cs_step_def cs_knows_def cs_wf_def Let_def home split: if_splits)
qed

lemma cs_allocate_shard_conv:
  assumes "cs_wf s"
  shows "cs_allocate_shard shard region s =
    (if cs_shard_home shard s \<noteq> None then Err (Fail (ShardAlreadyAllocated shard))
     else if fmlookup (al_regions (cs_allocations s)) region = None then Err (Fail (UnknownRegion region))
     else let s = s\<lparr>cs_allocations := al_place region shard (cs_allocations s)\<rparr>
          in Ok (if cs_remember_entities s then s\<lparr>cs_unallocated_shards := cs_unallocated_shards s |-| {|shard|}\<rparr> else s))"
  using assms al_allocate_shard_Ok [of "cs_allocations s" region shard]
  by (auto simp: cs_allocate_shard_def cs_wf_def cs_shard_home_def al_allocate_shard_def)

lemma cs_allocate_shard_step:
  assumes "cs_wf s" "cs_allocate_shard shard region s = Ok s'"
  shows "cs_step P s s'"
proof -
  have free: "cs_shard_home shard s = None" "fmlookup (al_regions (cs_allocations s)) region \<noteq> None"
    using assms(2) by (auto simp: cs_allocate_shard_conv [OF assms(1)] split: if_splits)
  then have "al_wf (al_place region shard (cs_allocations s))"
    using assms(1) by (intro al_place_wf) (auto simp: cs_wf_def cs_shard_home_def)
  moreover have home: "fmlookup (al_shard_homes (al_place region shard (cs_allocations s))) x =
      (if x = shard then Some region else cs_shard_home x s)" for x
    by (simp add: al_place_def cs_shard_home_def)
  ultimately show ?thesis
    using assms free by (cases "cs_remember_entities s")
      (auto simp: cs_allocate_shard_conv [OF assms(1)] cs_step_def cs_knows_def cs_wf_def Let_def home split: if_splits)
qed

lemma cs_deallocate_shard_conv:
  assumes "cs_wf s"
  shows "cs_deallocate_shard shard s =
    (if cs_shard_home shard s = None then Err (Fail (UnknownShard shard))
     else let s = s\<lparr>cs_allocations := al_release shard (cs_allocations s)\<rparr>
          in Ok (if cs_remember_entities s then s\<lparr>cs_unallocated_shards := finsert shard (cs_unallocated_shards s)\<rparr> else s))"
  using assms al_deallocate_shard_Ok [of "cs_allocations s" shard]
  by (auto simp: cs_deallocate_shard_def cs_wf_def cs_shard_home_def)

lemma cs_deallocate_shard_step:
  assumes "cs_wf s" "cs_deallocate_shard shard s = Ok s'"
  shows "cs_step (\<lambda>x _. x = shard) s s'"
proof -
  have "al_wf (al_release shard (cs_allocations s))" using assms(1) by (auto simp: cs_wf_def al_release_wf)
  moreover have home: "fmlookup (al_shard_homes (al_release shard (cs_allocations s))) x =
      (if x = shard then None else cs_shard_home x s)" for x
    by (simp add: al_release_def cs_shard_home_def)
  ultimately show ?thesis
    using assms by (cases "cs_remember_entities s")
      (auto simp: cs_deallocate_shard_conv [OF assms(1)] cs_step_def cs_knows_def cs_wf_def Let_def home split: if_splits)
qed

lemma cs_proxy_step:
  assumes "cs_wf s"
  shows "cs_register_proxy proxy s = Ok s' \<Longrightarrow> cs_step P s s'" "cs_terminate_proxy proxy s = Ok s' \<Longrightarrow> cs_step P s s'"
  using assms
  by (auto simp: cs_register_proxy_def cs_terminate_proxy_def cs_step_def cs_wf_def cs_knows_def cs_shard_home_def split: if_splits)

lemma cs_apply_step:
  assumes "cs_wf s" "cs_apply event s = Ok s'"
  shows "cs_step (event_ends_home event) s s'"
proof (cases event)
  case (ShardRegionTerminated region)
  then show ?thesis
    using assms by (auto intro: cs_step_mono [OF cs_terminate_region_step] simp: event_ends_home_def)
next
  case (ShardHomeDeallocated shard)
  then show ?thesis
    using assms by (auto intro: cs_step_mono [OF cs_deallocate_shard_step] simp: event_ends_home_def)
qed (use assms in \<open>auto intro: cs_register_region_step cs_allocate_shard_step cs_step_refl cs_proxy_step\<close>)

lemma cs_apply_no_panic:
  assumes "cs_wf s"
  shows "cs_apply event s \<noteq> Err Panic"
  using assms al_remove_region_Ok [of "cs_allocations s"]
  by (cases event) (auto simp: cs_register_region_def cs_register_proxy_def cs_terminate_region_def cs_terminate_proxy_def
      cs_allocate_shard_conv cs_deallocate_shard_conv cs_wf_def Let_def split: prod.splits option.splits)

lemma cs_merge_step:
  assumes "cs_wf s"
  shows "cs_step P s (fst (cs_merge_remembered_shards shards s))"
proof -
  have "cs_step (\<lambda>_ _. False) s (fst (cs_merge_loop shards s added))" if "cs_wf s" "cs_remember_entities s" for s added
    using that
  proof (induction shards arbitrary: s added)
    case (Cons shard shards)
    let ?s = "s\<lparr>cs_unallocated_shards := finsert shard (cs_unallocated_shards s)\<rparr>"
    show ?case
    proof (cases "cs_shard_home shard s = None \<and> shard |\<notin>| cs_unallocated_shards s")
      case True
      then have "cs_step (\<lambda>_ _. False) s ?s" using Cons.prems by (auto simp: cs_step_def cs_wf_def cs_knows_def)
      moreover from this have "cs_step (\<lambda>_ _. False) ?s (fst (cs_merge_loop shards ?s (added @ [shard])))"
        using Cons.prems by (intro Cons.IH) (auto simp: cs_step_def)
      ultimately show ?thesis using True cs_step_trans by simp
    next
      case False
      then show ?thesis using Cons by (simp only: cs_merge_loop.simps if_False)
    qed
  qed (simp add: cs_step_refl)
  then have "cs_step (\<lambda>_ _. False) s (fst (cs_merge_remembered_shards shards s))"
    using assms cs_step_refl by (simp add: cs_merge_remembered_shards_def)
  then show ?thesis by (rule cs_step_mono) simp
qed

section \<open>Invariant of the runtime\<close>

lemma remove_regions_Ok:
  assumes "al_wf a"
  obtains b where "remove_regions regions a = Ok b" "al_wf b"
    "\<And>region. fmlookup (al_regions b) region = (if region \<in> set regions then None else fmlookup (al_regions a) region)"
  using assms
proof (induction regions arbitrary: a thesis)
  case (Cons r regions)
  obtain b where "remove_regions regions (al_without r a) = Ok b" "al_wf b"
    "\<And>region. fmlookup (al_regions b) region = (if region \<in> set regions then None else fmlookup (al_regions (al_without r a)) region)"
    using Cons.IH [OF _ al_without_wf [OF Cons.prems(2)]] by blast
  then show ?case
    by (intro Cons.prems(1) [of b]) (auto simp: al_remove_region_Ok [OF Cons.prems(2)] al_without_def)
qed simp

lemma rt_active_Ok:
  assumes "cs_wf (rt_state rt)"
  obtains active where "rt_active_allocations rt = Ok active" "al_wf active"
    "\<And>region. fmlookup (al_regions active) region =
      (if region |\<in>| rt_graceful_shutdown_regions rt |\<union>| rt_terminating_regions rt then None
       else fmlookup (al_regions (rt_allocations rt)) region)"
proof (cases "rt_graceful_shutdown_regions rt = {||} \<and> rt_terminating_regions rt = {||}")
  case True
  then show ?thesis using assms by (intro that [of "rt_allocations rt"]) (auto simp: rt_active_allocations_def cs_wf_def)
next
  case False
  have wf: "al_wf (rt_allocations rt)" using assms by (simp add: cs_wf_def)
  obtain b where b: "remove_regions (sorted_list_of_fset (rt_graceful_shutdown_regions rt) @
      sorted_list_of_fset (rt_terminating_regions rt)) (rt_allocations rt) = Ok b" "al_wf b"
    "\<And>region. fmlookup (al_regions b) region =
      (if region \<in> set (sorted_list_of_fset (rt_graceful_shutdown_regions rt) @ sorted_list_of_fset (rt_terminating_regions rt))
       then None else fmlookup (al_regions (rt_allocations rt)) region)"
    using remove_regions_Ok [OF wf] by blast
  show ?thesis
    using False b by (intro that [of b]) (auto simp: rt_active_allocations_def sorted_list_of_fset.rep_eq)
qed

lemma rt_begin_state [simp]: "rt_state (fst (rt_begin_rebalance shard rt)) = rt_state rt"
  by (simp add: rt_begin_rebalance_def split: option.splits)

lemma plan_selected_state: "rt_state (fst (plan_selected participants shards rt)) = rt_state rt"
proof (induction shards arbitrary: rt)
  case (Cons shard shards)
  then show ?case by (cases "cs_shard_home shard (rt_state rt)") (simp_all add: case_prod_beta Let_def)
qed simp

lemma plan_owned_state: "rt_state (fst (plan_owned participants region shards rt)) = rt_state rt"
proof (induction shards arbitrary: rt)
  case (Cons shard shards)
  then show ?case by (simp add: case_prod_beta Let_def)
qed simp

lemma rt_plan_rebalance_state:
  assumes "cs_wf (rt_state rt)"
  shows "rt_plan_rebalance strategy rt \<noteq> Err Panic" "rt_plan_rebalance strategy rt = Ok (rt', plan) \<Longrightarrow> rt_state rt' = rt_state rt"
proof -
  obtain active where "rt_active_allocations rt = Ok active" using rt_active_Ok [OF assms] by blast
  then show "rt_plan_rebalance strategy rt \<noteq> Err Panic" "rt_plan_rebalance strategy rt = Ok (rt', plan) \<Longrightarrow> rt_state rt' = rt_state rt"
    by (auto simp: rt_plan_rebalance_def plan_selected_state case_prod_beta Let_def split: if_splits sum.splits)
qed

lemma rt_plan_region_shutdown_state: "rt_state (fst (rt_plan_region_shutdown region rt)) = rt_state rt"
proof (cases "fmlookup (al_regions (rt_allocations rt)) region")
  case (Some shards)
  let ?rt = "rt\<lparr>rt_graceful_shutdown_regions := finsert region (rt_graceful_shutdown_regions rt)\<rparr>"
  have "rt_state (fst (plan_owned (rt_rebalance_participants ?rt) region shards ?rt)) = rt_state rt"
    by (simp add: plan_owned_state)
  then show ?thesis using Some by (simp add: rt_plan_region_shutdown_def case_prod_beta Let_def)
qed (simp add: rt_plan_region_shutdown_def)

lemma bind_result_Err_iff: "bind_result x f = Err e \<longleftrightarrow> x = Err e \<or> (\<exists>a. x = Ok a \<and> f a = Err e)"
  by (cases x) auto

lemma rt_complete_step:
  assumes "cs_wf (rt_state rt)"
  shows "rt_complete_rebalance shard ok rt \<noteq> Err Panic"
    and "rt_complete_rebalance shard ok rt = Ok (rt', plan) \<Longrightarrow>
      cs_step (\<lambda>x _. x = shard \<and> ok \<and> fmlookup (rt_rebalance_in_progress rt) shard \<noteq> None) (rt_state rt) (rt_state rt')"
  using assms cs_apply_no_panic [OF assms, of "ShardHomeDeallocated shard"] cs_deallocate_shard_step [OF assms, of shard]
  by (auto simp: rt_complete_rebalance_def rt_clear_rebalance_def Let_def bind_result_Err_iff intro: cs_step_refl cs_step_mono
      split: if_splits option.splits)

lemma rt_request_step:
  assumes "cs_wf (rt_state rt)"
  shows "rt_request_shard_home strategy requester shard rt \<noteq> Err Panic"
    and "rt_request_shard_home strategy requester shard rt = Ok (rt', plan) \<Longrightarrow> cs_step (\<lambda>_ _. False) (rt_state rt) (rt_state rt')"
proof -
  obtain active where "rt_active_allocations rt = Ok active" using rt_active_Ok [OF assms] by blast
  then show "rt_request_shard_home strategy requester shard rt \<noteq> Err Panic"
    and "rt_request_shard_home strategy requester shard rt = Ok (rt', plan) \<Longrightarrow> cs_step (\<lambda>_ _. False) (rt_state rt) (rt_state rt')"
    using assms cs_apply_no_panic [OF assms] cs_allocate_shard_step [OF assms]
    by (auto simp: rt_request_shard_home_def rt_defer_request_def Let_def bind_result_Err_iff intro: cs_step_refl
        split: if_splits option.splits sum.splits) (metis cs_apply.simps(5))
qed

lemma allocate_remembered_step:
  assumes "cs_wf (rt_state rt)"
  shows "snd (allocate_remembered strategy requester requests rt plans) \<noteq> Err Panic \<and>
    cs_step (\<lambda>_ _. False) (rt_state rt) (rt_state (fst (allocate_remembered strategy requester requests rt plans)))"
  using assms
proof (induction requests arbitrary: rt plans)
  case (Cons request requests)
  obtain shard where [simp]: "request = GetShardHome shard" by (cases request)
  show ?case
  proof (cases "rt_request_shard_home strategy requester shard rt")
    case (Inl f)
    then show ?thesis using rt_request_step(1) [OF Cons.prems, of strategy requester shard] Cons.prems by (auto intro: cs_step_refl)
  next
    case (Inr x)
    obtain rt' plan where x: "x = (rt', plan)" by (cases x)
    note s = rt_request_step(2) [OF Cons.prems Inr [unfolded x]]
    show ?thesis using Inr x Cons.IH [OF cs_step_wf [OF s], of "plans @ [plan]"] cs_step_trans [OF s] by simp
  qed
qed (simp add: cs_step_refl)

fun op_ends_home :: "coordinator_runtime \<Rightarrow> coordinator_op \<Rightarrow> shard_id \<Rightarrow> region_id \<Rightarrow> bool" where
  "op_ends_home rt (OpApplyEvent event) shard region = event_ends_home event shard region"
| "op_ends_home rt (OpCompleteRebalance completed ok) shard region =
     (shard = completed \<and> ok \<and> fmlookup (rt_rebalance_in_progress rt) completed \<noteq> None)"
| "op_ends_home rt _ shard region = False"

lemma rt_after_step:
  assumes "rt_after rt res = (rt', f)" "res \<noteq> Err Panic" "cs_wf (rt_state rt)"
    and "\<And>rt'' p. res = Ok (rt'', p) \<Longrightarrow> cs_step P (rt_state rt) (rt_state rt'')"
  shows "f \<noteq> Some Panic \<and> cs_step P (rt_state rt) (rt_state rt')"
  using assms by (auto simp: rt_after_def cs_step_refl split: sum.splits)

lemma rt_exec_event:
  assumes wf: "cs_wf (rt_state rt)" and exec: "rt_exec strategy (OpApplyEvent event) rt = (rt', f)"
  shows "f \<noteq> Some Panic \<and> cs_step (event_ends_home event) (rt_state rt) (rt_state rt')"
proof (rule rt_after_step [OF _ _ wf])
  show "rt_after rt (bind_result (rt_apply_event event rt) (\<lambda>rt. Ok (rt, ()))) = (rt', f)" using exec by simp
  show "bind_result (rt_apply_event event rt) (\<lambda>rt. Ok (rt, ())) \<noteq> Err Panic"
    using cs_apply_no_panic [OF wf, of event] by (auto simp: rt_apply_event_def bind_result_Err_iff)
  show "cs_step (event_ends_home event) (rt_state rt) (rt_state rt'')"
    if "bind_result (rt_apply_event event rt) (\<lambda>rt. Ok (rt, ())) = Ok (rt'', p)" for rt'' p
    using that cs_apply_step [OF wf, of event] by (auto simp: rt_apply_event_def)
qed

lemma rt_exec_step:
  assumes wf: "cs_wf (rt_state rt)" and exec: "rt_exec strategy op rt = (rt', f)"
  shows "f \<noteq> Some Panic \<and> cs_step (op_ends_home rt op) (rt_state rt) (rt_state rt')"
proof (cases op)
  case (OpApplyEvent event)
  then have "op_ends_home rt op = event_ends_home event" by (simp add: fun_eq_iff)
  with rt_exec_event [OF wf exec [unfolded OpApplyEvent]] show ?thesis by simp
next
  case (OpAllocateRemembered requester)
  then have "op_ends_home rt op = (\<lambda>_ _. False)" by (simp add: fun_eq_iff)
  then show ?thesis
    using exec OpAllocateRemembered allocate_remembered_step [OF wf, of strategy requester "rt_remembered_shard_home_requests rt" "[]"]
    by (auto simp: rt_allocate_remembered_shard_homes_def case_prod_beta Let_def split: sum.splits)
next
  case (OpCompleteRebalance shard ok)
  then have "op_ends_home rt op = (\<lambda>x _. x = shard \<and> ok \<and> fmlookup (rt_rebalance_in_progress rt) shard \<noteq> None)"
    by (simp add: fun_eq_iff)
  then show ?thesis
    using rt_after_step [OF _ rt_complete_step(1) [OF wf] wf rt_complete_step(2) [OF wf]] exec OpCompleteRebalance by simp
next
  case (OpRequestShardHome requester shard)
  then have "op_ends_home rt op = (\<lambda>_ _. False)" by (simp add: fun_eq_iff)
  then show ?thesis
    using rt_after_step [OF _ rt_request_step(1) [OF wf] wf rt_request_step(2) [OF wf]] exec OpRequestShardHome by simp
next
  case OpPlanRebalance
  then have "op_ends_home rt op = (\<lambda>_ _. False)" by (simp add: fun_eq_iff)
  moreover have plan: "cs_step (\<lambda>_ _. False) (rt_state rt) (rt_state rt'')" if "rt_plan_rebalance strategy rt = Ok (rt'', p)" for rt'' p
    using rt_plan_rebalance_state(2) [OF wf that] cs_step_refl [OF wf] by simp
  ultimately show ?thesis
    using rt_after_step [OF _ rt_plan_rebalance_state(1) [OF wf] wf plan] exec OpPlanRebalance by simp
qed (use exec cs_merge_step [OF wf] cs_step_refl [OF wf] in
    \<open>auto simp: rt_merge_remembered_shards_def rt_plan_region_shutdown_state rt_clear_rebalance_def rt_setter_defs case_prod_beta Let_def\<close>)

lemma rt_reachable_wf: "rt_reachable strategy rt \<Longrightarrow> cs_wf (rt_state rt)"
proof (induction rule: rt_reachable.induct)
  case (start enabled)
  then show ?case using cs_wf_start by (simp add: runtime_new_def)
next
  case (step rt op rt' f)
  then show ?case using rt_exec_step cs_step_wf by blast
qed

section \<open>The contract of a strategy\<close>

text \<open>
  What the trait \<open>ShardAllocationStrategy\<close> asks of an implementation: a new shard goes to a region of the snapshot, and only shards of
  the snapshot are moved.
\<close>

locale shard_placement =
  fixes strategy :: allocation_strategy
  assumes allocate_registered:
      "al_dom a \<noteq> {} \<Longrightarrow> \<exists>region \<in> al_dom a. st_allocate_shard strategy requester shard a = Ok region"
    and rebalance_allocated:
      "al_wf a \<Longrightarrow> \<exists>S. st_rebalance strategy a in_progress = Ok S \<and> fset S \<subseteq> fmdom' (al_shard_homes a)"
begin

lemma request_served:
  assumes wf: "cs_wf (rt_state rt)" and "fmlookup (rt_rebalance_in_progress rt) shard = None" "rt_all_regions_registered rt"
    and "cs_shard_home shard (rt_state rt) = None" "region \<in> al_dom (rt_allocations rt)"
    and "region |\<notin>| rt_graceful_shutdown_regions rt |\<union>| rt_terminating_regions rt"
  shows "\<exists>rt' target. rt_request_shard_home strategy requester shard rt =
      Ok (rt', HomeAllocated (ShardHomeAllocated shard target) target (HostShard shard)) \<and>
    cs_shard_home shard (rt_state rt') = Some target \<and> target \<in> al_dom (rt_allocations rt) \<and>
    target |\<notin>| rt_graceful_shutdown_regions rt |\<union>| rt_terminating_regions rt"
proof -
  obtain active where a: "rt_active_allocations rt = Ok active" "\<And>r. fmlookup (al_regions active) r =
      (if r |\<in>| rt_graceful_shutdown_regions rt |\<union>| rt_terminating_regions rt then None
       else fmlookup (al_regions (rt_allocations rt)) r)"
    using rt_active_Ok [OF wf] by blast
  then have "region \<in> al_dom active" using assms(5,6) by (simp add: fmlookup_dom'_iff)
  then have ne: "al_dom active \<noteq> {}" by blast
  obtain target where t: "target \<in> al_dom active" "st_allocate_shard strategy requester shard active = Ok target"
    using allocate_registered [OF ne] by blast
  have act: "target \<in> al_dom (rt_allocations rt)" "target |\<notin>| rt_graceful_shutdown_regions rt |\<union>| rt_terminating_regions rt"
    using t(1) a(2) by (auto simp: fmlookup_dom'_iff split: if_splits)
  obtain s' where s': "cs_allocate_shard shard target (rt_state rt) = Ok s'" "cs_shard_home shard s' = Some target"
    using assms(4) act(1) by (auto simp: cs_allocate_shard_conv [OF wf] Let_def al_place_def fmlookup_dom'_iff)
  have "al_region_count active \<noteq> 0" "al_contains_region target active"
    using ne t(1) by (auto simp: al_region_count_card al_contains_region_def fmlookup_dom'_iff)
  with a(1) t(2) s' assms(2-4) act show ?thesis by (simp add: rt_request_shard_home_def)
qed

end

interpretation least_shard: shard_placement "ls_strategy st" for st
proof
  show "\<exists>region \<in> al_dom a. st_allocate_shard (ls_strategy st) requester shard a = Ok region" if "al_dom a \<noteq> {}" for a requester shard
    using ls_allocate_least [OF that, of requester shard] by (auto simp: ls_strategy_def)
  show "\<exists>S. st_rebalance (ls_strategy st) a in_progress = Ok S \<and> fset S \<subseteq> fmdom' (al_shard_homes a)" if wf: "al_wf a" for a in_progress
  proof (cases "in_progress = {||}")
    case True
    obtain S where "ls_rebalance st a {||} = Ok S" "S \<noteq> {||} \<Longrightarrow> \<exists>c. movable c (fset S) a" using ls_rebalance_cases [OF wf] by blast
    then show ?thesis using True by (cases "S = {||}") (auto simp: ls_strategy_def movable_def)
  next
    case False
    then show ?thesis by (simp add: ls_strategy_def ls_rebalance_def)
  qed
qed

section \<open>Rounds of rebalancing\<close>

text \<open>
  A round plans a rebalance, and every handoff it starts succeeds: the worker's completion releases the shard, and the
  retried home request places it again. The handoffs complete in the order \<open>h\<close>.
\<close>

definition rt_move :: "allocation_strategy \<Rightarrow> region_id \<Rightarrow> shard_id \<Rightarrow> coordinator_runtime \<Rightarrow> (fault, coordinator_runtime) result" where
  "rt_move strategy requester shard rt =
     bind_result (rt_complete_rebalance shard True rt) (\<lambda>(rt, _).
     bind_result (rt_request_shard_home strategy requester shard rt) (\<lambda>(rt, _). Ok rt))"

primrec rt_moves ::
  "allocation_strategy \<Rightarrow> region_id \<Rightarrow> shard_id list \<Rightarrow> coordinator_runtime \<Rightarrow> (fault, coordinator_runtime) result" where
  "rt_moves strategy requester [] rt = Ok rt"
| "rt_moves strategy requester (shard # shards) rt =
     bind_result (rt_move strategy requester shard rt) (rt_moves strategy requester shards)"

definition rt_round ::
  "(shard_id list \<Rightarrow> shard_id list) \<Rightarrow> allocation_strategy \<Rightarrow> region_id \<Rightarrow> coordinator_runtime
     \<Rightarrow> (fault, coordinator_runtime) result" where
  "rt_round h strategy requester rt =
     bind_result (rt_plan_rebalance strategy rt) (\<lambda>(rt, plan).
       case plan of
         RebalanceSkipped _ \<Rightarrow> Ok rt
       | RebalanceStarted plans \<Rightarrow> rt_moves strategy requester (h (map rp_shard plans)) rt)"

primrec rt_rounds ::
  "(shard_id list \<Rightarrow> shard_id list) \<Rightarrow> allocation_strategy \<Rightarrow> region_id \<Rightarrow> nat \<Rightarrow> coordinator_runtime
     \<Rightarrow> (fault, coordinator_runtime) result" where
  "rt_rounds h strategy requester 0 rt = Ok rt"
| "rt_rounds h strategy requester (Suc n) rt =
     bind_result (rt_round h strategy requester rt) (rt_rounds h strategy requester n)"

text \<open>No region is leaving or unavailable, and the coordinator itself is not shutting down.\<close>

definition rt_calm :: "coordinator_runtime \<Rightarrow> bool" where
  "rt_calm rt \<longleftrightarrow> cs_wf (rt_state rt) \<and> rt_all_regions_registered rt \<and> rt_graceful_shutdown_regions rt = {||} \<and>
     rt_terminating_regions rt = {||} \<and> rt_unavailable_regions rt = {||} \<and> \<not> rt_preparing_for_shutdown rt"

lemma rt_calm_active: "rt_calm rt \<Longrightarrow> rt_active_allocations rt = Ok (rt_allocations rt)"
  by (simp add: rt_calm_def rt_active_allocations_def)

lemma rt_calm_wf: "rt_calm rt \<Longrightarrow> al_wf (rt_allocations rt)"
  by (simp add: rt_calm_def cs_wf_def)

lemma rt_complete_calm:
  assumes calm: "rt_calm rt" and "fmlookup (rt_rebalance_in_progress rt) shard \<noteq> None" "cs_shard_home shard (rt_state rt) \<noteq> None"
  obtains rt' plan where "rt_complete_rebalance shard True rt = Ok (rt', plan)" "rt_calm rt'"
    "rt_allocations rt' = al_release shard (rt_allocations rt)"
    "rt_rebalance_in_progress rt' = fmdrop shard (rt_rebalance_in_progress rt)" "cs_shard_home shard (rt_state rt') = None"
proof -
  have wf: "cs_wf (rt_state rt)" using calm by (simp add: rt_calm_def)
  obtain s' where s': "cs_deallocate_shard shard (rt_state rt) = Ok s'" "cs_allocations s' = al_release shard (rt_allocations rt)"
    using assms(3) by (simp add: cs_deallocate_shard_conv [OF wf] Let_def)
  have "cs_wf s'" using cs_step_wf [OF cs_deallocate_shard_step [OF wf s'(1)]] .
  moreover have "cs_shard_home shard s' = None" using s'(2) by (simp add: cs_shard_home_def al_release_def)
  ultimately show thesis
    using that assms s' by (simp add: rt_complete_rebalance_def rt_clear_rebalance_def rt_calm_def)
qed

lemma rt_request_calm:
  assumes calm: "rt_calm rt" and "fmlookup (rt_rebalance_in_progress rt) shard = None" "cs_shard_home shard (rt_state rt) = None"
    and "al_dom (rt_allocations rt) \<noteq> {}"
  obtains target rt' plan where "rt_request_shard_home (ls_strategy st) requester shard rt = Ok (rt', plan)" "rt_calm rt'"
    "target \<in> al_dom (rt_allocations rt)"
    "\<forall>other \<in> al_dom (rt_allocations rt). al_load (rt_allocations rt) target \<le> al_load (rt_allocations rt) other"
    "rt_allocations rt' = al_place target shard (rt_allocations rt)"
    "rt_rebalance_in_progress rt' = rt_rebalance_in_progress rt"
proof -
  have wf: "cs_wf (rt_state rt)" using calm by (simp add: rt_calm_def)
  obtain target where t: "ls_allocate_shard requester shard (rt_allocations rt) = Ok target" "target \<in> al_dom (rt_allocations rt)"
    "\<forall>other \<in> al_dom (rt_allocations rt). al_load (rt_allocations rt) target \<le> al_load (rt_allocations rt) other"
    using ls_allocate_least [OF assms(4)] by blast
  have reg: "fmlookup (al_regions (rt_allocations rt)) target \<noteq> None" using t(2) by (simp add: fmlookup_dom'_iff)
  obtain s' where s': "cs_allocate_shard shard target (rt_state rt) = Ok s'"
    "cs_allocations s' = al_place target shard (rt_allocations rt)"
    using assms(3) reg by (simp add: cs_allocate_shard_conv [OF wf] Let_def)
  have "cs_wf s'" using cs_step_wf [OF cs_allocate_shard_step [OF wf s'(1)]] .
  moreover have "al_region_count (rt_allocations rt) \<noteq> 0" using assms(4) by (simp add: al_region_count_card)
  ultimately show thesis
    using that [of "rt\<lparr>rt_state := s'\<rparr>" "HomeAllocated (ShardHomeAllocated shard target) target (HostShard shard)" target]
      assms t s' reg rt_calm_active [OF calm]
    by (simp add: rt_request_shard_home_def ls_strategy_def rt_calm_def al_contains_region_def)
qed

lemma rt_move_calm:
  assumes calm: "rt_calm rt" and "fmlookup (rt_rebalance_in_progress rt) shard \<noteq> None" "cs_shard_home shard (rt_state rt) \<noteq> None"
  obtains target rt' where "rt_move (ls_strategy st) requester shard rt = Ok rt'" "rt_calm rt'"
    "target \<in> al_dom (rt_allocations rt)"
    "\<forall>other \<in> al_dom (rt_allocations rt).
      al_load (al_release shard (rt_allocations rt)) target \<le> al_load (al_release shard (rt_allocations rt)) other"
    "rt_allocations rt' = al_move target shard (rt_allocations rt)"
    "rt_rebalance_in_progress rt' = fmdrop shard (rt_rebalance_in_progress rt)"
proof -
  obtain rt1 plan where c: "rt_complete_rebalance shard True rt = Ok (rt1, plan)" "rt_calm rt1"
    "rt_allocations rt1 = al_release shard (rt_allocations rt)"
    "rt_rebalance_in_progress rt1 = fmdrop shard (rt_rebalance_in_progress rt)" "cs_shard_home shard (rt_state rt1) = None"
    using rt_complete_calm [OF assms] by blast
  obtain owner where "fmlookup (al_shard_homes (rt_allocations rt)) shard = Some owner" using assms(3) by (auto simp: cs_shard_home_def)
  then have "al_dom (rt_allocations rt1) \<noteq> {}" using al_home_dom [OF rt_calm_wf [OF calm]] c(3) by auto
  then obtain target rt' plan' where r: "rt_request_shard_home (ls_strategy st) requester shard rt1 = Ok (rt', plan')" "rt_calm rt'"
    "target \<in> al_dom (rt_allocations rt1)"
    "\<forall>other \<in> al_dom (rt_allocations rt1). al_load (rt_allocations rt1) target \<le> al_load (rt_allocations rt1) other"
    "rt_allocations rt' = al_place target shard (rt_allocations rt1)" "rt_rebalance_in_progress rt' = rt_rebalance_in_progress rt1"
    using rt_request_calm [OF c(2), of shard st requester] c(4,5) by (metis fmdrop_lookup)
  have "rt_move (ls_strategy st) requester shard rt = Ok rt'" using c(1) r(1) by (simp add: rt_move_def)
  with r c(3,4) that show thesis by simp
qed

text \<open>The same regions and the same allocated shards, wherever the shards are.\<close>

definition same_shards :: "coordinator_runtime \<Rightarrow> coordinator_runtime \<Rightarrow> bool" where
  "same_shards rt rt' \<longleftrightarrow> al_dom (rt_allocations rt') = al_dom (rt_allocations rt) \<and>
     fmdom' (al_shard_homes (rt_allocations rt')) = fmdom' (al_shard_homes (rt_allocations rt))"

lemma same_shards_trans: "same_shards a b \<Longrightarrow> same_shards b c \<Longrightarrow> same_shards a c"
  by (simp add: same_shards_def)

lemma rt_moves_calm:
  assumes "rt_calm rt" "distinct shards" "fmdom' (rt_rebalance_in_progress rt) = set shards"
    and "movable c (set shards) (rt_allocations rt)"
  shows "\<exists>rt'. rt_moves (ls_strategy st) requester shards rt = Ok rt' \<and> rt_calm rt' \<and> rt_rebalance_in_progress rt' = fmempty \<and>
    same_shards rt rt' \<and> al_potential (rt_allocations rt') + length shards \<le> al_potential (rt_allocations rt)"
  using assms
proof (induction shards arbitrary: rt)
  case Nil
  then have "fmlookup (rt_rebalance_in_progress rt) shard = None" for shard by (metis empty_iff fmdom'_notD list.set(1))
  then have "rt_rebalance_in_progress rt = fmempty" by (intro fmap_ext) simp
  with Nil show ?case by (simp add: same_shards_def)
next
  case (Cons shard shards)
  let ?a = "rt_allocations rt"
  have wf: "al_wf ?a" by (rule rt_calm_wf [OF Cons.prems(1)])
  have home: "fmlookup (al_shard_homes ?a) shard \<noteq> None"
    using Cons.prems(4) by (auto simp: movable_def fmlookup_dom'_iff)
  have "fmlookup (rt_rebalance_in_progress rt) shard \<noteq> None" using Cons.prems(3) by (auto simp: fmlookup_dom'_iff set_eq_iff)
  then obtain target rt1 where m: "rt_move (ls_strategy st) requester shard rt = Ok rt1" "rt_calm rt1" "target \<in> al_dom ?a"
    "\<forall>other \<in> al_dom ?a. al_load (al_release shard ?a) target \<le> al_load (al_release shard ?a) other"
    "rt_allocations rt1 = al_move target shard ?a"
    "rt_rebalance_in_progress rt1 = fmdrop shard (rt_rebalance_in_progress rt)"
    using rt_move_calm [OF Cons.prems(1)] home by (metis cs_shard_home_def)
  have step: "movable c (set shards) (rt_allocations rt1) \<and> al_potential (rt_allocations rt1) < al_potential ?a"
    unfolding m(5) using movable_step [OF wf _ _ _ m(3,4)] Cons.prems(2,4) by simp
  have "fmdom' (rt_rebalance_in_progress rt1) = set shards" using m(6) Cons.prems(2,3) by auto
  then obtain rt' where rt': "rt_moves (ls_strategy st) requester shards rt1 = Ok rt'" "rt_calm rt'"
    "rt_rebalance_in_progress rt' = fmempty" "same_shards rt1 rt'"
    "al_potential (rt_allocations rt') + length shards \<le> al_potential (rt_allocations rt1)"
    using Cons.IH [OF m(2)] Cons.prems(2) step by auto
  have "same_shards rt rt1"
    using al_move_wf(2,3) [OF wf m(3), of shard] home by (auto simp: same_shards_def m(5) fmlookup_dom'_iff)
  with rt' m(1) step show ?case by (auto intro: same_shards_trans)
qed

lemma plan_selected_all:
  assumes "distinct shards"
    and "\<forall>shard \<in> set shards. cs_shard_home shard (rt_state rt) \<noteq> None \<and> fmlookup (rt_rebalance_in_progress rt) shard = None"
  shows "map rp_shard (snd (plan_selected participants shards rt)) = shards \<and>
    (\<exists>p. fst (plan_selected participants shards rt) = rt\<lparr>rt_rebalance_in_progress := p\<rparr> \<and>
      fmdom' p = fmdom' (rt_rebalance_in_progress rt) \<union> set shards)"
  using assms
proof (induction shards arbitrary: rt)
  case Nil
  then show ?case by (simp add: exI [of _ "rt_rebalance_in_progress rt"])
next
  case (Cons shard shards)
  let ?rt = "rt\<lparr>rt_rebalance_in_progress := fmupd shard {||} (rt_rebalance_in_progress rt)\<rparr>"
  obtain region where r: "cs_shard_home shard (rt_state rt) = Some region" using Cons.prems(2) by auto
  have b: "fst (rt_begin_rebalance shard rt) = ?rt" using Cons.prems(2) by (simp add: rt_begin_rebalance_def)
  have "map rp_shard (snd (plan_selected participants shards ?rt)) = shards \<and>
    (\<exists>p. fst (plan_selected participants shards ?rt) = ?rt\<lparr>rt_rebalance_in_progress := p\<rparr> \<and>
      fmdom' p = fmdom' (rt_rebalance_in_progress ?rt) \<union> set shards)"
    using Cons.prems by (intro Cons.IH) auto
  then show ?case using Cons.prems(2) r b by (auto simp: case_prod_beta Let_def handoff_plan_def)
qed

lemma rt_plan_calm:
  assumes calm: "rt_calm rt" and idle: "rt_rebalance_in_progress rt = fmempty"
    and S: "ls_rebalance st (rt_allocations rt) {||} = Ok S" "S \<noteq> {||}" "fset S \<subseteq> fmdom' (al_shard_homes (rt_allocations rt))"
  obtains p plans where
    "rt_plan_rebalance (ls_strategy st) rt = Ok (rt\<lparr>rt_rebalance_in_progress := p\<rparr>, RebalanceStarted plans)"
    "fmdom' p = fset S" "map rp_shard plans = sorted_list_of_fset S"
proof -
  let ?shards = "sorted_list_of_fset S"
  have shards: "distinct ?shards" "set ?shards = fset S" by (simp_all add: sorted_list_of_fset.rep_eq)
  have homes: "\<forall>shard \<in> set ?shards. cs_shard_home shard (rt_state rt) \<noteq> None \<and> fmlookup (rt_rebalance_in_progress rt) shard = None"
    using S(3) shards(2) idle by (auto simp: cs_shard_home_def fmlookup_dom'_iff)
  obtain p plans where p: "plan_selected (rt_rebalance_participants rt) ?shards rt = (rt\<lparr>rt_rebalance_in_progress := p\<rparr>, plans)"
    "fmdom' p = fset S" "map rp_shard plans = ?shards"
    using plan_selected_all [OF shards(1) homes] idle shards(2) by (metis fmdom'_empty prod.collapse sup_bot_left)
  have "fset S \<noteq> {}" using S(2) by auto
  then have ne: "?shards \<noteq> []" using shards(2) by (metis list.set(1))
  then obtain owner where "owner \<in> al_dom (rt_allocations rt)"
    using homes al_home_dom [OF rt_calm_wf [OF calm]] by (metis cs_shard_home_def list.set_intros(1) neq_Nil_conv not_None_eq)
  then have "al_region_count (rt_allocations rt) \<noteq> 0" by (auto simp: al_region_count_card)
  moreover have "plans \<noteq> []" using ne p(3) by auto
  ultimately have "rt_plan_rebalance (ls_strategy st) rt = Ok (rt\<lparr>rt_rebalance_in_progress := p\<rparr>, RebalanceStarted plans)"
    using S(1,2) rt_calm_active [OF calm] calm idle p(1) by (simp add: rt_plan_rebalance_def rt_calm_def ls_strategy_def)
  with p show thesis using that by blast
qed

lemma rt_round_calm:
  assumes calm: "rt_calm rt" and idle: "rt_rebalance_in_progress rt = fmempty"
    and h: "\<And>xs. distinct xs \<Longrightarrow> distinct (h xs) \<and> set (h xs) = set xs"
  shows "\<exists>rt'. rt_round h (ls_strategy st) requester rt = Ok rt' \<and> rt_calm rt' \<and> rt_rebalance_in_progress rt' = fmempty \<and>
    same_shards rt rt' \<and> (if al_balanced (rt_allocations rt) then rt' = rt
      else al_potential (rt_allocations rt') < al_potential (rt_allocations rt))"
proof -
  let ?a = "rt_allocations rt"
  obtain S where S: "ls_rebalance st ?a {||} = Ok S" "S = {||} \<longleftrightarrow> al_balanced ?a" "S \<noteq> {||} \<Longrightarrow> \<exists>c. movable c (fset S) ?a"
    using ls_rebalance_cases [OF rt_calm_wf [OF calm]] by blast
  show ?thesis
  proof (cases "S = {||}")
    case True
    then have "rt_plan_rebalance (ls_strategy st) rt \<in> {Ok (rt, RebalanceSkipped SkipNoShardRegions), Ok (rt, RebalanceSkipped StrategySelectedNoShards)}"
      using S(1) rt_calm_active [OF calm] calm idle by (simp add: rt_plan_rebalance_def rt_calm_def ls_strategy_def)
    with True S(2) calm idle show ?thesis by (auto simp: rt_round_def same_shards_def)
  next
    case False
    let ?shards = "h (sorted_list_of_fset S)"
    obtain c where c: "movable c (fset S) ?a" using S(3) False by blast
    then have "fset S \<subseteq> fmdom' (al_shard_homes ?a)" by (simp add: movable_def)
    then obtain p plans where p: "rt_plan_rebalance (ls_strategy st) rt = Ok (rt\<lparr>rt_rebalance_in_progress := p\<rparr>, RebalanceStarted plans)"
      "fmdom' p = fset S" "map rp_shard plans = sorted_list_of_fset S"
      using rt_plan_calm [OF calm idle S(1) False] by blast
    have shards: "distinct ?shards" "set ?shards = fset S" using h by (simp_all add: sorted_list_of_fset.rep_eq)
    have "fset S \<noteq> {}" using False by auto
    then have ne: "0 < length ?shards" using shards(2) by (metis length_greater_0_conv list.set(1))
    have "rt_calm (rt\<lparr>rt_rebalance_in_progress := p\<rparr>)" using calm by (simp add: rt_calm_def)
    from rt_moves_calm [OF this shards(1), of c st requester] obtain rt'
      where m: "rt_moves (ls_strategy st) requester ?shards (rt\<lparr>rt_rebalance_in_progress := p\<rparr>) = Ok rt'" "rt_calm rt'"
        "rt_rebalance_in_progress rt' = fmempty" "same_shards rt rt'"
        "al_potential (rt_allocations rt') + length ?shards \<le> al_potential ?a"
      using shards(2) p(2) c by (auto simp: same_shards_def)
    have "al_potential (rt_allocations rt') < al_potential ?a" using m(5) ne by linarith
    moreover have "rt_round h (ls_strategy st) requester rt = Ok rt'" using p(1,3) m(1) by (simp add: rt_round_def)
    ultimately show ?thesis using m(2-4) False S(2) by auto
  qed
qed

section \<open>Properties\<close>

text \<open>
  With the least-shard strategy a home request for a shard without a home is always served when all
  regions are registered, no handoff of the shard is in progress and a region is there that is not leaving: the shard is allocated at once, to a registered region that is neither shutting down nor terminating.
\<close>

lemma home_request_served:
  assumes "rt_reachable (ls_strategy st) rt" "fmlookup (rt_rebalance_in_progress rt) shard = None" "rt_all_regions_registered rt"
    and "cs_shard_home shard (rt_state rt) = None" "region \<in> al_dom (rt_allocations rt)"
    and "region |\<notin>| rt_graceful_shutdown_regions rt |\<union>| rt_terminating_regions rt"
  shows "\<exists>rt' target. rt_request_shard_home (ls_strategy st) requester shard rt =
      Ok (rt', HomeAllocated (ShardHomeAllocated shard target) target (HostShard shard)) \<and>
    cs_shard_home shard (rt_state rt') = Some target \<and> target \<in> al_dom (rt_allocations rt) \<and>
    target |\<notin>| rt_graceful_shutdown_regions rt |\<union>| rt_terminating_regions rt"
  by (rule least_shard.request_served [OF rt_reachable_wf [OF assms(1)] assms(2-6)])


text \<open>
  C2: Whatever sequence of operations a fresh coordinator has run, with whatever allocation strategy, the next operation never
  panics, and a shard changes its region only by losing the old one first: its home stays as it is unless its region
  terminates, it is explicitly released, or a handoff that is in progress for it completes successfully. With
  remembered entities no operation ever forgets a shard.
\<close>

theorem coordinator_keeps_homes:
  assumes "rt_reachable strategy rt" "rt_exec strategy op rt = (rt', f)"
  shows "f \<noteq> Some Panic \<and> al_wf (rt_allocations rt') \<and>
    (\<forall>shard region. cs_shard_home shard (rt_state rt) = Some region \<longrightarrow>
       cs_shard_home shard (rt_state rt') = Some region \<or>
       cs_shard_home shard (rt_state rt') = None \<and>
         (op = OpApplyEvent (ShardRegionTerminated region) \<or> op = OpApplyEvent (ShardHomeDeallocated shard) \<or>
          op = OpCompleteRebalance shard True \<and> fmlookup (rt_rebalance_in_progress rt) shard \<noteq> None)) \<and>
    (cs_remember_entities (rt_state rt) \<longrightarrow> cs_all_shards (rt_state rt) |\<subseteq>| cs_all_shards (rt_state rt'))"
proof -
  have wf: "cs_wf (rt_state rt)" by (rule rt_reachable_wf [OF assms(1)])
  note step = rt_exec_step [OF wf assms(2)]
  have ends: "op_ends_home rt op shard region \<Longrightarrow>
      op = OpApplyEvent (ShardRegionTerminated region) \<or> op = OpApplyEvent (ShardHomeDeallocated shard) \<or>
      op = OpCompleteRebalance shard True \<and> fmlookup (rt_rebalance_in_progress rt) shard \<noteq> None" for shard region
    by (cases op) (auto simp: event_ends_home_def)
  have wf': "al_wf (rt_allocations rt)" "al_wf (rt_allocations rt')" using wf step by (auto simp: cs_step_def cs_wf_def)
  have "cs_all_shards (rt_state rt) |\<subseteq>| cs_all_shards (rt_state rt')" if "cs_remember_entities (rt_state rt)"
    using that step cs_all_shards_iff [OF wf'(1)] cs_all_shards_iff [OF wf'(2)] by (auto simp: cs_step_def fsubset_iff)
  moreover have "cs_shard_home shard (rt_state rt') = Some region \<or> cs_shard_home shard (rt_state rt') = None \<and> op_ends_home rt op shard region"
    if "cs_shard_home shard (rt_state rt) = Some region" for shard region
    using that step unfolding cs_step_def by blast
  ultimately show ?thesis using step wf'(2) ends by blast
qed

lemma rt_reachable_exec: "rt_reachable strategy rt \<Longrightarrow> rt_reachable strategy (fst (rt_exec strategy op rt))"
  by (rule step [where f = "snd (rt_exec strategy op rt)"]) simp_all

definition sample_runtime :: coordinator_runtime where
  "sample_runtime = fst (rt_exec (ls_strategy ls_default) (OpRequestShardHome ''r1'' ''s1'')
     (fst (rt_exec (ls_strategy ls_default) (OpApplyEvent (ShardRegionRegistered ''r1''))
       (runtime_new (cs_with_remember_entities True cs_new)))))"

theorem coordinator_keeps_homes_witness:
  "cs_shard_home ''s1'' (rt_state sample_runtime) = Some ''r1'' \<and>
   cs_shard_home ''s1'' (rt_state (fst (rt_exec (ls_strategy ls_default) (OpPlanRegionShutdown ''r1'') sample_runtime))) = Some ''r1''"
proof -
  have "rt_reachable (ls_strategy ls_default) sample_runtime"
    unfolding sample_runtime_def by (intro rt_reachable_exec start)
  moreover have "cs_shard_home ''s1'' (rt_state sample_runtime) = Some ''r1''" by code_simp
  ultimately show ?thesis
    using coordinator_keeps_homes [of "ls_strategy ls_default" sample_runtime "OpPlanRegionShutdown ''r1''"
        "fst (rt_exec (ls_strategy ls_default) (OpPlanRegionShutdown ''r1'') sample_runtime)"
        "snd (rt_exec (ls_strategy ls_default) (OpPlanRegionShutdown ''r1'') sample_runtime)"] by simp
qed

lemma home_request_served_witness:
  "\<exists>rt' target. rt_request_shard_home (ls_strategy ls_default) ''r2'' ''s2'' sample_runtime =
      Ok (rt', HomeAllocated (ShardHomeAllocated ''s2'' target) target (HostShard ''s2''))"
proof -
  have "rt_reachable (ls_strategy ls_default) sample_runtime"
    unfolding sample_runtime_def by (intro rt_reachable_exec start)
  moreover have "fmlookup (rt_rebalance_in_progress sample_runtime) ''s2'' = None" "rt_all_regions_registered sample_runtime"
    "cs_shard_home ''s2'' (rt_state sample_runtime) = None" "''r1'' \<in> al_dom (rt_allocations sample_runtime)"
    "''r1'' |\<notin>| rt_graceful_shutdown_regions sample_runtime |\<union>| rt_terminating_regions sample_runtime" by code_simp+
  ultimately show ?thesis using home_request_served by blast
qed

text \<open>
  C3: Rebalancing with the least-shard strategy ends in a balanced allocation. A round plans a rebalance, completes
  every handoff of the plan successfully, in whatever order, and asks for the new home of a shard once its handoff is
  complete. While all regions are registered, none is leaving or unavailable, the coordinator is not shutting down and no other
  operation comes between, starting with no handoff in progress, finitely many rounds, at most the sum of the squared
  loads, bring all regions within one shard of each other, without losing a shard or a region, and further rounds
  change nothing.
\<close>

theorem rebalancing_reaches_balance:
  assumes "rt_calm rt" "rt_rebalance_in_progress rt = fmempty"
    and "\<And>xs. distinct xs \<Longrightarrow> distinct (h xs) \<and> set (h xs) = set xs"
  shows "\<exists>n rt'. n \<le> al_potential (rt_allocations rt) \<and> rt_rounds h (ls_strategy st) requester n rt = Ok rt' \<and>
    al_balanced (rt_allocations rt') \<and> same_shards rt rt' \<and> rt_round h (ls_strategy st) requester rt' = Ok rt'"
  using assms(1,2)
proof (induction "al_potential (rt_allocations rt)" arbitrary: rt rule: less_induct)
  case less
  obtain rt1 where r: "rt_round h (ls_strategy st) requester rt = Ok rt1" "rt_calm rt1" "rt_rebalance_in_progress rt1 = fmempty"
    "same_shards rt rt1" "if al_balanced (rt_allocations rt) then rt1 = rt
      else al_potential (rt_allocations rt1) < al_potential (rt_allocations rt)"
    using rt_round_calm [OF less.prems assms(3)] by blast
  show ?case
  proof (cases "al_balanced (rt_allocations rt)")
    case True
    with r show ?thesis by (intro exI [of _ 0] exI [of _ rt]) (simp add: same_shards_def)
  next
    case False
    then have lt: "al_potential (rt_allocations rt1) < al_potential (rt_allocations rt)" using r(5) by simp
    from less.hyps [OF this r(2,3)] obtain n rt' where n: "n \<le> al_potential (rt_allocations rt1)"
      "rt_rounds h (ls_strategy st) requester n rt1 = Ok rt'" "al_balanced (rt_allocations rt')" "same_shards rt1 rt'"
      "rt_round h (ls_strategy st) requester rt' = Ok rt'" by blast
    then show ?thesis
      using r(1,4) lt by (intro exI [of _ "Suc n"] exI [of _ rt']) (auto intro: same_shards_trans)
  qed
qed

abbreviation unbalanced_runtime :: coordinator_runtime where
  "unbalanced_runtime \<equiv> runtime_new (cs_new\<lparr>cs_allocations := sample_allocations\<rparr>)"

theorem rebalancing_reaches_balance_witness:
  "\<exists>n rt'. n \<le> 9 \<and> rt_rounds rev (ls_strategy ls_default) ''r2'' n unbalanced_runtime = Ok rt' \<and>
    al_balanced (rt_allocations rt') \<and> fmdom' (al_shard_homes (rt_allocations rt')) = {''s1'', ''s2'', ''s3''}"
proof -
  have "rt_calm unbalanced_runtime"
    using sample_allocations_wf by (simp add: rt_calm_def runtime_new_def cs_wf_def cs_new_def)
  moreover have "rt_rebalance_in_progress unbalanced_runtime = fmempty" by (simp add: runtime_new_def)
  moreover have "al_potential (rt_allocations unbalanced_runtime) = 9" by code_simp
  moreover have "fmdom' (al_shard_homes (rt_allocations unbalanced_runtime)) = {''s1'', ''s2'', ''s3''}" by code_simp
  ultimately show ?thesis
    using rebalancing_reaches_balance [of unbalanced_runtime rev ls_default "''r2''"] unfolding same_shards_def by fastforce
qed

end
