(* ===== verification/Spec2Isabelle.thy ===== *)
theory Spec2Isabelle
  imports Cluster_Leader Downing Delta_Channel Quorum Reliable_Delivery Shard_Coordinator
begin

text \<open>
  Verification of the kairo actor framework: the crates under \<open>src/kairo-next/crates\<close>.

  \<^bold>\<open>The program.\<close> Kairo is an actor runtime with remoting, cluster membership, cluster sharding and
  distributed data. Nodes exchange remote envelopes, whose payloads are written by versioned codecs that a registry
  holds. Cluster nodes gossip membership state and reachability observations; a converged cluster has a leader that
  admits and removes members, and a downing policy decides which side of a partition survives. The replicator of
  distributed data keeps replicated values under keys. It spreads them by deltas, by full-state gossip and by quorum
  writes and reads, and prunes the contributions of removed nodes. Sharding places the shards of entities on regions
  and rebalances them.

  \<^bold>\<open>Theories and code.\<close>
  \<^item> \<open>Kairo_Prelude\<close>: machine integers, \<open>Result\<close>, ordered maps in iteration order, decimal numerals. It
    models the parts of Rust's standard library that the sources use.
  \<^item> \<open>Replicated_Data\<close>: the traits of \<open>kairo-distributed-data/src/data.rs\<close> as locales. They are interpreted on the data
    types of \<open>Counters\<close> (\<open>gcounter.rs\<close>, \<open>pncounter.rs\<close>), \<open>Sets_Registers\<close> (\<open>gset.rs\<close>, \<open>lww_register.rs\<close>) and
    \<open>OR_Set\<close> (\<open>orset.rs\<close>). \<open>OR_Map\<close> models \<open>ormap.rs\<close>, whose merge does not meet the contract.
  \<^item> \<open>Pruning\<close> (\<open>pruning.rs\<close>, \<open>envelope.rs\<close>), \<open>Replicator_State\<close> (\<open>state.rs\<close>, \<open>response.rs\<close>, \<open>key.rs\<close>,
    \<open>replicator_actor/pruning_ops.rs\<close>), \<open>Delta_Log\<close> (\<open>delta.rs\<close>, \<open>delta_loop.rs\<close>), \<open>Delta_Receive\<close>
    (\<open>delta_receive.rs\<close>, \<open>delta_wire.rs\<close>, \<open>aggregation_wire.rs\<close>) and \<open>Quorum\<close> (\<open>consistency.rs\<close>,
    \<open>aggregation.rs\<close>): the replicator. \<open>Delta_Channel\<close> joins a delta log and a receive tracker by a channel
    with messages in flight.
  \<^item> \<open>Wire_Format\<close> (\<open>kairo-serialization/src/wire.rs\<close>), \<open>Remote_Envelope\<close> (\<open>manifest.rs\<close>, \<open>actor_ref.rs\<close>,
    \<open>envelope.rs\<close>), \<open>Codec_Registry\<close> (\<open>codec.rs\<close>, \<open>message.rs\<close>, \<open>registry.rs\<close>), \<open>Ddata_Protocol\<close>
    (\<open>protocol.rs\<close> and \<open>codec/*.rs\<close> of distributed data) and \<open>Crdt_Codec\<close> (\<open>crdt_codec.rs\<close>): everything on the wire.
  \<^item> \<open>Reliable_Delivery\<close> (\<open>kairo-remote/src/reliable_delivery.rs\<close>): sequence-numbered system messages.
  \<^item> \<open>Actor_Path\<close> (\<open>kairo-actor/src/path.rs\<close>), and from \<open>kairo-cluster/src\<close>: \<open>App_Version\<close> (\<open>app_version.rs\<close>),
    \<open>Membership\<close> (\<open>member.rs\<close>), \<open>Vector_Clock\<close> (\<open>vector_clock.rs\<close>), \<open>Reachability_Table\<close> (\<open>reachability.rs\<close>),
    \<open>Gossip_State\<close> (\<open>gossip.rs\<close>), \<open>Cluster_Leader\<close> (\<open>convergence.rs\<close>, \<open>leader.rs\<close>, \<open>leader_actions.rs\<close>) and
    \<open>Downing\<close> (\<open>downing.rs\<close>, \<open>downing/*.rs\<close>).
  \<^item> \<open>Shard_Allocation\<close> (\<open>kairo-cluster-sharding/src/hashing.rs\<close>, \<open>allocation.rs\<close>, \<open>errors.rs\<close>) and
    \<open>Shard_Coordinator\<close> (\<open>coordinator.rs\<close>, \<open>coordinator_runtime.rs\<close>): placement and rebalancing of shards.

  \<^bold>\<open>Correspondence.\<close> A struct is a record and an enum a datatype. A method that takes \<open>&mut self\<close> returns the new state
  with its result. A \<open>Result\<close> is a sum with \<open>Err\<close> on the left, so every error path is a value. \<open>BTreeMap\<close> and
  \<open>HashMap\<close> are finite maps; where the source iterates over a hash container, the order is an argument of the definition.
  The wall clock, lease acquisitions and other outside answers are arguments too, and so is the allocator of the decoders
  that hand a count of the payload to \<open>Vec::with_capacity\<close>: a reservation it refuses is a panic or abort of the code and
  the outcome \<open>CapacityFailure\<close> of the model. Fixed-width integers are words;
  \<open>usize\<close> is a natural number, taken to be 64 bits wide where the source can overflow. In the sharding theories a panic
  is a value of the result type.

  \<^bold>\<open>What the lemmas show.\<close>
  \<^item> Replicated data: merges are semilattice joins on well-formed states, so replicas that received the same states
    agree whatever the order and repetition; the merge of OR-sets refines the join of dotted sets; deltas carry the same
    information as full states. \<open>OR_Map\<close> and \<open>Gossip_State\<close> prove where associativity fails, and \<open>OR_Set\<close> proves that
    a stale add delta brings a removed element back.
  \<^item> Replicator: a pruned replica stays out, pruning keeps the value of a counter and waits for the live replicas. Delta
    propagation is fair, hands out exactly the ranges a peer lacks and, on a channel that loses and reorders nothing, keeps a
    receiver in step; once a range is lost, it never catches up. Majority reads see majority writes.
  \<^item> Wire: readers accept exactly what writers produce, for every allocator that serves the vectors of the message; the
    delta readers terminate, and an allocator decides only whether they end in a refused reservation; the registry is type
    safe.
  \<^item> Remoting: system messages are delivered exactly once and in order over an unreliable network, and one retry round
    completes a delivery.
  \<^item> Cluster: a removed member never returns, leader actions run only on convergence and number members uniquely, and the
    two sides of a clean partition agree on the survivors.
  \<^item> Sharding: no coordinator operation panics, a shard changes its region only after it was released, remembered shards are never
    forgotten, home requests are served, and rounds of rebalancing end in a balanced allocation.

  \<^bold>\<open>Bounds and fuel.\<close> The two recursive delta readers of \<open>Crdt_Codec\<close> run with fuel one more than the number of
  unread bytes; a nested call comes after nine bytes, so a ninth of that is enough and they always return. \<open>calculate_majority\<close> adds with wrap-around, as
  a release build does. Runs of the delta channel stay below version \<open>2 ^ 64 - 2\<close>. Products of binary64 numbers are rounded
  to 53 bits without a limit on the exponent, which the conversion to \<open>usize\<close> cannot tell apart.

  \<^bold>\<open>Not modelled.\<close> The actor runtime (mailboxes, dispatchers, schedulers, supervision), TCP transports, associations and
  connectors, the cluster daemon with heartbeats and seed joining, the cluster tools, the region and shard runtimes and all actors of
  sharding, the actors and transports of distributed data, the configuration facade, macros, test kit, examples
  and benchmarks: these are threads, channels, sockets and timers around the state machines above, or code that only calls
  them. Memory is modelled only where a decoder reserves it by a count of the payload; the stack that recursion takes is not
  modelled, nor are the texts of most error messages.
\<close>

end
